(* ===== verification/Prelude.thy ===== *)
theory Prelude
  imports Complex_Main "HOL-Library.AList" "HOL-Library.Char_ord"
    "HOL-Library.List_Lexorder" "HOL-Library.Product_Lexorder" "HOL-Library.Multiset"
begin

text \<open>
  Shared vocabulary of the development: the parts of the Go language and of its standard
  library that the packages under \<^verbatim>\<open>src/internal\<close> use, with the lemmas about them that
  several components share.

  \<^item> A Go \<^verbatim>\<open>string\<close> is a list of bytes (\<^typ>\<open>string\<close>); comparison is bytewise lexicographic, which
    is the order of \<^theory_text>\<open>List_Lexorder\<close> over \<^theory_text>\<open>Char_ord\<close>. Case mapping and
    white space are those of ASCII text: bytes of other characters are left unchanged.
  \<^item> A Go \<^verbatim>\<open>map\<close> is an association list with distinct keys; a lookup is \<^const>\<open>map_of\<close>, an
    assignment is \<^const>\<open>AList.update\<close>. The order of the list stands for Go's unspecified
    iteration order; every operation that iterates sorts afterwards or is proved independent
    of it. A nil map or slice reads like an empty one, so both are the empty list.
  \<^item> A \<^verbatim>\<open>time.Time\<close> is the number of nanoseconds since Go's zero time, so \<^verbatim>\<open>IsZero\<close> is
    equality with 0; a \<^verbatim>\<open>time.Duration\<close> is a number of nanoseconds.
  \<^item> A \<^verbatim>\<open>float64\<close> that arrives from outside is a \<open>gofloat\<close>, which keeps NaN and the
    infinities; arithmetic on finite values is that of the reals.
\<close>

subsection \<open>Collections of facts\<close>

named_theorems wf_intros \<open>preservation of the well-formedness invariants\<close>
named_theorems frame_simps \<open>fields an operation leaves unchanged\<close>

subsection \<open>Characters and strings\<close>

definition byte :: "char \<Rightarrow> nat" where
  "byte c = of_char c"

definition lower_char :: "char \<Rightarrow> char" where
  "lower_char c = (if 65 \<le> byte c \<and> byte c \<le> 90 then char_of (byte c + 32) else c)"

definition upper_char :: "char \<Rightarrow> char" where
  "upper_char c = (if 97 \<le> byte c \<and> byte c \<le> 122 then char_of (byte c - 32) else c)"

definition to_lower :: "string \<Rightarrow> string" where
  "to_lower s = map lower_char s"

definition to_upper :: "string \<Rightarrow> string" where
  "to_upper s = map upper_char s"

definition is_space :: "char \<Rightarrow> bool" where
  "is_space c = (byte c = 32 \<or> (9 \<le> byte c \<and> byte c \<le> 13))"

definition trim_space :: "string \<Rightarrow> string" where
  "trim_space s = rev (dropWhile is_space (rev (dropWhile is_space s)))"

definition equal_fold :: "string \<Rightarrow> string \<Rightarrow> bool" where
  "equal_fold s t = (to_lower s = to_lower t)"

fun has_prefix :: "string \<Rightarrow> string \<Rightarrow> bool" where
  "has_prefix s [] = True"
| "has_prefix [] (p # ps) = False"
| "has_prefix (c # cs) (p # ps) = (c = p \<and> has_prefix cs ps)"

definition has_suffix :: "string \<Rightarrow> string \<Rightarrow> bool" where
  "has_suffix s t = has_prefix (rev s) (rev t)"

definition cut_prefix :: "string \<Rightarrow> string \<Rightarrow> string option" where
  "cut_prefix s p = (if has_prefix s p then Some (drop (length p) s) else None)"

lemma byte_char_of [simp]: "byte (char_of n) = n mod 256"
  by (simp add: byte_def)

lemma byte_lt [simp]: "byte c < 256"
  unfolding byte_def using of_char_mod_256 [of c, where ?'a = nat]
  by (metis mod_less_divisor zero_less_numeral)

lemma byte_inj: "byte c = byte d \<longleftrightarrow> c = d"
  by (simp add: byte_def)

lemma lower_char_idem [simp]: "lower_char (lower_char c) = lower_char c"
  by (auto simp: lower_char_def)

lemma upper_char_idem [simp]: "upper_char (upper_char c) = upper_char c"
  by (auto simp: upper_char_def)

lemma to_lower_idem [simp]: "to_lower (to_lower s) = to_lower s"
  by (simp add: to_lower_def)

lemma to_upper_idem [simp]: "to_upper (to_upper s) = to_upper s"
  by (simp add: to_upper_def)

lemma to_lower_Nil [simp]: "to_lower [] = []"
  by (simp add: to_lower_def)

lemma to_lower_append [simp]: "to_lower (s @ t) = to_lower s @ to_lower t"
  by (simp add: to_lower_def)

lemma to_lower_eq_Nil [simp]: "to_lower s = [] \<longleftrightarrow> s = []"
  by (simp add: to_lower_def)

lemma is_space_lower [simp]: "is_space (lower_char c) = is_space c"
  by (auto simp: is_space_def lower_char_def)

lemma is_space_upper [simp]: "is_space (upper_char c) = is_space c"
  by (auto simp: is_space_def upper_char_def)

lemma trim_space_Nil [simp]: "trim_space [] = []"
  by (simp add: trim_space_def)

lemma dropWhile_rev_dropWhile:
  "dropWhile P (rev (dropWhile P (rev (dropWhile P s)))) = rev (dropWhile P (rev (dropWhile P s)))"
proof (cases "dropWhile P s")
  case (Cons x xs)
  then have x: "\<not> P x" by (simp add: dropWhile_eq_Cons_conv)
  then have "dropWhile P (ys @ [x]) = dropWhile P ys @ [x]" for ys
    by (induction ys) auto
  with Cons x show ?thesis by simp
next
  case Nil
  then show ?thesis by (simp only: rev.simps dropWhile.simps)
qed

lemma trim_space_idem [simp]: "trim_space (trim_space s) = trim_space s"
  unfolding trim_space_def by (simp add: dropWhile_rev_dropWhile)

lemma dropWhile_map_lower: "dropWhile is_space (map lower_char s) = map lower_char (dropWhile is_space s)"
  by (induction s) auto

lemma dropWhile_map_upper: "dropWhile is_space (map upper_char s) = map upper_char (dropWhile is_space s)"
  by (induction s) auto

lemma trim_to_lower [simp]: "trim_space (to_lower s) = to_lower (trim_space s)"
  by (simp add: trim_space_def to_lower_def dropWhile_map_lower rev_map)

lemma trim_to_upper [simp]: "trim_space (to_upper s) = to_upper (trim_space s)"
  by (simp add: trim_space_def to_upper_def dropWhile_map_upper rev_map)

lemma has_prefix_append [simp]: "has_prefix (p @ s) p"
  by (induction p) auto

lemma has_prefix_iff: "has_prefix s p \<longleftrightarrow> (\<exists>r. s = p @ r)"
  by (induction s p rule: has_prefix.induct) auto

lemma cut_prefix_Some: "cut_prefix s p = Some r \<longleftrightarrow> s = p @ r"
  by (auto simp: cut_prefix_def has_prefix_iff)


subsection \<open>Formatting\<close>

definition digit :: "nat \<Rightarrow> char" where
  "digit n = char_of (48 + n)"

fun show_nat :: "nat \<Rightarrow> string" where
  "show_nat n = (if n < 10 then [digit n] else show_nat (n div 10) @ [digit (n mod 10)])"

declare show_nat.simps [simp del]

definition show_int :: "int \<Rightarrow> string" where
  "show_int i = (if i < 0 then CHR ''-'' # show_nat (nat (- i)) else show_nat (nat i))"

text \<open>\<^verbatim>\<open>strconv.Quote\<close> on ASCII text, as the verb \<^verbatim>\<open>%q\<close> renders a string.\<close>

definition hex_digit :: "nat \<Rightarrow> char" where
  "hex_digit n = (if n < 10 then char_of (48 + n) else char_of (87 + n))"

definition quote_char :: "char \<Rightarrow> string" where
  "quote_char c =
     (if byte c = 34 then [CHR 0x5C, CHR 0x22]
      else if byte c = 92 then [CHR 0x5C, CHR 0x5C]
      else if byte c = 7 then CHR 0x5C # ''a''
      else if byte c = 8 then CHR 0x5C # ''b''
      else if byte c = 12 then CHR 0x5C # ''f''
      else if byte c = 10 then CHR 0x5C # ''n''
      else if byte c = 13 then CHR 0x5C # ''r''
      else if byte c = 9 then CHR 0x5C # ''t''
      else if byte c = 11 then CHR 0x5C # ''v''
      else if byte c < 32 \<or> byte c = 127
        then CHR 0x5C # CHR ''x'' # [hex_digit (byte c div 16), hex_digit (byte c mod 16)]
      else [c])"

definition quote :: "string \<Rightarrow> string" where
  "quote s = CHR 0x22 # concat (map quote_char s) @ [CHR 0x22]"

fun join :: "string \<Rightarrow> string list \<Rightarrow> string" where
  "join sep [] = []"
| "join sep [x] = x"
| "join sep (x # y # xs) = x @ sep @ join sep (y # xs)"

lemma digit_inj: "m < 10 \<Longrightarrow> n < 10 \<Longrightarrow> digit m = digit n \<Longrightarrow> m = n"
  unfolding digit_def using byte_char_of [of "48 + m"] byte_char_of [of "48 + n"] by simp

lemma show_nat_nonempty [simp]: "show_nat n \<noteq> []"
  by (subst show_nat.simps) simp

subsection \<open>Time\<close>

type_synonym time = int
type_synonym duration = int

definition is_zero_time :: "time \<Rightarrow> bool" where
  "is_zero_time t = (t = 0)"

definition max_duration :: duration where
  "max_duration = 2 ^ 63 - 1"

definition min_duration :: duration where
  "min_duration = - (2 ^ 63)"

text \<open>\<^verbatim>\<open>t.Sub(u)\<close> saturates at the range of a signed 64-bit number of nanoseconds.\<close>

definition time_sub :: "time \<Rightarrow> time \<Rightarrow> duration" where
  "time_sub t u = max min_duration (min max_duration (t - u))"

definition second :: duration where
  "second = 1000000000"

definition minute :: duration where
  "minute = 60 * second"

definition hour :: duration where
  "hour = 60 * minute"

subsection \<open>Floating point values from outside\<close>

datatype gofloat = Num real | NaN | PosInf | NegInf

text \<open>The order of Go's floating point comparisons: every comparison with NaN is false.\<close>

instantiation gofloat :: ord
begin

fun less_gofloat :: "gofloat \<Rightarrow> gofloat \<Rightarrow> bool" where
  "less_gofloat (Num x) (Num y) = (x < y)"
| "less_gofloat NegInf (Num y) = True"
| "less_gofloat NegInf PosInf = True"
| "less_gofloat (Num x) PosInf = True"
| "less_gofloat _ _ = False"

fun less_eq_gofloat :: "gofloat \<Rightarrow> gofloat \<Rightarrow> bool" where
  "less_eq_gofloat (Num x) (Num y) = (x \<le> y)"
| "less_eq_gofloat NegInf NaN = False"
| "less_eq_gofloat NegInf _ = True"
| "less_eq_gofloat NaN PosInf = False"
| "less_eq_gofloat _ PosInf = True"
| "less_eq_gofloat _ _ = False"

instance ..

end

definition is_nan :: "gofloat \<Rightarrow> bool" where
  "is_nan x = (x = NaN)"

text \<open>\<^verbatim>\<open>math.Round\<close> rounds to the nearest integer, halves away from zero.\<close>

definition go_round :: "real \<Rightarrow> int" where
  "go_round x = (if 0 \<le> x then \<lfloor>x + 1 / 2\<rfloor> else - \<lfloor>- x + 1 / 2\<rfloor>)"

lemma go_round_mono: "0 \<le> x \<Longrightarrow> x \<le> y \<Longrightarrow> go_round x \<le> go_round y"
  unfolding go_round_def by (simp add: floor_mono)

lemma go_round_nonneg: "0 \<le> x \<Longrightarrow> 0 \<le> go_round x"
  unfolding go_round_def by simp

lemma go_round_le: "0 \<le> x \<Longrightarrow> x \<le> of_int n \<Longrightarrow> go_round x \<le> n"
  unfolding go_round_def by (simp add: floor_le_iff)

subsection \<open>Maps\<close>

lemma map_of_filter_key:
  "map_of (filter (\<lambda>(k, v). P k) m) k = (if P k then map_of m k else None)"
  by (induction m) auto

lemma map_of_filter_fst:
  "map_of (filter (\<lambda>kv. P (fst kv)) m) k = (if P k then map_of m k else None)"
  by (induction m) auto

lemma map_of_update [simp]: "map_of (AList.update k v m) = (map_of m)(k \<mapsto> v)"
  by (rule AList.update_conv')

lemma distinct_update [simp]: "distinct (map fst m) \<Longrightarrow> distinct (map fst (AList.update k v m))"
  by (rule AList.distinct_update)

lemma set_keys_update [simp]: "fst ` set (AList.update k v m) = insert k (fst ` set m)"
  by (simp add: AList.dom_update)

lemma map_of_None_keys: "map_of m k = None \<longleftrightarrow> k \<notin> fst ` set m"
  by (rule map_of_eq_None_iff)

lemma map_of_Some_keys: "map_of m k = Some v \<Longrightarrow> k \<in> fst ` set m"
  by (metis map_of_None_keys option.distinct(1))

lemma map_of_Some_iff:
  "distinct (map fst m) \<Longrightarrow> map_of m k = Some v \<longleftrightarrow> (k, v) \<in> set m"
  by (rule map_of_eq_Some_iff)

text \<open>A Go map used as a set of strings keeps one copy of each; its keys are then sorted.\<close>

definition sorted_keys :: "'a::linorder list \<Rightarrow> 'a list" where
  "sorted_keys xs = sort (remdups xs)"

lemma set_sorted_keys [simp]: "set (sorted_keys xs) = set xs"
  by (simp add: sorted_keys_def)

lemma distinct_sorted_keys [simp]: "distinct (sorted_keys xs)"
  by (simp add: sorted_keys_def)

lemma sorted_sorted_keys [simp]: "sorted (sorted_keys xs)"
  by (simp add: sorted_keys_def)

lemma sorted_keys_eq_Nil [simp]: "sorted_keys xs = [] \<longleftrightarrow> xs = []"
  by (metis set_empty set_sorted_keys)

lemma sorted_keys_cong: "set xs = set ys \<Longrightarrow> sorted_keys xs = sorted_keys ys"
  by (rule sorted_distinct_set_unique) simp_all

lemma length_sorted_keys: "length (sorted_keys xs) = card (set xs)"
  by (metis distinct_card distinct_sorted_keys set_sorted_keys)

subsection \<open>Lists\<close>

lemma sort_key_mset [simp]: "mset (sort_key f xs) = mset xs"
  by simp

lemma sum_list_mono_sublist:
  fixes f g :: "'a \<Rightarrow> real"
  assumes "distinct xs" and "distinct ys" and "set xs \<subseteq> set ys"
    and "\<And>x. x \<in> set xs \<Longrightarrow> f x \<le> g x" and "\<And>x. x \<in> set ys \<Longrightarrow> 0 \<le> g x"
  shows "sum_list (map f xs) \<le> sum_list (map g ys)"
proof -
  have "sum f (set xs) \<le> sum g (set xs)" by (rule sum_mono) (rule assms(4))
  also have "\<dots> \<le> sum g (set ys)"
    by (rule sum_mono2) (use assms in auto)
  finally show ?thesis using assms(1,2) by (simp add: sum_list_distinct_conv_sum_set)
qed

text \<open>A page of a listing: the elements at \<open>offset\<close> up to \<open>offset + limit\<close>.\<close>

definition page_of :: "'a list \<Rightarrow> int \<Rightarrow> int \<Rightarrow> 'a list" where
  "page_of xs limit offset =
     (let total = int (length xs) in
      if offset \<ge> total then []
      else let stop = (if offset + limit > total then total else offset + limit)
           in take (nat (stop - offset)) (drop (nat offset) xs))"

lemma page_of_eq: "0 \<le> limit \<Longrightarrow> 0 \<le> offset \<Longrightarrow> page_of xs limit offset = take (nat limit) (drop (nat offset) xs)"
  by (auto simp: page_of_def Let_def nat_diff_distrib nat_le_iff intro!: nth_equalityI)

lemma length_page_of: "0 \<le> limit \<Longrightarrow> 0 \<le> offset \<Longrightarrow> int (length (page_of xs limit offset)) \<le> limit"
  by (simp add: page_of_eq)

lemma set_page_of: "0 \<le> limit \<Longrightarrow> 0 \<le> offset \<Longrightarrow> set (page_of xs limit offset) \<subseteq> set xs"
  by (metis page_of_eq set_drop_subset set_take_subset subset_trans)

end
