(* ===== verification/Events.thy ===== *)
theory Events
  imports Prelude
begin

text \<open>
  The package \<^verbatim>\<open>src/internal/events\<close>: the normalized security event (\<^verbatim>\<open>event.go\<close>), the guard that
  strips control-plane label keys (\<^verbatim>\<open>guard.go\<close>), ingest normalization (\<^verbatim>\<open>normalize.go\<close>) and the
  flattening of schema violations into a bounded list (\<^verbatim>\<open>validator.go\<close>). The JSON Schema
  library and the JSON decoder are not under \<^verbatim>\<open>src/\<close>: their outcomes are arguments.
\<close>

subsection \<open>Severities and categories\<close>

text \<open>Both are Go string types: any string can occur, the constants are the known values.\<close>

type_synonym severity = string
type_synonym category = string

abbreviation SeverityInformational :: severity where "SeverityInformational \<equiv> ''informational''"
abbreviation SeverityLow :: severity where "SeverityLow \<equiv> ''low''"
abbreviation SeverityMedium :: severity where "SeverityMedium \<equiv> ''medium''"
abbreviation SeverityHigh :: severity where "SeverityHigh \<equiv> ''high''"
abbreviation SeverityCritical :: severity where "SeverityCritical \<equiv> ''critical''"

definition severity_rank_table :: "(severity \<times> int) list" where
  "severity_rank_table =
     [(SeverityInformational, 0), (SeverityLow, 1), (SeverityMedium, 2),
      (SeverityHigh, 3), (SeverityCritical, 4)]"

definition severity_rank :: "severity \<Rightarrow> int" where
  "severity_rank s = (case map_of severity_rank_table s of Some r \<Rightarrow> r | None \<Rightarrow> 0)"

definition severity_valid :: "severity \<Rightarrow> bool" where
  "severity_valid s = (case map_of severity_rank_table s of Some _ \<Rightarrow> True | None \<Rightarrow> False)"

definition severity_max :: "severity \<Rightarrow> severity \<Rightarrow> severity" where
  "severity_max s other = (if severity_rank other > severity_rank s then other else s)"

abbreviation CategoryAuthentication :: category where "CategoryAuthentication \<equiv> ''authentication''"
abbreviation CategorySessionAnomaly :: category where "CategorySessionAnomaly \<equiv> ''session_anomaly''"
abbreviation CategoryPrivilegeEscalation :: category where
  "CategoryPrivilegeEscalation \<equiv> ''privilege_escalation''"
abbreviation CategoryCredentialAccess :: category where
  "CategoryCredentialAccess \<equiv> ''credential_access''"
abbreviation CategoryCloudAccess :: category where "CategoryCloudAccess \<equiv> ''cloud_access''"
abbreviation CategoryDataAccess :: category where "CategoryDataAccess \<equiv> ''data_access''"
abbreviation CategoryProcessExecution :: category where
  "CategoryProcessExecution \<equiv> ''process_execution''"
abbreviation CategoryNetworkActivity :: category where
  "CategoryNetworkActivity \<equiv> ''network_activity''"
abbreviation CategoryConfigChange :: category where "CategoryConfigChange \<equiv> ''configuration_change''"

lemma severity_valid_iff:
  "severity_valid s \<longleftrightarrow>
     s \<in> {SeverityInformational, SeverityLow, SeverityMedium, SeverityHigh, SeverityCritical}"
  by (auto simp: severity_valid_def severity_rank_table_def)

lemma severity_rank_bounds: "0 \<le> severity_rank s \<and> severity_rank s \<le> 4"
  by (auto simp: severity_rank_def severity_rank_table_def)

lemma severity_max_rank:
  "severity_rank (severity_max s t) = max (severity_rank s) (severity_rank t)"
  by (simp add: severity_max_def)

subsection \<open>The security event\<close>

record actor =
  actor_type :: string
  actor_id :: string
  actor_name :: string
  actor_domain :: string
  actor_session_id :: string
  actor_privileged :: bool

record target =
  target_type :: string
  target_id :: string
  target_name :: string
  target_criticality :: string

record device =
  device_id :: string
  device_hostname :: string
  device_os :: string
  device_managed :: "bool option"
  device_compliant :: "bool option"

record network =
  source_ip :: string
  destination_ip :: string
  net_asn :: string
  net_country :: string
  first_seen_for_actor :: bool

record cloud =
  cloud_provider :: string
  cloud_account_id :: string
  cloud_region :: string
  cloud_resource_id :: string
  cloud_resource_type :: string

record raw_reference =
  raw_uri :: string
  raw_digest :: string
  raw_size_bytes :: int

record security_event =
  ev_id :: string
  ev_schema_version :: string
  ev_timestamp :: time
  ev_received_at :: time
  ev_source_type :: string
  ev_source_name :: string
  ev_event_type :: string
  ev_category :: category
  ev_severity :: severity
  ev_actor :: "actor option"
  ev_target :: "target option"
  ev_device :: "device option"
  ev_network :: "network option"
  ev_cloud :: "cloud option"
  ev_raw_reference :: "raw_reference option"
  ev_labels :: "(string \<times> string) list"
  ev_correlation_id :: string
  ev_quarantined :: "string list"

abbreviation event_schema_version :: string where "event_schema_version \<equiv> ''0.1''"

text \<open>An event with every field at Go's zero value, to build concrete events from.\<close>

definition zero_event :: security_event where
  "zero_event = \<lparr> ev_id = [], ev_schema_version = [], ev_timestamp = 0, ev_received_at = 0,
     ev_source_type = [], ev_source_name = [], ev_event_type = [], ev_category = [],
     ev_severity = [], ev_actor = None, ev_target = None, ev_device = None, ev_network = None,
     ev_cloud = None, ev_raw_reference = None, ev_labels = [], ev_correlation_id = [],
     ev_quarantined = [] \<rparr>"

definition actor_key :: "security_event \<Rightarrow> string" where
  "actor_key e =
     (case ev_actor e of
        None \<Rightarrow> []
      | Some a \<Rightarrow> if actor_id a = [] then [] else to_lower (actor_type a @ '':'' @ actor_id a))"

lemma actor_key_Nil: "actor_key e = [] \<longleftrightarrow> (\<forall>a. ev_actor e = Some a \<longrightarrow> actor_id a = [])"
  by (auto simp: actor_key_def split: option.splits)

subsection \<open>The control-plane label guard\<close>

definition reserved_label_keys :: "string list" where
  "reserved_label_keys =
     [''action'', ''actions'', ''approval'', ''approve'', ''autonomy'', ''cmd'', ''command'',
      ''exec'', ''execute'', ''instruction'', ''instructions'', ''mode'', ''override'',
      ''policy'', ''policy_decision'', ''policy_override'', ''prompt'', ''response_action'',
      ''role'', ''system'', ''tool'']"

definition reserved_label_prefixes :: "string list" where
  "reserved_label_prefixes = [''griefer.'', ''griefer_'']"

definition is_reserved_label_key :: "string \<Rightarrow> bool" where
  "is_reserved_label_key key =
     (let lower = to_lower key in
      if lower \<in> set reserved_label_keys then True
      else list_ex (\<lambda>p. has_prefix lower p) reserved_label_prefixes)"

text \<open>
  \<^verbatim>\<open>Sanitize\<close> returns the event it mutated in place and the keys it removed. Deleting during
  iteration removes exactly the reserved keys; the rest of the map is untouched.
\<close>

definition sanitize :: "security_event \<Rightarrow> security_event \<times> string list" where
  "sanitize ev =
     (if ev_labels ev = [] then (ev, [])
      else let quarantined = map fst (filter (\<lambda>kv. is_reserved_label_key (fst kv)) (ev_labels ev));
               kept = filter (\<lambda>kv. \<not> is_reserved_label_key (fst kv)) (ev_labels ev)
           in if quarantined = [] then (ev, [])
              else (ev\<lparr>ev_labels := kept, ev_quarantined := sort quarantined\<rparr>, sort quarantined))"

lemma sanitize_labels:
  "ev_labels (fst (sanitize ev)) =
     filter (\<lambda>kv. \<not> is_reserved_label_key (fst kv)) (ev_labels ev)"
  by (auto simp: sanitize_def Let_def filter_empty_conv)

lemma sanitize_no_reserved:
  "kv \<in> set (ev_labels (fst (sanitize ev))) \<Longrightarrow> \<not> is_reserved_label_key (fst kv)"
  by (simp add: sanitize_labels)

lemma sanitize_result_set:
  "set (snd (sanitize ev)) = {k \<in> fst ` set (ev_labels ev). is_reserved_label_key k}"
  by (auto simp: sanitize_def Let_def filter_empty_conv)

lemma sanitize_result_sorted: "sorted (snd (sanitize ev))"
  by (simp add: sanitize_def Let_def)

lemma sanitize_lookup:
  "map_of (ev_labels (fst (sanitize ev))) k =
     (if is_reserved_label_key k then None else map_of (ev_labels ev) k)"
  by (simp add: sanitize_labels map_of_filter_fst [of "\<lambda>k. \<not> is_reserved_label_key k"])

lemma sanitize_frame [frame_simps]:
  "ev_id (fst (sanitize ev)) = ev_id ev"
  "ev_timestamp (fst (sanitize ev)) = ev_timestamp ev"
  "ev_received_at (fst (sanitize ev)) = ev_received_at ev"
  "ev_schema_version (fst (sanitize ev)) = ev_schema_version ev"
  "ev_source_type (fst (sanitize ev)) = ev_source_type ev"
  "ev_source_name (fst (sanitize ev)) = ev_source_name ev"
  "ev_event_type (fst (sanitize ev)) = ev_event_type ev"
  "ev_category (fst (sanitize ev)) = ev_category ev"
  "ev_severity (fst (sanitize ev)) = ev_severity ev"
  "ev_actor (fst (sanitize ev)) = ev_actor ev"
  "ev_target (fst (sanitize ev)) = ev_target ev"
  "ev_device (fst (sanitize ev)) = ev_device ev"
  "ev_network (fst (sanitize ev)) = ev_network ev"
  "ev_cloud (fst (sanitize ev)) = ev_cloud ev"
  "ev_raw_reference (fst (sanitize ev)) = ev_raw_reference ev"
  "ev_correlation_id (fst (sanitize ev)) = ev_correlation_id ev"
  by (simp_all add: sanitize_def Let_def)

lemma sanitize_unreserved:
  assumes "\<forall>kv \<in> set (ev_labels ev). \<not> is_reserved_label_key (fst kv)"
  shows "sanitize ev = (ev, [])"
  using assms by (auto simp: sanitize_def Let_def filter_empty_conv)

lemma sanitize_idem: "sanitize (fst (sanitize ev)) = (fst (sanitize ev), [])"
  by (rule sanitize_unreserved) (simp add: sanitize_labels)


subsection \<open>Identifiers\<close>

text \<open>
  \<^verbatim>\<open>idgen.New\<close>: a type prefix, a dash and a UUIDv7 from a library. The library is the argument
  \<open>uuid\<close>, the sequence of values it hands out; the counter says how many were used.
\<close>

abbreviation PrefixEvent :: string where "PrefixEvent \<equiv> ''evt''"
abbreviation PrefixFinding :: string where "PrefixFinding \<equiv> ''fnd''"
abbreviation PrefixIncident :: string where "PrefixIncident \<equiv> ''inc''"
abbreviation PrefixAction :: string where "PrefixAction \<equiv> ''act''"
abbreviation PrefixAudit :: string where "PrefixAudit \<equiv> ''aud''"
abbreviation PrefixRequest :: string where "PrefixRequest \<equiv> ''req''"

definition new_id :: "(nat \<Rightarrow> string) \<Rightarrow> string \<Rightarrow> nat \<Rightarrow> string \<times> nat" where
  "new_id uuid pre n = (pre @ ''-'' @ uuid n, Suc n)"

lemma new_id_nonempty [simp]: "fst (new_id uuid pre n) \<noteq> []"
  by (simp add: new_id_def)

lemma new_id_counter [simp]: "snd (new_id uuid pre n) = Suc n"
  by (simp add: new_id_def)

lemma new_id_inj: "inj uuid \<Longrightarrow> fst (new_id uuid pre n) = fst (new_id uuid pre m) \<longleftrightarrow> n = m"
  by (simp add: new_id_def inj_eq)

subsection \<open>Normalization\<close>

definition max_clock_skew_ahead :: duration where
  "max_clock_skew_ahead = 5 * minute"

definition max_event_age :: duration where
  "max_event_age = 30 * 24 * hour"

text \<open>The three ways a timestamp is refused; all wrap \<^verbatim>\<open>ErrTimestampOutOfRange\<close>.\<close>

datatype timestamp_error = TimestampRequired | TooFarAhead | TooOld

fun timestamp_error_text :: "timestamp_error \<Rightarrow> string" where
  "timestamp_error_text TimestampRequired =
     ''event timestamp outside accepted ingest window: timestamp is required''"
| "timestamp_error_text TooFarAhead =
     ''event timestamp outside accepted ingest window: more than 5m0s in the future''"
| "timestamp_error_text TooOld =
     ''event timestamp outside accepted ingest window: older than 720h0m0s''"

definition normalize_actor :: "actor \<Rightarrow> actor" where
  "normalize_actor a = a\<lparr>actor_id := trim_space (actor_id a),
     actor_name := trim_space (actor_name a),
     actor_domain := to_lower (trim_space (actor_domain a)),
     actor_session_id := trim_space (actor_session_id a)\<rparr>"

definition normalize_target :: "target \<Rightarrow> target" where
  "normalize_target t = t\<lparr>target_id := trim_space (target_id t),
     target_name := trim_space (target_name t),
     target_criticality :=
       (if target_criticality t = [] then ''medium'' else target_criticality t)\<rparr>"

definition normalize_device :: "device \<Rightarrow> device" where
  "normalize_device d = d\<lparr>device_hostname := to_lower (trim_space (device_hostname d)),
     device_id := trim_space (device_id d)\<rparr>"

definition normalize_network :: "network \<Rightarrow> network" where
  "normalize_network n = n\<lparr>source_ip := trim_space (source_ip n),
     destination_ip := trim_space (destination_ip n),
     net_country := to_upper (trim_space (net_country n))\<rparr>"

definition check_timestamp :: "time \<Rightarrow> time \<Rightarrow> timestamp_error option" where
  "check_timestamp now ts =
     (if is_zero_time ts then Some TimestampRequired
      else if ts > now + max_clock_skew_ahead then Some TooFarAhead
      else if ts < now + (- max_event_age) then Some TooOld
      else None)"

text \<open>
  \<^verbatim>\<open>Normalize\<close>: \<open>now\<close> is the reading of the clock, \<open>n\<close> the identifiers used so far. The result
  is the event the code mutated and the new count.
\<close>

definition normalize ::
  "(nat \<Rightarrow> string) \<Rightarrow> time \<Rightarrow> nat \<Rightarrow> security_event \<Rightarrow> timestamp_error + security_event \<times> nat"
where
  "normalize uuid now n ev =
     (case check_timestamp now (ev_timestamp ev) of
        Some e \<Rightarrow> Inl e
      | None \<Rightarrow>
          let (eid, n') = (if ev_id ev = [] then new_id uuid PrefixEvent n else (ev_id ev, n));
              ev1 = ev\<lparr>ev_received_at := now, ev_id := eid,
                ev_schema_version :=
                  (if ev_schema_version ev = [] then event_schema_version else ev_schema_version ev),
                ev_source_name := trim_space (ev_source_name ev),
                ev_event_type := trim_space (ev_event_type ev),
                ev_correlation_id := trim_space (ev_correlation_id ev),
                ev_actor := map_option normalize_actor (ev_actor ev),
                ev_target := map_option normalize_target (ev_target ev),
                ev_device := map_option normalize_device (ev_device ev),
                ev_network := map_option normalize_network (ev_network ev)\<rparr>;
              ev2 = fst (sanitize ev1);
              ev3 = (if ev_correlation_id ev2 = [] then ev2\<lparr>ev_correlation_id := ev_id ev2\<rparr> else ev2)
          in Inr (ev3, n'))"

lemma normalize_actor_idem [simp]: "normalize_actor (normalize_actor a) = normalize_actor a"
  by (simp add: normalize_actor_def)

lemma normalize_target_idem [simp]: "normalize_target (normalize_target t) = normalize_target t"
  by (simp add: normalize_target_def)

lemma normalize_device_idem [simp]: "normalize_device (normalize_device d) = normalize_device d"
  by (simp add: normalize_device_def)

lemma normalize_network_idem [simp]: "normalize_network (normalize_network n) = normalize_network n"
  by (simp add: normalize_network_def)

lemma map_option_normalize_idem [simp]:
  "map_option normalize_actor (map_option normalize_actor a) = map_option normalize_actor a"
  "map_option normalize_target (map_option normalize_target t) = map_option normalize_target t"
  "map_option normalize_device (map_option normalize_device d) = map_option normalize_device d"
  "map_option normalize_network (map_option normalize_network w) = map_option normalize_network w"
  by (simp_all add: option.map_comp comp_def)

lemma check_timestamp_None:
  "check_timestamp now ts = None \<longleftrightarrow>
     ts \<noteq> 0 \<and> now - max_event_age \<le> ts \<and> ts \<le> now + max_clock_skew_ahead"
  by (auto simp: check_timestamp_def is_zero_time_def)

text \<open>Inversion of a successful normalization: what the returned event looks like.\<close>

lemma normalize_InrD:
  assumes "normalize uuid now n ev = Inr (e, m)"
  shows "check_timestamp now (ev_timestamp ev) = None"
    and "ev_timestamp e = ev_timestamp ev" and "ev_received_at e = now" and "ev_id e \<noteq> []"
    and "ev_id ev \<noteq> [] \<Longrightarrow> ev_id e = ev_id ev \<and> m = n"
    and "ev_correlation_id e \<noteq> []"
    and "ev_labels e = filter (\<lambda>kv. \<not> is_reserved_label_key (fst kv)) (ev_labels ev)"
    and "ev_category e = ev_category ev" and "ev_severity e = ev_severity ev"
    and "ev_actor e = map_option normalize_actor (ev_actor ev)"
    and "ev_target e = map_option normalize_target (ev_target ev)"
    and "ev_device e = map_option normalize_device (ev_device ev)"
    and "ev_network e = map_option normalize_network (ev_network ev)"
    and "ev_cloud e = ev_cloud ev"
    and "ev_source_name e = trim_space (ev_source_name ev)"
    and "ev_event_type e = trim_space (ev_event_type ev)"
  using assms
  by (auto simp: normalize_def Let_def frame_simps sanitize_labels new_id_def
      split: option.splits if_splits prod.splits)

lemma normalize_counter: "normalize uuid now n ev = Inr (e, m) \<Longrightarrow> n \<le> m"
  by (auto simp: normalize_def Let_def split: option.splits if_splits prod.splits
      dest!: arg_cong [where f = snd])

text \<open>The clean shape that normalization establishes, as a predicate on events.\<close>

definition event_normalized :: "time \<Rightarrow> security_event \<Rightarrow> bool" where
  "event_normalized now e \<longleftrightarrow>
     check_timestamp now (ev_timestamp e) = None \<and> ev_received_at e = now \<and> ev_id e \<noteq> [] \<and>
     ev_schema_version e \<noteq> [] \<and> ev_correlation_id e \<noteq> [] \<and>
     trim_space (ev_source_name e) = ev_source_name e \<and>
     trim_space (ev_event_type e) = ev_event_type e \<and>
     map_option normalize_actor (ev_actor e) = ev_actor e \<and>
     map_option normalize_target (ev_target e) = ev_target e \<and>
     map_option normalize_device (ev_device e) = ev_device e \<and>
     map_option normalize_network (ev_network e) = ev_network e \<and>
     list_all (\<lambda>kv. \<not> is_reserved_label_key (fst kv)) (ev_labels e)"

lemma normalize_establishes:
  "normalize uuid now n ev = Inr (e, m) \<Longrightarrow> event_normalized now e"
  unfolding event_normalized_def list_all_iff
  by (auto simp: normalize_def Let_def frame_simps sanitize_labels new_id_def
      split: option.splits if_splits prod.splits)

lemma normalize_correlation_trimmed:
  assumes "normalize uuid now n ev = Inr (e, m)" and "trim_space (ev_id e) = ev_id e"
  shows "trim_space (ev_correlation_id e) = ev_correlation_id e"
  using assms
  by (auto simp: normalize_def Let_def frame_simps new_id_def
      split: option.splits if_splits prod.splits)

lemma normalize_fixpoint:
  assumes "event_normalized now e" and "trim_space (ev_correlation_id e) = ev_correlation_id e"
  shows "normalize uuid now n e = Inr (e, n)"
proof -
  have now: "now = ev_received_at e" using assms by (simp add: event_normalized_def)
  have "sanitize e = (e, [])"
    by (rule sanitize_unreserved) (use assms in \<open>simp add: event_normalized_def list_all_iff\<close>)
  then show ?thesis
    using assms unfolding now by (simp add: normalize_def Let_def event_normalized_def)
qed

subsection \<open>Schema violations\<close>

text \<open>The error tree of the schema library: an instance location, a rendered message, causes.\<close>

datatype schema_error =
  SchemaError (err_location: "string list") (err_message: string) (err_causes: "schema_error list")

fun collect_causes :: "schema_error \<Rightarrow> (string \<times> string) list \<Rightarrow> (string \<times> string) list" where
  "collect_causes (SchemaError loc msg causes) into =
     (if causes = [] then
        let field = (if loc = [] then ''/'' else ''/'' @ join ''/'' loc)
        in (case map_of into field of Some _ \<Rightarrow> into | None \<Rightarrow> AList.update field msg into)
      else fold collect_causes causes into)"

definition max_field_errors :: nat where
  "max_field_errors = 20"

record validation_error =
  v_errors :: "(string \<times> string) list"
  v_truncated :: bool

definition to_validation_error :: "schema_error \<Rightarrow> validation_error" where
  "to_validation_error verr =
     (let fields = sort (collect_causes verr [])
      in if length fields > max_field_errors
         then \<lparr> v_errors = take max_field_errors fields, v_truncated = True \<rparr>
         else \<lparr> v_errors = fields, v_truncated = False \<rparr>)"

text \<open>What the schema library answers for a raw document.\<close>

datatype schema_outcome = NotJSON | SchemaValid | SchemaViolation schema_error | SchemaOtherError

definition single_field_error :: "string \<Rightarrow> validation_error" where
  "single_field_error msg = \<lparr> v_errors = [(''/'', msg)], v_truncated = False \<rparr>"

definition validate_event :: "('raw \<Rightarrow> schema_outcome) \<Rightarrow> 'raw \<Rightarrow> validation_error option" where
  "validate_event schema raw =
     (case schema raw of
        NotJSON \<Rightarrow> Some (single_field_error ''document is not valid JSON'')
      | SchemaViolation verr \<Rightarrow> Some (to_validation_error verr)
      | SchemaOtherError \<Rightarrow> Some (single_field_error ''document failed schema validation'')
      | SchemaValid \<Rightarrow> None)"

definition decode_event ::
  "('raw \<Rightarrow> schema_outcome) \<Rightarrow> ('raw \<Rightarrow> security_event option) \<Rightarrow> 'raw \<Rightarrow>
     validation_error + security_event"
where
  "decode_event schema unmarshal raw =
     (case validate_event schema raw of
        Some e \<Rightarrow> Inl e
      | None \<Rightarrow>
          (case unmarshal raw of
             None \<Rightarrow> Inl (single_field_error ''document could not be decoded into the event model'')
           | Some ev \<Rightarrow> Inr ev))"

lemma collect_causes_distinct:
  "distinct (map fst into) \<Longrightarrow> distinct (map fst (collect_causes e into))"
proof (induction e into rule: collect_causes.induct)
  case (1 loc msg causes into)
  have "distinct (map fst m) \<Longrightarrow> set cs \<subseteq> set causes \<Longrightarrow> causes \<noteq> [] \<Longrightarrow>
      distinct (map fst (fold collect_causes cs m))" for cs m
    using "1.IH" by (induction cs arbitrary: m) auto
  with "1.prems" show ?case by (auto simp: Let_def split: option.split)
qed

lemma sort_distinct_fst: "distinct (map fst m) \<Longrightarrow> distinct (map fst (sort m))"
  by (metis distinct_sort mset_map mset_sort distinct_map mset_eq_imp_distinct_iff)

lemma to_validation_error_distinct: "distinct (map fst (v_errors (to_validation_error e)))"
proof -
  have "distinct (map fst (sort (collect_causes e [])))"
    by (intro sort_distinct_fst collect_causes_distinct) simp
  then have "distinct (map fst (take max_field_errors (sort (collect_causes e []))))"
    by (metis distinct_take take_map)
  then show ?thesis
    using \<open>distinct (map fst (sort (collect_causes e [])))\<close>
    by (simp add: to_validation_error_def Let_def)
qed

lemma decode_event_Inr:
  "decode_event schema unmarshal raw = Inr ev \<longleftrightarrow>
     schema raw = SchemaValid \<and> unmarshal raw = Some ev"
  by (auto simp: decode_event_def validate_event_def split: schema_outcome.splits option.splits)


subsection \<open>Properties\<close>

text \<open>
  Whatever labels a producer sends, the sanitized event carries exactly the
  producer's labels whose key is not reserved, unchanged, and the reported list is the
  sorted list of the reserved keys that were present.
\<close>

theorem sanitize_strips_exactly_reserved:
  "map_of (ev_labels (fst (sanitize ev))) k =
     (if is_reserved_label_key k then None else map_of (ev_labels ev) k)
   \<and> set (snd (sanitize ev)) = {q \<in> fst ` set (ev_labels ev). is_reserved_label_key q}
   \<and> sorted (snd (sanitize ev))"
  by (simp add: sanitize_lookup sanitize_result_set sanitize_result_sorted)

text \<open>
  C39 (type): a normalized event was stamped with the receiver's clock, lies inside
  the ingest window, has an identifier and a correlation identifier, and carries no
  reserved label key.
\<close>

theorem normalize_canonical:
  assumes "normalize uuid now n ev = Inr (e, m)"
  shows "event_normalized now e
    \<and> now - max_event_age \<le> ev_timestamp e \<and> ev_timestamp e \<le> now + max_clock_skew_ahead"
  using normalize_establishes [OF assms] normalize_InrD(1,2) [OF assms]
  by (simp_all add: check_timestamp_None)

theorem normalize_canonical_witness:
  "\<exists>e. normalize (\<lambda>_. ''u'') hour 0 (zero_event\<lparr>ev_timestamp := hour, ev_id := ''e1'',
         ev_labels := [(''griefer.x'', ''1''), (''region'', ''eu''), (''Policy'', ''off'')]\<rparr>) = Inr (e, 0)
     \<and> event_normalized hour e \<and> ev_timestamp e \<le> hour + max_clock_skew_ahead"
proof -
  let ?ev = "zero_event\<lparr>ev_timestamp := hour, ev_id := ''e1'',
         ev_labels := [(''griefer.x'', ''1''), (''region'', ''eu''), (''Policy'', ''off'')]\<rparr>"
  let ?e = "zero_event\<lparr>ev_timestamp := hour, ev_received_at := hour, ev_id := ''e1'',
         ev_schema_version := ''0.1'', ev_correlation_id := ''e1'',
         ev_labels := [(''region'', ''eu'')], ev_quarantined := [''Policy'', ''griefer.x'']\<rparr>"
  have "normalize (\<lambda>_. ''u'') hour 0 ?ev = Inr (?e, 0)" by code_simp
  with normalize_canonical [OF this] show ?thesis by blast
qed

text \<open>
  Normalizing a normalized event again with the same clock reading returns
  it unchanged, when its identifier has no surrounding white space (the event schema's
  pattern for identifiers excludes white space).
\<close>

theorem normalize_idempotent:
  assumes "normalize uuid now n ev = Inr (e, m)" and "trim_space (ev_id e) = ev_id e"
  shows "normalize uuid now k e = Inr (e, k)"
  by (rule normalize_fixpoint)
    (rule normalize_establishes [OF assms(1)], rule normalize_correlation_trimmed [OF assms])

theorem normalize_idempotent_witness:
  "normalize (\<lambda>_. ''u'') hour 7 (zero_event\<lparr>ev_timestamp := hour, ev_received_at := hour,
      ev_id := ''e1'', ev_schema_version := ''0.1'', ev_correlation_id := ''e1'',
      ev_source_name := ''idp''\<rparr>) =
   Inr (zero_event\<lparr>ev_timestamp := hour, ev_received_at := hour,
      ev_id := ''e1'', ev_schema_version := ''0.1'', ev_correlation_id := ''e1'',
      ev_source_name := ''idp''\<rparr>, 7)"
  by (rule normalize_idempotent [of "\<lambda>_. ''u''" hour 0
        "zero_event\<lparr>ev_timestamp := hour, ev_id := ''e1'', ev_source_name := '' idp ''\<rparr>" _ 0]) code_simp+

text \<open>
  However many violations the schema library reports, the client
  sees at most twenty, each field once, in order; the report is marked truncated exactly when
  violations on more fields were found.
\<close>

theorem validation_report_bounded:
  "length (v_errors (to_validation_error e)) \<le> 20
   \<and> distinct (map fst (v_errors (to_validation_error e)))
   \<and> sorted (v_errors (to_validation_error e))
   \<and> (v_truncated (to_validation_error e) \<longleftrightarrow> length (collect_causes e []) > 20)"
proof -
  have "sorted (take 20 (sort (collect_causes e [])))" by (simp add: sorted_wrt_take)
  then show ?thesis using to_validation_error_distinct [of e]
    by (simp add: to_validation_error_def Let_def max_field_errors_def)
qed

end
