(* ===== verification/SecurityGraph.thy ===== *)
theory SecurityGraph
  imports Events
begin

text \<open>
  The Security Graph of \<^verbatim>\<open>src/internal/graph\<close>: entities (\<^verbatim>\<open>entity.go\<close>), the merge operations and
  lookups of \<^verbatim>\<open>graph.go\<close>, the asset inventory (\<^verbatim>\<open>inventory.go\<close>) and the projection of events
  (\<^verbatim>\<open>projector.go\<close>). The code's \<^verbatim>\<open>out\<close> and \<^verbatim>\<open>in\<close> maps share \<^verbatim>\<open>*Edge\<close> pointers; here they hold
  addresses into one store of edges, so an update through either map is seen by both.
  The blast-radius walk is in the theory \<open>BlastRadius\<close>.
\<close>

subsection \<open>Entity types, criticalities and identifiers\<close>

type_synonym entity_type = string
type_synonym criticality = string
type_synonym relation = string

abbreviation TypeIdentity :: entity_type where "TypeIdentity \<equiv> ''identity''"
abbreviation TypeAccount :: entity_type where "TypeAccount \<equiv> ''account''"
abbreviation TypeSession :: entity_type where "TypeSession \<equiv> ''session''"
abbreviation TypeEndpoint :: entity_type where "TypeEndpoint \<equiv> ''endpoint''"
abbreviation TypeIPAddress :: entity_type where "TypeIPAddress \<equiv> ''ip_address''"
abbreviation TypeApplication :: entity_type where "TypeApplication \<equiv> ''application''"
abbreviation TypeSecret :: entity_type where "TypeSecret \<equiv> ''secret''"
abbreviation TypeCloudResource :: entity_type where "TypeCloudResource \<equiv> ''cloud_resource''"
abbreviation TypeRepository :: entity_type where "TypeRepository \<equiv> ''repository''"
abbreviation TypeService :: entity_type where "TypeService \<equiv> ''service''"

definition known_entity_types :: "entity_type list" where
  "known_entity_types =
     [TypeIdentity, TypeAccount, TypeSession, TypeEndpoint, TypeIPAddress, TypeApplication,
      TypeSecret, TypeCloudResource, TypeRepository, TypeService]"

definition entity_type_valid :: "entity_type \<Rightarrow> bool" where
  "entity_type_valid t = (t \<in> set known_entity_types)"

abbreviation CriticalityLow :: criticality where "CriticalityLow \<equiv> ''low''"
abbreviation CriticalityMedium :: criticality where "CriticalityMedium \<equiv> ''medium''"
abbreviation CriticalityHigh :: criticality where "CriticalityHigh \<equiv> ''high''"
abbreviation CriticalityCritical :: criticality where "CriticalityCritical \<equiv> ''critical''"

definition criticality_weight_table :: "(criticality \<times> real) list" where
  "criticality_weight_table =
     [(CriticalityLow, 1), (CriticalityMedium, 3), (CriticalityHigh, 8), (CriticalityCritical, 20)]"

definition criticality_weight :: "criticality \<Rightarrow> real" where
  "criticality_weight c =
     (case map_of criticality_weight_table c of
        Some w \<Rightarrow> w
      | None \<Rightarrow> the (map_of criticality_weight_table CriticalityMedium))"

definition criticality_rank :: "criticality \<Rightarrow> int" where
  "criticality_rank c =
     (if c = CriticalityCritical then 3
      else if c = CriticalityHigh then 2
      else if c = CriticalityLow then 0
      else 1)"

definition entity_id :: "entity_type \<Rightarrow> string \<Rightarrow> string" where
  "entity_id t key = t @ '':'' @ to_lower (trim_space key)"

definition split_entity_id :: "string \<Rightarrow> (entity_type \<times> string) option" where
  "split_entity_id s =
     (let t = takeWhile (\<lambda>c. c \<noteq> CHR '':'') s; idx = length t
      in if idx = length s \<or> idx = 0 \<or> idx = length s - 1 then None
         else if \<not> entity_type_valid t then None
         else Some (t, drop (Suc idx) s))"

lemma criticality_weight_simps:
  "criticality_weight CriticalityLow = 1" "criticality_weight CriticalityMedium = 3"
  "criticality_weight CriticalityHigh = 8" "criticality_weight CriticalityCritical = 20"
  by (simp_all add: criticality_weight_def criticality_weight_table_def)

lemma criticality_weight_rank:
  "criticality_weight c =
     (if criticality_rank c = 3 then 20 else if criticality_rank c = 2 then 8
      else if criticality_rank c = 0 then 1 else 3)"
  by (simp add: criticality_weight_def criticality_weight_table_def criticality_rank_def)

lemma criticality_weight_pos: "0 < criticality_weight c"
  by (simp add: criticality_weight_rank)

lemma criticality_rank_bounds: "0 \<le> criticality_rank c \<and> criticality_rank c \<le> 3"
  by (simp add: criticality_rank_def)

lemma criticality_weight_mono:
  "criticality_rank c \<le> criticality_rank d \<Longrightarrow> criticality_weight c \<le> criticality_weight d"
  by (auto simp: criticality_weight_rank criticality_rank_def split: if_splits)

lemma criticality_rank_critical: "criticality_rank c = 3 \<longleftrightarrow> c = CriticalityCritical"
  by (simp add: criticality_rank_def)

lemma entity_type_no_colon: "entity_type_valid t \<Longrightarrow> CHR '':'' \<notin> set t \<and> t \<noteq> []"
  by (auto simp: entity_type_valid_def known_entity_types_def)

lemma takeWhile_entity_id:
  assumes "entity_type_valid t"
  shows "takeWhile (\<lambda>c. c \<noteq> CHR '':'') (entity_id t key) = t"
proof -
  have "\<forall>x \<in> set t. x \<noteq> CHR '':''" using entity_type_no_colon [OF assms] by blast
  then show ?thesis by (simp add: entity_id_def takeWhile_append)
qed

lemma split_entity_id_entity_id:
  assumes "entity_type_valid t" and "trim_space key \<noteq> []"
  shows "split_entity_id (entity_id t key) = Some (t, to_lower (trim_space key))"
  using assms entity_type_no_colon [OF assms(1)]
  by (simp add: split_entity_id_def Let_def takeWhile_entity_id) (simp add: entity_id_def)

lemma entity_id_nonempty [simp]: "entity_id t key \<noteq> []" "[] \<noteq> entity_id t key"
  by (simp_all add: entity_id_def)

lemma entity_id_inj:
  assumes "entity_type_valid t" "entity_type_valid u" "entity_id t k = entity_id u l"
  shows "t = u \<and> to_lower (trim_space k) = to_lower (trim_space l)"
  using assms takeWhile_entity_id [of t k] takeWhile_entity_id [of u l]
  by (simp add: entity_id_def)

subsection \<open>Entities, edges and the graph\<close>

record entity =
  ent_id :: string
  ent_type :: entity_type
  ent_key :: string
  ent_name :: string
  ent_criticality :: criticality
  ent_attributes :: "(string \<times> string) list"
  ent_first_seen :: time
  ent_last_seen :: time
  ent_observed :: bool

abbreviation RelAuthenticatedFrom :: relation where "RelAuthenticatedFrom \<equiv> ''authenticated_from''"
abbreviation RelOpenedSession :: relation where "RelOpenedSession \<equiv> ''opened_session''"
abbreviation RelUsedDevice :: relation where "RelUsedDevice \<equiv> ''used_device''"
abbreviation RelGrantedRoleOn :: relation where "RelGrantedRoleOn \<equiv> ''granted_role_on''"
abbreviation RelAccessed :: relation where "RelAccessed \<equiv> ''accessed''"
abbreviation RelAttemptedAccess :: relation where "RelAttemptedAccess \<equiv> ''attempted_access''"

record edge =
  edge_from :: string
  edge_to :: string
  edge_relation :: relation
  edge_first_seen :: time
  edge_last_seen :: time
  edge_event_ids :: "string list"

type_synonym edge_key = "string \<times> relation"
type_synonym adjacency = "(string \<times> (edge_key \<times> nat) list) list"

record sgraph =
  g_entities :: "(string \<times> entity) list"
  g_out :: adjacency
  g_in :: adjacency
  g_edges :: "edge list"

definition new_graph :: sgraph where
  "new_graph = \<lparr> g_entities = [], g_out = [], g_in = [], g_edges = [] \<rparr>"

definition bucket :: "adjacency \<Rightarrow> string \<Rightarrow> (edge_key \<times> nat) list" where
  "bucket m k = (case map_of m k of Some b \<Rightarrow> b | None \<Rightarrow> [])"

subsection \<open>Merging entities\<close>

definition merge_attributes ::
  "(string \<times> string) list \<Rightarrow> (string \<times> string) list \<Rightarrow> (string \<times> string) list" where
  "merge_attributes new old = fold (\<lambda>(k, v) m. AList.update k v m) new old"

definition merge_entity :: "entity \<Rightarrow> entity \<Rightarrow> entity" where
  "merge_entity existing e =
     existing\<lparr>
       ent_name := (if ent_name e \<noteq> [] then ent_name e else ent_name existing),
       ent_criticality :=
         (if criticality_rank (ent_criticality e) > criticality_rank (ent_criticality existing)
          then ent_criticality e else ent_criticality existing),
       ent_observed := (if ent_observed e then True else ent_observed existing),
       ent_attributes := merge_attributes (ent_attributes e) (ent_attributes existing),
       ent_first_seen :=
         (if \<not> is_zero_time (ent_first_seen e)
             \<and> (is_zero_time (ent_first_seen existing) \<or> ent_first_seen e < ent_first_seen existing)
          then ent_first_seen e else ent_first_seen existing),
       ent_last_seen :=
         (if ent_last_seen e > ent_last_seen existing then ent_last_seen e
          else ent_last_seen existing)\<rparr>"

definition upsert_entity :: "entity \<Rightarrow> sgraph \<Rightarrow> sgraph" where
  "upsert_entity e0 g =
     (let e1 = (if ent_id e0 = [] then e0\<lparr>ent_id := entity_id (ent_type e0) (ent_key e0)\<rparr> else e0);
          e = (if ent_criticality e1 = [] then e1\<lparr>ent_criticality := CriticalityMedium\<rparr> else e1)
      in case map_of (g_entities g) (ent_id e) of
           None \<Rightarrow> g\<lparr>g_entities := AList.update (ent_id e) e (g_entities g)\<rparr>
         | Some existing \<Rightarrow>
             g\<lparr>g_entities := AList.update (ent_id e) (merge_entity existing e) (g_entities g)\<rparr>)"

subsection \<open>Merging edges\<close>

definition max_edge_evidence :: nat where
  "max_edge_evidence = 50"

definition touch_edge :: "time \<Rightarrow> string \<Rightarrow> edge \<Rightarrow> edge" where
  "touch_edge now event_id e =
     (let e1 = (if now < edge_first_seen e \<or> is_zero_time (edge_first_seen e)
                then e\<lparr>edge_first_seen := now\<rparr> else e);
          e2 = (if now > edge_last_seen e1 then e1\<lparr>edge_last_seen := now\<rparr> else e1)
      in if event_id \<noteq> [] \<and> length (edge_event_ids e2) < max_edge_evidence
            \<and> event_id \<notin> set (edge_event_ids e2)
         then e2\<lparr>edge_event_ids := edge_event_ids e2 @ [event_id]\<rparr> else e2)"

definition upsert_edge ::
  "string \<Rightarrow> string \<Rightarrow> relation \<Rightarrow> time \<Rightarrow> string \<Rightarrow> sgraph \<Rightarrow> sgraph" where
  "upsert_edge from_id to_id rel now event_id g =
     (if from_id = [] \<or> to_id = [] \<or> from_id = to_id then g
      else
        let b = bucket (g_out g) from_id;
            (g', addr) =
              (case map_of b (to_id, rel) of
                 Some a \<Rightarrow> (g, a)
               | None \<Rightarrow>
                   let a = length (g_edges g);
                       e = \<lparr> edge_from = from_id, edge_to = to_id, edge_relation = rel,
                             edge_first_seen = now, edge_last_seen = now, edge_event_ids = [] \<rparr>;
                       inb = bucket (g_in g) to_id
                   in (g\<lparr>g_edges := g_edges g @ [e],
                         g_out := AList.update from_id (AList.update (to_id, rel) a b) (g_out g),
                         g_in := AList.update to_id (AList.update (from_id, rel) a inb) (g_in g)\<rparr>, a))
        in g'\<lparr>g_edges := (g_edges g')[addr := touch_edge now event_id (g_edges g' ! addr)]\<rparr>)"

subsection \<open>Lookups\<close>

definition get_entity :: "sgraph \<Rightarrow> string \<Rightarrow> entity option" where
  "get_entity g eid = map_of (g_entities g) eid"

definition sort_edges :: "edge list \<Rightarrow> edge list" where
  "sort_edges es = sort_key (\<lambda>e. (edge_from e, edge_to e, edge_relation e)) es"

definition neighbours :: "sgraph \<Rightarrow> string \<Rightarrow> edge list" where
  "neighbours g eid =
     sort_edges (map (\<lambda>ka. g_edges g ! snd ka) (bucket (g_out g) eid) @
                 map (\<lambda>ka. g_edges g ! snd ka) (bucket (g_in g) eid))"

definition all_entities :: "sgraph \<Rightarrow> entity list" where
  "all_entities g = sort_key ent_id (map snd (g_entities g))"

definition graph_size :: "sgraph \<Rightarrow> int \<times> int" where
  "graph_size g = (int (length (g_entities g)), sum_list (map (\<lambda>kb. int (length (snd kb))) (g_out g)))"

subsection \<open>The asset inventory\<close>

record inventory_entity =
  inv_type :: entity_type
  inv_key :: string
  inv_name :: string
  inv_criticality :: criticality
  inv_attributes :: "(string \<times> string) list"

record inventory_edge =
  inv_from :: string
  inv_to :: string
  inv_relation :: relation

record inventory =
  inv_entities :: "inventory_entity list"
  inv_edges :: "inventory_edge list"

datatype inventory_error =
  UnsupportedType int string
| KeyRequired int
| UnknownSource int string
| UnknownDestination int string
| RelationRequired int

text \<open>
  Each loop returns its error, if any, and the graph as it is then: entries before a bad one
  have already been merged. The entity loop also returns the identifiers it declared.
\<close>

fun load_inventory_entities ::
  "int \<Rightarrow> inventory_entity list \<Rightarrow> time \<Rightarrow> string list \<Rightarrow> sgraph \<Rightarrow>
     inventory_error option \<times> string list \<times> sgraph"
where
  "load_inventory_entities i [] now ids g = (None, ids, g)"
| "load_inventory_entities i (e # es) now ids g =
     (if \<not> entity_type_valid (inv_type e) then (Some (UnsupportedType i (inv_type e)), ids, g)
      else if inv_key e = [] then (Some (KeyRequired i), ids, g)
      else
        let eid = entity_id (inv_type e) (inv_key e);
            g' = upsert_entity \<lparr> ent_id = eid, ent_type = inv_type e, ent_key = inv_key e,
                   ent_name = inv_name e, ent_criticality = inv_criticality e,
                   ent_attributes = inv_attributes e, ent_first_seen = now, ent_last_seen = now,
                   ent_observed = False \<rparr> g
        in load_inventory_entities (i + 1) es now (eid # ids) g')"

fun load_inventory_edges ::
  "int \<Rightarrow> inventory_edge list \<Rightarrow> time \<Rightarrow> string list \<Rightarrow> sgraph \<Rightarrow> inventory_error option \<times> sgraph"
where
  "load_inventory_edges i [] now ids g = (None, g)"
| "load_inventory_edges i (e # es) now ids g =
     (if inv_from e \<notin> set ids then (Some (UnknownSource i (inv_from e)), g)
      else if inv_to e \<notin> set ids then (Some (UnknownDestination i (inv_to e)), g)
      else if inv_relation e = [] then (Some (RelationRequired i), g)
      else load_inventory_edges (i + 1) es now ids
             (upsert_edge (inv_from e) (inv_to e) (inv_relation e) now [] g))"

definition apply_inventory :: "inventory \<Rightarrow> time \<Rightarrow> sgraph \<Rightarrow> inventory_error option \<times> sgraph" where
  "apply_inventory invt now g =
     (case load_inventory_entities 0 (inv_entities invt) now [] g of
        (Some err, ids, g1) \<Rightarrow> (Some err, g1)
      | (None, ids, g1) \<Rightarrow> load_inventory_edges 0 (inv_edges invt) now ids g1)"

subsection \<open>Projecting an event\<close>

definition bool_string :: "bool \<Rightarrow> string" where
  "bool_string b = (if b then ''true'' else ''false'')"

definition outcome_denied :: "security_event \<Rightarrow> bool" where
  "outcome_denied ev =
     (case map_of (ev_labels ev) ''outcome'' of
        None \<Rightarrow> False
      | Some v \<Rightarrow> v = ''denied'' \<or> v = ''failure'' \<or> v = ''blocked'')"

definition relation_for_event :: "security_event \<Rightarrow> relation" where
  "relation_for_event ev =
     (if ev_category ev = CategoryPrivilegeEscalation then RelGrantedRoleOn
      else if ev_category ev \<in> {CategoryCredentialAccess, CategoryDataAccess, CategoryCloudAccess}
        then (if outcome_denied ev then RelAttemptedAccess else RelAccessed)
      else (if outcome_denied ev then RelAttemptedAccess else RelAccessed))"

definition criticality_for_actor :: "actor \<Rightarrow> criticality" where
  "criticality_for_actor a = (if actor_privileged a then CriticalityHigh else CriticalityMedium)"

definition opt_attr :: "string \<Rightarrow> string \<Rightarrow> (string \<times> string) list" where
  "opt_attr k v = (if v \<noteq> [] then [(k, v)] else [])"

definition actor_attributes :: "actor \<Rightarrow> (string \<times> string) list" where
  "actor_attributes a =
     (''privileged'', bool_string (actor_privileged a)) # opt_attr ''domain'' (actor_domain a)"

definition opt_bool_attr :: "string \<Rightarrow> bool option \<Rightarrow> (string \<times> string) list" where
  "opt_bool_attr k b = (case b of None \<Rightarrow> [] | Some v \<Rightarrow> [(k, bool_string v)])"

definition device_attributes :: "device \<Rightarrow> (string \<times> string) list" where
  "device_attributes d =
     opt_attr ''os'' (device_os d) @ opt_bool_attr ''managed'' (device_managed d)
       @ opt_bool_attr ''compliant'' (device_compliant d)"

definition cloud_attributes :: "cloud \<Rightarrow> (string \<times> string) list" where
  "cloud_attributes c =
     opt_attr ''provider'' (cloud_provider c) @ opt_attr ''region'' (cloud_region c)
       @ opt_attr ''resource_type'' (cloud_resource_type c)
       @ opt_attr ''account_id'' (cloud_account_id c)"

definition actor_entity_type :: "actor \<Rightarrow> entity_type" where
  "actor_entity_type a =
     (if actor_type a = ''account'' then TypeAccount
      else if actor_type a = ''service'' then TypeService
      else if actor_type a = ''application'' then TypeApplication
      else TypeIdentity)"

definition target_entity_type :: "target \<Rightarrow> entity_type" where
  "target_entity_type t = (if entity_type_valid (target_type t) then target_type t else TypeService)"

definition device_key :: "device \<Rightarrow> string" where
  "device_key d = (if device_id d = [] then device_hostname d else device_id d)"

text \<open>An entity the projection has just seen: first and last seen at the event's time.\<close>

definition observed_entity ::
  "entity_type \<Rightarrow> string \<Rightarrow> string \<Rightarrow> criticality \<Rightarrow> (string \<times> string) list \<Rightarrow> time \<Rightarrow> entity" where
  "observed_entity t key name crit attrs now =
     \<lparr> ent_id = entity_id t key, ent_type = t, ent_key = key, ent_name = name,
       ent_criticality = crit, ent_attributes = attrs, ent_first_seen = now,
       ent_last_seen = now, ent_observed = True \<rparr>"

definition event_actor_entity_id :: "security_event \<Rightarrow> string" where
  "event_actor_entity_id ev =
     (case ev_actor ev of
        Some a \<Rightarrow> if actor_id a \<noteq> [] then entity_id (actor_entity_type a) (actor_id a) else []
      | None \<Rightarrow> [])"

definition project_actor :: "security_event \<Rightarrow> sgraph \<Rightarrow> sgraph" where
  "project_actor ev g =
     (case ev_actor ev of
        Some a \<Rightarrow>
          if actor_id a \<noteq> [] then
            upsert_entity (observed_entity (actor_entity_type a) (actor_id a) (actor_name a)
              (criticality_for_actor a) (actor_attributes a) (ev_timestamp ev)) g
          else g
      | None \<Rightarrow> g)"

text \<open>Upsert an entity and link the actor to it, as every later step of the projection does.\<close>

definition project_link :: "security_event \<Rightarrow> entity \<Rightarrow> relation \<Rightarrow> sgraph \<Rightarrow> sgraph" where
  "project_link ev e rel g =
     upsert_edge (event_actor_entity_id ev) (ent_id e) rel (ev_timestamp ev) (ev_id ev)
       (upsert_entity e g)"

definition project_network :: "security_event \<Rightarrow> sgraph \<Rightarrow> sgraph" where
  "project_network ev g =
     (case ev_network ev of
        Some n \<Rightarrow>
          if source_ip n \<noteq> [] then
            project_link ev (observed_entity TypeIPAddress (source_ip n) (source_ip n) CriticalityLow
              (opt_attr ''country'' (net_country n) @ opt_attr ''asn'' (net_asn n))
              (ev_timestamp ev)) RelAuthenticatedFrom g
          else g
      | None \<Rightarrow> g)"

definition project_device :: "security_event \<Rightarrow> sgraph \<Rightarrow> sgraph" where
  "project_device ev g =
     (case ev_device ev of
        Some d \<Rightarrow>
          if device_id d \<noteq> [] \<or> device_hostname d \<noteq> [] then
            project_link ev (observed_entity TypeEndpoint (device_key d) (device_hostname d)
              CriticalityMedium (device_attributes d) (ev_timestamp ev)) RelUsedDevice g
          else g
      | None \<Rightarrow> g)"

definition project_session :: "security_event \<Rightarrow> sgraph \<Rightarrow> sgraph" where
  "project_session ev g =
     (case ev_actor ev of
        Some a \<Rightarrow>
          if actor_session_id a \<noteq> [] then
            project_link ev (observed_entity TypeSession (actor_session_id a) (actor_session_id a)
              CriticalityMedium [(''privileged'', bool_string (actor_privileged a))]
              (ev_timestamp ev)) RelOpenedSession g
          else g
      | None \<Rightarrow> g)"

definition project_target :: "security_event \<Rightarrow> sgraph \<Rightarrow> sgraph" where
  "project_target ev g =
     (case ev_target ev of
        Some t \<Rightarrow>
          if target_id t \<noteq> [] then
            project_link ev (observed_entity (target_entity_type t) (target_id t) (target_name t)
              (target_criticality t) [] (ev_timestamp ev)) (relation_for_event ev) g
          else g
      | None \<Rightarrow> g)"

definition project_cloud :: "security_event \<Rightarrow> sgraph \<Rightarrow> sgraph" where
  "project_cloud ev g =
     (case ev_cloud ev of
        Some c \<Rightarrow>
          if cloud_resource_id c \<noteq> [] then
            project_link ev (observed_entity TypeCloudResource (cloud_resource_id c)
              (cloud_resource_id c) [] (cloud_attributes c) (ev_timestamp ev))
              (relation_for_event ev) g
          else g
      | None \<Rightarrow> g)"

definition project :: "security_event \<Rightarrow> sgraph \<Rightarrow> sgraph" where
  "project ev g =
     project_cloud ev (project_target ev (project_session ev (project_device ev
       (project_network ev (project_actor ev g)))))"

definition add_unique :: "string list \<Rightarrow> string \<Rightarrow> string list" where
  "add_unique ids eid = (if eid = [] then ids else if eid \<in> set ids then ids else ids @ [eid])"

text \<open>The identifiers \<^verbatim>\<open>EntityIDsForEvent\<close> passes to its local \<^verbatim>\<open>add\<close>, in the order of the calls.\<close>

definition event_entity_candidates :: "security_event \<Rightarrow> string list" where
  "event_entity_candidates ev =
     (case ev_actor ev of
        Some a \<Rightarrow>
          if actor_id a \<noteq> [] then
            entity_id (actor_entity_type a) (actor_id a) #
            (if actor_session_id a \<noteq> [] then [entity_id TypeSession (actor_session_id a)] else [])
          else []
      | None \<Rightarrow> [])
     @ (case ev_network ev of
          Some n \<Rightarrow> if source_ip n \<noteq> [] then [entity_id TypeIPAddress (source_ip n)] else []
        | None \<Rightarrow> [])
     @ (case ev_device ev of
          Some d \<Rightarrow> if device_key d \<noteq> [] then [entity_id TypeEndpoint (device_key d)] else []
        | None \<Rightarrow> [])
     @ (case ev_target ev of
          Some t \<Rightarrow> if target_id t \<noteq> [] then [entity_id (target_entity_type t) (target_id t)] else []
        | None \<Rightarrow> [])
     @ (case ev_cloud ev of
          Some c \<Rightarrow> if cloud_resource_id c \<noteq> []
                    then [entity_id TypeCloudResource (cloud_resource_id c)] else []
        | None \<Rightarrow> [])"

definition entity_ids_for_event :: "security_event \<Rightarrow> string list" where
  "entity_ids_for_event ev = fold (\<lambda>eid ids. add_unique ids eid) (event_entity_candidates ev) []"

end
