(* ===== verification/GraphInvariants.thy ===== *)
theory GraphInvariants
  imports SecurityGraph
begin

text \<open>
  What the Security Graph keeps true. \<open>graph_wf\<close> ties the two adjacency maps of
  \<^verbatim>\<open>graph.go\<close> together: one is the transpose of the other and both point at the edge they
  name. \<open>graph_closed\<close> says that every edge joins known entities, and \<open>graph_le\<close> that one
  graph has grown out of another: no entity or edge is lost and no criticality is lowered;
  \<open>graph_keeps\<close>, at the end, that nothing recorded of them is.
  The locale \<open>graph_operation\<close> is the contract every mutating operation meets.
\<close>

definition out_addr :: "sgraph \<Rightarrow> string \<Rightarrow> string \<Rightarrow> relation \<Rightarrow> nat option" where
  "out_addr g f t r = map_of (bucket (g_out g) f) (t, r)"

definition in_addr :: "sgraph \<Rightarrow> string \<Rightarrow> string \<Rightarrow> relation \<Rightarrow> nat option" where
  "in_addr g t f r = map_of (bucket (g_in g) t) (f, r)"

definition edge_ok :: "edge \<Rightarrow> bool" where
  "edge_ok e \<longleftrightarrow> length (edge_event_ids e) \<le> max_edge_evidence \<and> distinct (edge_event_ids e)"

definition entities_wf :: "sgraph \<Rightarrow> bool" where
  "entities_wf g \<longleftrightarrow>
     distinct (map fst (g_entities g)) \<and>
     (\<forall>k e. get_entity g k = Some e \<longrightarrow> ent_id e = k \<and> ent_criticality e \<noteq> [])"

definition adjacency_wf :: "sgraph \<Rightarrow> bool" where
  "adjacency_wf g \<longleftrightarrow>
     (\<forall>f t r. out_addr g f t r = in_addr g t f r) \<and>
     (\<forall>f t r a. out_addr g f t r = Some a \<longrightarrow>
        a < length (g_edges g) \<and> edge_from (g_edges g ! a) = f \<and> edge_to (g_edges g ! a) = t \<and>
        edge_relation (g_edges g ! a) = r \<and> f \<noteq> t \<and> f \<noteq> [] \<and> t \<noteq> []) \<and>
     list_all edge_ok (g_edges g) \<and>
     distinct (map fst (g_out g)) \<and> distinct (map fst (g_in g)) \<and>
     (\<forall>k. distinct (map fst (bucket (g_out g) k))) \<and>
     (\<forall>k. distinct (map fst (bucket (g_in g) k)))"

definition graph_wf :: "sgraph \<Rightarrow> bool" where
  "graph_wf g \<longleftrightarrow> entities_wf g \<and> adjacency_wf g"

definition has_entity :: "sgraph \<Rightarrow> string \<Rightarrow> bool" where
  "has_entity g k \<longleftrightarrow> get_entity g k \<noteq> None"

definition graph_closed :: "sgraph \<Rightarrow> bool" where
  "graph_closed g \<longleftrightarrow> (\<forall>f t r a. out_addr g f t r = Some a \<longrightarrow> has_entity g f \<and> has_entity g t)"

definition graph_le :: "sgraph \<Rightarrow> sgraph \<Rightarrow> bool" where
  "graph_le g h \<longleftrightarrow>
     (\<forall>k e. get_entity g k = Some e \<longrightarrow>
        (\<exists>e'. get_entity h k = Some e' \<and>
              criticality_rank (ent_criticality e) \<le> criticality_rank (ent_criticality e'))) \<and>
     (\<forall>f t r. out_addr g f t r \<noteq> None \<longrightarrow> out_addr h f t r \<noteq> None) \<and>
     (\<forall>t f r. in_addr g t f r \<noteq> None \<longrightarrow> in_addr h t f r \<noteq> None)"

lemma adjacency_wf_addr:
  assumes "adjacency_wf g" and "out_addr g f t r = Some a"
  shows "a < length (g_edges g) \<and> edge_from (g_edges g ! a) = f \<and> edge_to (g_edges g ! a) = t \<and>
    edge_relation (g_edges g ! a) = r \<and> f \<noteq> t \<and> f \<noteq> [] \<and> t \<noteq> []"
  using assms unfolding adjacency_wf_def by blast

lemma graph_le_refl [simp]: "graph_le g g"
  by (auto simp: graph_le_def)

lemma graph_le_trans: "graph_le g h \<Longrightarrow> graph_le h k \<Longrightarrow> graph_le g k"
  unfolding graph_le_def by (meson order_trans)

lemma graph_le_entity: "graph_le g h \<Longrightarrow> has_entity g k \<Longrightarrow> has_entity h k"
  unfolding graph_le_def has_entity_def by (metis option.exhaust option.distinct(1))

text \<open>The contract of a mutating operation.\<close>

locale graph_operation =
  fixes op :: "sgraph \<Rightarrow> sgraph"
  assumes op_wf: "graph_wf g \<Longrightarrow> graph_wf (op g)"
    and op_grows: "graph_le g (op g)"
begin

lemma keeps_entity: "has_entity g k \<Longrightarrow> has_entity (op g) k"
  using graph_le_entity op_grows by blast

lemma grows_from: "graph_le g h \<Longrightarrow> graph_le g (op h)"
  using graph_le_trans op_grows by blast

end

subsection \<open>A new graph\<close>

lemma new_graph_wf [wf_intros]: "graph_wf new_graph"
  by (simp add: graph_wf_def entities_wf_def adjacency_wf_def new_graph_def out_addr_def
      in_addr_def bucket_def get_entity_def)

lemma new_graph_closed [wf_intros]: "graph_closed new_graph"
  by (simp add: graph_closed_def new_graph_def out_addr_def bucket_def)

subsection \<open>Entities\<close>

definition effective_entity :: "entity \<Rightarrow> entity" where
  "effective_entity e0 =
     (let e1 = (if ent_id e0 = [] then e0\<lparr>ent_id := entity_id (ent_type e0) (ent_key e0)\<rparr> else e0)
      in if ent_criticality e1 = [] then e1\<lparr>ent_criticality := CriticalityMedium\<rparr> else e1)"

lemma upsert_entity_eq:
  "upsert_entity e0 g =
     (let e = effective_entity e0 in
      g\<lparr>g_entities := AList.update (ent_id e)
          (case get_entity g (ent_id e) of None \<Rightarrow> e | Some x \<Rightarrow> merge_entity x e) (g_entities g)\<rparr>)"
  by (simp add: upsert_entity_def effective_entity_def get_entity_def Let_def split: option.split)

lemma effective_entity_criticality [simp]: "ent_criticality (effective_entity e) \<noteq> []"
  by (simp add: effective_entity_def Let_def)

lemma effective_entity_id [simp]: "ent_id e \<noteq> [] \<Longrightarrow> ent_id (effective_entity e) = ent_id e"
  by (simp add: effective_entity_def Let_def)

lemma merge_entity_id [simp]: "ent_id (merge_entity x e) = ent_id x"
  by (simp add: merge_entity_def)

lemma merge_entity_type [simp]: "ent_type (merge_entity x e) = ent_type x"
  by (simp add: merge_entity_def)

lemma merge_entity_rank:
  "criticality_rank (ent_criticality (merge_entity x e)) =
     max (criticality_rank (ent_criticality x)) (criticality_rank (ent_criticality e))"
  by (simp add: merge_entity_def)

lemma upsert_entity_addr [simp]:
  "out_addr (upsert_entity e g) = out_addr g" "in_addr (upsert_entity e g) = in_addr g"
  by (simp_all add: upsert_entity_eq Let_def out_addr_def in_addr_def fun_eq_iff)

lemma upsert_entity_fields [simp]:
  "g_out (upsert_entity e g) = g_out g" "g_in (upsert_entity e g) = g_in g"
  "g_edges (upsert_entity e g) = g_edges g"
  by (simp_all add: upsert_entity_eq Let_def)

lemma get_entity_upsert_entity:
  "get_entity (upsert_entity e0 g) k =
     (let e = effective_entity e0 in
      if k = ent_id e
      then Some (case get_entity g k of None \<Rightarrow> e | Some x \<Rightarrow> merge_entity x e)
      else get_entity g k)"
  by (simp add: upsert_entity_eq Let_def get_entity_def)

lemma upsert_entity_grows: "graph_le g (upsert_entity e g)"
  by (auto simp: graph_le_def get_entity_upsert_entity Let_def merge_entity_rank)

lemma upsert_entity_wf [wf_intros]:
  assumes "graph_wf g"
  shows "graph_wf (upsert_entity e g)"
proof -
  have "ent_id x = k \<and> ent_criticality x \<noteq> []" if "get_entity (upsert_entity e g) k = Some x" for k x
    using that assms
    by (auto simp: get_entity_upsert_entity Let_def graph_wf_def entities_wf_def merge_entity_def
        split: if_splits option.splits)
  moreover have "distinct (map fst (g_entities (upsert_entity e g)))"
    using assms by (simp add: upsert_entity_eq Let_def graph_wf_def entities_wf_def)
  moreover have "adjacency_wf (upsert_entity e g)"
    using assms by (simp add: adjacency_wf_def graph_wf_def)
  ultimately show ?thesis by (simp add: graph_wf_def entities_wf_def)
qed

lemma upsert_entity_closed [wf_intros]: "graph_closed g \<Longrightarrow> graph_closed (upsert_entity e g)"
  by (auto simp: graph_closed_def has_entity_def get_entity_upsert_entity Let_def)

interpretation upsert_entity_op: graph_operation "upsert_entity e" for e
  by unfold_locales (auto intro: upsert_entity_wf upsert_entity_grows)

subsection \<open>Edges\<close>

lemma touch_edge_frame [simp]:
  "edge_from (touch_edge now i e) = edge_from e" "edge_to (touch_edge now i e) = edge_to e"
  "edge_relation (touch_edge now i e) = edge_relation e"
  by (simp_all add: touch_edge_def Let_def)

lemma touch_edge_ok: "edge_ok e \<Longrightarrow> edge_ok (touch_edge now i e)"
  by (auto simp: touch_edge_def Let_def edge_ok_def)

definition edge_proper :: "string \<Rightarrow> string \<Rightarrow> bool" where
  "edge_proper f t \<longleftrightarrow> f \<noteq> [] \<and> t \<noteq> [] \<and> f \<noteq> t"

lemma bucket_update: "bucket (AList.update k b m) k' = (if k' = k then b else bucket m k')"
  by (simp add: bucket_def)

text \<open>The two ways \<^verbatim>\<open>UpsertEdge\<close> goes on a proper edge: a new one, or one already there.\<close>

lemma upsert_edge_old:
  assumes "edge_proper f t" and "out_addr g f t r = Some a"
  shows "upsert_edge f t r now i g = g\<lparr>g_edges := (g_edges g)[a := touch_edge now i (g_edges g ! a)]\<rparr>"
  using assms by (simp add: upsert_edge_def edge_proper_def out_addr_def Let_def)

definition fresh_edge :: "string \<Rightarrow> string \<Rightarrow> relation \<Rightarrow> time \<Rightarrow> edge" where
  "fresh_edge f t r now = \<lparr> edge_from = f, edge_to = t, edge_relation = r, edge_first_seen = now,
     edge_last_seen = now, edge_event_ids = [] \<rparr>"

lemma fresh_edge_simps [simp]:
  "edge_from (fresh_edge f t r now) = f" "edge_to (fresh_edge f t r now) = t"
  "edge_relation (fresh_edge f t r now) = r" "edge_ok (fresh_edge f t r now)"
  by (simp_all add: fresh_edge_def edge_ok_def)

lemma upsert_edge_new:
  assumes "edge_proper f t" and "out_addr g f t r = None"
  shows "upsert_edge f t r now i g = g\<lparr>
      g_edges := g_edges g @ [touch_edge now i (fresh_edge f t r now)],
      g_out := AList.update f (AList.update (t, r) (length (g_edges g)) (bucket (g_out g) f)) (g_out g),
      g_in := AList.update t (AList.update (f, r) (length (g_edges g)) (bucket (g_in g) t)) (g_in g)\<rparr>"
  using assms
  by (simp add: upsert_edge_def edge_proper_def out_addr_def Let_def fresh_edge_def)

lemma upsert_edge_improper: "\<not> edge_proper f t \<Longrightarrow> upsert_edge f t r now i g = g"
  by (auto simp: upsert_edge_def edge_proper_def)

lemma upsert_edge_entities [simp]: "g_entities (upsert_edge f t r now i g) = g_entities g"
  by (auto simp: upsert_edge_def Let_def split: option.split)

lemma get_entity_upsert_edge [simp]: "get_entity (upsert_edge f t r now i g) = get_entity g"
  by (simp add: get_entity_def fun_eq_iff)

lemma out_addr_upsert_edge:
  "out_addr (upsert_edge f t r now i g) f' t' r' =
     (if edge_proper f t \<and> out_addr g f t r = None \<and> (f', t', r') = (f, t, r)
      then Some (length (g_edges g)) else out_addr g f' t' r')"
proof (cases "edge_proper f t")
  case True
  show ?thesis
  proof (cases "out_addr g f t r")
    case None
    with True show ?thesis
      by (auto simp: upsert_edge_new out_addr_def bucket_update)
  next
    case (Some a)
    with True show ?thesis by (simp add: upsert_edge_old out_addr_def)
  qed
qed (simp add: upsert_edge_improper)

lemma in_addr_upsert_edge:
  "in_addr (upsert_edge f t r now i g) t' f' r' =
     (if edge_proper f t \<and> out_addr g f t r = None \<and> (f', t', r') = (f, t, r)
      then Some (length (g_edges g)) else in_addr g t' f' r')"
proof (cases "edge_proper f t")
  case True
  show ?thesis
  proof (cases "out_addr g f t r")
    case None
    with True show ?thesis
      by (auto simp: upsert_edge_new in_addr_def bucket_update)
  next
    case (Some a)
    with True show ?thesis by (simp add: upsert_edge_old in_addr_def)
  qed
qed (simp add: upsert_edge_improper)

lemma upsert_edge_grows: "graph_le g (upsert_edge f t r now i g)"
  by (auto simp: graph_le_def out_addr_upsert_edge in_addr_upsert_edge)

lemma entities_wf_upsert_edge [simp]: "entities_wf (upsert_edge f t r now i g) = entities_wf g"
  by (simp add: entities_wf_def)

lemma adjacency_wf_upsert_new:
  assumes wf: "adjacency_wf g" and pr: "edge_proper f t" and none: "out_addr g f t r = None"
  shows "adjacency_wf (upsert_edge f t r now i g)"
proof -
  let ?h = "upsert_edge f t r now i g"
  note new = upsert_edge_new [OF pr none, of now i]
  have es: "g_edges ?h = g_edges g @ [touch_edge now i (fresh_edge f t r now)]"
    by (simp add: new)
  have out: "g_out ?h = AList.update f (AList.update (t, r) (length (g_edges g)) (bucket (g_out g) f)) (g_out g)"
    by (simp add: new)
  have inn: "g_in ?h = AList.update t (AList.update (f, r) (length (g_edges g)) (bucket (g_in g) t)) (g_in g)"
    by (simp add: new)
  have "\<forall>f' t' r'. out_addr ?h f' t' r' = in_addr ?h t' f' r'"
    using wf by (simp add: out_addr_upsert_edge in_addr_upsert_edge adjacency_wf_def)
  moreover have "a < length (g_edges ?h) \<and> edge_from (g_edges ?h ! a) = f' \<and>
        edge_to (g_edges ?h ! a) = t' \<and> edge_relation (g_edges ?h ! a) = r' \<and>
        f' \<noteq> t' \<and> f' \<noteq> [] \<and> t' \<noteq> []"
    if "out_addr ?h f' t' r' = Some a" for f' t' r' a
  proof (cases "(f', t', r') = (f, t, r)")
    case True
    with that pr none show ?thesis
      by (auto simp: out_addr_upsert_edge es edge_proper_def)
  next
    case False
    with that have "out_addr g f' t' r' = Some a" by (auto simp: out_addr_upsert_edge)
    with adjacency_wf_addr [OF wf this] show ?thesis by (simp add: es nth_append less_Suc_eq)
  qed
  moreover have "list_all edge_ok (g_edges ?h)"
    using wf by (simp add: es adjacency_wf_def touch_edge_ok)
  ultimately show ?thesis
    using wf unfolding adjacency_wf_def by (simp add: out inn bucket_update)
qed

lemma adjacency_wf_upsert_old:
  assumes wf: "adjacency_wf g" and pr: "edge_proper f t" and some: "out_addr g f t r = Some a"
  shows "adjacency_wf (upsert_edge f t r now i g)"
proof -
  let ?h = "upsert_edge f t r now i g"
  note old = upsert_edge_old [OF pr some, of now i]
  have es: "g_edges ?h = (g_edges g)[a := touch_edge now i (g_edges g ! a)]" by (simp add: old)
  have maps: "g_out ?h = g_out g" "g_in ?h = g_in g" by (simp_all add: old)
  have addr: "out_addr ?h f' t' r' = out_addr g f' t' r'" "in_addr ?h f' t' r' = in_addr g f' t' r'"
    for f' t' r' by (simp_all add: out_addr_def in_addr_def maps)
  have "list_all edge_ok (g_edges ?h)"
    using wf some unfolding adjacency_wf_def es
    by (auto simp: list_all_length nth_list_update touch_edge_ok)
  moreover have "a' < length (g_edges ?h) \<and> edge_from (g_edges ?h ! a') = f' \<and>
        edge_to (g_edges ?h ! a') = t' \<and> edge_relation (g_edges ?h ! a') = r' \<and>
        f' \<noteq> t' \<and> f' \<noteq> [] \<and> t' \<noteq> []"
    if "out_addr g f' t' r' = Some a'" for f' t' r' a'
    using adjacency_wf_addr [OF wf that] adjacency_wf_addr [OF wf some]
    unfolding es by (cases "a' = a") simp_all
  ultimately show ?thesis
    using wf unfolding adjacency_wf_def by (simp add: addr maps)
qed

lemma upsert_edge_wf [wf_intros]:
  assumes "graph_wf g"
  shows "graph_wf (upsert_edge f t r now i g)"
  using assms adjacency_wf_upsert_new adjacency_wf_upsert_old
  by (cases "edge_proper f t"; cases "out_addr g f t r")
    (auto simp: graph_wf_def upsert_edge_improper)

lemma upsert_edge_closed [wf_intros]:
  assumes closed: "graph_closed g" and ends: "f = [] \<or> has_entity g f" "has_entity g t"
  shows "graph_closed (upsert_edge f t r now i g)"
proof -
  have "has_entity g f' \<and> has_entity g t'"
    if "out_addr (upsert_edge f t r now i g) f' t' r' = Some a" for f' t' r' a
    using that closed ends unfolding graph_closed_def out_addr_upsert_edge edge_proper_def
    by (auto split: if_splits)
  then show ?thesis unfolding graph_closed_def has_entity_def by simp
qed

interpretation upsert_edge_op: graph_operation "upsert_edge f t r now i" for f t r now i
  by unfold_locales (auto intro: upsert_edge_wf upsert_edge_grows)


subsection \<open>Projection and inventory\<close>

lemma has_entity_upsert [simp]: "ent_id e \<noteq> [] \<Longrightarrow> has_entity (upsert_entity e g) (ent_id e)"
  by (simp add: has_entity_def get_entity_upsert_entity Let_def)

lemma has_entity_upsert_edge [simp]: "has_entity (upsert_edge f t r now i g) k = has_entity g k"
  by (simp add: has_entity_def)

lemma observed_entity_id [simp]: "ent_id (observed_entity t key name crit attrs now) = entity_id t key"
  by (simp add: observed_entity_def)

text \<open>
  What holds between the steps of a projection: the graph invariants, and the actor of the
  event, when it has an identifier, is already an entity.
\<close>

definition projecting :: "security_event \<Rightarrow> sgraph \<Rightarrow> bool" where
  "projecting ev g \<longleftrightarrow> graph_wf g \<and> graph_closed g \<and>
     (event_actor_entity_id ev = [] \<or> has_entity g (event_actor_entity_id ev))"

lemma project_actor_grows: "graph_le g (project_actor ev g)"
  by (simp add: project_actor_def upsert_entity_grows split: option.split)

lemma project_actor_projecting:
  "graph_wf g \<Longrightarrow> graph_closed g \<Longrightarrow> projecting ev (project_actor ev g)"
  by (auto simp: projecting_def project_actor_def event_actor_entity_id_def wf_intros
      has_entity_def get_entity_upsert_entity Let_def split: option.split)

lemma project_link_grows: "graph_le g (project_link ev e rel g)"
  unfolding project_link_def
  by (intro upsert_edge_op.grows_from upsert_entity_grows)

lemma project_link_projecting:
  assumes "projecting ev g" and "ent_id e \<noteq> []"
  shows "projecting ev (project_link ev e rel g)"
proof -
  have "has_entity (upsert_entity e g) k" if "has_entity g k" for k
    using that by (rule upsert_entity_op.keeps_entity)
  with assms show ?thesis
    unfolding projecting_def project_link_def
    by (auto intro!: wf_intros)
qed

lemma has_entity_project_link:
  "ent_id e \<noteq> [] \<Longrightarrow> has_entity (project_link ev e rel g) (ent_id e)"
  by (simp add: project_link_def)

text \<open>Each step is the identity or one \<open>project_link\<close> of an entity with an identifier.\<close>

lemmas project_step_defs =
  project_network_def project_device_def project_session_def project_target_def project_cloud_def

lemma project_steps_grow:
  "graph_le g (project_network ev g)" "graph_le g (project_device ev g)"
  "graph_le g (project_session ev g)" "graph_le g (project_target ev g)"
  "graph_le g (project_cloud ev g)"
  by (simp_all add: project_step_defs project_link_grows split: option.split)

lemma project_steps_projecting:
  assumes "projecting ev g"
  shows "projecting ev (project_network ev g)" "projecting ev (project_device ev g)"
    "projecting ev (project_session ev g)" "projecting ev (project_target ev g)"
    "projecting ev (project_cloud ev g)"
  using assms by (auto simp: project_step_defs intro: project_link_projecting split: option.split)

lemma project_projecting:
  assumes "graph_wf g" and "graph_closed g"
  shows "projecting ev (project ev g)"
  unfolding project_def
  by (intro project_steps_projecting project_actor_projecting assms)

lemma project_grows: "graph_le g (project ev g)"
  unfolding project_def
  by (rule graph_le_trans [OF project_actor_grows], rule graph_le_trans [OF project_steps_grow(1)],
      rule graph_le_trans [OF project_steps_grow(2)], rule graph_le_trans [OF project_steps_grow(3)],
      rule graph_le_trans [OF project_steps_grow(4)]) (rule project_steps_grow(5))

lemma project_steps_wf:
  assumes "graph_wf g"
  shows "graph_wf (project_actor ev g)" "graph_wf (project_network ev g)"
    "graph_wf (project_device ev g)" "graph_wf (project_session ev g)"
    "graph_wf (project_target ev g)" "graph_wf (project_cloud ev g)"
  using assms
  by (auto simp: project_step_defs project_actor_def project_link_def wf_intros split: option.split)

lemma project_wf [wf_intros]: "graph_wf g \<Longrightarrow> graph_wf (project ev g)"
  unfolding project_def by (intro project_steps_wf)

interpretation project_op: graph_operation "project ev" for ev
  by unfold_locales (auto intro: project_wf project_grows)

lemma load_inventory_entities_ok:
  assumes "load_inventory_entities i es now ids g = (err, ids', g')"
    and "graph_wf g" and "graph_closed g" and "\<forall>k \<in> set ids. has_entity g k"
  shows "graph_wf g' \<and> graph_closed g' \<and> graph_le g g' \<and> (\<forall>k \<in> set ids'. has_entity g' k)"
  using assms
proof (induction i es now ids g arbitrary: ids' g' rule: load_inventory_entities.induct)
  case (1 i now ids g)
  then show ?case by auto
next
  case (2 i e es now ids g)
  show ?case
  proof (cases "entity_type_valid (inv_type e) \<and> inv_key e \<noteq> []")
    case False
    with "2.prems" show ?thesis by (auto split: if_splits)
  next
    case True
    let ?e = "\<lparr> ent_id = entity_id (inv_type e) (inv_key e), ent_type = inv_type e, ent_key = inv_key e,
                   ent_name = inv_name e, ent_criticality = inv_criticality e,
                   ent_attributes = inv_attributes e, ent_first_seen = now, ent_last_seen = now,
                   ent_observed = False \<rparr>"
    have "has_entity (upsert_entity ?e g) (ent_id ?e)" by (rule has_entity_upsert) simp
    moreover have "\<forall>k \<in> set ids. has_entity (upsert_entity ?e g) k"
      using "2.prems"(4) upsert_entity_op.keeps_entity by blast
    ultimately have "\<forall>k \<in> set (ent_id ?e # ids). has_entity (upsert_entity ?e g) k" by simp
    with "2.IH" [OF _ _ refl refl] "2.prems" True
    have "graph_wf g' \<and> graph_closed g' \<and> graph_le (upsert_entity ?e g) g' \<and> (\<forall>k \<in> set ids'. has_entity g' k)"
      by (simp add: wf_intros Let_def)
    then show ?thesis using graph_le_trans upsert_entity_grows by blast
  qed
qed

lemma load_inventory_edges_ok:
  assumes "load_inventory_edges i es now ids g = (err, g')"
    and "graph_wf g" and "graph_closed g" and "\<forall>k \<in> set ids. has_entity g k"
  shows "graph_wf g' \<and> graph_closed g' \<and> graph_le g g'"
  using assms
proof (induction i es now ids g arbitrary: g' rule: load_inventory_edges.induct)
  case (1 i now ids g)
  then show ?case by auto
next
  case (2 i e es now ids g)
  show ?case
  proof (cases "inv_from e \<in> set ids \<and> inv_to e \<in> set ids \<and> inv_relation e \<noteq> []")
    case False
    with "2.prems" show ?thesis by (auto split: if_splits)
  next
    case True
    let ?g = "upsert_edge (inv_from e) (inv_to e) (inv_relation e) now [] g"
    have "graph_wf g' \<and> graph_closed g' \<and> graph_le ?g g'"
      using "2.IH" [of g'] "2.prems" True by (simp add: wf_intros)
    then show ?thesis using graph_le_trans upsert_edge_grows by blast
  qed
qed

lemma fold_add_unique:
  "set (fold (\<lambda>eid ids. add_unique ids eid) ks ids) = set ids \<union> (set ks - {[]})"
  by (induction ks arbitrary: ids) (auto simp: add_unique_def)

lemma fold_add_unique_distinct:
  "distinct ids \<Longrightarrow> distinct (fold (\<lambda>eid ids. add_unique ids eid) ks ids)"
  by (induction ks arbitrary: ids) (auto simp: add_unique_def)

lemma event_entity_candidates_nonempty: "[] \<notin> set (event_entity_candidates ev)"
  by (auto simp: event_entity_candidates_def split: option.split)

lemma set_entity_ids: "set (entity_ids_for_event ev) = set (event_entity_candidates ev)"
  using event_entity_candidates_nonempty
  by (auto simp: entity_ids_for_event_def fold_add_unique)

lemma distinct_entity_ids: "distinct (entity_ids_for_event ev)"
  by (simp add: entity_ids_for_event_def fold_add_unique_distinct)

lemma in_optional:
  "k \<in> set (case x of Some a \<Rightarrow> if P a then [f a] else [] | None \<Rightarrow> []) \<longleftrightarrow>
     (\<exists>a. x = Some a \<and> P a \<and> k = f a)"
  by (cases x) auto

lemma in_optional_actor:
  "k \<in> set (case x of Some a \<Rightarrow> if P a then f a # (if Q a then [h a] else []) else [] | None \<Rightarrow> []) \<longleftrightarrow>
     (\<exists>a. x = Some a \<and> P a \<and> (k = f a \<or> Q a \<and> k = h a))"
  by (cases x) auto

lemma entity_ids_cases:
  assumes "k \<in> set (entity_ids_for_event ev)"
  shows "(\<exists>a. ev_actor ev = Some a \<and> actor_id a \<noteq> [] \<and> k = entity_id (actor_entity_type a) (actor_id a))
    \<or> (\<exists>a. ev_actor ev = Some a \<and> actor_session_id a \<noteq> [] \<and> k = entity_id TypeSession (actor_session_id a))
    \<or> (\<exists>n. ev_network ev = Some n \<and> source_ip n \<noteq> [] \<and> k = entity_id TypeIPAddress (source_ip n))
    \<or> (\<exists>d. ev_device ev = Some d \<and> device_key d \<noteq> [] \<and> k = entity_id TypeEndpoint (device_key d))
    \<or> (\<exists>t. ev_target ev = Some t \<and> target_id t \<noteq> [] \<and> k = entity_id (target_entity_type t) (target_id t))
    \<or> (\<exists>c. ev_cloud ev = Some c \<and> cloud_resource_id c \<noteq> [] \<and> k = entity_id TypeCloudResource (cloud_resource_id c))"
  using assms
  unfolding set_entity_ids event_entity_candidates_def set_append Un_iff in_optional in_optional_actor
  by blast

lemma project_steps_introduce:
  "ev_actor ev = Some a \<Longrightarrow> actor_id a \<noteq> [] \<Longrightarrow>
     has_entity (project_actor ev g) (entity_id (actor_entity_type a) (actor_id a))"
  "ev_network ev = Some n \<Longrightarrow> source_ip n \<noteq> [] \<Longrightarrow>
     has_entity (project_network ev g) (entity_id TypeIPAddress (source_ip n))"
  "ev_device ev = Some d \<Longrightarrow> device_key d \<noteq> [] \<Longrightarrow>
     has_entity (project_device ev g) (entity_id TypeEndpoint (device_key d))"
  "ev_actor ev = Some a \<Longrightarrow> actor_session_id a \<noteq> [] \<Longrightarrow>
     has_entity (project_session ev g) (entity_id TypeSession (actor_session_id a))"
  "ev_target ev = Some t \<Longrightarrow> target_id t \<noteq> [] \<Longrightarrow>
     has_entity (project_target ev g) (entity_id (target_entity_type t) (target_id t))"
  "ev_cloud ev = Some c \<Longrightarrow> cloud_resource_id c \<noteq> [] \<Longrightarrow>
     has_entity (project_cloud ev g) (entity_id TypeCloudResource (cloud_resource_id c))"
  by (auto simp: project_actor_def project_step_defs project_link_def device_key_def
      has_entity_def get_entity_upsert_entity Let_def split: if_splits)

lemma entity_ids_has_entity:
  assumes "k \<in> set (entity_ids_for_event ev)"
  shows "has_entity (project ev g) k"
proof -
  note kept = graph_le_entity [OF project_steps_grow(1)] graph_le_entity [OF project_steps_grow(2)]
    graph_le_entity [OF project_steps_grow(3)] graph_le_entity [OF project_steps_grow(4)]
    graph_le_entity [OF project_steps_grow(5)]
  show ?thesis
    using entity_ids_cases [OF assms] unfolding project_def
    by (elim disjE exE conjE) (simp_all, (blast intro: kept project_steps_introduce)+)
qed

subsection \<open>Nothing that was known is lost\<close>

text \<open>
  \<open>graph_le\<close> is what the blast radius needs of a larger graph. \<open>graph_keeps\<close> says more: every entity is
  still there as the same entity, at least as critical, observed if it was, with every attribute it
  had and a name if it had one (the newer value of an attribute and the newer name win), and seen no
  shorter than before. Every edge is still there with the same ends, with all of its evidence in its
  place, and seen no shorter than before. A first sighting that was never set can be set at any time.
\<close>

definition first_kept :: "time \<Rightarrow> time \<Rightarrow> bool" where
  "first_kept old new \<longleftrightarrow> is_zero_time old \<or> \<not> is_zero_time new \<and> new \<le> old"

definition entity_kept :: "entity \<Rightarrow> entity \<Rightarrow> bool" where
  "entity_kept e e' \<longleftrightarrow>
     ent_id e' = ent_id e \<and> ent_type e' = ent_type e \<and> ent_key e' = ent_key e \<and>
     criticality_rank (ent_criticality e) \<le> criticality_rank (ent_criticality e') \<and>
     (ent_name e \<noteq> [] \<longrightarrow> ent_name e' \<noteq> []) \<and> (ent_observed e \<longrightarrow> ent_observed e') \<and>
     fst ` set (ent_attributes e) \<subseteq> fst ` set (ent_attributes e') \<and>
     first_kept (ent_first_seen e) (ent_first_seen e') \<and> ent_last_seen e \<le> ent_last_seen e'"

definition edge_kept :: "edge \<Rightarrow> edge \<Rightarrow> bool" where
  "edge_kept e e' \<longleftrightarrow>
     edge_from e' = edge_from e \<and> edge_to e' = edge_to e \<and> edge_relation e' = edge_relation e \<and>
     (\<exists>more. edge_event_ids e' = edge_event_ids e @ more) \<and>
     first_kept (edge_first_seen e) (edge_first_seen e') \<and> edge_last_seen e \<le> edge_last_seen e'"

definition graph_keeps :: "sgraph \<Rightarrow> sgraph \<Rightarrow> bool" where
  "graph_keeps g h \<longleftrightarrow>
     (\<forall>k e. get_entity g k = Some e \<longrightarrow> (\<exists>e'. get_entity h k = Some e' \<and> entity_kept e e')) \<and>
     (\<forall>f t r a. out_addr g f t r = Some a \<longrightarrow>
        (\<exists>a'. out_addr h f t r = Some a' \<and> edge_kept (g_edges g ! a) (g_edges h ! a')))"

lemma first_kept_refl [simp]: "first_kept t t"
  by (auto simp: first_kept_def)

lemma first_kept_trans: "first_kept a b \<Longrightarrow> first_kept b c \<Longrightarrow> first_kept a c"
  by (auto simp: first_kept_def)

lemma entity_kept_refl [simp]: "entity_kept e e"
  by (simp add: entity_kept_def)

lemma entity_kept_trans:
  assumes "entity_kept a b" and "entity_kept b c"
  shows "entity_kept a c"
proof -
  note kept = assms [unfolded entity_kept_def]
  have "fst ` set (ent_attributes a) \<subseteq> fst ` set (ent_attributes c)" using kept by (meson subset_trans)
  moreover have "first_kept (ent_first_seen a) (ent_first_seen c)" using kept first_kept_trans by blast
  ultimately show ?thesis unfolding entity_kept_def using kept by simp
qed

lemma edge_kept_refl [simp]: "edge_kept e e"
  by (simp add: edge_kept_def)

lemma edge_kept_trans: "edge_kept a b \<Longrightarrow> edge_kept b c \<Longrightarrow> edge_kept a c"
  unfolding edge_kept_def using first_kept_trans by fastforce

lemma graph_keeps_refl [simp]: "graph_keeps g g"
  unfolding graph_keeps_def by simp

lemma graph_keeps_trans:
  assumes "graph_keeps g h" and "graph_keeps h k"
  shows "graph_keeps g k"
  unfolding graph_keeps_def
proof (intro conjI allI impI)
  fix i e assume "get_entity g i = Some e"
  then obtain e1 where e1: "get_entity h i = Some e1" "entity_kept e e1" using assms(1) unfolding graph_keeps_def by blast
  then obtain e2 where "get_entity k i = Some e2" "entity_kept e1 e2" using assms(2) unfolding graph_keeps_def by blast
  then show "\<exists>e2. get_entity k i = Some e2 \<and> entity_kept e e2" using entity_kept_trans [OF e1(2)] by blast
next
  fix f t r a assume "out_addr g f t r = Some a"
  then obtain b where b: "out_addr h f t r = Some b" "edge_kept (g_edges g ! a) (g_edges h ! b)"
    using assms(1) unfolding graph_keeps_def by blast
  then obtain c where "out_addr k f t r = Some c" "edge_kept (g_edges h ! b) (g_edges k ! c)"
    using assms(2) unfolding graph_keeps_def by blast
  then show "\<exists>c. out_addr k f t r = Some c \<and> edge_kept (g_edges g ! a) (g_edges k ! c)"
    using edge_kept_trans [OF b(2)] by blast
qed

lemma merge_attributes_keys: "fst ` set (merge_attributes new old) = fst ` set new \<union> fst ` set old"
  by (induction new arbitrary: old) (auto simp: merge_attributes_def dom_update split: prod.splits)

lemma merge_entity_kept: "entity_kept x (merge_entity x e)"
  unfolding entity_kept_def merge_entity_rank
  by (auto simp: merge_entity_def merge_attributes_keys first_kept_def)

lemma upsert_entity_keeps: "graph_keeps g (upsert_entity e g)"
  by (auto simp: graph_keeps_def get_entity_upsert_entity Let_def merge_entity_kept)

lemma touch_edge_kept: "\<not> is_zero_time now \<Longrightarrow> edge_kept e (touch_edge now i e)"
  by (auto simp: edge_kept_def touch_edge_def Let_def first_kept_def)

lemma upsert_edge_keeps:
  assumes wf: "graph_wf g" and now: "\<not> is_zero_time now"
  shows "graph_keeps g (upsert_edge f t r now i g)"
proof (cases "edge_proper f t")
  case proper: True
  have wf': "adjacency_wf g" using wf by (simp add: graph_wf_def)
  have "\<exists>a'. out_addr (upsert_edge f t r now i g) f' t' r' = Some a' \<and>
      edge_kept (g_edges g ! a) (g_edges (upsert_edge f t r now i g) ! a')"
    if a: "out_addr g f' t' r' = Some a" for f' t' r' a
  proof -
    have bound: "a < length (g_edges g)" using adjacency_wf_addr [OF wf' a] by blast
    have addr: "out_addr (upsert_edge f t r now i g) f' t' r' = Some a"
      using a by (auto simp: out_addr_upsert_edge)
    have "edge_kept (g_edges g ! a) (g_edges (upsert_edge f t r now i g) ! a)"
    proof (cases "out_addr g f t r")
      case None
      then show ?thesis using bound by (simp add: upsert_edge_new [OF proper] nth_append)
    next
      case (Some b)
      then show ?thesis
        using bound touch_edge_kept [OF now] by (cases "b = a") (simp_all add: upsert_edge_old [OF proper])
    qed
    with addr show ?thesis by blast
  qed
  then show ?thesis unfolding graph_keeps_def by simp
qed (simp add: upsert_edge_improper)

text \<open>A step that keeps the graph well-formed and everything in it.\<close>

definition keeps_all :: "sgraph \<Rightarrow> sgraph \<Rightarrow> bool" where
  "keeps_all g h \<longleftrightarrow> (graph_wf g \<longrightarrow> graph_wf h \<and> graph_keeps g h)"

lemma keeps_all_refl [simp]: "keeps_all g g"
  by (simp add: keeps_all_def)

lemma keeps_all_trans: "keeps_all g h \<Longrightarrow> keeps_all h k \<Longrightarrow> keeps_all g k"
  unfolding keeps_all_def using graph_keeps_trans by blast

lemma keeps_all_upsert_entity: "keeps_all g (upsert_entity e g)"
  by (simp add: keeps_all_def upsert_entity_keeps upsert_entity_wf)

lemma keeps_all_project_link:
  assumes "\<not> is_zero_time (ev_timestamp ev)"
  shows "keeps_all g (project_link ev e rel g)"
proof -
  have "keeps_all h (upsert_edge f t r (ev_timestamp ev) i h)" for h f t r i
    by (simp add: keeps_all_def upsert_edge_keeps [OF _ assms] upsert_edge_wf)
  then show ?thesis unfolding project_link_def using keeps_all_upsert_entity keeps_all_trans by blast
qed

lemma project_keeps:
  assumes "\<not> is_zero_time (ev_timestamp ev)"
  shows "keeps_all g (project ev g)"
proof -
  note link = keeps_all_project_link [OF assms]
  have "keeps_all g (project_actor ev g)" "keeps_all g (project_network ev g)" "keeps_all g (project_device ev g)"
    "keeps_all g (project_session ev g)" "keeps_all g (project_target ev g)" "keeps_all g (project_cloud ev g)" for g
    by (simp_all add: project_actor_def project_step_defs link keeps_all_upsert_entity split: option.split)
  then show ?thesis unfolding project_def using keeps_all_trans by meson
qed

end
