(* ===== verification/BlastRadius.thy ===== *)
theory BlastRadius
  imports GraphInvariants
begin

text \<open>
  The blast-radius estimate of \<^verbatim>\<open>src/internal/graph/graph.go\<close>: a bounded breadth-first walk from
  the incident's entities over edges in both directions, and the score it yields. The walk is
  the code's queue loop; it is proved to compute exactly the shortest distances up to the
  hop bound, and its totals are proved to grow with the graph and with the seeds.
\<close>

definition default_max_hops :: nat where
  "default_max_hops = 3"

subsection \<open>Neighbour steps\<close>

datatype neighbour_step = Step (step_id: string) (step_relation: relation)

text \<open>The comparison \<^verbatim>\<open>neighbourStepsLocked\<close> sorts by: the peer first, then the relation.\<close>

definition step_before :: "neighbour_step \<Rightarrow> neighbour_step \<Rightarrow> bool" where
  "step_before a b \<longleftrightarrow>
     (if step_id a \<noteq> step_id b then step_id a < step_id b
      else step_relation a < step_relation b)"

instantiation neighbour_step :: linorder
begin

definition less_eq_neighbour_step :: "neighbour_step \<Rightarrow> neighbour_step \<Rightarrow> bool" where
  "a \<le> b \<longleftrightarrow> (if step_id a \<noteq> step_id b then step_id a < step_id b
               else step_relation a \<le> step_relation b)"

definition less_neighbour_step :: "neighbour_step \<Rightarrow> neighbour_step \<Rightarrow> bool" where
  "a < b \<longleftrightarrow> step_before a b"

instance
proof
  fix x y z :: neighbour_step
  show "x < y \<longleftrightarrow> x \<le> y \<and> \<not> y \<le> x"
    by (auto simp: less_neighbour_step_def step_before_def less_eq_neighbour_step_def)
  show "x \<le> x" by (simp add: less_eq_neighbour_step_def)
  show "x \<le> y \<Longrightarrow> y \<le> z \<Longrightarrow> x \<le> z"
    by (auto simp: less_eq_neighbour_step_def split: if_splits)
  show "x \<le> y \<Longrightarrow> y \<le> x \<Longrightarrow> x = y"
    by (cases x; cases y) (auto simp: less_eq_neighbour_step_def split: if_splits)
  show "x \<le> y \<or> y \<le> x" by (auto simp: less_eq_neighbour_step_def)
qed

end

definition neighbour_steps :: "sgraph \<Rightarrow> string \<Rightarrow> neighbour_step list" where
  "neighbour_steps g eid =
     sort (map (\<lambda>ka. Step (fst (fst ka)) (snd (fst ka))) (bucket (g_out g) eid) @
           map (\<lambda>ka. Step (fst (fst ka)) (snd (fst ka))) (bucket (g_in g) eid))"

subsection \<open>The walk\<close>

record queued =
  q_id :: string
  q_hops :: nat
  q_via :: relation
  q_from :: string

record reachable_entity =
  re_id :: string
  re_type :: entity_type
  re_name :: string
  re_criticality :: criticality
  re_hops :: nat
  re_via :: relation
  re_from :: string

record blast_radius =
  br_score :: int
  br_max_hops :: nat
  br_critical_assets :: nat
  br_summary :: string
  br_reachable :: "reachable_entity list"

text \<open>The local variables of \<^verbatim>\<open>EstimateBlastRadius\<close> that its loop updates.\<close>

record walk_state =
  w_visited :: "(string \<times> nat) list"
  w_queue :: "queued list"
  w_reachable :: "reachable_entity list"
  w_weighted :: real
  w_critical :: nat
  w_max_hops :: nat

fun seed_walk :: "sgraph \<Rightarrow> string list \<Rightarrow> (string \<times> nat) list \<Rightarrow> queued list \<Rightarrow>
    (string \<times> nat) list \<times> queued list" where
  "seed_walk g [] v q = (v, q)"
| "seed_walk g (s # ss) v q =
     (case get_entity g s of
        None \<Rightarrow> seed_walk g ss v q
      | Some _ \<Rightarrow>
          (case map_of v s of
             Some _ \<Rightarrow> seed_walk g ss v q
           | None \<Rightarrow> seed_walk g ss (AList.update s 0 v)
               (q @ [\<lparr> q_id = s, q_hops = 0, q_via = [], q_from = [] \<rparr>])))"

definition start_walk :: "sgraph \<Rightarrow> string list \<Rightarrow> walk_state" where
  "start_walk g seeds =
     (let (v, q) = seed_walk g seeds [] []
      in \<lparr> w_visited = v, w_queue = sort_key q_id q, w_reachable = [], w_weighted = 0,
           w_critical = 0, w_max_hops = 0 \<rparr>)"

definition enqueue_step :: "queued \<Rightarrow> neighbour_step \<Rightarrow> walk_state \<Rightarrow> walk_state" where
  "enqueue_step cur step w =
     (case map_of (w_visited w) (step_id step) of
        Some _ \<Rightarrow> w
      | None \<Rightarrow>
          w\<lparr>w_visited := AList.update (step_id step) (Suc (q_hops cur)) (w_visited w),
            w_queue := w_queue w @ [\<lparr> q_id = step_id step, q_hops = Suc (q_hops cur),
              q_via = step_relation step, q_from = q_id cur \<rparr>]\<rparr>)"

definition hop_weight :: "criticality \<Rightarrow> nat \<Rightarrow> real" where
  "hop_weight c hops = (if hops > 0 then criticality_weight c / real hops else criticality_weight c)"

definition record_entity :: "queued \<Rightarrow> entity \<Rightarrow> walk_state \<Rightarrow> walk_state" where
  "record_entity cur ent w =
     w\<lparr>w_max_hops := (if q_hops cur > w_max_hops w then q_hops cur else w_max_hops w),
       w_weighted := w_weighted w + hop_weight (ent_criticality ent) (q_hops cur),
       w_critical :=
         (if ent_criticality ent = CriticalityCritical then w_critical w + 1 else w_critical w),
       w_reachable := w_reachable w @
         [\<lparr> re_id = ent_id ent, re_type = ent_type ent, re_name = ent_name ent,
            re_criticality = ent_criticality ent, re_hops = q_hops cur, re_via = q_via cur,
            re_from = q_from cur \<rparr>]\<rparr>"

definition visit :: "sgraph \<Rightarrow> nat \<Rightarrow> queued \<Rightarrow> walk_state \<Rightarrow> walk_state" where
  "visit g max_hops cur w =
     (case get_entity g (q_id cur) of
        None \<Rightarrow> w
      | Some ent \<Rightarrow>
          let w1 = record_entity cur ent w
          in if q_hops cur \<ge> max_hops then w1
             else fold (enqueue_step cur) (neighbour_steps g (q_id cur)) w1)"

text \<open>Every identifier an edge can lead to; it bounds how often the loop can run.\<close>

definition peers :: "sgraph \<Rightarrow> string set" where
  "peers g = (\<Union>kb \<in> set (g_out g) \<union> set (g_in g). (\<lambda>ka. fst (fst ka)) ` set (snd kb))"

lemma finite_peers: "finite (peers g)"
  by (simp add: peers_def)

lemma bucket_peers:
  "(\<lambda>ka. fst (fst ka)) ` set (bucket (g_out g) k) \<subseteq> peers g"
  "(\<lambda>ka. fst (fst ka)) ` set (bucket (g_in g) k) \<subseteq> peers g"
proof -
  have "kb \<in> set m \<Longrightarrow> (\<lambda>ka. fst (fst ka)) ` set (snd kb) \<subseteq>
      (\<Union>kb \<in> set m. (\<lambda>ka. fst (fst ka)) ` set (snd kb))" for kb and m :: adjacency
    by blast
  then have "(\<lambda>ka. fst (fst ka)) ` set (bucket m k) \<subseteq>
      (\<Union>kb \<in> set m. (\<lambda>ka. fst (fst ka)) ` set (snd kb))" for m :: adjacency
    unfolding bucket_def by (cases "map_of m k") (simp, metis map_of_SomeD option.simps(5) snd_conv)
  then show "(\<lambda>ka. fst (fst ka)) ` set (bucket (g_out g) k) \<subseteq> peers g"
    "(\<lambda>ka. fst (fst ka)) ` set (bucket (g_in g) k) \<subseteq> peers g"
    unfolding peers_def by (simp_all add: UN_Un) (meson Un_upper1 Un_upper2 subset_trans)+
qed

lemma neighbour_steps_peers: "step_id ` set (neighbour_steps g k) \<subseteq> peers g"
  using bucket_peers [of g k] by (auto simp: neighbour_steps_def)

lemma fold_enqueue_frame [simp]:
  "w_reachable (fold (enqueue_step cur) steps w) = w_reachable w"
  "w_weighted (fold (enqueue_step cur) steps w) = w_weighted w"
  "w_critical (fold (enqueue_step cur) steps w) = w_critical w"
  "w_max_hops (fold (enqueue_step cur) steps w) = w_max_hops w"
  by (induction steps arbitrary: w) (simp_all add: enqueue_step_def split: option.split)

lemma fold_enqueue_visited:
  "map_of (w_visited (fold (enqueue_step cur) steps w)) v =
     (if map_of (w_visited w) v = None \<and> v \<in> step_id ` set steps
      then Some (Suc (q_hops cur)) else map_of (w_visited w) v)"
  by (induction steps arbitrary: w) (auto simp: enqueue_step_def split: option.split)

lemma fold_enqueue_queue:
  "\<exists>news. w_queue (fold (enqueue_step cur) steps w) = w_queue w @ news \<and>
     distinct (map q_id news) \<and>
     set (map q_id news) = {v \<in> step_id ` set steps. map_of (w_visited w) v = None} \<and>
     (\<forall>q \<in> set news. q_hops q = Suc (q_hops cur) \<and> q_from q = q_id cur \<and>
        Step (q_id q) (q_via q) \<in> set steps)"
proof (induction steps arbitrary: w)
  case Nil
  then show ?case by simp
next
  case (Cons s ss)
  show ?case
  proof (cases "map_of (w_visited w) (step_id s)")
    case None
    let ?q = "\<lparr> q_id = step_id s, q_hops = Suc (q_hops cur), q_via = step_relation s, q_from = q_id cur \<rparr>"
    let ?w = "w\<lparr>w_visited := AList.update (step_id s) (Suc (q_hops cur)) (w_visited w),
            w_queue := w_queue w @ [?q]\<rparr>"
    have step: "enqueue_step cur s w = ?w" using None by (simp add: enqueue_step_def)
    from Cons [of ?w] obtain news where news:
      "w_queue (fold (enqueue_step cur) ss ?w) = w_queue ?w @ news" "distinct (map q_id news)"
      "set (map q_id news) = {v \<in> step_id ` set ss. map_of (w_visited ?w) v = None}"
      "\<forall>q \<in> set news. q_hops q = Suc (q_hops cur) \<and> q_from q = q_id cur \<and> Step (q_id q) (q_via q) \<in> set ss"
      by blast
    have "step_id s \<notin> set (map q_id news)" by (simp only: news(3)) simp
    moreover have "set (map q_id (?q # news)) = {v \<in> step_id ` set (s # ss). map_of (w_visited w) v = None}"
      using None by (simp only: list.map list.set news(3)) (auto split: if_splits)
    ultimately show ?thesis
      using news(1,2,4) by (intro exI [of _ "?q # news"]) (simp add: step)
  next
    case (Some n)
    then have "enqueue_step cur s w = w" by (simp add: enqueue_step_def)
    moreover have "{v \<in> step_id ` set (s # ss). map_of (w_visited w) v = None} =
        {v \<in> step_id ` set ss. map_of (w_visited w) v = None}" using Some by auto
    ultimately show ?thesis using Cons [of w] by auto
  qed
qed

definition unvisited :: "sgraph \<Rightarrow> walk_state \<Rightarrow> nat" where
  "unvisited g w = card {v \<in> peers g. map_of (w_visited w) v = None}"

lemma fold_enqueue_measure:
  assumes "step_id ` set steps \<subseteq> peers g"
  shows "unvisited g (fold (enqueue_step cur) steps w) + length (w_queue (fold (enqueue_step cur) steps w))
    = unvisited g w + length (w_queue w)"
proof -
  let ?N = "{v \<in> step_id ` set steps. map_of (w_visited w) v = None}"
  let ?U = "{v \<in> peers g. map_of (w_visited w) v = None}"
  obtain news where news: "w_queue (fold (enqueue_step cur) steps w) = w_queue w @ news"
      "distinct (map q_id news)" "set (map q_id news) = ?N"
    using fold_enqueue_queue [of cur steps w] by blast
  have len: "length news = card ?N" by (metis distinct_card length_map news(2,3))
  have "{v \<in> peers g. map_of (w_visited (fold (enqueue_step cur) steps w)) v = None} = ?U - ?N"
    by (auto simp: fold_enqueue_visited)
  moreover have "card (?U - ?N) + card ?N = card ?U"
  proof -
    have sub: "?N \<subseteq> ?U" using assms by auto
    have "card (?U - ?N) = card ?U - card ?N"
      by (rule card_Diff_subset) (use sub finite_subset finite_peers in \<open>auto intro: finite_subset [OF sub]\<close>)
    moreover have "card ?N \<le> card ?U" by (rule card_mono) (use sub finite_peers in auto)
    ultimately show ?thesis by simp
  qed
  ultimately show ?thesis by (simp add: unvisited_def news(1) len)
qed

text \<open>
  The loop \<^verbatim>\<open>for len(queue) > 0\<close>. It ends because a step takes one entry off the queue and only
  identifiers never visited before are put on it.
\<close>

function walk :: "sgraph \<Rightarrow> nat \<Rightarrow> walk_state \<Rightarrow> walk_state" where
  "walk g max_hops w =
     (case w_queue w of
        [] \<Rightarrow> w
      | cur # rest \<Rightarrow> walk g max_hops (visit g max_hops cur (w\<lparr>w_queue := rest\<rparr>)))"
  by pat_completeness auto

lemma visit_measure:
  "unvisited g (visit g h cur w) + length (w_queue (visit g h cur w)) = unvisited g w + length (w_queue w)"
proof -
  have "unvisited g (record_entity cur ent w) = unvisited g w"
    "w_queue (record_entity cur ent w) = w_queue w" for ent
    by (simp_all add: unvisited_def record_entity_def)
  then show ?thesis
    using fold_enqueue_measure [OF neighbour_steps_peers]
    by (simp add: visit_def Let_def split: option.split)
qed

termination walk
proof (relation "measure (\<lambda>(g, h, w). unvisited g w + length (w_queue w))")
  show "wf (measure (\<lambda>(g, h, w). unvisited g w + length (w_queue w)))" by simp
next
  fix g h cur rest and w :: walk_state
  assume "w_queue w = cur # rest"
  moreover have "unvisited g (w\<lparr>w_queue := rest\<rparr>) = unvisited g w" by (simp add: unvisited_def)
  ultimately show "((g, h, visit g h cur (w\<lparr>w_queue := rest\<rparr>)), g, h, w)
      \<in> measure (\<lambda>(g, h, w). unvisited g w + length (w_queue w))"
    using visit_measure [of g h cur "w\<lparr>w_queue := rest\<rparr>"] by simp
qed

declare walk.simps [simp del]

subsection \<open>The estimate\<close>

definition plural :: "nat \<Rightarrow> string \<Rightarrow> string \<Rightarrow> string" where
  "plural n one many = (if n = 1 then show_nat n @ '' '' @ one else show_nat n @ '' '' @ many)"

text \<open>The dash in the first message is U+2014, three bytes of UTF-8.\<close>

definition summarize :: "nat \<Rightarrow> nat \<Rightarrow> nat \<Rightarrow> string" where
  "summarize n_all critical hops =
     (if n_all = 0 then ''No entities reachable '' @ [CHR 0xE2, CHR 0x80, CHR 0x94]
        @ '' the incident has no graph context yet.''
      else if critical = 0 then
        plural n_all ''entity'' ''entities'' @ '' reachable within '' @ show_nat hops
          @ '' hops; no assets classified critical.''
      else
        plural n_all ''entity'' ''entities'' @ '' reachable within '' @ show_nat hops
          @ '' hops, including '' @ plural critical ''asset'' ''assets'' @ '' classified critical.'')"

definition blast_score :: "real \<Rightarrow> int" where
  "blast_score weighted =
     (let score = go_round (100 * (1 - exp (- weighted / 25)));
          score' = (if score > 100 then 100 else score)
      in if score' < 0 then 0 else score')"

definition hop_bound :: "int \<Rightarrow> nat" where
  "hop_bound max_hops = (if max_hops \<le> 0 then default_max_hops else nat max_hops)"

definition estimate_blast_radius :: "sgraph \<Rightarrow> string list \<Rightarrow> int \<Rightarrow> blast_radius" where
  "estimate_blast_radius g seeds max_hops =
     (let w = walk g (hop_bound max_hops) (start_walk g seeds);
          reachable = sort_key (\<lambda>r. (re_hops r, - criticality_rank (re_criticality r), re_id r))
                        (w_reachable w)
      in \<lparr> br_score = blast_score (w_weighted w),
           br_max_hops = w_max_hops w,
           br_critical_assets = w_critical w,
           br_summary = summarize (length reachable) (w_critical w) (w_max_hops w),
           br_reachable = reachable \<rparr>)"

subsection \<open>Distances, as a specification\<close>

text \<open>\<open>linked g u v\<close>: an edge joins the two, in either direction.\<close>

definition linked :: "sgraph \<Rightarrow> string \<Rightarrow> string \<Rightarrow> bool" where
  "linked g u v \<longleftrightarrow> v \<in> step_id ` set (neighbour_steps g u)"

text \<open>\<open>reach g S n v\<close>: an entity \<open>v\<close> lies at the end of a path of \<open>n\<close> links that starts in \<open>S\<close>.\<close>

inductive reach :: "sgraph \<Rightarrow> string set \<Rightarrow> nat \<Rightarrow> string \<Rightarrow> bool" for g S where
  reach_seed: "s \<in> S \<Longrightarrow> has_entity g s \<Longrightarrow> reach g S 0 s"
| reach_link: "reach g S n u \<Longrightarrow> linked g u v \<Longrightarrow> has_entity g v \<Longrightarrow> reach g S (Suc n) v"

inductive_simps reach_0: "reach g S 0 v"
inductive_simps reach_Suc: "reach g S (Suc n) v"

definition at_distance :: "sgraph \<Rightarrow> string set \<Rightarrow> nat \<Rightarrow> string \<Rightarrow> bool" where
  "at_distance g S n v \<longleftrightarrow> reach g S n v \<and> (\<forall>m < n. \<not> reach g S m v)"

lemma reach_has_entity: "reach g S n v \<Longrightarrow> has_entity g v"
  by (auto elim: reach.cases)

lemma at_distance_unique: "at_distance g S n v \<Longrightarrow> at_distance g S m v \<Longrightarrow> n = m"
  unfolding at_distance_def by (meson nat_neq_iff)

lemma reach_at_distance: "reach g S n v \<Longrightarrow> \<exists>m \<le> n. at_distance g S m v"
proof (induction n rule: less_induct)
  case (less n)
  show ?case
  proof (cases "\<exists>m < n. reach g S m v")
    case True
    then obtain m where "m < n" "reach g S m v" by blast
    with less.IH show ?thesis by (meson less_imp_le order_trans)
  next
    case False
    with less.prems show ?thesis unfolding at_distance_def by blast
  qed
qed

text \<open>Like \<open>reach\<close>, but the last identifier need not be a known entity.\<close>

definition pre_reach :: "sgraph \<Rightarrow> string set \<Rightarrow> nat \<Rightarrow> string \<Rightarrow> bool" where
  "pre_reach g S n v \<longleftrightarrow>
     (case n of 0 \<Rightarrow> v \<in> S \<and> has_entity g v | Suc m \<Rightarrow> \<exists>u. reach g S m u \<and> linked g u v)"

lemma pre_reach_entity: "pre_reach g S n v \<Longrightarrow> has_entity g v \<Longrightarrow> reach g S n v"
  by (cases n) (auto simp: pre_reach_def reach_0 reach_Suc)

subsection \<open>The invariant of the walk\<close>

abbreviation visited_at :: "walk_state \<Rightarrow> string \<Rightarrow> nat option" where
  "visited_at w \<equiv> map_of (w_visited w)"

abbreviation pending :: "walk_state \<Rightarrow> string set" where
  "pending w \<equiv> q_id ` set (w_queue w)"

definition queue_ok :: "walk_state \<Rightarrow> bool" where
  "queue_ok w \<longleftrightarrow>
     distinct (map q_id (w_queue w)) \<and>
     (\<forall>q \<in> set (w_queue w). visited_at w (q_id q) = Some (q_hops q)) \<and>
     sorted (map q_hops (w_queue w)) \<and>
     (\<forall>q \<in> set (w_queue w). \<forall>v n. visited_at w v = Some n \<longrightarrow>
        n \<le> Suc (q_hops q) \<and> (v \<notin> pending w \<longrightarrow> n \<le> q_hops q))"

definition sound :: "sgraph \<Rightarrow> string set \<Rightarrow> nat \<Rightarrow> walk_state \<Rightarrow> bool" where
  "sound g S h w \<longleftrightarrow> (\<forall>v n. visited_at w v = Some n \<longrightarrow> n \<le> h \<and> pre_reach g S n v)"

definition closed_off :: "sgraph \<Rightarrow> string set \<Rightarrow> nat \<Rightarrow> walk_state \<Rightarrow> bool" where
  "closed_off g S h w \<longleftrightarrow>
     (\<forall>s \<in> S. has_entity g s \<longrightarrow> visited_at w s = Some 0) \<and>
     (\<forall>u n v. visited_at w u = Some n \<and> u \<notin> pending w \<and> has_entity g u \<and> n < h \<and> linked g u v \<longrightarrow>
        (\<exists>m \<le> Suc n. visited_at w v = Some m))"

definition settled :: "sgraph \<Rightarrow> walk_state \<Rightarrow> (string \<times> nat) set" where
  "settled g w = {(v, n). visited_at w v = Some n \<and> v \<notin> pending w \<and> has_entity g v}"

definition recorded :: "sgraph \<Rightarrow> walk_state \<Rightarrow> bool" where
  "recorded g w \<longleftrightarrow>
     distinct (map re_id (w_reachable w)) \<and>
     (\<lambda>r. (re_id r, re_hops r)) ` set (w_reachable w) = settled g w"

definition walk_inv :: "sgraph \<Rightarrow> string set \<Rightarrow> nat \<Rightarrow> walk_state \<Rightarrow> bool" where
  "walk_inv g S h w \<longleftrightarrow> queue_ok w \<and> sound g S h w \<and> closed_off g S h w \<and> recorded g w"

text \<open>What one turn of the loop does, in terms of the fields the invariant reads.\<close>

lemma record_entity_frame [simp]:
  "w_visited (record_entity cur ent w) = w_visited w"
  "w_queue (record_entity cur ent w) = w_queue w"
  by (simp_all add: record_entity_def)

lemma visit_visited:
  "visited_at (visit g h cur w) v =
     (if has_entity g (q_id cur) \<and> q_hops cur < h \<and> visited_at w v = None \<and> linked g (q_id cur) v
      then Some (Suc (q_hops cur)) else visited_at w v)"
  by (auto simp: visit_def Let_def has_entity_def fold_enqueue_visited linked_def split: option.splits)

lemma visit_queue:
  "\<exists>news. w_queue (visit g h cur w) = w_queue w @ news \<and> distinct (map q_id news) \<and>
     q_id ` set news = {v. has_entity g (q_id cur) \<and> q_hops cur < h \<and> visited_at w v = None \<and> linked g (q_id cur) v} \<and>
     (\<forall>q \<in> set news. q_hops q = Suc (q_hops cur))"
proof (cases "has_entity g (q_id cur) \<and> q_hops cur < h")
  case True
  then obtain ent where ent: "get_entity g (q_id cur) = Some ent" by (auto simp: has_entity_def)
  obtain news where "w_queue (fold (enqueue_step cur) (neighbour_steps g (q_id cur)) (record_entity cur ent w)) =
      w_queue (record_entity cur ent w) @ news" "distinct (map q_id news)"
    "set (map q_id news) = {v \<in> step_id ` set (neighbour_steps g (q_id cur)). visited_at (record_entity cur ent w) v = None}"
    "\<forall>q \<in> set news. q_hops q = Suc (q_hops cur)"
    using fold_enqueue_queue [of cur "neighbour_steps g (q_id cur)" "record_entity cur ent w"] by blast
  moreover have "visit g h cur w =
      fold (enqueue_step cur) (neighbour_steps g (q_id cur)) (record_entity cur ent w)"
    using True ent by (simp add: visit_def)
  ultimately have "w_queue (visit g h cur w) = w_queue w @ news"
    "q_id ` set news = {v. visited_at w v = None \<and> linked g (q_id cur) v}"
    by (auto simp: linked_def)
  with True \<open>distinct (map q_id news)\<close> \<open>\<forall>q \<in> set news. q_hops q = Suc (q_hops cur)\<close>
  show ?thesis by (intro exI [of _ news]) simp
next
  case False
  then have "w_queue (visit g h cur w) = w_queue w"
    by (auto simp: visit_def Let_def has_entity_def split: option.splits)
  with False show ?thesis by (intro exI [of _ "[]"]) auto
qed

lemma visit_reachable:
  "w_reachable (visit g h cur w) =
     (case get_entity g (q_id cur) of
        None \<Rightarrow> w_reachable w
      | Some ent \<Rightarrow> w_reachable w @
         [\<lparr> re_id = ent_id ent, re_type = ent_type ent, re_name = ent_name ent,
            re_criticality = ent_criticality ent, re_hops = q_hops cur, re_via = q_via cur,
            re_from = q_from cur \<rparr>])"
  by (simp add: visit_def Let_def record_entity_def split: option.split)

text \<open>One turn of the loop, seen through these fields.\<close>

definition turn :: "sgraph \<Rightarrow> string set \<Rightarrow> nat \<Rightarrow> walk_state \<Rightarrow> queued \<Rightarrow> queued list \<Rightarrow> walk_state \<Rightarrow> bool"
where
  "turn g S h w cur rest w' \<longleftrightarrow> walk_inv g S h w \<and> entities_wf g \<and> w_queue w = cur # rest \<and>
     w' = visit g h cur (w\<lparr>w_queue := rest\<rparr>)"

definition fresh :: "sgraph \<Rightarrow> nat \<Rightarrow> walk_state \<Rightarrow> queued \<Rightarrow> string set" where
  "fresh g h w cur =
     {v. has_entity g (q_id cur) \<and> q_hops cur < h \<and> visited_at w v = None \<and> linked g (q_id cur) v}"

lemma turn_visited:
  "turn g S h w cur rest w' \<Longrightarrow>
     visited_at w' v = (if v \<in> fresh g h w cur then Some (Suc (q_hops cur)) else visited_at w v)"
  by (auto simp: turn_def visit_visited fresh_def)

lemma turn_queue:
  assumes "turn g S h w cur rest w'"
  obtains news where "w_queue w' = rest @ news" "distinct (map q_id news)"
    "q_id ` set news = fresh g h w cur" "\<forall>q \<in> set news. q_hops q = Suc (q_hops cur)"
  using assms visit_queue [of g h cur "w\<lparr>w_queue := rest\<rparr>"] by (auto simp: turn_def fresh_def)

lemma fresh_unvisited: "v \<in> fresh g h w cur \<Longrightarrow> visited_at w v = None"
  by (simp add: fresh_def)

lemma turn_queue_ok: "turn g S h w cur rest w' \<Longrightarrow> queue_ok w"
  by (simp add: turn_def walk_inv_def)

lemma turn_head:
  assumes "turn g S h w cur rest w'"
  shows "visited_at w (q_id cur) = Some (q_hops cur)" and "q_id cur \<notin> q_id ` set rest"
    and "distinct (map q_id rest)" and "sorted (map q_hops rest)"
    and "q \<in> set rest \<Longrightarrow> visited_at w (q_id q) = Some (q_hops q)"
    and "q \<in> set rest \<Longrightarrow> q_hops cur \<le> q_hops q"
    and "visited_at w v = Some n \<Longrightarrow> n \<le> Suc (q_hops cur)"
    and "visited_at w v = Some n \<Longrightarrow> v \<notin> pending w \<Longrightarrow> n \<le> q_hops cur"
    and "pending w = insert (q_id cur) (q_id ` set rest)"
  using turn_queue_ok [OF assms] assms by (simp_all add: queue_ok_def turn_def)

lemma turn_rest_bounds:
  "turn g S h w cur rest w' \<Longrightarrow> q \<in> set rest \<Longrightarrow> q_hops q \<le> Suc (q_hops cur)"
  using turn_head(5,7) by blast

lemma turn_pending:
  assumes "turn g S h w cur rest w'"
  shows "pending w' = q_id ` set rest \<union> fresh g h w cur"
  using assms turn_queue by (metis image_Un set_append)

text \<open>An identifier dealt with after the turn was dealt with before, or is the head.\<close>

lemma turn_done:
  assumes t: "turn g S h w cur rest w'" and v: "visited_at w' v = Some n" "v \<notin> pending w'"
  shows "visited_at w v = Some n \<and> (v \<notin> pending w \<or> v = q_id cur \<and> n = q_hops cur)"
  using v turn_visited [OF t] turn_pending [OF t] turn_head(1,9) [OF t] by auto

lemma turn_queue_ok':
  assumes t: "turn g S h w cur rest w'"
  shows "queue_ok w'"
proof -
  obtain news where news: "w_queue w' = rest @ news" "distinct (map q_id news)"
    "q_id ` set news = fresh g h w cur" "\<forall>q \<in> set news. q_hops q = Suc (q_hops cur)"
    by (rule turn_queue [OF t])
  note head = turn_head [OF t]
  have hops: "q_hops cur \<le> q_hops q" if "q \<in> set (w_queue w')" for q
    using that news(1,4) head(6) by auto
  have "q_id ` set rest \<inter> fresh g h w cur = {}"
    using head(5) fresh_unvisited by fastforce
  then have "distinct (map q_id (w_queue w'))"
    using news(2,3) head(3) by (simp add: news(1))
  moreover have "\<forall>q \<in> set (w_queue w'). visited_at w' (q_id q) = Some (q_hops q)"
    using news(3,4) head(5) fresh_unvisited by (fastforce simp: news(1) turn_visited [OF t])
  moreover have "\<forall>x \<in> set (map q_hops rest). \<forall>y \<in> set (map q_hops news). x \<le> y"
    using news(4) turn_rest_bounds [OF t] by auto
  moreover have "sorted (map q_hops news)"
    using news(4) by (simp add: sorted_iff_nth_mono)
  moreover have "n \<le> Suc (q_hops q) \<and> (v \<notin> pending w' \<longrightarrow> n \<le> q_hops q)"
    if q: "q \<in> set (w_queue w')" and v: "visited_at w' v = Some n" for q v n
  proof -
    have "n \<le> Suc (q_hops cur)" using v head(7) by (auto simp: turn_visited [OF t] split: if_splits)
    moreover have "n \<le> q_hops cur" if "v \<notin> pending w'"
      using turn_done [OF t v that] head(8) by auto
    ultimately show ?thesis using hops [OF q] by auto
  qed
  ultimately show ?thesis
    unfolding queue_ok_def using head(4) by (simp add: news(1) sorted_append)
qed

lemma turn_sound:
  assumes t: "turn g S h w cur rest w'"
  shows "sound g S h w'"
proof -
  have "sound g S h w" using t by (simp add: turn_def walk_inv_def)
  moreover from this have "has_entity g (q_id cur) \<Longrightarrow> reach g S (q_hops cur) (q_id cur)"
    using turn_head(1) [OF t] pre_reach_entity by (auto simp: sound_def)
  ultimately show ?thesis
    by (auto simp: sound_def turn_visited [OF t] fresh_def pre_reach_def split: if_splits)
qed

lemma turn_closed_off:
  assumes t: "turn g S h w cur rest w'"
  shows "closed_off g S h w'"
proof -
  have old: "closed_off g S h w" using t by (simp add: turn_def walk_inv_def)
  have keep: "visited_at w v = Some m \<Longrightarrow> visited_at w' v = Some m" for v m
    using fresh_unvisited by (auto simp: turn_visited [OF t])
  have "\<exists>m \<le> Suc n. visited_at w' v = Some m"
    if u: "visited_at w' u = Some n" "u \<notin> pending w'" and ent: "has_entity g u"
      and n: "n < h" and l: "linked g u v" for u n v
    using turn_done [OF t u]
  proof (elim conjE disjE)
    assume "visited_at w u = Some n" "u \<notin> pending w"
    with old ent n l show ?thesis unfolding closed_off_def using keep by blast
  next
    assume "u = q_id cur" "n = q_hops cur"
    with ent n l turn_head(7) [OF t] keep show ?thesis
      by (cases "visited_at w v") (auto simp: turn_visited [OF t] fresh_def)
  qed
  moreover have "\<forall>s \<in> S. has_entity g s \<longrightarrow> visited_at w' s = Some 0"
    using old keep by (simp add: closed_off_def)
  ultimately show ?thesis unfolding closed_off_def by blast
qed

lemma turn_settled:
  assumes t: "turn g S h w cur rest w'"
  shows "settled g w' = settled g w \<union>
    (if has_entity g (q_id cur) then {(q_id cur, q_hops cur)} else {})"
proof -
  have "(v, n) \<in> settled g w' \<longleftrightarrow> (v, n) \<in> settled g w \<or>
      (has_entity g (q_id cur) \<and> v = q_id cur \<and> n = q_hops cur)" for v n
  proof (cases "v = q_id cur")
    case True
    then show ?thesis
      using turn_head(1,2,9) [OF t] fresh_unvisited [of v g h w cur]
      by (auto simp: settled_def turn_visited [OF t] turn_pending [OF t])
  next
    case False
    then show ?thesis
      using turn_head(9) [OF t] fresh_unvisited [of v g h w cur]
      by (auto simp: settled_def turn_visited [OF t] turn_pending [OF t])
  qed
  then show ?thesis by auto
qed

lemma turn_recorded:
  assumes t: "turn g S h w cur rest w'"
  shows "recorded g w'"
proof (cases "get_entity g (q_id cur)")
  case None
  then have "w_reachable w' = w_reachable w" "\<not> has_entity g (q_id cur)"
    using t by (simp_all add: turn_def visit_reachable has_entity_def)
  moreover have "recorded g w" using t by (simp add: turn_def walk_inv_def)
  ultimately show ?thesis by (simp add: recorded_def turn_settled [OF t])
next
  case (Some ent)
  then have "ent_id ent = q_id cur" using t by (simp add: turn_def entities_wf_def)
  then obtain r where r: "w_reachable w' = w_reachable w @ [r]" "re_id r = q_id cur" "re_hops r = q_hops cur"
    using t Some by (simp add: turn_def visit_reachable)
  have old: "recorded g w" using t by (simp add: turn_def walk_inv_def)
  have "\<forall>n. (q_id cur, n) \<notin> settled g w" using turn_head(9) [OF t] by (simp add: settled_def)
  then have "q_id cur \<notin> re_id ` set (w_reachable w)"
    using old unfolding recorded_def by force
  then show ?thesis
    using old Some r by (simp add: recorded_def turn_settled [OF t] has_entity_def)
qed

lemma visit_inv:
  assumes "walk_inv g S h w" and "entities_wf g" and "w_queue w = cur # rest"
  shows "walk_inv g S h (visit g h cur (w\<lparr>w_queue := rest\<rparr>))"
proof -
  have t: "turn g S h w cur rest (visit g h cur (w\<lparr>w_queue := rest\<rparr>))"
    using assms by (simp add: turn_def)
  show ?thesis
    unfolding walk_inv_def
    by (intro conjI turn_queue_ok' [OF t] turn_sound [OF t] turn_closed_off [OF t] turn_recorded [OF t])
qed

subsection \<open>The start and the end of the walk\<close>

lemma seed_walk_visited:
  "seed_walk g ss v q = (v', q') \<Longrightarrow>
     map_of v' x = (if x \<in> set ss \<and> has_entity g x \<and> map_of v x = None then Some 0 else map_of v x)"
  by (induction g ss v q rule: seed_walk.induct) (auto simp: has_entity_def split: option.splits if_splits)

lemma seed_walk_queue:
  "seed_walk g ss v q = (v', q') \<Longrightarrow>
     \<exists>news. q' = q @ news \<and> distinct (map q_id news) \<and>
       q_id ` set news = {x \<in> set ss. has_entity g x \<and> map_of v x = None} \<and>
       (\<forall>n \<in> set news. q_hops n = 0)"
proof (induction g ss v q rule: seed_walk.induct)
  case (1 g v q)
  then show ?case by simp
next
  case (2 g s ss v q)
  show ?case
  proof (cases "has_entity g s \<and> map_of v s = None")
    case False
    then have "seed_walk g (s # ss) v q = seed_walk g ss v q"
      by (auto simp: has_entity_def split: option.split)
    moreover have "{x \<in> set (s # ss). has_entity g x \<and> map_of v x = None} =
        {x \<in> set ss. has_entity g x \<and> map_of v x = None}" using False by auto
    moreover have "\<exists>news. q' = q @ news \<and> distinct (map q_id news) \<and>
          q_id ` set news = {x \<in> set ss. has_entity g x \<and> map_of v x = None} \<and>
          (\<forall>n \<in> set news. q_hops n = 0)" if "seed_walk g ss v q = (v', q')"
    proof (cases "get_entity g s")
      case None
      then show ?thesis using "2.IH"(1) that by blast
    next
      case (Some e)
      with False obtain n where "map_of v s = Some n" by (auto simp: has_entity_def)
      with Some show ?thesis using "2.IH"(3) that by blast
    qed
    ultimately show ?thesis using "2.prems" by simp
  next
    case True
    let ?n = "\<lparr> q_id = s, q_hops = 0, q_via = [], q_from = [] \<rparr>"
    obtain e where e: "get_entity g s = Some e" using True by (auto simp: has_entity_def)
    have none: "map_of v s = None" using True by simp
    have "seed_walk g ss (AList.update s 0 v) (q @ [?n]) = (v', q')"
      using "2.prems" none e by simp
    then obtain news where news: "q' = (q @ [?n]) @ news" "distinct (map q_id news)"
      "q_id ` set news = {x \<in> set ss. has_entity g x \<and> map_of (AList.update s 0 v) x = None}"
      "\<forall>n \<in> set news. q_hops n = 0"
      using "2.IH"(2) [OF e none] by metis
    have "s \<notin> q_id ` set news" by (simp only: news(3)) simp
    moreover have "q_id ` set (?n # news) = {x \<in> set (s # ss). has_entity g x \<and> map_of v x = None}"
      using True by (simp only: list.set image_insert news(3)) (auto split: if_splits)
    ultimately show ?thesis
      using news(1,2,4) by (intro exI [of _ "?n # news"]) simp
  qed
qed

lemma sorted_zero: "\<forall>x \<in> set xs. x = (0::nat) \<Longrightarrow> sorted xs"
  by (induction xs) auto

lemma start_walk_inv: "walk_inv g (set seeds) h (start_walk g seeds)"
proof -
  obtain v q where sw: "seed_walk g seeds [] [] = (v, q)" by fastforce
  obtain news where q: "q = news" "distinct (map q_id news)"
      "q_id ` set news = {x \<in> set seeds. has_entity g x}" "\<forall>n \<in> set news. q_hops n = 0"
    using seed_walk_queue [OF sw] by auto
  have vis: "map_of v x = (if x \<in> set seeds \<and> has_entity g x then Some 0 else None)" for x
    using seed_walk_visited [OF sw, of x] by simp
  have w: "w_queue (start_walk g seeds) = sort_key q_id q" "w_visited (start_walk g seeds) = v"
    "w_reachable (start_walk g seeds) = []"
    by (simp_all add: start_walk_def sw)
  have "mset (map q_id (sort_key q_id q)) = mset (map q_id q)" by simp
  then have "distinct (map q_id (sort_key q_id q))" using q(1,2) by (metis mset_eq_imp_distinct_iff)
  moreover have "sorted (map q_hops (sort_key q_id q))" using q(1,4)
    by (intro sorted_zero) simp
  moreover have "\<forall>n \<in> set news. map_of v (q_id n) = Some 0" using q(3) vis by auto
  ultimately have "queue_ok (start_walk g seeds)"
    using q vis by (auto simp: queue_ok_def w split: if_splits)
  moreover have "sound g (set seeds) h (start_walk g seeds)"
    by (simp add: sound_def w vis pre_reach_def)
  moreover have pend: "pending (start_walk g seeds) = {x \<in> set seeds. has_entity g x}"
    using q(1,3) by (simp add: w)
  then have "closed_off g (set seeds) h (start_walk g seeds)"
    by (simp add: closed_off_def w vis)
  moreover from pend have "settled g (start_walk g seeds) = {}"
    by (auto simp: settled_def w vis)
  then have "recorded g (start_walk g seeds)" by (simp add: recorded_def w)
  ultimately show ?thesis by (simp add: walk_inv_def)
qed

lemma walk_invariant:
  assumes step: "\<And>w cur rest. P w \<Longrightarrow> w_queue w = cur # rest \<Longrightarrow> P (visit g h cur (w\<lparr>w_queue := rest\<rparr>))"
    and "P w"
  shows "P (walk g h w) \<and> w_queue (walk g h w) = []"
  using assms
proof (induction g h w rule: walk.induct)
  case (1 g h w)
  show ?case
  proof (cases "w_queue w")
    case Nil
    then show ?thesis using "1.prems"(2) by (simp add: walk.simps)
  next
    case (Cons cur rest)
    then have "walk g h w = walk g h (visit g h cur (w\<lparr>w_queue := rest\<rparr>))" by (simp add: walk.simps)
    then show ?thesis using "1.IH" [OF Cons "1.prems"(1)] "1.prems" Cons by simp
  qed
qed

text \<open>Where the walk ends: what it recorded is what lies within the hop bound.\<close>

definition final_walk :: "sgraph \<Rightarrow> string list \<Rightarrow> int \<Rightarrow> walk_state" where
  "final_walk g seeds max_hops = walk g (hop_bound max_hops) (start_walk g seeds)"

lemma final_walk_inv:
  assumes "entities_wf g"
  shows "walk_inv g (set seeds) (hop_bound mh) (final_walk g seeds mh) \<and> w_queue (final_walk g seeds mh) = []"
  unfolding final_walk_def
  by (rule walk_invariant [where P = "walk_inv g (set seeds) (hop_bound mh)"])
    (auto intro: visit_inv start_walk_inv assms)

lemma closed_off_reach:
  assumes "closed_off g S h w" and "w_queue w = []" and "reach g S n v" and "n \<le> h"
  shows "\<exists>m \<le> n. visited_at w v = Some m"
  using assms(3,4)
proof (induction rule: reach.induct)
  case (reach_seed s)
  then show ?case using assms(1) by (auto simp: closed_off_def)
next
  case (reach_link n u v)
  then obtain m where m: "m \<le> n" "visited_at w u = Some m" by auto
  moreover have "has_entity g u" using reach_link reach_has_entity by blast
  ultimately have "\<exists>k \<le> Suc m. visited_at w v = Some k"
    using assms(1,2) reach_link.hyps(2) reach_link.prems
    unfolding closed_off_def by (metis Suc_le_eq empty_iff image_empty le_less_trans list.set(1))
  then show ?case using m(1) by (meson Suc_le_mono order_trans)
qed

lemma final_settled:
  assumes "walk_inv g S h w" and "w_queue w = []"
  shows "(v, n) \<in> settled g w \<longleftrightarrow> n \<le> h \<and> at_distance g S n v"
proof
  have snd: "sound g S h w" and cl: "closed_off g S h w" using assms(1) by (simp_all add: walk_inv_def)
  {
    assume "(v, n) \<in> settled g w"
    then have n: "visited_at w v = Some n" "has_entity g v" by (simp_all add: settled_def)
    then have r: "n \<le> h" "reach g S n v" using snd pre_reach_entity by (auto simp: sound_def)
    have "\<not> reach g S m v" if "m < n" for m
      using closed_off_reach [OF cl assms(2), of m v] that n r(1) by auto
    with r show "n \<le> h \<and> at_distance g S n v" by (simp add: at_distance_def)
  next
    assume n: "n \<le> h \<and> at_distance g S n v"
    then have r: "reach g S n v" by (simp add: at_distance_def)
    then obtain m where m: "m \<le> n" "visited_at w v = Some m"
      using closed_off_reach [OF cl assms(2)] n by blast
    have ent: "has_entity g v" using r reach_has_entity by blast
    then have "reach g S m v" using snd m(2) pre_reach_entity by (auto simp: sound_def)
    then have "m = n" using n m(1) unfolding at_distance_def by (meson le_neq_implies_less)
    then show "(v, n) \<in> settled g w" using m ent assms(2) by (simp add: settled_def)
  }
qed

subsection \<open>Totals of the walk\<close>

definition entity_weight :: "reachable_entity \<Rightarrow> real" where
  "entity_weight r = hop_weight (re_criticality r) (re_hops r)"

text \<open>
  Each recorded entity carries the criticality the graph holds for it, and the totals are
  sums over the recorded entities.
\<close>

definition totalled :: "sgraph \<Rightarrow> walk_state \<Rightarrow> bool" where
  "totalled g w \<longleftrightarrow>
     w_weighted w = sum_list (map entity_weight (w_reachable w)) \<and>
     w_critical w = length (filter (\<lambda>r. re_criticality r = CriticalityCritical) (w_reachable w)) \<and>
     w_max_hops w = fold max (map re_hops (w_reachable w)) 0 \<and>
     (\<forall>r \<in> set (w_reachable w). \<exists>e. get_entity g (re_id r) = Some e \<and>
        re_criticality r = ent_criticality e \<and> re_type r = ent_type e \<and> re_name r = ent_name e)"

lemma visit_totalled:
  assumes "totalled g w" and "entities_wf g"
  shows "totalled g (visit g h cur (w\<lparr>w_queue := rest\<rparr>))"
proof (cases "get_entity g (q_id cur)")
  case None
  then show ?thesis using assms(1) by (simp add: visit_def totalled_def)
next
  case (Some e)
  have id: "ent_id e = q_id cur" using Some assms(2) by (simp add: entities_wf_def)
  have "totalled g (record_entity cur e (w\<lparr>w_queue := rest\<rparr>))"
    using assms(1) Some id unfolding totalled_def record_entity_def
    by (simp add: entity_weight_def max_def)
  then show ?thesis using Some by (simp add: visit_def Let_def totalled_def)
qed

lemma final_totalled: "entities_wf g \<Longrightarrow> totalled g (final_walk g seeds mh)"
  unfolding final_walk_def
  by (rule conjunct1 [OF walk_invariant [where P = "totalled g"]], rule visit_totalled)
    (simp_all add: totalled_def start_walk_def split: prod.split)

text \<open>Every entity is recorded with the link it was reached over.\<close>

definition traced :: "sgraph \<Rightarrow> string set \<Rightarrow> nat \<Rightarrow> string \<Rightarrow> relation \<Rightarrow> string \<Rightarrow> bool" where
  "traced g S n v via frm \<longleftrightarrow>
     (if n = 0 then v \<in> S \<and> via = [] \<and> frm = []
      else reach g S (n - 1) frm \<and> Step v via \<in> set (neighbour_steps g frm))"

definition all_traced :: "sgraph \<Rightarrow> string set \<Rightarrow> walk_state \<Rightarrow> bool" where
  "all_traced g S w \<longleftrightarrow>
     (\<forall>q \<in> set (w_queue w). traced g S (q_hops q) (q_id q) (q_via q) (q_from q)) \<and>
     (\<forall>r \<in> set (w_reachable w). traced g S (re_hops r) (re_id r) (re_via r) (re_from r))"

lemma visit_traced:
  assumes tr: "all_traced g S w" and i: "walk_inv g S h w" and wf: "entities_wf g" and q: "w_queue w = cur # rest"
  shows "all_traced g S (visit g h cur (w\<lparr>w_queue := rest\<rparr>))"
proof (cases "get_entity g (q_id cur)")
  case None
  then show ?thesis using tr q by (simp add: visit_def all_traced_def)
next
  case (Some e)
  have id: "ent_id e = q_id cur" using Some wf by (simp add: entities_wf_def)
  have cur: "traced g S (q_hops cur) (q_id cur) (q_via cur) (q_from cur)"
    using tr q by (simp add: all_traced_def)
  let ?w = "record_entity cur e (w\<lparr>w_queue := rest\<rparr>)"
  have t: "turn g S h w cur rest (visit g h cur (w\<lparr>w_queue := rest\<rparr>))"
    using i wf q by (simp add: turn_def)
  have "visited_at w (q_id cur) = Some (q_hops cur)" by (rule turn_head [OF t])
  then have r: "reach g S (q_hops cur) (q_id cur)"
    using i Some pre_reach_entity by (auto simp: walk_inv_def sound_def has_entity_def)
  have rec: "all_traced g S ?w"
    using tr q cur id by (auto simp: all_traced_def record_entity_def)
  obtain news where news: "w_queue (fold (enqueue_step cur) (neighbour_steps g (q_id cur)) ?w) = w_queue ?w @ news"
      "\<forall>q \<in> set news. q_hops q = Suc (q_hops cur) \<and> q_from q = q_id cur \<and>
        Step (q_id q) (q_via q) \<in> set (neighbour_steps g (q_id cur))"
    using fold_enqueue_queue [of cur "neighbour_steps g (q_id cur)" ?w] by blast
  have "\<forall>q \<in> set news. traced g S (q_hops q) (q_id q) (q_via q) (q_from q)"
    using news(2) r by (simp add: traced_def)
  then have "all_traced g S (fold (enqueue_step cur) (neighbour_steps g (q_id cur)) ?w)"
    using rec unfolding all_traced_def news(1) by auto
  then show ?thesis using rec Some by (simp add: visit_def Let_def)
qed

lemma start_traced: "all_traced g (set seeds) (start_walk g seeds)"
proof -
  have "seed_walk g ss v q = (v', q') \<Longrightarrow>
      n \<in> set q' \<Longrightarrow> n \<in> set q \<or> (q_hops n = 0 \<and> q_id n \<in> set ss \<and> q_via n = [] \<and> q_from n = [])"
    for ss v q v' q' n
    by (induction g ss v q rule: seed_walk.induct) (auto split: option.splits)
  then show ?thesis
    by (fastforce simp: all_traced_def start_walk_def traced_def split: prod.split)
qed

lemma final_traced:
  assumes "entities_wf g"
  shows "all_traced g (set seeds) (final_walk g seeds mh)"
proof -
  let ?P = "\<lambda>w. all_traced g (set seeds) w \<and> walk_inv g (set seeds) (hop_bound mh) w"
  have "?P (walk g (hop_bound mh) (start_walk g seeds)) \<and>
      w_queue (walk g (hop_bound mh) (start_walk g seeds)) = []"
    by (rule walk_invariant [where P = ?P])
      (auto intro: visit_traced visit_inv start_traced start_walk_inv assms)
  then show ?thesis by (simp add: final_walk_def)
qed

subsection \<open>The estimate, stated\<close>

lemma estimate_fields [simp]:
  "br_score (estimate_blast_radius g seeds mh) = blast_score (w_weighted (final_walk g seeds mh))"
  "br_max_hops (estimate_blast_radius g seeds mh) = w_max_hops (final_walk g seeds mh)"
  "br_critical_assets (estimate_blast_radius g seeds mh) = w_critical (final_walk g seeds mh)"
  "set (br_reachable (estimate_blast_radius g seeds mh)) = set (w_reachable (final_walk g seeds mh))"
  "mset (br_reachable (estimate_blast_radius g seeds mh)) = mset (w_reachable (final_walk g seeds mh))"
  by (simp_all add: estimate_blast_radius_def Let_def final_walk_def)

lemma reachable_sorted:
  "br_reachable (estimate_blast_radius g seeds mh) =
     sort_key (\<lambda>r. (re_hops r, - criticality_rank (re_criticality r), re_id r)) (w_reachable (final_walk g seeds mh))"
  by (simp add: estimate_blast_radius_def Let_def final_walk_def)

lemma blast_score_bounds:
  assumes "0 \<le> x"
  shows "0 \<le> blast_score x \<and> blast_score x \<le> 100"
  by (simp add: blast_score_def Let_def)

lemma blast_score_mono:
  assumes "0 \<le> x" and "x \<le> y"
  shows "blast_score x \<le> blast_score y"
proof -
  have "100 * (1 - exp (- x / 25)) \<le> 100 * (1 - exp (- y / 25))" using assms by simp
  moreover have "0 \<le> 100 * (1 - exp (- x / 25))" using assms by simp
  ultimately have "go_round (100 * (1 - exp (- x / 25))) \<le> go_round (100 * (1 - exp (- y / 25)))"
    by (rule go_round_mono [rotated])
  then show ?thesis by (simp add: blast_score_def Let_def)
qed

lemma hop_weight_pos: "0 < hop_weight c n"
  using criticality_weight_pos [of c] by (simp add: hop_weight_def)

lemma hop_weight_mono:
  assumes "criticality_rank c \<le> criticality_rank d" and "m \<le> n"
  shows "hop_weight c n \<le> hop_weight d m"
proof -
  have w: "criticality_weight c \<le> criticality_weight d" using assms(1) by (rule criticality_weight_mono)
  have "hop_weight c n = criticality_weight c / real (max 1 n)" for c n
    by (cases n) (simp_all add: hop_weight_def)
  moreover have "criticality_weight c / real (max 1 n) \<le> criticality_weight d / real (max 1 m)"
    using w assms(2) criticality_weight_pos [of c] criticality_weight_pos [of d] by (intro frac_le) auto
  ultimately show ?thesis by simp
qed

lemma final_recorded:
  assumes "graph_wf g"
  shows "(\<exists>r \<in> set (w_reachable (final_walk g seeds mh)). re_id r = v \<and> re_hops r = n) \<longleftrightarrow>
      n \<le> hop_bound mh \<and> at_distance g (set seeds) n v"
    and "distinct (map re_id (w_reachable (final_walk g seeds mh)))"
proof -
  have i: "walk_inv g (set seeds) (hop_bound mh) (final_walk g seeds mh)"
      and q: "w_queue (final_walk g seeds mh) = []"
    using final_walk_inv assms by (simp_all add: graph_wf_def)
  have rec: "recorded g (final_walk g seeds mh)" using i by (simp add: walk_inv_def)
  have "settled g (final_walk g seeds mh) = (\<lambda>r. (re_id r, re_hops r)) ` set (w_reachable (final_walk g seeds mh))"
    using rec by (simp add: recorded_def)
  then have "(v, n) \<in> settled g (final_walk g seeds mh) \<longleftrightarrow>
      (\<exists>r \<in> set (w_reachable (final_walk g seeds mh)). re_id r = v \<and> re_hops r = n)"
    by auto
  with final_settled [OF i q] show
    "(\<exists>r \<in> set (w_reachable (final_walk g seeds mh)). re_id r = v \<and> re_hops r = n) \<longleftrightarrow>
      n \<le> hop_bound mh \<and> at_distance g (set seeds) n v" by blast
  show "distinct (map re_id (w_reachable (final_walk g seeds mh)))"
    using rec by (simp add: recorded_def)
qed

lemma in_fst_map_of: "k \<in> fst ` set m \<longleftrightarrow> map_of m k \<noteq> None"
  by (simp add: map_of_eq_None_iff)

lemma linked_addr: "linked g u v \<longleftrightarrow> (\<exists>r. out_addr g u v r \<noteq> None \<or> in_addr g u v r \<noteq> None)"
proof -
  have "v \<in> (\<lambda>ka. fst (fst ka)) ` set b \<longleftrightarrow> (\<exists>r. map_of b (v, r) \<noteq> None)" for b :: "(edge_key \<times> nat) list"
    unfolding in_fst_map_of [symmetric] by force
  then show ?thesis
    unfolding linked_def neighbour_steps_def out_addr_def in_addr_def
    by (simp add: image_Un image_image) blast
qed

lemma neighbour_step_addr:
  "Step v r \<in> set (neighbour_steps g u) \<Longrightarrow> out_addr g u v r \<noteq> None \<or> in_addr g u v r \<noteq> None"
  unfolding neighbour_steps_def out_addr_def in_addr_def in_fst_map_of [symmetric]
  by (auto simp: image_iff) force+

lemma linked_mono: "graph_le g h \<Longrightarrow> linked g u v \<Longrightarrow> linked h u v"
  unfolding linked_addr graph_le_def by blast

lemma reach_mono:
  assumes "graph_le g h" and "S \<subseteq> T" and "reach g S n v"
  shows "reach h T n v"
  using assms(3)
proof (induction rule: reach.induct)
  case (reach_seed s)
  then show ?case using assms(1,2) graph_le_entity reach.reach_seed by blast
next
  case (reach_link n u v)
  then show ?case using assms(1) graph_le_entity linked_mono reach.reach_link by blast
qed

text \<open>A sum over entities is at most another one when each entity has a counterpart that weighs more.\<close>

lemma sum_list_matched:
  fixes f :: "'a \<Rightarrow> real"
  assumes "distinct (map key xs)" and "distinct (map key ys)"
    and match: "\<And>x. x \<in> set xs \<Longrightarrow> \<exists>y \<in> set ys. key y = key x \<and> f x \<le> f y"
    and pos: "\<And>y. 0 \<le> f y"
  shows "sum_list (map f xs) \<le> sum_list (map f ys)"
proof -
  obtain p where p: "\<And>x. x \<in> set xs \<Longrightarrow> p x \<in> set ys \<and> key (p x) = key x \<and> f x \<le> f (p x)"
    using match by metis
  have inj: "inj_on p (set xs)"
    using assms(1) p unfolding distinct_map by (metis (mono_tags, lifting) inj_onD inj_onI)
  have "sum f (set xs) \<le> sum (\<lambda>x. f (p x)) (set xs)" by (rule sum_mono) (simp add: p)
  also have "\<dots> = sum f (p ` set xs)" using inj by (simp add: sum.reindex)
  also have "\<dots> \<le> sum f (set ys)" by (rule sum_mono2) (use p pos in auto)
  finally show ?thesis
    using assms(1,2) by (simp add: sum_list_distinct_conv_sum_set distinct_map)
qed

lemma final_weighted_nonneg: "graph_wf g \<Longrightarrow> 0 \<le> w_weighted (final_walk g seeds mh)"
  using final_totalled [of g seeds mh]
  by (auto simp: totalled_def graph_wf_def entity_weight_def hop_weight_pos less_imp_le intro!: sum_list_nonneg)

definition grown :: "sgraph \<Rightarrow> string list \<Rightarrow> int \<Rightarrow> sgraph \<Rightarrow> string list \<Rightarrow> int \<Rightarrow> bool" where
  "grown g s m h t n \<longleftrightarrow> graph_wf g \<and> graph_wf h \<and> graph_le g h \<and> set s \<subseteq> set t \<and> hop_bound m \<le> hop_bound n"

lemma grown_counterpart:
  assumes gr: "grown g s m h t n" and r: "r \<in> set (w_reachable (final_walk g s m))"
  shows "\<exists>r' \<in> set (w_reachable (final_walk h t n)). re_id r' = re_id r \<and> re_hops r' \<le> re_hops r \<and>
    criticality_rank (re_criticality r) \<le> criticality_rank (re_criticality r')"
proof -
  have wf: "graph_wf g" "graph_wf h" and le: "graph_le g h" "set s \<subseteq> set t" "hop_bound m \<le> hop_bound n"
    using gr by (simp_all add: grown_def)
  have "re_hops r \<le> hop_bound m" "reach g (set s) (re_hops r) (re_id r)"
    using final_recorded(1) [OF wf(1), of s m "re_id r" "re_hops r"] r by (auto simp: at_distance_def)
  then have "reach h (set t) (re_hops r) (re_id r)" "re_hops r \<le> hop_bound n"
    using reach_mono le by (blast, linarith)
  then obtain k where k: "k \<le> re_hops r" "at_distance h (set t) k (re_id r)"
    using reach_at_distance by blast
  then obtain r' where r': "r' \<in> set (w_reachable (final_walk h t n))" "re_id r' = re_id r" "re_hops r' = k"
    using final_recorded(1) [OF wf(2), of t n "re_id r" k] \<open>re_hops r \<le> hop_bound n\<close> by auto
  have "entities_wf g" "entities_wf h" using wf by (simp_all add: graph_wf_def)
  then obtain e e' where "get_entity g (re_id r) = Some e" "re_criticality r = ent_criticality e"
      "get_entity h (re_id r') = Some e'" "re_criticality r' = ent_criticality e'"
    using final_totalled r r'(1) unfolding totalled_def by metis
  then have "criticality_rank (re_criticality r) \<le> criticality_rank (re_criticality r')"
    using le(1) r'(2) unfolding graph_le_def by force
  then show ?thesis using r' k by blast
qed

definition critical_count :: "reachable_entity \<Rightarrow> real" where
  "critical_count r = (if re_criticality r = CriticalityCritical then 1 else 0)"

lemma grown_sums:
  assumes gr: "grown g s m h t n"
  shows "w_weighted (final_walk g s m) \<le> w_weighted (final_walk h t n)"
    and "w_critical (final_walk g s m) \<le> w_critical (final_walk h t n)"
    and "length (w_reachable (final_walk g s m)) \<le> length (w_reachable (final_walk h t n))"
proof -
  have wf: "graph_wf g" "graph_wf h" using gr by (simp_all add: grown_def)
  note dist = final_recorded(2) [OF wf(1)] final_recorded(2) [OF wf(2)]
  have tot: "totalled g (final_walk g s m)" "totalled h (final_walk h t n)"
    using final_totalled wf by (simp_all add: graph_wf_def)
  have counts: "real (length (filter (\<lambda>r. re_criticality r = CriticalityCritical) rs)) =
      sum_list (map critical_count rs)" "real (length rs) = sum_list (map (\<lambda>_. 1) rs)" for rs
    by (induction rs) (simp_all add: critical_count_def)
  have "sum_list (map entity_weight (w_reachable (final_walk g s m))) \<le>
      sum_list (map entity_weight (w_reachable (final_walk h t n)))"
  proof (rule sum_list_matched [OF dist])
    fix r
    assume "r \<in> set (w_reachable (final_walk g s m))"
    then show "\<exists>r' \<in> set (w_reachable (final_walk h t n)). re_id r' = re_id r \<and> entity_weight r \<le> entity_weight r'"
      unfolding entity_weight_def using grown_counterpart [OF gr] hop_weight_mono by meson
  qed (simp add: entity_weight_def hop_weight_pos less_imp_le)
  then show "w_weighted (final_walk g s m) \<le> w_weighted (final_walk h t n)"
    using tot by (simp add: totalled_def)
  have "critical_count r \<le> critical_count r'"
    if "criticality_rank (re_criticality r) \<le> criticality_rank (re_criticality r')" for r r'
    using that criticality_rank_bounds [of "re_criticality r'"]
    by (auto simp: critical_count_def criticality_rank_def split: if_splits)
  then have "sum_list (map critical_count (w_reachable (final_walk g s m))) \<le>
      sum_list (map critical_count (w_reachable (final_walk h t n)))"
    using grown_counterpart [OF gr] by (intro sum_list_matched [OF dist]) (meson, simp add: critical_count_def)
  then show "w_critical (final_walk g s m) \<le> w_critical (final_walk h t n)"
    using tot unfolding totalled_def by (metis counts(1) of_nat_le_iff)
  have "sum_list (map (\<lambda>_. 1) (w_reachable (final_walk g s m))) \<le>
      (sum_list (map (\<lambda>_. 1) (w_reachable (final_walk h t n))) :: real)"
    by (rule sum_list_matched [OF dist]) (use grown_counterpart [OF gr] in auto)
  then show "length (w_reachable (final_walk g s m)) \<le> length (w_reachable (final_walk h t n))"
    by (metis counts(2) of_nat_le_iff)
qed

lemma member_le_weights:
  fixes f :: "'a \<Rightarrow> real"
  shows "x \<in> set xs \<Longrightarrow> (\<And>y. 0 \<le> f y) \<Longrightarrow> f x \<le> sum_list (map f xs)"
proof (induction xs)
  case (Cons y ys)
  moreover have "0 \<le> sum_list (map f ys)" using Cons.prems(2) by (intro sum_list_nonneg) auto
  ultimately show ?case by (auto simp: add_increasing)
qed simp

text \<open>A weight of 20 scores at least 50, because \<open>exp 0.8\<close> is at least 2.\<close>

lemma blast_score_critical: "50 \<le> blast_score 20"
proof -
  have "(1 + (4/5) / real (4::nat)) ^ 4 \<le> exp (4/5 :: real)"
    by (rule exp_ge_one_plus_x_over_n_power_n) simp_all
  then have "2 \<le> exp (4/5 :: real)" by (simp add: power4_eq_xxxx)
  then have "exp (- (4/5)) \<le> (1/2 :: real)" by (simp add: exp_minus field_simps)
  then have "50 \<le> 100 * (1 - exp (- 20 / 25 :: real))" by simp
  then have "go_round 50 \<le> go_round (100 * (1 - exp (- 20 / 25 :: real)))" by (intro go_round_mono) simp
  moreover have "go_round 50 = 50" by (simp add: go_round_def)
  ultimately show ?thesis by (simp add: blast_score_def Let_def)
qed

subsection \<open>Properties\<close>

text \<open>A small graph: an identity on a session, the session on a laptop, and two resources.\<close>

definition sample_entity :: "entity_type \<Rightarrow> string \<Rightarrow> criticality \<Rightarrow> entity" where
  "sample_entity t k c = observed_entity t k k c [] 1"

definition sample_graph :: sgraph where
  "sample_graph =
     upsert_edge ''endpoint:laptop'' ''cloud_resource:vault'' RelAccessed 3 ''e3''
       (upsert_edge ''session:s1'' ''endpoint:laptop'' RelUsedDevice 2 ''e2''
         (upsert_edge ''identity:amy'' ''session:s1'' RelOpenedSession 1 ''e1''
           (upsert_entity (sample_entity TypeCloudResource ''vault'' CriticalityCritical)
             (upsert_entity (sample_entity TypeEndpoint ''laptop'' CriticalityMedium)
               (upsert_entity (sample_entity TypeSession ''s1'' CriticalityMedium)
                 (upsert_entity (sample_entity TypeIdentity ''amy'' CriticalityHigh) new_graph))))))"

definition larger_graph :: sgraph where
  "larger_graph =
     upsert_edge ''identity:amy'' ''repository:core'' RelAccessed 4 ''e4''
       (upsert_entity (sample_entity TypeRepository ''core'' CriticalityHigh) sample_graph)"

lemma sample_graph_wf: "graph_wf sample_graph"
  unfolding sample_graph_def by (intro wf_intros)

lemma larger_graph_wf: "graph_wf larger_graph"
  unfolding larger_graph_def by (intro wf_intros sample_graph_wf)

lemma larger_graph_le: "graph_le sample_graph larger_graph"
  unfolding larger_graph_def by (intro upsert_edge_op.grows_from upsert_entity_grows)

text \<open>An event that grants a role on the vault to the identity.\<close>

definition sample_event :: security_event where
  "sample_event = zero_event\<lparr>ev_id := ''e9'', ev_timestamp := 9, ev_event_type := ''iam_role_granted'',
     ev_actor := Some \<lparr> actor_type = ''user'', actor_id = ''Amy'', actor_name = ''Amy'', actor_domain = [],
       actor_session_id = ''s2'', actor_privileged = True \<rparr>,
     ev_target := Some \<lparr> target_type = ''cloud_resource'', target_id = ''vault'', target_name = [],
       target_criticality = CriticalityCritical \<rparr>\<rparr>"

text \<open>
  C18 (functional): the walk lists an entity at \<open>n\<close> hops exactly when the shortest path of links
  from the seeds to it has \<open>n\<close> links and \<open>n\<close> is within the hop bound (three when the caller
  passes zero or less). Seeds that the graph does not know are ignored.
\<close>

theorem blast_radius_shortest_distances:
  assumes "graph_wf g"
  shows "(\<exists>r \<in> set (br_reachable (estimate_blast_radius g seeds mh)). re_id r = v \<and> re_hops r = n) \<longleftrightarrow>
    n \<le> hop_bound mh \<and> at_distance g (set seeds) n v"
  using final_recorded(1) [OF assms] by simp

theorem blast_radius_shortest_distances_witness:
  "at_distance sample_graph {''identity:amy''} 3 ''cloud_resource:vault'' \<and>
   \<not> (\<exists>r \<in> set (br_reachable (estimate_blast_radius sample_graph [''identity:amy''] 2)).
      re_id r = ''cloud_resource:vault'' \<and> re_hops r = 3)"
proof -
  have "\<exists>r \<in> set (br_reachable (estimate_blast_radius sample_graph [''identity:amy''] 0)).
      re_id r = ''cloud_resource:vault'' \<and> re_hops r = 3"
    unfolding estimate_fields by code_simp
  then have "at_distance sample_graph (set [''identity:amy'']) 3 ''cloud_resource:vault''"
    using blast_radius_shortest_distances [OF sample_graph_wf] by blast
  moreover have "\<not> (3::nat) \<le> hop_bound 2" by code_simp
  ultimately show ?thesis
    using blast_radius_shortest_distances [OF sample_graph_wf, of "[''identity:amy'']" 2] by simp
qed

text \<open>
  The link shown beside a reachable entity is real. A seed has none; any other
  entity is shown with a neighbour one hop closer and with the relation of an edge between the two.
\<close>

theorem blast_radius_provenance:
  assumes "graph_wf g" and "r \<in> set (br_reachable (estimate_blast_radius g seeds mh))"
  shows "if re_hops r = 0 then re_id r \<in> set seeds \<and> re_via r = [] \<and> re_from r = []
    else reach g (set seeds) (re_hops r - 1) (re_from r) \<and>
      (out_addr g (re_from r) (re_id r) (re_via r) \<noteq> None \<or> in_addr g (re_from r) (re_id r) (re_via r) \<noteq> None)"
proof -
  have "all_traced g (set seeds) (final_walk g seeds mh)"
    using assms(1) by (intro final_traced) (simp add: graph_wf_def)
  then have "traced g (set seeds) (re_hops r) (re_id r) (re_via r) (re_from r)"
    using assms(2) by (simp add: all_traced_def)
  moreover have "Step (re_id r) (re_via r) \<in> set (neighbour_steps g (re_from r)) \<Longrightarrow>
      out_addr g (re_from r) (re_id r) (re_via r) \<noteq> None \<or> in_addr g (re_from r) (re_id r) (re_via r) \<noteq> None"
    by (rule neighbour_step_addr)
  ultimately show ?thesis by (simp add: traced_def split: if_splits)
qed

theorem blast_radius_provenance_witness:
  "(let r = last (br_reachable (estimate_blast_radius sample_graph [''identity:amy''] 2))
    in re_hops r = 2 \<and> reach sample_graph (set [''identity:amy'']) 1 (re_from r))"
proof -
  let ?r = "last (br_reachable (estimate_blast_radius sample_graph [''identity:amy''] 2))"
  have "?r \<in> set (br_reachable (estimate_blast_radius sample_graph [''identity:amy''] 2))"
    by (rule last_in_set) (unfold reachable_sorted, code_simp)
  moreover have "re_hops ?r = 2" unfolding reachable_sorted by code_simp
  ultimately show ?thesis
    using blast_radius_provenance [OF sample_graph_wf, of ?r "[''identity:amy'']" 2] by simp
qed

text \<open>
  C20 (safety): exposure is never understated as knowledge grows. When the graph has only
  gained entities, edges and criticality, and the incident has at least the same entities
  and the same hop bound, the score and the number of critical assets do not fall.
\<close>

theorem blast_radius_monotone:
  assumes "graph_wf g" and "graph_wf h" and "graph_le g h"
    and "set seeds \<subseteq> set seeds'" and "hop_bound mh \<le> hop_bound mh'"
  shows "br_score (estimate_blast_radius g seeds mh) \<le> br_score (estimate_blast_radius h seeds' mh') \<and>
    br_critical_assets (estimate_blast_radius g seeds mh) \<le> br_critical_assets (estimate_blast_radius h seeds' mh') \<and>
    length (br_reachable (estimate_blast_radius g seeds mh)) \<le> length (br_reachable (estimate_blast_radius h seeds' mh'))"
proof -
  have gr: "grown g seeds mh h seeds' mh'" using assms by (simp add: grown_def)
  have "0 \<le> w_weighted (final_walk g seeds mh)" by (rule final_weighted_nonneg) (rule assms(1))
  then have "br_score (estimate_blast_radius g seeds mh) \<le> br_score (estimate_blast_radius h seeds' mh')"
    using grown_sums(1) [OF gr] by (simp add: blast_score_mono)
  then show ?thesis
    using grown_sums(2,3) [OF gr] by (metis estimate_fields(3,5) size_mset)
qed

theorem blast_radius_monotone_witness:
  "br_score (estimate_blast_radius sample_graph [''identity:amy''] 2) \<le>
     br_score (estimate_blast_radius larger_graph [''identity:amy'', ''endpoint:laptop''] 3) \<and>
   br_critical_assets (estimate_blast_radius sample_graph [''identity:amy''] 2) = 0 \<and>
   br_critical_assets (estimate_blast_radius larger_graph [''identity:amy'', ''endpoint:laptop''] 3) = 1"
proof (intro conjI)
  show "br_score (estimate_blast_radius sample_graph [''identity:amy''] 2) \<le>
     br_score (estimate_blast_radius larger_graph [''identity:amy'', ''endpoint:laptop''] 3)"
    using blast_radius_monotone [OF sample_graph_wf larger_graph_wf larger_graph_le,
        of "[''identity:amy'']" "[''identity:amy'', ''endpoint:laptop'']" 2 3]
    by (simp add: hop_bound_def)
  show "br_critical_assets (estimate_blast_radius sample_graph [''identity:amy''] 2) = 0"
    "br_critical_assets (estimate_blast_radius larger_graph [''identity:amy'', ''endpoint:laptop''] 3) = 1"
    unfolding estimate_fields by code_simp+
qed

text \<open>
  Every seed the graph knows feeds the estimate with its full weight, so the
  score is at least that of a single entity of that criticality; a critical seed alone
  gives at least 50 of 100.
\<close>

theorem blast_radius_seed_floor:
  assumes "graph_wf g" and "s \<in> set seeds" and "get_entity g s = Some e"
  shows "blast_score (criticality_weight (ent_criticality e)) \<le> br_score (estimate_blast_radius g seeds mh) \<and>
    (ent_criticality e = CriticalityCritical \<longrightarrow> 50 \<le> br_score (estimate_blast_radius g seeds mh))"
proof -
  let ?w = "final_walk g seeds mh"
  have "reach g (set seeds) 0 s" using assms(2,3) by (simp add: reach_0 has_entity_def)
  then have "at_distance g (set seeds) 0 s" by (simp add: at_distance_def)
  then obtain r where r: "r \<in> set (w_reachable ?w)" "re_id r = s" "re_hops r = 0"
    using final_recorded(1) [OF assms(1), of seeds mh s 0] by auto
  have tot: "totalled g ?w" using final_totalled assms(1) by (simp add: graph_wf_def)
  then have "re_criticality r = ent_criticality e" using r assms(3) by (fastforce simp: totalled_def)
  then have "entity_weight r = criticality_weight (ent_criticality e)"
    using r(3) by (simp add: entity_weight_def hop_weight_def)
  moreover have "entity_weight r \<le> w_weighted ?w"
    using tot member_le_weights [OF r(1), of entity_weight]
    by (simp add: totalled_def entity_weight_def hop_weight_pos less_imp_le)
  ultimately have le: "blast_score (criticality_weight (ent_criticality e)) \<le> blast_score (w_weighted ?w)"
    using criticality_weight_pos by (intro blast_score_mono) (simp_all add: less_imp_le)
  then show ?thesis using blast_score_critical by (auto simp: criticality_weight_simps)
qed

theorem blast_radius_seed_floor_witness:
  "50 \<le> br_score (estimate_blast_radius sample_graph [''cloud_resource:vault''] 1)"
proof -
  let ?e = "the (get_entity sample_graph ''cloud_resource:vault'')"
  have "get_entity sample_graph ''cloud_resource:vault'' = Some ?e" by code_simp
  moreover have "ent_criticality ?e = CriticalityCritical" by code_simp
  ultimately show ?thesis
    using blast_radius_seed_floor [OF sample_graph_wf, of "''cloud_resource:vault''" "[''cloud_resource:vault'']" ?e 1]
    by simp
qed

text \<open>
  C21 (invariant): projecting an event keeps the graph well-formed (the two adjacency maps
  are transposes and share their edges, evidence lists are bounded and free of repeats)
  and closed (every edge joins known entities), and every entity the event is correlated under is in
  the graph afterwards. No entity or edge is lost and no criticality lowered; and for an event with a
  timestamp, as normalization requires, nothing recorded of an entity or an edge is lost either, in the
  sense of \<open>graph_keeps\<close>: attributes and evidence identifiers stay, as do having a name and being
  observed, and the span of the sightings only widens. A name and the value of an attribute may be replaced by newer ones.
\<close>

theorem project_extends_graph:
  assumes "graph_wf g" and "graph_closed g"
  shows "graph_wf (project ev g) \<and> graph_closed (project ev g) \<and> graph_le g (project ev g) \<and>
    (\<not> is_zero_time (ev_timestamp ev) \<longrightarrow> graph_keeps g (project ev g)) \<and>
    (\<forall>k \<in> set (entity_ids_for_event ev). has_entity (project ev g) k)"
  using project_projecting [OF assms] project_grows entity_ids_has_entity project_keeps assms(1)
  by (simp add: projecting_def keeps_all_def)

theorem project_extends_graph_witness:
  "entity_ids_for_event sample_event = [''identity:amy'', ''session:s2'', ''cloud_resource:vault''] \<and>
   has_entity (project sample_event sample_graph) ''session:s2'' \<and>
   graph_closed (project sample_event sample_graph) \<and> graph_keeps sample_graph (project sample_event sample_graph)"
proof -
  have "has_entity sample_graph ''identity:amy'' \<and> has_entity sample_graph ''session:s1'' \<and>
    has_entity sample_graph ''endpoint:laptop'' \<and> has_entity sample_graph ''cloud_resource:vault''"
    unfolding has_entity_def by code_simp
  then have "graph_closed sample_graph"
    unfolding sample_graph_def
    by (intro upsert_edge_closed upsert_entity_closed new_graph_closed) simp_all
  moreover have "entity_ids_for_event sample_event = [''identity:amy'', ''session:s2'', ''cloud_resource:vault'']"
    by code_simp
  moreover have "\<not> is_zero_time (ev_timestamp sample_event)" by (simp add: sample_event_def is_zero_time_def)
  ultimately show ?thesis
    using project_extends_graph [OF sample_graph_wf, of sample_event] by simp
qed

text \<open>
  Applying an inventory keeps the same invariants whether it succeeds or stops
  at a bad entry: what was merged before the error stays, and the graph is still sound.
\<close>

theorem apply_inventory_keeps_graph:
  assumes "graph_wf g" and "graph_closed g" and "apply_inventory invt now g = (err, h)"
  shows "graph_wf h \<and> graph_closed h \<and> graph_le g h"
proof -
  obtain er ids g1 where e: "load_inventory_entities 0 (inv_entities invt) now [] g = (er, ids, g1)"
    by (metis prod_cases3)
  have g1: "graph_wf g1 \<and> graph_closed g1 \<and> graph_le g g1 \<and> (\<forall>k \<in> set ids. has_entity g1 k)"
    by (rule load_inventory_entities_ok [OF e assms(1,2)]) simp
  show ?thesis
  proof (cases er)
    case (Some x)
    then show ?thesis using g1 assms(3) by (simp add: apply_inventory_def e)
  next
    case None
    then have "load_inventory_edges 0 (inv_edges invt) now ids g1 = (err, h)"
      using assms(3) by (simp add: apply_inventory_def e)
    from load_inventory_edges_ok [OF this] g1 show ?thesis using graph_le_trans by blast
  qed
qed

theorem apply_inventory_keeps_graph_witness:
  "(let i = \<lparr> inv_entities = [\<lparr> inv_type = TypeService, inv_key = ''api'', inv_name = [], inv_criticality = [],
                inv_attributes = [] \<rparr>],
              inv_edges = [\<lparr> inv_from = ''service:api'', inv_to = ''service:db'', inv_relation = RelAccessed \<rparr>] \<rparr>
    in fst (apply_inventory i 5 new_graph) = Some (UnknownDestination 0 ''service:db'') \<and>
       graph_wf (snd (apply_inventory i 5 new_graph)))"
proof -
  let ?i = "\<lparr> inv_entities = [\<lparr> inv_type = TypeService, inv_key = ''api'', inv_name = [], inv_criticality = [],
                inv_attributes = [] \<rparr>],
              inv_edges = [\<lparr> inv_from = ''service:api'', inv_to = ''service:db'', inv_relation = RelAccessed \<rparr>] \<rparr>"
  have "fst (apply_inventory ?i 5 new_graph) = Some (UnknownDestination 0 ''service:db'')" by code_simp
  moreover have "graph_wf (snd (apply_inventory ?i 5 new_graph))"
    using apply_inventory_keeps_graph [OF new_graph_wf new_graph_closed, of ?i 5]
    by (metis prod.collapse)
  ultimately show ?thesis by simp
qed

subsection \<open>The walk ends\<close>

text \<open>The first \<open>n\<close> turns of the loop, a turn on an empty queue changing nothing.\<close>

primrec loop_turns :: "sgraph \<Rightarrow> nat \<Rightarrow> nat \<Rightarrow> walk_state \<Rightarrow> walk_state" where
  "loop_turns g h 0 w = w"
| "loop_turns g h (Suc n) w =
     (case w_queue w of [] \<Rightarrow> w | cur # rest \<Rightarrow> loop_turns g h n (visit g h cur (w\<lparr>w_queue := rest\<rparr>)))"

lemma loop_turns_walk:
  "unvisited g w + length (w_queue w) \<le> n \<Longrightarrow>
     w_queue (loop_turns g h n w) = [] \<and> walk g h w = loop_turns g h n w"
proof (induction n arbitrary: w)
  case 0
  then show ?case by (subst walk.simps) simp
next
  case (Suc n)
  show ?case
  proof (cases "w_queue w")
    case Nil
    then show ?thesis by (subst walk.simps) simp
  next
    case (Cons cur rest)
    have "unvisited g (w\<lparr>w_queue := rest\<rparr>) = unvisited g w" by (simp add: unvisited_def)
    then have "unvisited g (visit g h cur (w\<lparr>w_queue := rest\<rparr>)) + length (w_queue (visit g h cur (w\<lparr>w_queue := rest\<rparr>))) \<le> n"
      using visit_measure [of g h cur "w\<lparr>w_queue := rest\<rparr>"] Suc.prems Cons by simp
    then show ?thesis using Suc.IH by (subst walk.simps) (simp add: Cons)
  qed
qed

lemma start_walk_measure:
  "unvisited g (start_walk g seeds) + length (w_queue (start_walk g seeds)) \<le> card (set seeds \<union> peers g)"
proof -
  obtain v q where vq: "seed_walk g seeds [] [] = (v, q)" by (metis surj_pair)
  obtain news where news: "q = news" "distinct (map q_id news)" "q_id ` set news = {x \<in> set seeds. has_entity g x}"
    using seed_walk_queue [OF vq] by auto
  have "length (w_queue (start_walk g seeds)) = card (q_id ` set news)"
    using news(1,2) distinct_card [OF news(2)] by (simp add: start_walk_def vq)
  moreover have "unvisited g (start_walk g seeds) \<le> card (peers g - q_id ` set news)"
    unfolding unvisited_def
    by (rule card_mono) (auto simp: finite_peers news(3) start_walk_def vq seed_walk_visited [OF vq] split: if_splits)
  moreover have "card (peers g - q_id ` set news) + card (q_id ` set news) = card (peers g \<union> q_id ` set news)"
    by (subst card_Un_disjoint [symmetric]) (auto simp: finite_peers intro: arg_cong [where f = card])
  moreover have "card (peers g \<union> q_id ` set news) \<le> card (set seeds \<union> peers g)"
    by (rule card_mono) (auto simp: finite_peers news(3))
  ultimately show ?thesis by simp
qed

text \<open>
  C19 (termination): the walk ends, and turns at most once per identifier. For every graph, every list
  of seeds, repeated or unknown ones included, and every hop bound, the queue is empty after no more
  turns than there are distinct seeds and edge endpoints, cycles notwithstanding; and that state is
  what \<^verbatim>\<open>EstimateBlastRadius\<close> reads its result from.
\<close>

theorem walk_ends:
  "w_queue (loop_turns g (hop_bound mh) (card (set seeds \<union> peers g)) (start_walk g seeds)) = [] \<and>
   walk g (hop_bound mh) (start_walk g seeds) =
     loop_turns g (hop_bound mh) (card (set seeds \<union> peers g)) (start_walk g seeds)"
  by (rule loop_turns_walk) (rule start_walk_measure)

end
