(* ===== verification/Incidents.thy ===== *)
theory Incidents
  imports BlastRadius
begin

text \<open>
  The package \<^verbatim>\<open>src/internal/incidents\<close>: the catalog of response actions (\<^verbatim>\<open>catalog.go\<close>), which
  is the only source of an action's safety properties, and the records of findings, incidents,
  policy decisions and response actions (\<^verbatim>\<open>model.go\<close>).
\<close>

subsection \<open>The action catalog\<close>

record action_spec =
  spec_type :: string
  spec_title :: string
  spec_description :: string
  spec_destructive :: bool
  spec_reversible :: bool
  spec_rollback_action :: string
  spec_isolation :: bool
  spec_simulation_template :: string

definition safe_spec :: "string \<Rightarrow> string \<Rightarrow> string \<Rightarrow> bool \<Rightarrow> string \<Rightarrow> bool \<Rightarrow> string \<Rightarrow> action_spec" where
  "safe_spec t title desc reversible rollback isolation template =
     \<lparr> spec_type = t, spec_title = title, spec_description = desc, spec_destructive = False,
       spec_reversible = reversible, spec_rollback_action = rollback, spec_isolation = isolation,
       spec_simulation_template = template \<rparr>"

definition destructive_spec :: "string \<Rightarrow> string \<Rightarrow> string \<Rightarrow> action_spec" where
  "destructive_spec t title desc =
     \<lparr> spec_type = t, spec_title = title, spec_description = desc, spec_destructive = True,
       spec_reversible = False, spec_rollback_action = [], spec_isolation = False,
       spec_simulation_template = [] \<rparr>"

text \<open>The verb \<^verbatim>\<open>%d\<close> of a simulation template stands for the number of entities.\<close>

definition catalog :: "(string \<times> action_spec) list" where
  "catalog =
     [(''preserve_evidence'', safe_spec ''preserve_evidence'' ''Preserve evidence''
         ''Place a retention hold on the events, sessions and audit records linked to this incident.''
         True ''release_evidence_hold'' False
         ''Would place a retention hold on %d linked entities; no access is changed.''),
      (''require_mfa'', safe_spec ''require_mfa'' ''Require step-up MFA''
         ''Force a step-up authentication challenge on the identity's next sign-in.''
         True ''remove_mfa_requirement'' False
         ''Would require step-up authentication for %d identity-linked entities on next sign-in.''),
      (''temporarily_suspend_privileges'', safe_spec ''temporarily_suspend_privileges''
         ''Temporarily suspend elevated privileges''
         ''Remove the identity's elevated role assignments for a bounded period.''
         True ''restore_privileges'' False
         ''Would suspend elevated role assignments affecting %d entities until an analyst restores them.''),
      (''isolate_endpoint'', safe_spec ''isolate_endpoint'' ''Isolate endpoint''
         ''Cut the endpoint's network access except for the management channel.''
         True ''release_endpoint_isolation'' True
         ''Would place %d endpoint-linked entities into network isolation, management channel retained.''),
      (''revoke_sessions'', safe_spec ''revoke_sessions'' ''Revoke active sessions''
         ''Invalidate the identity's refresh and access tokens, forcing re-authentication.''
         False [] True
         ''Would invalidate active sessions across %d entities; affected users must re-authenticate.''),
      (''rotate_exposed_secret'', safe_spec ''rotate_exposed_secret'' ''Rotate exposed secret''
         ''Generate a new value for the exposed secret and retire the current one.''
         False [] False
         ''Would rotate the exposed secret and invalidate the current value for %d dependent entities.''),
      (''delete_identity'', destructive_spec ''delete_identity'' ''Delete identity''
         ''Permanently delete the identity object and its history.''),
      (''wipe_endpoint'', destructive_spec ''wipe_endpoint'' ''Wipe endpoint''
         ''Remotely erase the endpoint's storage.''),
      (''purge_audit_records'', destructive_spec ''purge_audit_records'' ''Purge audit records''
         ''Permanently delete audit records associated with the incident.'')]"

definition lookup_action :: "string \<Rightarrow> action_spec option" where
  "lookup_action action_type = map_of catalog action_type"

text \<open>The text of \<^verbatim>\<open>ErrUnknownActionType\<close> wrapped around the name that was asked for.\<close>

definition unknown_action_error :: "string \<Rightarrow> string" where
  "unknown_action_error action_type = ''unknown response action type: '' @ quote action_type"

definition known_action_types :: "string list" where
  "known_action_types = sort (map fst catalog)"

definition recommendable_action_types :: "string list" where
  "recommendable_action_types = sort (map fst (filter (\<lambda>(k, spec). \<not> spec_destructive spec) catalog))"

text \<open>Evaluating these facts once keeps the catalog folded in every later proof.\<close>

lemma catalog_cases:
  assumes "lookup_action t = Some spec"
  shows "(t, spec) \<in> set catalog"
  using assms by (simp add: lookup_action_def map_of_SomeD)

lemma catalog_distinct: "distinct (map fst catalog)"
  by (simp add: catalog_def)

lemma catalog_all:
  "\<forall>(t, spec) \<in> set catalog. spec_type spec = t \<and>
     (spec_reversible spec \<longleftrightarrow> spec_rollback_action spec \<noteq> []) \<and>
     (spec_destructive spec \<longrightarrow> \<not> spec_reversible spec)"
  unfolding catalog_def by (simp add: safe_spec_def destructive_spec_def)

lemma catalog_spec:
  assumes "lookup_action t = Some spec"
  shows "spec_type spec = t"
    and "spec_reversible spec \<longleftrightarrow> spec_rollback_action spec \<noteq> []"
    and "spec_destructive spec \<Longrightarrow> \<not> spec_reversible spec"
  using catalog_all catalog_cases [OF assms] by auto

lemma set_recommendable:
  "t \<in> set recommendable_action_types \<longleftrightarrow> (\<exists>spec. lookup_action t = Some spec \<and> \<not> spec_destructive spec)"
  using map_of_eq_Some_iff [OF catalog_distinct]
  by (force simp: recommendable_action_types_def lookup_action_def)

lemma set_known_action_types: "t \<in> set known_action_types \<longleftrightarrow> lookup_action t \<noteq> None"
  by (simp add: known_action_types_def lookup_action_def map_of_eq_None_iff)

subsection \<open>Findings and incidents\<close>

record technique =
  tech_id :: string
  tech_name :: string
  tech_tactic :: string

record finding =
  f_id :: string
  f_rule_id :: string
  f_title :: string
  f_description :: string
  f_category :: category
  f_severity :: severity
  f_confidence :: gofloat
  f_techniques :: "technique list"
  f_entity_ids :: "string list"
  f_event_ids :: "string list"
  f_first_seen :: time
  f_last_seen :: time

record entity_ref =
  ref_id :: string
  ref_type :: entity_type
  ref_name :: string
  ref_criticality :: criticality

record evidence =
  evd_event_id :: string
  evd_occurred_at :: time
  evd_category :: category
  evd_summary :: string
  evd_source_name :: string

type_synonym status = string

abbreviation StatusOpen :: status where "StatusOpen \<equiv> ''open''"
abbreviation StatusInvestigating :: status where "StatusInvestigating \<equiv> ''investigating''"
abbreviation StatusContained :: status where "StatusContained \<equiv> ''contained''"
abbreviation StatusClosed :: status where "StatusClosed \<equiv> ''closed''"

record recommended_action =
  ra_action_type :: string
  ra_title :: string
  ra_rationale :: string
  ra_reversible :: bool
  ra_destructive :: bool
  ra_rollback_action :: string
  ra_target_entity_id :: string
  ra_targets_critical_asset :: bool

record incident =
  inc_id :: string
  inc_schema_version :: string
  inc_title :: string
  inc_status :: status
  inc_severity :: severity
  inc_risk_score :: int
  inc_confidence :: real
  inc_first_seen :: time
  inc_last_seen :: time
  inc_updated_at :: time
  inc_primary_identity :: string
  inc_entities :: "entity_ref list"
  inc_findings :: "finding list"
  inc_attack_techniques :: "technique list"
  inc_blast_radius :: blast_radius
  inc_recommended_actions :: "recommended_action list"
  inc_evidence :: "evidence list"

abbreviation incident_schema_version :: string where "incident_schema_version \<equiv> ''0.1''"

text \<open>
  \<^verbatim>\<open>sortCategories\<close>: the inner loop moves the element at \<open>j\<close> down while it is smaller than its
  left neighbour; the outer loop does so for every position from 1.
\<close>

fun sift_down :: "nat \<Rightarrow> category list \<Rightarrow> category list" where
  "sift_down 0 c = c"
| "sift_down (Suc j) c =
     (if c ! Suc j < c ! j then sift_down j (c[Suc j := c ! j, j := c ! Suc j]) else c)"

definition sort_categories :: "category list \<Rightarrow> category list" where
  "sort_categories c = fold sift_down [1..<length c] c"

definition evidence_categories :: "incident \<Rightarrow> category list" where
  "evidence_categories i = sort_categories (remdups (map f_category (inc_findings i)))"

lemma sorted_mset_eq: "sorted xs \<Longrightarrow> sorted ys \<Longrightarrow> mset xs = mset ys \<Longrightarrow> xs = ys"
  by (metis properties_for_sort)

lemma sift_down_insort:
  "sorted pre \<Longrightarrow> sift_down (length pre) (pre @ x # post) = insort x pre @ post"
proof (induction pre arbitrary: post rule: rev_induct)
  case Nil
  then show ?case by simp
next
  case (snoc p ps)
  have sorted: "sorted ps" "\<forall>y \<in> set ps. y \<le> p" using snoc.prems by (simp_all add: sorted_append)
  show ?case
  proof (cases "x < p")
    case True
    have "((ps @ [p]) @ x # post)[Suc (length ps) := p, length ps := x] = ps @ x # p # post"
      by (simp add: list_update_append)
    moreover have "insort x (ps @ [p]) = insort x ps @ [p]"
      using True by (induction ps) auto
    ultimately show ?thesis
      using True snoc.IH [OF sorted(1)] by (simp add: nth_append)
  next
    case False
    then have "\<forall>y \<in> set (ps @ [p]). y \<le> x" using sorted(2) by auto
    then have "sorted ((ps @ [p]) @ [x])" using snoc.prems by (simp add: sorted_append)
    moreover have "sorted (insort x (ps @ [p]))" using snoc.prems by (rule sorted_insort [THEN iffD2])
    ultimately have "insort x (ps @ [p]) = (ps @ [p]) @ [x]"
      by (intro sorted_mset_eq) simp_all
    with False show ?thesis by (simp add: nth_append)
  qed
qed

lemma fold_sift_down:
  "i \<le> length c \<Longrightarrow> fold sift_down [0..<i] c = sort (take i c) @ drop i c"
proof (induction i)
  case (Suc i)
  have "sort (take i c) @ drop i c = sort (take i c) @ c ! i # drop (Suc i) c"
    using Suc.prems by (simp add: Cons_nth_drop_Suc)
  moreover have "length (sort (take i c)) = i" using Suc.prems by simp
  ultimately have "sift_down i (sort (take i c) @ drop i c) = insort (c ! i) (sort (take i c)) @ drop (Suc i) c"
    by (metis sift_down_insort sorted_sort)
  moreover have "insort (c ! i) (sort (take i c)) = sort (take (Suc i) c)"
    using Suc.prems by (intro sorted_mset_eq) (simp_all add: sorted_insort take_Suc_conv_app_nth)
  ultimately show ?case using Suc by simp
qed simp

lemma sort_categories_sort: "sort_categories c = sort c"
proof (cases c)
  case Nil
  then show ?thesis by (simp add: sort_categories_def)
next
  case (Cons x xs)
  have "fold sift_down [0..<length c] c = sort c" by (simp add: fold_sift_down)
  moreover have "[0..<length c] = 0 # [1..<length c]" using Cons by (simp add: upt_conv_Cons del: upt_Suc)
  ultimately show ?thesis by (simp add: sort_categories_def)
qed

lemma evidence_categories_eq: "evidence_categories i = sorted_keys (map f_category (inc_findings i))"
  by (simp add: evidence_categories_def sort_categories_sort sorted_keys_def)

subsection \<open>Response actions\<close>

type_synonym mode = string

abbreviation ModeSimulate :: mode where "ModeSimulate \<equiv> ''simulate''"
abbreviation ModeExecute :: mode where "ModeExecute \<equiv> ''execute''"

definition mode_valid :: "mode \<Rightarrow> bool" where
  "mode_valid m = (m = ModeSimulate \<or> m = ModeExecute)"

type_synonym action_status = string

abbreviation ActionSimulated :: action_status where "ActionSimulated \<equiv> ''simulated''"
abbreviation ActionRequiresApproval :: action_status where "ActionRequiresApproval \<equiv> ''requires_approval''"
abbreviation ActionDenied :: action_status where "ActionDenied \<equiv> ''denied''"
abbreviation ActionRejected :: action_status where "ActionRejected \<equiv> ''rejected''"

record policy_decision =
  pd_effect :: string
  pd_allow :: bool
  pd_reasons :: "string list"
  pd_policy_package :: string
  pd_policy_version :: string
  pd_evaluated_at :: time
  pd_fail_closed :: bool
  pd_engine :: string

record simulated_effect =
  sim_description :: string
  sim_affected_entities :: "string list"
  sim_rollback_plan :: string

record response_action =
  act_id :: string
  act_incident_id :: string
  act_action_type :: string
  act_mode :: mode
  act_status :: action_status
  act_requested_by :: string
  act_policy_decision :: "policy_decision option"
  act_reason :: string
  act_reversible :: bool
  act_destructive :: bool
  act_rollback_action :: string
  act_target_entity_id :: string
  act_simulated :: "simulated_effect option"
  act_created_at :: time
  act_executed_at :: "time option"

subsection \<open>Properties\<close>

text \<open>
  In the catalog an action counts as reversible exactly when it names a rollback, no
  destructive action is reversible, and the recommendable actions are the known ones that
  are not destructive.
\<close>

theorem catalog_safe:
  "(case lookup_action t of
      None \<Rightarrow> t \<notin> set known_action_types \<and> t \<notin> set recommendable_action_types
    | Some spec \<Rightarrow> t \<in> set known_action_types \<and> spec_type spec = t \<and>
        spec_reversible spec = (spec_rollback_action spec \<noteq> []) \<and>
        \<not> (spec_destructive spec \<and> spec_reversible spec) \<and>
        (t \<in> set recommendable_action_types) = (\<not> spec_destructive spec))"
proof (cases "lookup_action t")
  case None
  then show ?thesis by (simp add: set_recommendable set_known_action_types)
next
  case (Some spec)
  then show ?thesis
    using catalog_spec [OF Some] by (auto simp: set_recommendable set_known_action_types)
qed

text \<open>
  The hand-written insertion sort over the distinct categories of an incident's
  findings yields them in increasing order, each once, whatever order the map gave them in.
\<close>

theorem evidence_categories_sorted:
  "sort_categories cs = sort cs \<and> sorted (evidence_categories i) \<and> distinct (evidence_categories i) \<and>
   set (evidence_categories i) = f_category ` set (inc_findings i)"
  by (simp add: sort_categories_sort evidence_categories_eq)

end
