(* ===== verification/Risk.thy ===== *)
theory Risk
  imports Incidents
begin

text \<open>
  The scorer of \<^verbatim>\<open>src/internal/risk/score.go\<close>. Arithmetic on \<^verbatim>\<open>float64\<close> is that of the reals: the
  code's inputs are clamped to finite ranges first, and rounding errors are not modelled. The map
  \<^verbatim>\<open>byCategory\<close> is an association list; \<open>evidence_of\<close> and its companions describe it by sums over the
  set of categories, so that the score does not depend on the order of the map or of the findings.
\<close>

subsection \<open>The scorer\<close>

definition severity_weight_table :: "(severity \<times> real) list" where
  "severity_weight_table =
     [(SeverityInformational, 1), (SeverityLow, 3), (SeverityMedium, 7),
      (SeverityHigh, 13), (SeverityCritical, 20)]"

definition severity_weight :: "severity \<Rightarrow> real" where
  "severity_weight s =
     (case map_of severity_weight_table s of
        Some w \<Rightarrow> w
      | None \<Rightarrow> the (map_of severity_weight_table SeverityLow))"

definition category_boost :: real where "category_boost = 18 / 100"
definition critical_asset_boost :: real where "critical_asset_boost = 15 / 100"
definition blast_weight :: real where "blast_weight = 12 / 100"
definition saturation :: real where "saturation = 55"
definition max_confidence :: real where "max_confidence = 95 / 100"
definition repetition_ceiling :: real where "repetition_ceiling = 1 / 2"
definition repetition_half_life :: real where "repetition_half_life = 3"

lemmas scoring_constants =
  category_boost_def critical_asset_boost_def blast_weight_def saturation_def max_confidence_def
  repetition_ceiling_def repetition_half_life_def

record assessment =
  as_score :: int
  as_severity :: severity
  as_confidence :: real
  as_evidence_categories :: nat

record risk_input =
  in_findings :: "finding list"
  in_blast_score :: int
  in_touches_critical :: bool

fun clamp01 :: "gofloat \<Rightarrow> real" where
  "clamp01 NaN = 0"
| "clamp01 NegInf = 0"
| "clamp01 PosInf = 1"
| "clamp01 (Num v) = (if v < 0 then 0 else if v > 1 then 1 else v)"

definition clamp_int :: "int \<Rightarrow> int \<Rightarrow> int \<Rightarrow> int" where
  "clamp_int v lo hi = (if v < lo then lo else if v > hi then hi else v)"

definition severity_for_score :: "int \<Rightarrow> severity" where
  "severity_for_score score =
     (if score \<ge> 70 then SeverityCritical
      else if score \<ge> 45 then SeverityHigh
      else if score \<ge> 20 then SeverityMedium
      else if score > 0 then SeverityLow
      else SeverityInformational)"

definition repetition_factor :: "nat \<Rightarrow> real" where
  "repetition_factor n =
     (if n \<le> 1 then 1
      else 1 + repetition_ceiling * (1 - exp (- real (n - 1) / repetition_half_life)))"

record category_evidence =
  ce_best_weighted :: real
  ce_best_confidence :: real
  ce_count :: nat

definition no_category_evidence :: category_evidence where
  "no_category_evidence = \<lparr> ce_best_weighted = 0, ce_best_confidence = 0, ce_count = 0 \<rparr>"

text \<open>The body of the loop over the findings: one finding is counted in its category.\<close>

definition count_finding ::
  "finding \<Rightarrow> (category \<times> category_evidence) list \<Rightarrow> (category \<times> category_evidence) list" where
  "count_finding f by_category =
     (let w = severity_weight (f_severity f);
          conf = clamp01 (f_confidence f);
          agg = (case map_of by_category (f_category f) of Some a \<Rightarrow> a | None \<Rightarrow> no_category_evidence);
          agg1 = agg\<lparr>ce_count := ce_count agg + 1\<rparr>;
          agg2 = (if w * conf > ce_best_weighted agg1 then agg1\<lparr>ce_best_weighted := w * conf\<rparr> else agg1);
          agg3 = (if conf > ce_best_confidence agg2 then agg2\<lparr>ce_best_confidence := conf\<rparr> else agg2)
      in AList.update (f_category f) agg3 by_category)"

definition by_category :: "finding list \<Rightarrow> (category \<times> category_evidence) list" where
  "by_category fs = fold count_finding fs []"

definition aggregate_confidence :: "(category \<times> real) list \<Rightarrow> real" where
  "aggregate_confidence best =
     (if best = [] then 0
      else
        let remaining = prod_list (map (\<lambda>(c, conf). 1 - clamp01 (Num conf)) best);
            confidence = (if 1 - remaining > max_confidence then max_confidence else 1 - remaining)
        in of_int (go_round (confidence * 1000)) / 1000)"

definition saturate :: "real \<Rightarrow> int" where
  "saturate raw = clamp_int (go_round (100 * (1 - exp (- raw / saturation)))) 0 100"

definition assess :: "risk_input \<Rightarrow> assessment" where
  "assess inp =
     (if in_findings inp = [] then
        \<lparr> as_score = 0, as_severity = SeverityInformational, as_confidence = 0, as_evidence_categories = 0 \<rparr>
      else
        let aggs = by_category (in_findings inp);
            evidence = sum_list (map (\<lambda>(c, a). ce_best_weighted a * repetition_factor (ce_count a)) aggs);
            best = map (\<lambda>(c, a). (c, ce_best_confidence a)) aggs;
            categories = length aggs;
            factor0 = 1 + category_boost * (real categories - 1);
            factor = (if in_touches_critical inp then factor0 + critical_asset_boost else factor0);
            raw = evidence * factor + blast_weight * of_int (clamp_int (in_blast_score inp) 0 100);
            score = saturate raw
        in \<lparr> as_score = score, as_severity = severity_for_score score,
             as_confidence = aggregate_confidence best, as_evidence_categories = categories \<rparr>)"

subsection \<open>Basic facts\<close>

lemma clamp01_bounds: "0 \<le> clamp01 v \<and> clamp01 v \<le> 1"
  by (cases v) auto

lemma clamp01_Num: "0 \<le> v \<Longrightarrow> v \<le> 1 \<Longrightarrow> clamp01 (Num v) = v"
  by simp

lemma clamp_int_mono: "a \<le> b \<Longrightarrow> clamp_int a lo hi \<le> clamp_int b lo hi" if "lo \<le> hi"
  using that by (simp add: clamp_int_def)

lemma clamp_int_bounds: "lo \<le> hi \<Longrightarrow> lo \<le> clamp_int v lo hi \<and> clamp_int v lo hi \<le> hi"
  by (simp add: clamp_int_def)

lemma severity_weight_ge_1: "1 \<le> severity_weight s"
  by (auto simp: severity_weight_def severity_weight_table_def)

lemma severity_weight_le_20: "severity_weight s \<le> 20"
  by (auto simp: severity_weight_def severity_weight_table_def)

lemma severity_weight_rank:
  "severity_rank s < severity_rank t \<Longrightarrow> severity_weight s \<le> severity_weight t"
  by (auto simp: severity_weight_def severity_weight_table_def severity_rank_def severity_rank_table_def
      split: if_splits)

lemma severity_for_score_mono:
  "a \<le> b \<Longrightarrow> severity_rank (severity_for_score a) \<le> severity_rank (severity_for_score b)"
  by (auto simp: severity_for_score_def severity_rank_def severity_rank_table_def)

lemma repetition_factor_bounds: "1 \<le> repetition_factor n \<and> repetition_factor n < 1 + repetition_ceiling"
  by (simp add: repetition_factor_def repetition_ceiling_def repetition_half_life_def)

lemma repetition_factor_mono: "m \<le> n \<Longrightarrow> repetition_factor m \<le> repetition_factor n"
  by (auto simp: repetition_factor_def scoring_constants)

lemma saturate_mono: "0 \<le> x \<Longrightarrow> x \<le> y \<Longrightarrow> saturate x \<le> saturate y"
  unfolding saturate_def
  by (intro clamp_int_mono go_round_mono) (simp_all add: saturation_def)

text \<open>A raw value of 308 is 5.6 times the saturation constant, and \<open>exp 5.6\<close> is more than 200.\<close>

lemma saturate_top:
  assumes "308 \<le> r"
  shows "saturate r = 100"
proof -
  have "(1 + (56/10) / real (64::nat)) ^ 64 \<le> exp (56/10 :: real)"
    by (rule exp_ge_one_plus_x_over_n_power_n) simp_all
  moreover have "(200::real) \<le> (1 + (56/10) / real (64::nat)) ^ 64" by (simp add: power_divide)
  ultimately have "200 \<le> exp (56/10 :: real)" by linarith
  also have "\<dots> \<le> exp (r / 55)" using assms by simp
  finally have "exp (- r / 55) \<le> 1 / 200" by (simp add: exp_minus field_simps)
  then have top: "100 - 1/2 \<le> 100 * (1 - exp (- r / saturation))" by (simp add: saturation_def)
  then have "0 \<le> 100 * (1 - exp (- r / saturation))" by linarith
  with top have "100 \<le> go_round (100 * (1 - exp (- r / saturation)))"
    unfolding go_round_def by (simp add: le_floor_iff del: mult_le_cancel_left mult_le_cancel_left_pos)
  then show ?thesis unfolding saturate_def clamp_int_def by simp
qed

lemma saturate_bounds: "0 \<le> saturate x \<and> saturate x \<le> 100"
  by (simp add: saturate_def clamp_int_def)

subsection \<open>What the aggregation computes\<close>

definition finding_weight :: "finding \<Rightarrow> real" where
  "finding_weight f = severity_weight (f_severity f) * clamp01 (f_confidence f)"

definition in_category :: "finding list \<Rightarrow> category \<Rightarrow> finding list" where
  "in_category fs c = filter (\<lambda>f. f_category f = c) fs"

definition best_weight :: "finding list \<Rightarrow> category \<Rightarrow> real" where
  "best_weight fs c = Max (insert 0 (finding_weight ` set (in_category fs c)))"

definition best_confidence :: "finding list \<Rightarrow> category \<Rightarrow> real" where
  "best_confidence fs c = Max (insert 0 ((\<lambda>f. clamp01 (f_confidence f)) ` set (in_category fs c)))"

definition category_count :: "finding list \<Rightarrow> category \<Rightarrow> nat" where
  "category_count fs c = length (in_category fs c)"

definition categories_of :: "finding list \<Rightarrow> category set" where
  "categories_of fs = f_category ` set fs"

definition absorb :: "finding \<Rightarrow> category_evidence \<Rightarrow> category_evidence" where
  "absorb f a = \<lparr> ce_best_weighted = max (ce_best_weighted a) (finding_weight f),
     ce_best_confidence = max (ce_best_confidence a) (clamp01 (f_confidence f)), ce_count = ce_count a + 1 \<rparr>"

definition category_agg :: "(category \<times> category_evidence) list \<Rightarrow> category \<Rightarrow> category_evidence" where
  "category_agg m c = (case map_of m c of Some a \<Rightarrow> a | None \<Rightarrow> no_category_evidence)"

lemma count_finding_eq:
  "count_finding f m = AList.update (f_category f) (absorb f (category_agg m (f_category f))) m"
proof -
  let ?conf = "clamp01 (f_confidence f)" and ?w = "finding_weight f"
  have "(let agg1 = agg\<lparr>ce_count := ce_count agg + 1\<rparr>;
          agg2 = (if ?w > ce_best_weighted agg1 then agg1\<lparr>ce_best_weighted := ?w\<rparr> else agg1)
      in if ?conf > ce_best_confidence agg2 then agg2\<lparr>ce_best_confidence := ?conf\<rparr> else agg2) = absorb f agg"
    for agg
    by (cases agg) (simp add: absorb_def Let_def)
  from this [of "category_agg m (f_category f)"] show ?thesis
    unfolding count_finding_def category_agg_def Let_def finding_weight_def by simp
qed

lemma fold_count_keys:
  "fst ` set (fold count_finding fs m) = fst ` set m \<union> categories_of fs"
  by (induction fs arbitrary: m) (auto simp: count_finding_eq categories_of_def)

lemma fold_count_distinct:
  "distinct (map fst m) \<Longrightarrow> distinct (map fst (fold count_finding fs m))"
  by (induction fs arbitrary: m) (simp_all add: count_finding_eq)

lemma fold_count_agg:
  "category_agg (fold count_finding fs m) c = fold absorb (in_category fs c) (category_agg m c)"
proof (induction fs arbitrary: m)
  case (Cons f fs)
  have "category_agg (count_finding f m) c =
      (if f_category f = c then absorb f (category_agg m c) else category_agg m c)"
    by (auto simp: count_finding_eq category_agg_def)
  with Cons show ?case by (simp add: in_category_def)
qed (simp add: in_category_def)

lemma absorb_fields [simp]:
  "ce_best_weighted (absorb f a) = max (ce_best_weighted a) (finding_weight f)"
  "ce_best_confidence (absorb f a) = max (ce_best_confidence a) (clamp01 (f_confidence f))"
  "ce_count (absorb f a) = Suc (ce_count a)"
  by (simp_all add: absorb_def)

lemma Max_insert_max: "finite A \<Longrightarrow> Max (insert (max a b) A) = Max (insert a (insert b A))"
  for a b :: "'a::linorder"
  by (cases "A = {}") (simp_all add: max.assoc)

lemma fold_absorb:
  "ce_best_weighted (fold absorb fs a) = Max (insert (ce_best_weighted a) (finding_weight ` set fs))"
  "ce_best_confidence (fold absorb fs a) =
     Max (insert (ce_best_confidence a) ((\<lambda>f. clamp01 (f_confidence f)) ` set fs))"
  "ce_count (fold absorb fs a) = ce_count a + length fs"
proof (induction fs arbitrary: a)
  case (Cons f fs)
  {
    case 1
    then show ?case by (simp add: Cons.IH Max_insert_max del: Max_insert)
  next
    case 2
    then show ?case by (simp add: Cons.IH Max_insert_max del: Max_insert)
  next
    case 3
    then show ?case by (simp add: Cons.IH)
  }
qed simp_all

lemma by_category_agg:
  assumes "c \<in> categories_of fs"
  shows "map_of (by_category fs) c = Some \<lparr> ce_best_weighted = best_weight fs c,
    ce_best_confidence = best_confidence fs c, ce_count = category_count fs c \<rparr>"
proof -
  have "c \<in> fst ` set (by_category fs)" using assms by (simp add: by_category_def fold_count_keys)
  then obtain a where a: "map_of (by_category fs) c = Some a"
    by (metis map_of_None_keys option.exhaust)
  then have "a = category_agg (fold count_finding fs []) c"
    by (simp add: category_agg_def by_category_def)
  also have "\<dots> = fold absorb (in_category fs c) no_category_evidence"
    by (simp only: fold_count_agg) (simp add: category_agg_def)
  finally have "a = \<lparr> ce_best_weighted = best_weight fs c,
      ce_best_confidence = best_confidence fs c, ce_count = category_count fs c \<rparr>"
    by (intro category_evidence.equality)
      (simp_all add: fold_absorb best_weight_def best_confidence_def category_count_def no_category_evidence_def
        del: Max_insert)
  with a show ?thesis by simp
qed

lemma by_category_keys: "fst ` set (by_category fs) = categories_of fs" "distinct (map fst (by_category fs))"
  by (simp_all add: by_category_def fold_count_keys fold_count_distinct)

lemma length_by_category: "length (by_category fs) = card (categories_of fs)"
  by (metis by_category_keys distinct_card length_map list.set_map)

lemma over_map_sum:
  fixes h :: "'a \<Rightarrow> 'b \<Rightarrow> real"
  assumes "distinct (map fst m)"
  shows "sum_list (map (\<lambda>(k, v). h k v) m) = (\<Sum>k \<in> fst ` set m. h k (the (map_of m k)))"
  using assms
proof (induction m)
  case (Cons kv m)
  obtain k v where kv: "kv = (k, v)" by fastforce
  have "k \<notin> fst ` set m" using Cons.prems by (simp add: kv)
  then have "(\<Sum>j \<in> fst ` set m. h j (the (map_of (kv # m) j))) = (\<Sum>j \<in> fst ` set m. h j (the (map_of m j)))"
    by (intro sum.cong) (auto simp: kv)
  with Cons \<open>k \<notin> fst ` set m\<close> show ?case by (simp add: kv)
qed simp

lemma over_map_prod:
  fixes h :: "'a \<Rightarrow> 'b \<Rightarrow> real"
  assumes "distinct (map fst m)"
  shows "prod_list (map (\<lambda>(k, v). h k v) m) = (\<Prod>k \<in> fst ` set m. h k (the (map_of m k)))"
  using assms
proof (induction m)
  case (Cons kv m)
  obtain k v where kv: "kv = (k, v)" by fastforce
  have "k \<notin> fst ` set m" using Cons.prems by (simp add: kv)
  then have "(\<Prod>j \<in> fst ` set m. h j (the (map_of (kv # m) j))) = (\<Prod>j \<in> fst ` set m. h j (the (map_of m j)))"
    by (intro prod.cong) (auto simp: kv)
  with Cons \<open>k \<notin> fst ` set m\<close> show ?case by (simp add: kv)
qed simp

subsection \<open>The score as a function of the categories\<close>

definition evidence_of :: "finding list \<Rightarrow> real" where
  "evidence_of fs = (\<Sum>c \<in> categories_of fs. best_weight fs c * repetition_factor (category_count fs c))"

definition corroboration :: "finding list \<Rightarrow> bool \<Rightarrow> real" where
  "corroboration fs critical =
     1 + category_boost * (real (card (categories_of fs)) - 1) + (if critical then critical_asset_boost else 0)"

definition raw_risk :: "risk_input \<Rightarrow> real" where
  "raw_risk i = evidence_of (in_findings i) * corroboration (in_findings i) (in_touches_critical i) +
     blast_weight * of_int (clamp_int (in_blast_score i) 0 100)"

definition doubt :: "finding list \<Rightarrow> real" where
  "doubt fs = (\<Prod>c \<in> categories_of fs. 1 - best_confidence fs c)"

lemma Max_insert_0_bounds:
  assumes "finite A" and "\<forall>x \<in> A. x \<le> b" and "0 \<le> (b::real)"
  shows "0 \<le> Max (insert 0 A) \<and> Max (insert 0 A) \<le> b"
  using assms by (simp del: Max_insert)

lemma best_confidence_bounds: "0 \<le> best_confidence fs c \<and> best_confidence fs c \<le> 1"
  unfolding best_confidence_def by (rule Max_insert_0_bounds) (simp_all add: clamp01_bounds)

lemma finding_weight_bounds: "0 \<le> finding_weight f \<and> finding_weight f \<le> 20"
proof -
  have "0 \<le> severity_weight (f_severity f)" using severity_weight_ge_1 [of "f_severity f"] by linarith
  moreover have "severity_weight (f_severity f) * clamp01 (f_confidence f) \<le> 20 * 1"
    by (intro mult_mono) (simp_all add: severity_weight_le_20 clamp01_bounds)
  ultimately show ?thesis by (simp add: finding_weight_def clamp01_bounds)
qed

lemma best_weight_bounds: "0 \<le> best_weight fs c \<and> best_weight fs c \<le> 20"
  unfolding best_weight_def by (rule Max_insert_0_bounds) (simp_all add: finding_weight_bounds)

lemma assess_eq:
  "assess i =
     (if in_findings i = [] then
        \<lparr> as_score = 0, as_severity = SeverityInformational, as_confidence = 0, as_evidence_categories = 0 \<rparr>
      else \<lparr> as_score = saturate (raw_risk i), as_severity = severity_for_score (saturate (raw_risk i)),
         as_confidence = of_int (go_round (min max_confidence (1 - doubt (in_findings i)) * 1000)) / 1000,
         as_evidence_categories = card (categories_of (in_findings i)) \<rparr>)"
proof (cases "in_findings i = []")
  case False
  let ?fs = "in_findings i" and ?m = "by_category (in_findings i)"
  note keys = by_category_keys [of ?fs]
  have "sum_list (map (\<lambda>(c, a). ce_best_weighted a * repetition_factor (ce_count a)) ?m) = evidence_of ?fs"
    unfolding over_map_sum [OF keys(2)] keys(1) evidence_of_def
    by (rule sum.cong) (simp_all add: by_category_agg)
  moreover have "prod_list (map (\<lambda>(c, a). 1 - clamp01 (Num (ce_best_confidence a))) ?m) = doubt ?fs"
    unfolding over_map_prod [OF keys(2)] keys(1) doubt_def
    by (rule prod.cong) (simp_all add: by_category_agg clamp01_Num best_confidence_bounds del: clamp01.simps)
  moreover have "?m \<noteq> []" using False keys(1) by (auto simp: categories_of_def)
  ultimately show ?thesis
    using False
    by (simp add: assess_def Let_def aggregate_confidence_def raw_risk_def corroboration_def length_by_category
        comp_def case_prod_unfold min_def del: clamp01.simps)
qed (simp add: assess_def)

subsection \<open>Growth\<close>

text \<open>
  \<open>evidence_le xs ys\<close>: in every category \<open>ys\<close> has at least as many findings and at least as strong
  a finding. Adding findings or strengthening one keeps it.
\<close>

definition evidence_le :: "finding list \<Rightarrow> finding list \<Rightarrow> bool" where
  "evidence_le xs ys \<longleftrightarrow>
     (\<forall>c. category_count xs c \<le> category_count ys c \<and> best_weight xs c \<le> best_weight ys c \<and>
        best_confidence xs c \<le> best_confidence ys c)"

lemma evidence_le_refl [simp]: "evidence_le xs xs"
  by (simp add: evidence_le_def)

lemma evidence_le_trans: "evidence_le xs ys \<Longrightarrow> evidence_le ys zs \<Longrightarrow> evidence_le xs zs"
  unfolding evidence_le_def by (meson order_trans)

lemma categories_count: "categories_of fs = {c. 0 < category_count fs c}"
  by (auto simp: categories_of_def category_count_def in_category_def filter_empty_conv length_greater_0_conv)

lemma evidence_le_categories: "evidence_le xs ys \<Longrightarrow> categories_of xs \<subseteq> categories_of ys"
  by (auto simp: categories_count evidence_le_def) (meson order_less_le_trans)

lemma finite_categories [simp]: "finite (categories_of fs)"
  by (simp add: categories_of_def)

lemma evidence_of_nonneg: "0 \<le> evidence_of fs"
  unfolding evidence_of_def
  by (intro sum_nonneg mult_nonneg_nonneg)
    (use best_weight_bounds repetition_factor_bounds in \<open>auto intro: order_trans [OF zero_le_one]\<close>)

lemma evidence_of_mono:
  assumes "evidence_le xs ys"
  shows "evidence_of xs \<le> evidence_of ys"
proof -
  have term_le: "best_weight xs c * repetition_factor (category_count xs c) \<le>
      best_weight ys c * repetition_factor (category_count ys c)" for c
    using assms best_weight_bounds [of ys c] repetition_factor_bounds [of "category_count xs c"]
    by (intro mult_mono repetition_factor_mono) (auto simp: evidence_le_def)
  have pos: "0 \<le> best_weight ys c * repetition_factor (category_count ys c)" for c
    using best_weight_bounds [of ys c] repetition_factor_bounds [of "category_count ys c"] by simp
  have "evidence_of xs \<le> (\<Sum>c \<in> categories_of xs. best_weight ys c * repetition_factor (category_count ys c))"
    unfolding evidence_of_def by (rule sum_mono) (rule term_le)
  also have "\<dots> \<le> evidence_of ys"
    unfolding evidence_of_def
    by (rule sum_mono2) (use evidence_le_categories [OF assms] pos in auto)
  finally show ?thesis .
qed

lemma corroboration_mono:
  assumes "evidence_le xs ys" and "p \<longrightarrow> q"
  shows "corroboration xs p \<le> corroboration ys q"
proof -
  have "card (categories_of xs) \<le> card (categories_of ys)"
    by (intro card_mono evidence_le_categories assms) simp
  then have "real (card (categories_of xs)) \<le> real (card (categories_of ys))" by simp
  with assms(2) show ?thesis unfolding corroboration_def scoring_constants by (simp; argo)
qed

lemma corroboration_pos: "0 < corroboration xs p"
proof -
  have "0 \<le> real (card (categories_of xs))" by simp
  then show ?thesis unfolding corroboration_def scoring_constants by (simp; argo)
qed

lemma raw_risk_mono:
  assumes "evidence_le (in_findings i) (in_findings j)" and "in_blast_score i \<le> in_blast_score j"
    and "in_touches_critical i \<longrightarrow> in_touches_critical j"
  shows "raw_risk i \<le> raw_risk j"
proof -
  have "evidence_of (in_findings i) * corroboration (in_findings i) (in_touches_critical i) \<le>
      evidence_of (in_findings j) * corroboration (in_findings j) (in_touches_critical j)"
    using assms by (intro mult_mono evidence_of_mono corroboration_mono)
      (simp_all add: evidence_of_nonneg corroboration_pos less_imp_le)
  moreover have "clamp_int (in_blast_score i) 0 100 \<le> clamp_int (in_blast_score j) 0 100"
    by (intro clamp_int_mono) (simp_all add: assms)
  ultimately show ?thesis by (simp add: raw_risk_def blast_weight_def)
qed

lemma raw_risk_nonneg: "0 \<le> raw_risk i"
  using evidence_of_nonneg corroboration_pos clamp_int_bounds [of 0 100 "in_blast_score i"]
  by (simp add: raw_risk_def blast_weight_def less_imp_le)

lemma doubt_bounds: "0 \<le> doubt fs \<and> doubt fs \<le> 1"
  unfolding doubt_def using best_confidence_bounds [of fs]
  by (intro conjI prod_nonneg prod_le_1) auto

lemma doubt_mono:
  assumes "evidence_le xs ys"
  shows "doubt ys \<le> doubt xs"
proof -
  have sub: "categories_of xs \<subseteq> categories_of ys" by (rule evidence_le_categories [OF assms])
  have "doubt ys = (\<Prod>c \<in> categories_of xs. 1 - best_confidence ys c) *
      (\<Prod>c \<in> categories_of ys - categories_of xs. 1 - best_confidence ys c)"
    unfolding doubt_def using sub by (simp add: prod.subset_diff mult.commute)
  also have "\<dots> \<le> (\<Prod>c \<in> categories_of xs. 1 - best_confidence ys c) * 1"
    using best_confidence_bounds [of ys]
    by (intro mult_left_mono prod_le_1 prod_nonneg) auto
  also have "\<dots> \<le> doubt xs"
    unfolding doubt_def using best_confidence_bounds [of ys] assms
    by (auto intro!: prod_mono simp: evidence_le_def)
  finally show ?thesis .
qed

definition rounded_confidence :: "finding list \<Rightarrow> real" where
  "rounded_confidence fs = of_int (go_round (min max_confidence (1 - doubt fs) * 1000)) / 1000"

lemma capped_confidence_nonneg: "0 \<le> min max_confidence (1 - doubt fs) * 1000"
  using doubt_bounds [of fs] by (simp add: max_confidence_def)

lemma rounded_confidence_mono:
  assumes "evidence_le xs ys"
  shows "rounded_confidence xs \<le> rounded_confidence ys"
proof -
  have "min max_confidence (1 - doubt xs) \<le> min max_confidence (1 - doubt ys)"
    using doubt_mono [OF assms] by (intro min.mono) simp_all
  then have "go_round (min max_confidence (1 - doubt xs) * 1000) \<le> go_round (min max_confidence (1 - doubt ys) * 1000)"
    by (intro go_round_mono capped_confidence_nonneg) simp
  then show ?thesis by (simp add: rounded_confidence_def)
qed

lemma rounded_confidence_bounds: "0 \<le> rounded_confidence fs \<and> rounded_confidence fs \<le> max_confidence"
proof -
  have "min max_confidence (1 - doubt fs) \<le> max_confidence" by simp
  then have r: "0 \<le> min max_confidence (1 - doubt fs) * 1000" "min max_confidence (1 - doubt fs) * 1000 \<le> of_int 950"
    unfolding max_confidence_def using capped_confidence_nonneg [of fs] by (simp_all add: max_confidence_def)
  have "go_round (min max_confidence (1 - doubt fs) * 1000) \<le> 950" by (rule go_round_le [OF r])
  then have "of_int (go_round (min max_confidence (1 - doubt fs) * 1000)) \<le> (950::real)" by linarith
  with go_round_nonneg [OF r(1)] show ?thesis by (simp add: rounded_confidence_def max_confidence_def)
qed

lemma assess_fields:
  "as_score (assess i) = (if in_findings i = [] then 0 else saturate (raw_risk i))"
  "as_confidence (assess i) = (if in_findings i = [] then 0 else rounded_confidence (in_findings i))"
  "as_severity (assess i) = severity_for_score (as_score (assess i))"
  "as_evidence_categories (assess i) = card (categories_of (in_findings i))"
  by (simp_all add: assess_eq rounded_confidence_def severity_for_score_def categories_of_def)

lemma assess_mono:
  assumes "evidence_le (in_findings i) (in_findings j)" and "in_blast_score i \<le> in_blast_score j"
    and "in_touches_critical i \<longrightarrow> in_touches_critical j"
  shows "as_score (assess i) \<le> as_score (assess j) \<and> as_confidence (assess i) \<le> as_confidence (assess j) \<and>
    as_evidence_categories (assess i) \<le> as_evidence_categories (assess j) \<and>
    severity_rank (as_severity (assess i)) \<le> severity_rank (as_severity (assess j))"
proof -
  have "in_findings i = []" if "in_findings j = []"
    using evidence_le_categories [OF assms(1)] that by (simp add: categories_of_def)
  moreover have "card (categories_of (in_findings i)) \<le> card (categories_of (in_findings j))"
    by (intro card_mono evidence_le_categories assms) simp
  moreover have "saturate (raw_risk i) \<le> saturate (raw_risk j)"
    by (intro saturate_mono raw_risk_nonneg raw_risk_mono assms)
  ultimately have score: "as_score (assess i) \<le> as_score (assess j)"
      and rest: "as_evidence_categories (assess i) \<le> as_evidence_categories (assess j)"
        "as_confidence (assess i) \<le> as_confidence (assess j)"
    using saturate_bounds rounded_confidence_bounds rounded_confidence_mono [OF assms(1)]
    by (simp_all add: assess_fields)
  with severity_for_score_mono [OF score] show ?thesis by (simp add: assess_fields(3))
qed

text \<open>Adding findings, in any position, only adds evidence.\<close>

lemma in_category_mset: "mset (in_category fs c) = filter_mset (\<lambda>f. f_category f = c) (mset fs)"
  by (simp add: in_category_def mset_filter)

lemma mset_evidence_le:
  assumes "mset xs \<subseteq># mset ys"
  shows "evidence_le xs ys"
proof -
  have sub: "mset (in_category xs c) \<subseteq># mset (in_category ys c)" for c
    unfolding in_category_mset by (rule multiset_filter_mono [OF assms])
  then have "length (in_category xs c) \<le> length (in_category ys c)" for c
    by (metis size_mset size_mset_mono)
  moreover have "set (in_category xs c) \<subseteq> set (in_category ys c)" for c
    using sub [of c] by (metis set_mset_mono set_mset_mset)
  ultimately show ?thesis
    unfolding evidence_le_def category_count_def best_weight_def best_confidence_def
    by (intro allI conjI Max_mono insert_mono image_mono) simp_all
qed

subsection \<open>Properties\<close>

definition sample_finding :: "string \<Rightarrow> category \<Rightarrow> severity \<Rightarrow> real \<Rightarrow> finding" where
  "sample_finding rule cat sev conf =
     \<lparr> f_id = ''finding-'' @ rule, f_rule_id = rule, f_title = rule, f_description = [], f_category = cat,
       f_severity = sev, f_confidence = Num conf, f_techniques = [], f_entity_ids = [], f_event_ids = [],
       f_first_seen = 1, f_last_seen = 1 \<rparr>"

lemma sample_finding_simps [simp]:
  "f_category (sample_finding r c s v) = c" "f_severity (sample_finding r c s v) = s"
  "f_confidence (sample_finding r c s v) = Num v"
  by (simp_all add: sample_finding_def)

text \<open>
  C1 (safety): risk is monotone. More findings, in any order, a larger blast radius or a critical
  asset never lower the score, the confidence, the number of evidence categories or the severity.
\<close>

theorem risk_monotone:
  assumes "mset xs \<subseteq># mset ys" and "b \<le> b'" and "critical \<longrightarrow> critical'"
  shows "(let a = assess \<lparr> in_findings = xs, in_blast_score = b, in_touches_critical = critical \<rparr>;
              a' = assess \<lparr> in_findings = ys, in_blast_score = b', in_touches_critical = critical' \<rparr>
          in as_score a \<le> as_score a' \<and> as_confidence a \<le> as_confidence a' \<and>
             as_evidence_categories a \<le> as_evidence_categories a' \<and>
             severity_rank (as_severity a) \<le> severity_rank (as_severity a'))"
  unfolding Let_def using assms by (intro assess_mono) (simp_all add: mset_evidence_le)

theorem risk_monotone_witness:
  "(let f = sample_finding ''a'' CategoryAuthentication SeverityHigh (4/5);
        g = sample_finding ''b'' CategoryCloudAccess SeverityLow (1/2)
    in as_score (assess \<lparr> in_findings = [f], in_blast_score = 10, in_touches_critical = False \<rparr>) \<le>
       as_score (assess \<lparr> in_findings = [g, f], in_blast_score = 40, in_touches_critical = True \<rparr>))"
proof -
  let ?f = "sample_finding ''a'' CategoryAuthentication SeverityHigh (4/5)"
  let ?g = "sample_finding ''b'' CategoryCloudAccess SeverityLow (1/2)"
  have "mset [?f] \<subseteq># mset [?g, ?f]" by simp
  from risk_monotone [OF this, of 10 40 False True] show ?thesis by (simp add: Let_def)
qed

text \<open>
  C40 (bounds): the score lies between 0 and 100, the confidence between 0 and 0.95, the severity
  is the one of the score's band, and evidence is counted in distinct categories.
\<close>

theorem risk_bounded:
  "0 \<le> as_score (assess i) \<and> as_score (assess i) \<le> 100 \<and> 0 \<le> as_confidence (assess i) \<and>
   as_confidence (assess i) \<le> 95 / 100 \<and> as_severity (assess i) = severity_for_score (as_score (assess i)) \<and>
   as_evidence_categories (assess i) = card (f_category ` set (in_findings i))"
  using saturate_bounds rounded_confidence_bounds [of "in_findings i"]
  by (simp add: assess_fields max_confidence_def categories_of_def)

text \<open>
  The score has no hidden inputs: it does not depend on the order of the findings
  or on the order in which the map of categories is walked.
\<close>

theorem risk_order_independent:
  assumes "mset xs = mset ys"
  shows "assess \<lparr> in_findings = xs, in_blast_score = b, in_touches_critical = critical \<rparr> =
    assess \<lparr> in_findings = ys, in_blast_score = b, in_touches_critical = critical \<rparr>"
proof -
  let ?i = "\<lparr> in_findings = xs, in_blast_score = b, in_touches_critical = critical \<rparr>"
  let ?j = "\<lparr> in_findings = ys, in_blast_score = b, in_touches_critical = critical \<rparr>"
  have "evidence_le xs ys" "evidence_le ys xs" using assms by (simp_all add: mset_evidence_le)
  then have "as_score (assess ?i) = as_score (assess ?j)" "as_confidence (assess ?i) = as_confidence (assess ?j)"
    "as_evidence_categories (assess ?i) = as_evidence_categories (assess ?j)"
    using assess_mono [of ?i ?j] assess_mono [of ?j ?i] by simp_all
  then show ?thesis
    by (intro assessment.equality) (simp_all add: assess_fields(3))
qed

theorem risk_order_independent_witness:
  "(let f = sample_finding ''a'' CategoryAuthentication SeverityHigh (4/5);
        g = sample_finding ''b'' CategoryAuthentication SeverityLow 1
    in assess \<lparr> in_findings = [f, g], in_blast_score = 10, in_touches_critical = False \<rparr> =
       assess \<lparr> in_findings = [g, f], in_blast_score = 10, in_touches_critical = False \<rparr>)"
  unfolding Let_def by (rule risk_order_independent) simp

text \<open>
  Corroboration outweighs repetition. However many findings of one category there
  are, they score no more than two findings of different categories that each weigh as much
  as the strongest of them.
\<close>

theorem risk_corroboration_beats_repetition:
  assumes "\<forall>h \<in> set fs. f_category h = c \<and> finding_weight h \<le> finding_weight f \<and> finding_weight h \<le> finding_weight g"
    and "f_category f \<noteq> f_category g"
  shows "as_score (assess \<lparr> in_findings = fs, in_blast_score = b, in_touches_critical = critical \<rparr>) \<le>
    as_score (assess \<lparr> in_findings = [f, g], in_blast_score = b, in_touches_critical = critical \<rparr>)"
proof (cases "fs = []")
  case True
  then show ?thesis using saturate_bounds by (simp add: assess_fields)
next
  case False
  let ?d = "if critical then critical_asset_boost else 0"
  let ?w = "min (finding_weight f) (finding_weight g)"
  have w: "0 \<le> ?w" using finding_weight_bounds by simp
  have one: "categories_of fs = {c}" using False assms(1) by (cases fs) (auto simp: categories_of_def)
  have two: "categories_of [f, g] = {f_category f, f_category g}" by (simp add: categories_of_def)
  have "best_weight fs c \<le> ?w"
    using assms(1) w unfolding best_weight_def by (auto simp: in_category_def simp del: Max_insert)
  moreover have "repetition_factor (category_count fs c) \<le> 3/2"
    using repetition_factor_bounds [of "category_count fs c"] by (simp add: repetition_ceiling_def)
  ultimately have "best_weight fs c * repetition_factor (category_count fs c) \<le> ?w * (3/2)"
    using w repetition_factor_bounds [of "category_count fs c"] by (intro mult_mono) auto
  then have ev1: "evidence_of fs \<le> ?w * (3/2)" by (simp add: evidence_of_def one)
  have "best_weight [f, g] (f_category f) = finding_weight f" "best_weight [f, g] (f_category g) = finding_weight g"
    using assms(2) finding_weight_bounds by (auto simp: best_weight_def in_category_def)
  moreover have "category_count [f, g] (f_category f) = 1" "category_count [f, g] (f_category g) = 1"
    using assms(2) by (auto simp: category_count_def in_category_def)
  ultimately have ev2: "evidence_of [f, g] = finding_weight f + finding_weight g"
    using assms(2) by (simp add: evidence_of_def two repetition_factor_def)
  have "evidence_of fs * corroboration fs critical \<le> ?w * (3/2) * (1 + ?d)"
    using ev1 by (intro mult_mono) (simp_all add: corroboration_def one w scoring_constants finding_weight_bounds)
  also have "\<dots> \<le> (2 * ?w) * (1 + category_boost + ?d)"
    using w by (auto simp: scoring_constants)
  also have "\<dots> \<le> evidence_of [f, g] * corroboration [f, g] critical"
    using assms(2) w by (intro mult_mono) (simp_all add: ev2 corroboration_def two scoring_constants)
  finally have "raw_risk \<lparr> in_findings = fs, in_blast_score = b, in_touches_critical = critical \<rparr> \<le>
      raw_risk \<lparr> in_findings = [f, g], in_blast_score = b, in_touches_critical = critical \<rparr>"
    by (simp add: raw_risk_def)
  then show ?thesis using False by (simp add: assess_fields saturate_mono raw_risk_nonneg)
qed

theorem risk_corroboration_beats_repetition_witness:
  "(let f = sample_finding ''a'' CategoryAuthentication SeverityMedium (4/5);
        g = sample_finding ''b'' CategoryCloudAccess SeverityMedium (4/5)
    in as_score (assess \<lparr> in_findings = replicate 20 f, in_blast_score = 10, in_touches_critical = False \<rparr>) \<le>
       as_score (assess \<lparr> in_findings = [f, g], in_blast_score = 10, in_touches_critical = False \<rparr>))"
  unfolding Let_def
  by (rule risk_corroboration_beats_repetition [where c = CategoryAuthentication])
    (simp_all add: finding_weight_def)

text \<open>
  Seven certain critical findings of different categories on a critical asset
  with the largest blast radius score exactly 100, because the score is rounded.
\<close>

theorem risk_reaches_100:
  "as_score (assess
     \<lparr> in_findings = map (\<lambda>c. sample_finding c c SeverityCritical 1)
         [CategoryAuthentication, CategorySessionAnomaly, CategoryPrivilegeEscalation, CategoryCredentialAccess,
          CategoryCloudAccess, CategoryDataAccess, CategoryConfigChange],
       in_blast_score = 100, in_touches_critical = True \<rparr>) = 100"
proof -
  let ?cs = "[CategoryAuthentication, CategorySessionAnomaly, CategoryPrivilegeEscalation, CategoryCredentialAccess,
          CategoryCloudAccess, CategoryDataAccess, CategoryConfigChange]"
  let ?fs = "map (\<lambda>c. sample_finding c c SeverityCritical 1) ?cs"
  let ?i = "\<lparr> in_findings = ?fs, in_blast_score = 100, in_touches_critical = True \<rparr>"
  have cats: "categories_of ?fs = set ?cs" by (simp add: categories_of_def)
  have "in_category ?fs c = [sample_finding c c SeverityCritical 1]" if "c \<in> set ?cs" for c
    using that by (auto simp: in_category_def)
  then have "best_weight ?fs c * repetition_factor (category_count ?fs c) = 20" if "c \<in> set ?cs" for c
    using that by (simp add: best_weight_def category_count_def repetition_factor_def finding_weight_def
        severity_weight_def severity_weight_table_def)
  then have "evidence_of ?fs = (\<Sum>c \<in> set ?cs. 20)"
    unfolding evidence_of_def cats by (rule sum.cong [OF refl])
  also have "\<dots> = 140" by simp
  finally have ev: "evidence_of ?fs = 140" .
  have "card (categories_of ?fs) = 7" unfolding cats by simp
  then have raw: "raw_risk ?i = 140 * (223/100) + 12"
    using ev by (simp add: raw_risk_def corroboration_def scoring_constants clamp_int_def)
  then have "saturate (raw_risk ?i) = 100" by (intro saturate_top) simp
  then show ?thesis by (simp add: assess_fields)
qed

end
