(* ===== verification/Rules.thy ===== *)
theory Rules
  imports Risk
begin

text \<open>
  The declarative detection rules of \<^verbatim>\<open>src/internal/correlation/rules.go\<close>: the closed list of
  event fields a rule may read, the evaluation of conditions, validation and loading. The YAML
  decoder and the file system are not under \<^verbatim>\<open>src/\<close>: what they return is an argument.
\<close>

subsection \<open>Rules\<close>

record condition =
  c_field :: string
  c_equals :: string
  c_not_equals :: string
  c_in :: "string list"
  c_exists :: "bool option"

record threshold =
  th_count :: int
  th_window :: duration

record rule =
  r_id :: string
  r_title :: string
  r_description :: string
  r_category :: category
  r_severity :: severity
  r_confidence :: gofloat
  r_techniques :: "technique list"
  r_event_types :: "string list"
  r_conditions :: "condition list"
  r_threshold :: "threshold option"

subsection \<open>Fields\<close>

text \<open>The Go pair of a value and a presence flag is an option: an absent value is never read.\<close>

definition nonempty :: "string \<Rightarrow> string option" where
  "nonempty s = (if s \<noteq> [] then Some s else None)"

definition actor_field :: "security_event \<Rightarrow> string \<Rightarrow> string option" where
  "actor_field e f =
     (case ev_actor e of
        None \<Rightarrow> None
      | Some a \<Rightarrow>
          if f = ''type'' then nonempty (actor_type a)
          else if f = ''domain'' then nonempty (actor_domain a)
          else if f = ''privileged'' then Some (bool_string (actor_privileged a))
          else None)"

definition target_field :: "security_event \<Rightarrow> string \<Rightarrow> string option" where
  "target_field e f =
     (case ev_target e of
        None \<Rightarrow> None
      | Some t \<Rightarrow>
          if f = ''type'' then nonempty (target_type t)
          else if f = ''criticality'' then nonempty (target_criticality t)
          else None)"

definition device_field :: "security_event \<Rightarrow> string \<Rightarrow> string option" where
  "device_field e f =
     (case ev_device e of
        None \<Rightarrow> None
      | Some d \<Rightarrow>
          if f = ''os'' then nonempty (device_os d)
          else if f = ''managed'' then map_option bool_string (device_managed d)
          else if f = ''compliant'' then map_option bool_string (device_compliant d)
          else None)"

definition allowed_fields :: "(string \<times> (security_event \<Rightarrow> string option)) list" where
  "allowed_fields =
     [(''event_type'', \<lambda>e. nonempty (ev_event_type e)),
      (''category'', \<lambda>e. nonempty (ev_category e)),
      (''severity'', \<lambda>e. nonempty (ev_severity e)),
      (''source_type'', \<lambda>e. nonempty (ev_source_type e)),
      (''source_name'', \<lambda>e. nonempty (ev_source_name e)),
      (''actor.type'', \<lambda>e. actor_field e ''type''),
      (''actor.domain'', \<lambda>e. actor_field e ''domain''),
      (''actor.privileged'', \<lambda>e. actor_field e ''privileged''),
      (''target.type'', \<lambda>e. target_field e ''type''),
      (''target.criticality'', \<lambda>e. target_field e ''criticality''),
      (''device.os'', \<lambda>e. device_field e ''os''),
      (''device.managed'', \<lambda>e. device_field e ''managed''),
      (''device.compliant'', \<lambda>e. device_field e ''compliant''),
      (''network.first_seen_for_actor'',
         \<lambda>e. case ev_network e of None \<Rightarrow> None | Some n \<Rightarrow> Some (bool_string (first_seen_for_actor n))),
      (''network.country'',
         \<lambda>e. case ev_network e of None \<Rightarrow> None | Some n \<Rightarrow> nonempty (net_country n)),
      (''cloud.provider'',
         \<lambda>e. case ev_cloud e of None \<Rightarrow> None | Some c \<Rightarrow> nonempty (cloud_provider c)),
      (''cloud.resource_type'',
         \<lambda>e. case ev_cloud e of None \<Rightarrow> None | Some c \<Rightarrow> nonempty (cloud_resource_type c))]"

abbreviation label_field_prefix :: string where "label_field_prefix \<equiv> ''labels.''"

definition resolve_field :: "security_event \<Rightarrow> string \<Rightarrow> string option" where
  "resolve_field ev field =
     (case map_of allowed_fields field of
        Some fn \<Rightarrow> fn ev
      | None \<Rightarrow>
          (case cut_prefix field label_field_prefix of
             Some key \<Rightarrow> map_of (ev_labels ev) key
           | None \<Rightarrow> None))"

definition valid_field :: "string \<Rightarrow> bool" where
  "valid_field field =
     (case map_of allowed_fields field of
        Some _ \<Rightarrow> True
      | None \<Rightarrow>
          (case cut_prefix field label_field_prefix of
             Some key \<Rightarrow> key \<noteq> [] \<and> \<not> (\<exists>c \<in> set key. c = CHR 0x20 \<or> c = CHR 0x09)
           | None \<Rightarrow> False))"

subsection \<open>Matching\<close>

fun contains_fold :: "string list \<Rightarrow> string \<Rightarrow> bool" where
  "contains_fold [] want = False"
| "contains_fold (v # vs) want = (if equal_fold v want then True else contains_fold vs want)"

definition eval_condition :: "condition \<Rightarrow> security_event \<Rightarrow> bool" where
  "eval_condition c ev =
     (let value = resolve_field ev (c_field c) in
      case c_exists c of
        Some b \<Rightarrow> (value \<noteq> None) = b
      | None \<Rightarrow>
          if c_equals c \<noteq> [] then
            (case value of Some v \<Rightarrow> equal_fold v (c_equals c) | None \<Rightarrow> False)
          else if c_not_equals c \<noteq> [] then
            (case value of Some v \<Rightarrow> \<not> equal_fold v (c_not_equals c) | None \<Rightarrow> True)
          else if c_in c \<noteq> [] then
            (case value of Some v \<Rightarrow> contains_fold (c_in c) v | None \<Rightarrow> False)
          else False)"

definition matches :: "rule \<Rightarrow> security_event \<Rightarrow> bool" where
  "matches r ev =
     (if r_event_types r \<noteq> [] \<and> \<not> contains_fold (r_event_types r) (ev_event_type ev) then False
      else list_all (\<lambda>c. eval_condition c ev) (r_conditions r))"

subsection \<open>Validation\<close>

datatype rule_error =
  IdRequired
| TitleRequired
| InvalidSeverity string
| CategoryRequired
| ConfidenceRange gofloat
| MatchUnconstrained
| FieldNotAllowed string
| OperatorCount string nat
| ThresholdCount
| ThresholdWindow
| TechniqueIncomplete

definition operators :: "condition \<Rightarrow> nat" where
  "operators c =
     (if c_equals c \<noteq> [] then 1 else 0) + (if c_not_equals c \<noteq> [] then 1 else 0) +
     (if c_in c \<noteq> [] then 1 else 0) + (if c_exists c \<noteq> None then 1 else 0)"

fun validate_conditions :: "condition list \<Rightarrow> rule_error option" where
  "validate_conditions [] = None"
| "validate_conditions (c # cs) =
     (if \<not> valid_field (c_field c) then Some (FieldNotAllowed (c_field c))
      else if operators c \<noteq> 1 then Some (OperatorCount (c_field c) (operators c))
      else validate_conditions cs)"

definition validate_threshold :: "threshold option \<Rightarrow> rule_error option" where
  "validate_threshold th =
     (case th of
        None \<Rightarrow> None
      | Some t \<Rightarrow>
          if th_count t < 2 then Some ThresholdCount
          else if th_window t \<le> 0 then Some ThresholdWindow
          else None)"

fun validate_techniques :: "technique list \<Rightarrow> rule_error option" where
  "validate_techniques [] = None"
| "validate_techniques (t # ts) =
     (if tech_id t = [] \<or> tech_name t = [] then Some TechniqueIncomplete else validate_techniques ts)"

definition validate_rule :: "rule \<Rightarrow> rule_error option" where
  "validate_rule r =
     (if r_id r = [] then Some IdRequired
      else if r_title r = [] then Some TitleRequired
      else if \<not> severity_valid (r_severity r) then Some (InvalidSeverity (r_severity r))
      else if r_category r = [] then Some CategoryRequired
      else if r_confidence r \<le> Num 0 \<or> r_confidence r > Num 1 then Some (ConfidenceRange (r_confidence r))
      else if r_event_types r = [] \<and> r_conditions r = [] then Some MatchUnconstrained
      else case validate_conditions (r_conditions r) of
             Some err \<Rightarrow> Some err
           | None \<Rightarrow>
               (case validate_threshold (r_threshold r) of
                  Some err \<Rightarrow> Some err
                | None \<Rightarrow> validate_techniques (r_techniques r)))"

subsection \<open>Loading\<close>

record dir_entry =
  de_name :: string
  de_is_dir :: bool

datatype load_error =
  ReadDirFailed string string
| ReadFailed string string
| ParseFailed string string
| RuleInvalid string string rule_error
| DuplicateRule string string string
| NoRules string

fun add_rules ::
  "string \<Rightarrow> rule list \<Rightarrow> (string \<times> string) list \<Rightarrow> rule list \<Rightarrow>
     load_error + (string \<times> string) list \<times> rule list" where
  "add_rules path [] seen acc = Inr (seen, acc)"
| "add_rules path (r # rs) seen acc =
     (case validate_rule r of
        Some err \<Rightarrow> Inl (RuleInvalid path (r_id r) err)
      | None \<Rightarrow>
          (case map_of seen (r_id r) of
             Some prev \<Rightarrow> Inl (DuplicateRule (r_id r) prev path)
           | None \<Rightarrow> add_rules path rs (AList.update (r_id r) path seen) (acc @ [r])))"

fun load_entries ::
  "(string \<Rightarrow> string + string) \<Rightarrow> (string \<Rightarrow> string + rule list) \<Rightarrow> string \<Rightarrow> dir_entry list \<Rightarrow>
     (string \<times> string) list \<Rightarrow> rule list \<Rightarrow> load_error + rule list" where
  "load_entries read_file decode dir [] seen acc = Inr acc"
| "load_entries read_file decode dir (d # ds) seen acc =
     (if de_is_dir d \<or> \<not> has_suffix (de_name d) ''.yaml'' then load_entries read_file decode dir ds seen acc
      else
        let path = dir @ ''/'' @ de_name d in
        case read_file path of
          Inl err \<Rightarrow> Inl (ReadFailed path err)
        | Inr raw \<Rightarrow>
            (case decode raw of
               Inl err \<Rightarrow> Inl (ParseFailed path err)
             | Inr rules \<Rightarrow>
                 (case add_rules path rules seen acc of
                    Inl err \<Rightarrow> Inl err
                  | Inr (seen', acc') \<Rightarrow> load_entries read_file decode dir ds seen' acc')))"

definition load_rules ::
  "(string \<Rightarrow> string + dir_entry list) \<Rightarrow> (string \<Rightarrow> string + string) \<Rightarrow> (string \<Rightarrow> string + rule list) \<Rightarrow>
     string \<Rightarrow> load_error + rule list" where
  "load_rules read_dir read_file decode dir =
     (case read_dir dir of
        Inl err \<Rightarrow> Inl (ReadDirFailed dir err)
      | Inr ents \<Rightarrow>
          (case load_entries read_file decode dir ents [] [] of
             Inl err \<Rightarrow> Inl err
           | Inr rs \<Rightarrow> if rs = [] then Inl (NoRules dir) else Inr (sort_key r_id rs)))"

abbreviation correlation_dir :: string where "correlation_dir \<equiv> ''correlation''"

subsection \<open>What validation guarantees\<close>

definition condition_ok :: "condition \<Rightarrow> bool" where
  "condition_ok c \<longleftrightarrow> valid_field (c_field c) \<and> operators c = 1"

definition threshold_ok :: "threshold \<Rightarrow> bool" where
  "threshold_ok t \<longleftrightarrow> 2 \<le> th_count t \<and> 0 < th_window t"

definition rule_ok :: "rule \<Rightarrow> bool" where
  "rule_ok r \<longleftrightarrow>
     r_id r \<noteq> [] \<and> r_title r \<noteq> [] \<and> severity_valid (r_severity r) \<and> r_category r \<noteq> [] \<and>
     \<not> r_confidence r \<le> Num 0 \<and> \<not> r_confidence r > Num 1 \<and>
     (r_event_types r \<noteq> [] \<or> r_conditions r \<noteq> []) \<and> list_all condition_ok (r_conditions r) \<and>
     (\<forall>t. r_threshold r = Some t \<longrightarrow> threshold_ok t) \<and>
     (\<forall>t \<in> set (r_techniques r). tech_id t \<noteq> [] \<and> tech_name t \<noteq> [])"

lemma validate_conditions_None: "validate_conditions cs = None \<longleftrightarrow> list_all condition_ok cs"
  by (induction cs) (simp_all add: condition_ok_def)

lemma validate_techniques_None:
  "validate_techniques ts = None \<longleftrightarrow> (\<forall>t \<in> set ts. tech_id t \<noteq> [] \<and> tech_name t \<noteq> [])"
  by (induction ts) auto

lemma validate_threshold_None: "validate_threshold th = None \<longleftrightarrow> (\<forall>t. th = Some t \<longrightarrow> threshold_ok t)"
  by (cases th) (auto simp: validate_threshold_def threshold_ok_def)

lemma validate_rule_None: "validate_rule r = None \<longleftrightarrow> rule_ok r"
  unfolding validate_rule_def rule_ok_def
    validate_conditions_None [symmetric] validate_techniques_None [symmetric] validate_threshold_None [symmetric]
  by (cases "validate_conditions (r_conditions r)"; cases "validate_threshold (r_threshold r)") simp_all

text \<open>What the loader has gathered: valid rules with distinct identifiers, all of them in \<open>seen\<close>.\<close>

definition gathered :: "(string \<times> string) list \<Rightarrow> rule list \<Rightarrow> bool" where
  "gathered seen acc \<longleftrightarrow>
     (\<forall>r \<in> set acc. rule_ok r) \<and> distinct (map r_id acc) \<and> fst ` set seen = r_id ` set acc"

lemma add_rules_gathered:
  "add_rules path rs seen acc = Inr (seen', acc') \<Longrightarrow> gathered seen acc \<Longrightarrow> gathered seen' acc'"
proof (induction path rs seen acc rule: add_rules.induct)
  case (1 path seen acc)
  then show ?case by simp
next
  case (2 path r rs seen acc)
  have ok: "validate_rule r = None" and new: "map_of seen (r_id r) = None"
    using "2.prems"(1) by (auto split: option.splits)
  have "r_id r \<notin> r_id ` set acc" using new "2.prems"(2) by (simp add: map_of_None_keys gathered_def)
  then have "gathered (AList.update (r_id r) path seen) (acc @ [r])"
    using ok "2.prems"(2) by (auto simp: gathered_def validate_rule_None)
  then show ?case using "2.IH" [OF ok new] "2.prems"(1) ok new by simp
qed

lemma load_entries_gathered:
  "load_entries read_file decode dir ds seen acc = Inr acc' \<Longrightarrow> gathered seen acc \<Longrightarrow> \<exists>seen'. gathered seen' acc'"
proof (induction read_file decode dir ds seen acc rule: load_entries.induct)
  case (1 read_file decode dir seen acc)
  then show ?case by auto
next
  case (2 read_file decode dir d ds seen acc)
  show ?case
  proof (cases "de_is_dir d \<or> \<not> has_suffix (de_name d) ''.yaml''")
    case True
    then show ?thesis using "2.IH"(1) "2.prems" by simp
  next
    case False
    let ?path = "dir @ ''/'' @ de_name d"
    obtain raw rules s a where steps: "read_file ?path = Inr raw" "decode raw = Inr rules"
        "add_rules ?path rules seen acc = Inr (s, a)"
        "load_entries read_file decode dir ds s a = Inr acc'"
      using "2.prems"(1) False by (auto simp: Let_def split: sum.splits)
    then show ?thesis
      using "2.IH"(2) [OF False refl steps(1,2,3) refl] add_rules_gathered "2.prems"(2) by blast
  qed
qed

subsection \<open>Properties\<close>

text \<open>
  C38 (type): a rule set that loads is not empty, is sorted by identifier without repeats, and every
  rule in it is well-formed: it constrains the event, tests only allowlisted fields with exactly
  one operator per condition, has a known severity, and a threshold of at least two hits in a
  positive window.
\<close>

theorem load_rules_sound:
  assumes "load_rules read_dir read_file decode dir = Inr rs"
  shows "rs \<noteq> [] \<and> sorted (map r_id rs) \<and> distinct (map r_id rs) \<and> (\<forall>r \<in> set rs. rule_ok r)"
proof -
  obtain ents acc where load: "load_entries read_file decode dir ents [] [] = Inr acc"
      and acc: "acc \<noteq> []" and rs: "rs = sort_key r_id acc"
    using assms by (auto simp: load_rules_def split: sum.splits if_splits)
  have "gathered [] []" by (simp add: gathered_def)
  from load_entries_gathered [OF load this] obtain seen where "gathered seen acc" by blast
  then have g: "distinct (map r_id acc)" "\<forall>r \<in> set acc. rule_ok r" by (simp_all add: gathered_def)
  have "mset (map r_id rs) = mset (map r_id acc)" by (simp add: rs)
  then have "distinct (map r_id rs)" using g(1) mset_eq_imp_distinct_iff by blast
  then show ?thesis using acc g(2) by (simp add: rs flip: set_empty)
qed

definition sample_rule :: "string \<Rightarrow> string \<Rightarrow> rule" where
  "sample_rule rid etype =
     \<lparr> r_id = rid, r_title = ''t'', r_description = [], r_category = CategoryAuthentication,
       r_severity = SeverityMedium, r_confidence = Num (1/2), r_techniques = [], r_event_types = [etype],
       r_conditions = [\<lparr> c_field = ''labels.zone'', c_equals = ''dmz'', c_not_equals = [], c_in = [], c_exists = None \<rparr>],
       r_threshold = None \<rparr>"

theorem load_rules_sound_witness:
  "(let rs = [sample_rule ''a'' ''login'', sample_rule ''b'' ''logout'']
    in sorted (map r_id rs) \<and> (\<forall>r \<in> set rs. rule_ok r))"
proof -
  let ?rs = "[sample_rule ''a'' ''login'', sample_rule ''b'' ''logout'']"
  have "load_rules (\<lambda>_. Inr [\<lparr> de_name = ''x.yaml'', de_is_dir = False \<rparr>, \<lparr> de_name = ''README'', de_is_dir = False \<rparr>])
      (\<lambda>_. Inr ''raw'') (\<lambda>_. Inr [sample_rule ''b'' ''logout'', sample_rule ''a'' ''login'']) correlation_dir = Inr ?rs"
    by code_simp
  from load_rules_sound [OF this] show ?thesis by (simp add: Let_def)
qed

text \<open>The parts of an event a rule may read.\<close>

definition visible_to_rules :: "security_event \<Rightarrow> security_event" where
  "visible_to_rules e =
     zero_event\<lparr>ev_event_type := ev_event_type e, ev_category := ev_category e, ev_severity := ev_severity e,
       ev_source_type := ev_source_type e, ev_source_name := ev_source_name e, ev_labels := ev_labels e,
       ev_actor := map_option (\<lambda>a. a\<lparr>actor_id := [], actor_name := [], actor_session_id := []\<rparr>) (ev_actor e),
       ev_target := map_option (\<lambda>t. t\<lparr>target_id := [], target_name := []\<rparr>) (ev_target e),
       ev_device := map_option (\<lambda>d. d\<lparr>device_id := [], device_hostname := []\<rparr>) (ev_device e),
       ev_network := map_option (\<lambda>n. n\<lparr>source_ip := [], destination_ip := [], net_asn := []\<rparr>) (ev_network e),
       ev_cloud := map_option (\<lambda>c. c\<lparr>cloud_account_id := [], cloud_region := [], cloud_resource_id := []\<rparr>) (ev_cloud e)\<rparr>"

lemma visible_fields:
  "\<forall>(k, fn) \<in> set allowed_fields. fn (visible_to_rules e) = fn e"
  unfolding allowed_fields_def visible_to_rules_def
  by (simp add: actor_field_def target_field_def device_field_def split: option.split)

lemma resolve_visible: "resolve_field (visible_to_rules e) field = resolve_field e field"
proof (cases "map_of allowed_fields field")
  case None
  have "ev_labels (visible_to_rules e) = ev_labels e" by (simp add: visible_to_rules_def)
  with None show ?thesis by (simp add: resolve_field_def split: option.split)
next
  case (Some fn)
  with visible_fields [of e] show ?thesis by (fastforce simp: resolve_field_def dest: map_of_SomeD)
qed

text \<open>
  The field allowlist confines rules. Whether a rule matches does not depend on
  anything outside it: identifiers and names of actors, targets and devices, addresses,
  timestamps, raw references and correlation identifiers cannot steer detection.
\<close>

theorem rules_read_only_allowlisted_fields:
  "matches r (visible_to_rules e) = matches r e"
proof -
  have "eval_condition c (visible_to_rules e) = eval_condition c e" for c
    by (simp add: eval_condition_def resolve_visible)
  moreover have "ev_event_type (visible_to_rules e) = ev_event_type e" by (simp add: visible_to_rules_def)
  ultimately show ?thesis by (simp add: matches_def)
qed

lemma contains_fold_iff: "contains_fold vs want \<longleftrightarrow> (\<exists>v \<in> set vs. equal_fold v want)"
  by (induction vs) auto

text \<open>
  A validated condition means what its one operator says. Equality and
  membership need the field to be present, inequality also holds of an absent field, and
  presence is compared with the flag.
\<close>

theorem valid_condition_semantics:
  assumes "condition_ok c"
  shows "eval_condition c ev \<longleftrightarrow>
    (case c_exists c of
       Some b \<Rightarrow> c_equals c = [] \<and> c_not_equals c = [] \<and> c_in c = [] \<and> (resolve_field ev (c_field c) \<noteq> None) = b
     | None \<Rightarrow>
         (\<exists>v. resolve_field ev (c_field c) = Some v \<and>
            (c_equals c \<noteq> [] \<and> equal_fold v (c_equals c) \<or> (\<exists>w \<in> set (c_in c). equal_fold w v))) \<or>
         (c_not_equals c \<noteq> [] \<and> (\<forall>v. resolve_field ev (c_field c) = Some v \<longrightarrow> \<not> equal_fold v (c_not_equals c))))"
proof -
  have "operators c = 1" using assms by (simp add: condition_ok_def)
  then show ?thesis
    by (cases "resolve_field ev (c_field c)"; cases "c_exists c")
      (auto simp: eval_condition_def operators_def contains_fold_iff split: if_splits)
qed

theorem valid_condition_semantics_witness:
  "(let c = \<lparr> c_field = ''actor.privileged'', c_equals = [], c_not_equals = ''TRUE'', c_in = [], c_exists = None \<rparr>
    in eval_condition c zero_event)"
proof -
  let ?c = "\<lparr> c_field = ''actor.privileged'', c_equals = [], c_not_equals = ''TRUE'', c_in = [], c_exists = None \<rparr>"
  have "condition_ok ?c" by code_simp
  moreover have "resolve_field zero_event ''actor.privileged'' = None" by code_simp
  ultimately show ?thesis using valid_condition_semantics [of ?c zero_event] by (simp add: Let_def)
qed

text \<open>
  A confidence that is not a number passes validation, although the error message says
  it must lie within (0,1]; every other value outside that range is refused.
\<close>

theorem confidence_range_accepts_nan:
  "validate_rule ((sample_rule ''a'' ''login'')\<lparr>r_confidence := v\<rparr>) = None \<longleftrightarrow>
     v = NaN \<or> (\<exists>x. v = Num x \<and> 0 < x \<and> x \<le> 1)"
proof -
  have rest: "rule_ok (sample_rule ''a'' ''login'')"
    unfolding validate_rule_None [symmetric] by code_simp
  have "validate_rule ((sample_rule ''a'' ''login'')\<lparr>r_confidence := v\<rparr>) = None \<longleftrightarrow>
      \<not> v \<le> Num 0 \<and> \<not> v > Num 1"
    using rest by (simp add: validate_rule_None rule_ok_def)
  then show ?thesis by (cases v) auto
qed

end
