(* ===== verification/Recommend.thy ===== *)
theory Recommend
  imports Rules
begin

text \<open>
  The proposals of \<^verbatim>\<open>src/internal/correlation/recommend.go\<close>: which actions an incident's evidence
  suggests and which of its entities each would act on. The engine only proposes; whether an
  action may be taken is the Policy Kernel's decision.
\<close>

definition category_actions :: "(category \<times> string list) list" where
  "category_actions =
     [(CategoryAuthentication, [''require_mfa'']),
      (CategorySessionAnomaly, [''revoke_sessions'']),
      (CategoryPrivilegeEscalation, [''temporarily_suspend_privileges'']),
      (CategoryCredentialAccess, [''rotate_exposed_secret'']),
      (CategoryCloudAccess, [''preserve_evidence'']),
      (CategoryDataAccess, [''preserve_evidence'']),
      (CategoryProcessExecution, [''isolate_endpoint'']),
      (CategoryNetworkActivity, [''isolate_endpoint'']),
      (CategoryConfigChange, [''preserve_evidence''])]"

definition action_target_types :: "(string \<times> entity_type list) list" where
  "action_target_types =
     [(''require_mfa'', [TypeIdentity, TypeAccount]),
      (''revoke_sessions'', [TypeIdentity, TypeAccount]),
      (''temporarily_suspend_privileges'', [TypeIdentity, TypeAccount]),
      (''isolate_endpoint'', [TypeEndpoint]),
      (''rotate_exposed_secret'', [TypeSecret]),
      (''preserve_evidence'', [TypeIdentity, TypeAccount])]"

definition action_rationale :: "(string \<times> string) list" where
  "action_rationale =
     [(''require_mfa'', ''Authentication evidence is present; a step-up challenge tests whether the session is still under the legitimate user's control.''),
      (''revoke_sessions'', ''Session evidence suggests an established foothold; invalidating tokens forces re-authentication.''),
      (''temporarily_suspend_privileges'', ''Privilege change was observed; suspending elevated roles removes the durable access the change created.''),
      (''rotate_exposed_secret'', ''A stored secret was read; rotation retires the value the attacker may now hold.''),
      (''isolate_endpoint'', ''An endpoint is implicated; isolation limits further lateral movement while the investigation runs.''),
      (''preserve_evidence'', ''Evidence should be held before any containment step changes the state an investigation depends on.'')]"

definition map_get :: "('a \<times> 'b list) list \<Rightarrow> 'a \<Rightarrow> 'b list" where
  "map_get m k = (case map_of m k of Some v \<Rightarrow> v | None \<Rightarrow> [])"

text \<open>The loop body of \<^verbatim>\<open>resolveTarget\<close>: is \<open>e\<close> a better target than the best so far?\<close>

definition better_target :: "entity_ref \<Rightarrow> entity_ref option \<Rightarrow> bool" where
  "better_target e best =
     (case best of
        None \<Rightarrow> True
      | Some b \<Rightarrow>
          criticality_rank (ref_criticality e) > criticality_rank (ref_criticality b) \<or>
          (criticality_rank (ref_criticality e) = criticality_rank (ref_criticality b) \<and> ref_id e < ref_id b))"

fun best_of_type :: "entity_type \<Rightarrow> entity_ref list \<Rightarrow> entity_ref option \<Rightarrow> entity_ref option" where
  "best_of_type t [] best = best"
| "best_of_type t (e # es) best =
     (if ref_type e \<noteq> t then best_of_type t es best
      else if better_target e best then best_of_type t es (Some e)
      else best_of_type t es best)"

fun first_target :: "entity_type list \<Rightarrow> entity_ref list \<Rightarrow> entity_ref option" where
  "first_target [] es = None"
| "first_target (t # ts) es =
     (case best_of_type t es None of Some b \<Rightarrow> Some b | None \<Rightarrow> first_target ts es)"

definition resolve_target :: "string \<Rightarrow> entity_ref list \<Rightarrow> entity_ref option" where
  "resolve_target action_type es =
     (case map_of action_target_types action_type of
        None \<Rightarrow> None
      | Some preferred \<Rightarrow> first_target preferred es)"

definition wanted_actions :: "finding list \<Rightarrow> entity_ref list \<Rightarrow> string list" where
  "wanted_actions fs es =
     sorted_keys (''preserve_evidence'' # concat (map (\<lambda>f. map_get category_actions (f_category f)) fs) @
       (if \<exists>e \<in> set es. ref_type e = TypeEndpoint then [''isolate_endpoint''] else []))"

definition recommend_action :: "entity_ref list \<Rightarrow> string \<Rightarrow> recommended_action option" where
  "recommend_action es action_type =
     (case lookup_action action_type of
        None \<Rightarrow> None
      | Some spec \<Rightarrow>
          if spec_destructive spec then None
          else
            let target = resolve_target action_type es in
            Some \<lparr> ra_action_type = spec_type spec, ra_title = spec_title spec,
              ra_rationale = (case map_of action_rationale action_type of Some r \<Rightarrow> r | None \<Rightarrow> []),
              ra_reversible = spec_reversible spec, ra_destructive = spec_destructive spec,
              ra_rollback_action = spec_rollback_action spec,
              ra_target_entity_id = (case target of Some t \<Rightarrow> ref_id t | None \<Rightarrow> []),
              ra_targets_critical_asset =
                (case target of Some t \<Rightarrow> ref_criticality t = CriticalityCritical | None \<Rightarrow> False) \<rparr>)"

definition recommend_actions :: "finding list \<Rightarrow> entity_ref list \<Rightarrow> recommended_action list" where
  "recommend_actions fs es = List.map_filter (recommend_action es) (wanted_actions fs es)"

subsection \<open>Targets\<close>

text \<open>\<open>target_le b e\<close>: \<open>e\<close> is no better a target than \<open>b\<close>.\<close>

definition target_le :: "entity_ref \<Rightarrow> entity_ref \<Rightarrow> bool" where
  "target_le b e \<longleftrightarrow>
     criticality_rank (ref_criticality e) < criticality_rank (ref_criticality b) \<or>
     (criticality_rank (ref_criticality e) = criticality_rank (ref_criticality b) \<and> ref_id b \<le> ref_id e)"

lemma target_le_refl [simp]: "target_le e e"
  by (simp add: target_le_def)

lemma target_le_trans: "target_le a b \<Longrightarrow> target_le b c \<Longrightarrow> target_le a c"
  by (auto simp: target_le_def)

lemma better_target_Some: "better_target e (Some b) \<longleftrightarrow> \<not> target_le b e"
  by (auto simp: better_target_def target_le_def)

lemma better_target_None [simp]: "better_target e None"
  by (simp add: better_target_def)

lemma not_target_le: "\<not> target_le b e \<Longrightarrow> target_le e b"
  by (auto simp: target_le_def)

lemma best_of_type_spec:
  "case best_of_type t es best of
     None \<Rightarrow> best = None \<and> (\<forall>e \<in> set es. ref_type e \<noteq> t)
   | Some b \<Rightarrow> (b \<in> set es \<and> ref_type b = t \<or> best = Some b) \<and> (\<forall>e \<in> set es. ref_type e = t \<longrightarrow> target_le b e) \<and>
       (\<forall>p. best = Some p \<longrightarrow> target_le b p)"
proof (induction es arbitrary: best)
  case Nil
  then show ?case by (cases best) auto
next
  case (Cons e es)
  show ?case
  proof (cases "ref_type e = t \<and> better_target e best")
    case True
    then have "best_of_type t (e # es) best = best_of_type t es (Some e)" by simp
    moreover have "\<And>p. best = Some p \<Longrightarrow> target_le e p"
      using True by (auto simp: better_target_Some intro: not_target_le)
    ultimately show ?thesis
      using Cons [of "Some e"] True
      by (auto split: option.splits intro: target_le_trans)
  next
    case False
    then have "best_of_type t (e # es) best = best_of_type t es best" by auto
    then show ?thesis
      using Cons [of best] False
      by (cases best) (auto split: option.splits simp: better_target_Some intro: target_le_trans)
  qed
qed

lemma first_target_spec:
  "first_target ts es = Some b \<Longrightarrow>
     b \<in> set es \<and> ref_type b \<in> set ts \<and> (\<forall>e \<in> set es. ref_type e \<notin> set (takeWhile (\<lambda>t. t \<noteq> ref_type b) ts)) \<and>
     (\<forall>e \<in> set es. ref_type e = ref_type b \<longrightarrow> target_le b e)"
proof (induction ts)
  case (Cons t ts)
  show ?case
  proof (cases "best_of_type t es None")
    case None
    then have "first_target ts es = Some b" and "\<forall>e \<in> set es. ref_type e \<noteq> t"
      using Cons.prems best_of_type_spec [where t = t and es = es and best = None] by auto
    then show ?thesis using Cons.IH by auto
  next
    case (Some c)
    then have "c = b" using Cons.prems by simp
    then show ?thesis using best_of_type_spec [where t = t and es = es and best = None] Some by auto
  qed
qed simp

lemma first_target_None: "first_target ts es = None \<longleftrightarrow> (\<forall>e \<in> set es. ref_type e \<notin> set ts)"
proof (induction ts)
  case (Cons t ts)
  then show ?case using best_of_type_spec [where t = t and es = es and best = None] by (cases "best_of_type t es None") auto
qed simp

subsection \<open>Proposals\<close>

lemma category_actions_recommendable:
  "\<forall>(c, acts) \<in> set category_actions. \<forall>a \<in> set acts. a \<in> set recommendable_action_types"
  by code_simp

lemma fixed_recommendable:
  "''preserve_evidence'' \<in> set recommendable_action_types" "''isolate_endpoint'' \<in> set recommendable_action_types"
  by code_simp+

lemma wanted_recommendable:
  assumes "t \<in> set (wanted_actions fs es)"
  shows "t \<in> set recommendable_action_types"
proof -
  have "a \<in> set recommendable_action_types" if "a \<in> set (map_get category_actions c)" for a c
    using that category_actions_recommendable map_of_SomeD [of category_actions c]
    unfolding map_get_def by (cases "map_of category_actions c") fastforce+
  with assms fixed_recommendable show ?thesis
    unfolding wanted_actions_def set_sorted_keys by (auto split: if_splits)
qed

lemma recommend_action_Some:
  assumes "t \<in> set recommendable_action_types"
  obtains a spec where "recommend_action es t = Some a" "lookup_action t = Some spec" "\<not> spec_destructive spec"
    "ra_action_type a = t" "ra_destructive a = False" "ra_reversible a = spec_reversible spec"
    "ra_rollback_action a = spec_rollback_action spec"
    "ra_target_entity_id a = (case resolve_target t es of Some e \<Rightarrow> ref_id e | None \<Rightarrow> [])"
    "ra_targets_critical_asset a =
       (case resolve_target t es of Some e \<Rightarrow> ref_criticality e = CriticalityCritical | None \<Rightarrow> False)"
proof -
  obtain spec where spec: "lookup_action t = Some spec" "\<not> spec_destructive spec"
    using assms by (auto simp: set_recommendable)
  then obtain a where "recommend_action es t = Some a" by (simp add: recommend_action_def Let_def)
  then show ?thesis
    using spec catalog_spec(1) [OF spec(1)] by (intro that [of a spec]) (auto simp: recommend_action_def Let_def)
qed

lemma map_filter_all:
  assumes "\<And>t. t \<in> set ts \<Longrightarrow> \<exists>a. f t = Some a \<and> key a = t"
  shows "map key (List.map_filter f ts) = ts"
  using assms
proof (induction ts)
  case (Cons t ts)
  then obtain a where "f t = Some a" "key a = t" by auto
  with Cons show ?case by (simp add: List.map_filter_simps)
qed (simp add: List.map_filter_simps)

lemma recommend_types: "map ra_action_type (recommend_actions fs es) = wanted_actions fs es"
  unfolding recommend_actions_def
proof (rule map_filter_all)
  fix t assume "t \<in> set (wanted_actions fs es)"
  then have "t \<in> set recommendable_action_types" by (rule wanted_recommendable)
  then obtain a spec where "recommend_action es t = Some a" "ra_action_type a = t"
    using recommend_action_Some by metis
  then show "\<exists>a. recommend_action es t = Some a \<and> ra_action_type a = t" by blast
qed

lemma recommend_member:
  assumes "a \<in> set (recommend_actions fs es)"
  shows "recommend_action es (ra_action_type a) = Some a" "ra_action_type a \<in> set recommendable_action_types"
proof -
  obtain t where t: "t \<in> set (wanted_actions fs es)" "recommend_action es t = Some a"
    using assms by (auto simp: recommend_actions_def List.map_filter_def)
  have rec: "t \<in> set recommendable_action_types" using t(1) by (rule wanted_recommendable)
  then have "ra_action_type a = t" using t(2) recommend_action_Some [OF rec, of es] by (metis option.inject)
  with t rec show "recommend_action es (ra_action_type a) = Some a"
    "ra_action_type a \<in> set recommendable_action_types" by simp_all
qed

text \<open>
  The actions that evidence calls for, said without the code's tables: evidence is always preserved;
  each kind of finding calls for its containment step; and an endpoint in scope calls for isolation.
\<close>

definition evidenced :: "finding list \<Rightarrow> category \<Rightarrow> bool" where
  "evidenced fs c \<longleftrightarrow> (\<exists>f \<in> set fs. f_category f = c)"

definition called_for :: "finding list \<Rightarrow> entity_ref list \<Rightarrow> string \<Rightarrow> bool" where
  "called_for fs es t \<longleftrightarrow>
     t = ''preserve_evidence'' \<or>
     t = ''require_mfa'' \<and> evidenced fs CategoryAuthentication \<or>
     t = ''revoke_sessions'' \<and> evidenced fs CategorySessionAnomaly \<or>
     t = ''temporarily_suspend_privileges'' \<and> evidenced fs CategoryPrivilegeEscalation \<or>
     t = ''rotate_exposed_secret'' \<and> evidenced fs CategoryCredentialAccess \<or>
     t = ''isolate_endpoint'' \<and> (evidenced fs CategoryProcessExecution \<or> evidenced fs CategoryNetworkActivity \<or>
       (\<exists>e \<in> set es. ref_type e = TypeEndpoint))"

text \<open>What an action acts on, the preferred type first: an endpoint, a secret, or else a person's identity or account.\<close>

definition acts_on :: "string \<Rightarrow> entity_type list" where
  "acts_on t =
     (if t = ''isolate_endpoint'' then [TypeEndpoint]
      else if t = ''rotate_exposed_secret'' then [TypeSecret]
      else [TypeIdentity, TypeAccount])"

text \<open>
  The target an action has to have: none only if the incident has no entity of a type it acts on;
  otherwise an entity of the first such type that the incident has, which no other of that type outranks.
\<close>

definition right_target :: "entity_ref list \<Rightarrow> string \<Rightarrow> entity_ref option \<Rightarrow> bool" where
  "right_target es t target \<longleftrightarrow>
     (case target of
        None \<Rightarrow> \<forall>e \<in> set es. ref_type e \<notin> set (acts_on t)
      | Some b \<Rightarrow>
          b \<in> set es \<and> ref_type b \<in> set (acts_on t) \<and>
          (\<forall>e \<in> set es. ref_type e \<notin> set (takeWhile (\<lambda>k. k \<noteq> ref_type b) (acts_on t))) \<and>
          (\<forall>e \<in> set es. ref_type e = ref_type b \<longrightarrow> target_le b e))"

lemma preferred_types:
  "\<forall>t \<in> set recommendable_action_types. map_of action_target_types t = Some (acts_on t)"
  by code_simp

lemma resolve_target_right:
  assumes "t \<in> set recommendable_action_types"
  shows "right_target es t (resolve_target t es)"
proof -
  have "resolve_target t es = first_target (acts_on t) es"
    using preferred_types assms by (simp add: resolve_target_def)
  then show ?thesis
    using first_target_spec [of "acts_on t" es] first_target_None [of "acts_on t" es]
    by (auto simp: right_target_def split: option.split)
qed

lemma wanted_called_for: "t \<in> set (wanted_actions fs es) \<longleftrightarrow> called_for fs es t"
proof -
  have table: "t \<in> set (map_get category_actions c) \<longleftrightarrow>
      t = ''preserve_evidence'' \<and> c \<in> {CategoryCloudAccess, CategoryDataAccess, CategoryConfigChange} \<or>
      t = ''require_mfa'' \<and> c = CategoryAuthentication \<or> t = ''revoke_sessions'' \<and> c = CategorySessionAnomaly \<or>
      t = ''temporarily_suspend_privileges'' \<and> c = CategoryPrivilegeEscalation \<or>
      t = ''rotate_exposed_secret'' \<and> c = CategoryCredentialAccess \<or>
      t = ''isolate_endpoint'' \<and> c \<in> {CategoryProcessExecution, CategoryNetworkActivity}" for c
    by (simp add: map_get_def category_actions_def)
  have split: "(\<exists>f \<in> set fs. t \<in> set (map_get category_actions (f_category f))) \<longleftrightarrow>
      t = ''preserve_evidence'' \<and> (evidenced fs CategoryCloudAccess \<or> evidenced fs CategoryDataAccess \<or> evidenced fs CategoryConfigChange) \<or>
      t = ''require_mfa'' \<and> evidenced fs CategoryAuthentication \<or> t = ''revoke_sessions'' \<and> evidenced fs CategorySessionAnomaly \<or>
      t = ''temporarily_suspend_privileges'' \<and> evidenced fs CategoryPrivilegeEscalation \<or>
      t = ''rotate_exposed_secret'' \<and> evidenced fs CategoryCredentialAccess \<or>
      t = ''isolate_endpoint'' \<and> (evidenced fs CategoryProcessExecution \<or> evidenced fs CategoryNetworkActivity)"
    unfolding table evidenced_def insert_iff empty_iff HOL.simp_thms
    by (simp only: bex_disj_distrib bex_simps(2))
  have "t \<in> set (wanted_actions fs es) \<longleftrightarrow> t = ''preserve_evidence'' \<or>
      (\<exists>f \<in> set fs. t \<in> set (map_get category_actions (f_category f))) \<or>
      t = ''isolate_endpoint'' \<and> (\<exists>e \<in> set es. ref_type e = TypeEndpoint)"
    by (simp add: wanted_actions_def set_sorted_keys)
  then show ?thesis unfolding split called_for_def by argo
qed

text \<open>
  What holds of every proposal: its properties are the catalog's, it is not destructive, and it names
  the target the action has to have and says whether that is a critical asset.
\<close>

definition proposal_ok :: "entity_ref list \<Rightarrow> recommended_action \<Rightarrow> bool" where
  "proposal_ok es a \<longleftrightarrow>
     (\<exists>spec. lookup_action (ra_action_type a) = Some spec \<and> \<not> spec_destructive spec \<and> \<not> ra_destructive a \<and>
        ra_reversible a = spec_reversible spec \<and> ra_rollback_action a = spec_rollback_action spec) \<and>
     (\<exists>target. right_target es (ra_action_type a) target \<and>
        (case target of
           None \<Rightarrow> ra_target_entity_id a = [] \<and> \<not> ra_targets_critical_asset a
         | Some e \<Rightarrow> ra_target_entity_id a = ref_id e \<and>
             ra_targets_critical_asset a = (ref_criticality e = CriticalityCritical)))"

lemma recommend_proposal_ok:
  assumes "a \<in> set (recommend_actions fs es)"
  shows "proposal_ok es a"
proof -
  let ?t = "ra_action_type a"
  note member = recommend_member [OF assms]
  obtain b spec where b: "recommend_action es ?t = Some b" and f0: "lookup_action ?t = Some spec"
      "\<not> spec_destructive spec" "ra_destructive b = False"
      "ra_reversible b = spec_reversible spec" "ra_rollback_action b = spec_rollback_action spec"
      "ra_target_entity_id b = (case resolve_target ?t es of Some e \<Rightarrow> ref_id e | None \<Rightarrow> [])"
      "ra_targets_critical_asset b =
         (case resolve_target ?t es of Some e \<Rightarrow> ref_criticality e = CriticalityCritical | None \<Rightarrow> False)"
    by (rule recommend_action_Some [OF member(2), of es])
  have "b = a" using b member(1) by simp
  note f = f0 [unfolded this]
  have "right_target es ?t (resolve_target ?t es)" by (rule resolve_target_right [OF member(2)])
  with f show ?thesis
    unfolding proposal_ok_def by (intro conjI exI [of _ spec] exI [of _ "resolve_target ?t es"]) (simp_all split: option.split)
qed

subsection \<open>Properties\<close>

text \<open>
  C37 (safety): the engine proposes exactly the actions the evidence calls for, sorted and each
  once. No proposal is destructive and its safety metadata is the catalog's. Its target is the entity
  the action has to have: the most critical one, by rank and then by identifier, of the first type it
  acts on that the incident has, flagged as a critical asset exactly when it is one; the target is
  empty only if the incident has no entity of such a type.
\<close>

theorem recommendations_safe:
  "set (map ra_action_type (recommend_actions fs es)) = {t. called_for fs es t} \<and>
   sorted (map ra_action_type (recommend_actions fs es)) \<and> distinct (map ra_action_type (recommend_actions fs es)) \<and>
   list_all (proposal_ok es) (recommend_actions fs es)"
proof -
  have "sorted (wanted_actions fs es)" and "distinct (wanted_actions fs es)" by (simp_all add: wanted_actions_def)
  then show ?thesis
    using recommend_proposal_ok wanted_called_for unfolding recommend_types list_all_iff by blast
qed

end
