(* ===== verification/AuditTrail.thy ===== *)
theory AuditTrail
  imports Recommend
begin

text \<open>
  The audit trail of \<^verbatim>\<open>src/internal/audit/audit.go\<close>: entries, the sink interface as the locale
  \<open>audit_sink\<close>, and the recorder that stamps entries and appends them. The identifiers come from the
  UUID library, a function of a counter that the state passes along.
\<close>

subsection \<open>Entries\<close>

abbreviation ActionEventIngested :: string where "ActionEventIngested \<equiv> ''event.ingested''"
abbreviation ActionEventRejected :: string where "ActionEventRejected \<equiv> ''event.rejected''"
abbreviation ActionEventQuarantined :: string where "ActionEventQuarantined \<equiv> ''event.label_quarantined''"
abbreviation ActionIncidentUpdated :: string where "ActionIncidentUpdated \<equiv> ''incident.updated''"
abbreviation ActionPolicyEvaluated :: string where "ActionPolicyEvaluated \<equiv> ''policy.evaluated''"
abbreviation ActionActionSimulated :: string where "ActionActionSimulated \<equiv> ''response.simulated''"
abbreviation ActionActionDenied :: string where "ActionActionDenied \<equiv> ''response.denied''"
abbreviation ActionActionRejected :: string where "ActionActionRejected \<equiv> ''response.rejected''"
abbreviation ActionActionNeedsApproval :: string where "ActionActionNeedsApproval \<equiv> ''response.requires_approval''"
abbreviation ActionCorrelationFailed :: string where "ActionCorrelationFailed \<equiv> ''correlation.failed''"

abbreviation ResultAllowed :: string where "ResultAllowed \<equiv> ''allowed''"
abbreviation ResultRequiresApproval :: string where "ResultRequiresApproval \<equiv> ''requires_approval''"
abbreviation ResultDenied :: string where "ResultDenied \<equiv> ''denied''"
abbreviation ResultInvalidAction :: string where "ResultInvalidAction \<equiv> ''invalid_action''"
abbreviation ResultInsufficientPermission :: string where "ResultInsufficientPermission \<equiv> ''insufficient_permission''"
abbreviation ResultValidationFailed :: string where "ResultValidationFailed \<equiv> ''validation_failed''"
abbreviation ResultPolicyUnavailable :: string where "ResultPolicyUnavailable \<equiv> ''policy_unavailable''"
abbreviation ResultPolicyTimeout :: string where "ResultPolicyTimeout \<equiv> ''policy_timeout''"
abbreviation ResultInternalError :: string where "ResultInternalError \<equiv> ''internal_error''"

abbreviation OutcomeSuccess :: string where "OutcomeSuccess \<equiv> ''success''"
abbreviation OutcomeDenied :: string where "OutcomeDenied \<equiv> ''denied''"
abbreviation OutcomeFailure :: string where "OutcomeFailure \<equiv> ''failure''"
abbreviation OutcomePending :: string where "OutcomePending \<equiv> ''pending''"

abbreviation SubjectEvent :: string where "SubjectEvent \<equiv> ''event''"
abbreviation SubjectIncident :: string where "SubjectIncident \<equiv> ''incident''"
abbreviation SubjectAction :: string where "SubjectAction \<equiv> ''action''"

abbreviation audit_system_actor :: string where "audit_system_actor \<equiv> ''system:griefer''"

text \<open>The values the code puts under the \<^verbatim>\<open>any\<close> type of an entry's details.\<close>

datatype detail = DString string | DInt int | DBool bool | DStrings "string list"

record audit_entry =
  ae_id :: string
  ae_sequence :: int
  ae_timestamp :: time
  ae_actor :: string
  ae_actor_role :: string
  ae_action :: string
  ae_subject_type :: string
  ae_subject_id :: string
  ae_outcome :: string
  ae_reason :: string
  ae_request_id :: string
  ae_details :: "(string \<times> detail) list"

definition zero_entry :: audit_entry where
  "zero_entry = \<lparr> ae_id = [], ae_sequence = 0, ae_timestamp = 0, ae_actor = [], ae_actor_role = [],
     ae_action = [], ae_subject_type = [], ae_subject_id = [], ae_outcome = [], ae_reason = [],
     ae_request_id = [], ae_details = [] \<rparr>"

subsection \<open>The recorder\<close>

datatype audit_error = ActionMissing | OutcomeMissing

text \<open>\<^verbatim>\<open>Prepare\<close>: validate and stamp, with the next identifier of the UUID library.\<close>

definition prepare ::
  "(nat \<Rightarrow> string) \<Rightarrow> time \<Rightarrow> audit_entry \<Rightarrow> nat \<Rightarrow> (audit_error + audit_entry) \<times> nat" where
  "prepare uuid now e n =
     (if ae_action e = [] then (Inl ActionMissing, n)
      else if ae_outcome e = [] then (Inl OutcomeMissing, n)
      else
        let (eid, n') = new_id uuid PrefixAudit n;
            e1 = e\<lparr>ae_id := eid, ae_timestamp := now\<rparr>;
            e2 = (if ae_actor e1 = [] then e1\<lparr>ae_actor := audit_system_actor\<rparr> else e1)
        in (Inr e2, n'))"

text \<open>\<^verbatim>\<open>Record\<close>: prepare, then append to the sink. The state is returned unchanged on an error.\<close>

definition record_entry ::
  "('s \<Rightarrow> audit_entry \<Rightarrow> 'e + 's) \<Rightarrow> (nat \<Rightarrow> string) \<Rightarrow> time \<Rightarrow> audit_entry \<Rightarrow> nat \<times> 's \<Rightarrow>
     (audit_error + 'e) option \<times> (nat \<times> 's)" where
  "record_entry emit uuid now e st =
     (case prepare uuid now e (fst st) of
        (Inl err, n') \<Rightarrow> (Some (Inl err), n', snd st)
      | (Inr p, n') \<Rightarrow>
          (case emit (snd st) p of
             Inl err \<Rightarrow> (Some (Inr err), n', snd st)
           | Inr s' \<Rightarrow> (None, n', s')))"

text \<open>What stamping makes of an entry.\<close>

definition stamped :: "(nat \<Rightarrow> string) \<Rightarrow> time \<Rightarrow> nat \<Rightarrow> audit_entry \<Rightarrow> audit_entry" where
  "stamped uuid now n e =
     e\<lparr>ae_id := fst (new_id uuid PrefixAudit n), ae_timestamp := now,
       ae_actor := (if ae_actor e = [] then audit_system_actor else ae_actor e)\<rparr>"

definition entry_complete :: "audit_entry \<Rightarrow> bool" where
  "entry_complete e \<longleftrightarrow> ae_action e \<noteq> [] \<and> ae_outcome e \<noteq> []"

lemma prepare_complete: "entry_complete e \<Longrightarrow> prepare uuid now e n = (Inr (stamped uuid now n e), Suc n)"
  by (simp add: prepare_def entry_complete_def stamped_def new_id_def Let_def)

lemma prepare_incomplete:
  "\<not> entry_complete e \<Longrightarrow> prepare uuid now e n = (Inl (if ae_action e = [] then ActionMissing else OutcomeMissing), n)"
  by (auto simp: prepare_def entry_complete_def)

lemma stamped_id [simp]: "ae_id (stamped uuid now n e) \<noteq> []"
  by (simp add: stamped_def new_id_def)

lemma stamped_frame [simp]:
  "ae_action (stamped uuid now n e) = ae_action e" "ae_outcome (stamped uuid now n e) = ae_outcome e"
  "ae_subject_id (stamped uuid now n e) = ae_subject_id e" "ae_details (stamped uuid now n e) = ae_details e"
  "ae_reason (stamped uuid now n e) = ae_reason e" "ae_actor_role (stamped uuid now n e) = ae_actor_role e"
  "ae_request_id (stamped uuid now n e) = ae_request_id e" "ae_timestamp (stamped uuid now n e) = now"
  "ae_actor (stamped uuid now n e) = (if ae_actor e = [] then audit_system_actor else ae_actor e)"
  "ae_subject_type (stamped uuid now n e) = ae_subject_type e"
  by (simp_all add: stamped_def)

subsection \<open>The sink\<close>

text \<open>
  \<^verbatim>\<open>audit.Sink\<close>: an accepted entry is added at the end with a sequence number of its own, and
  nothing already in the trail changes. A sink takes every entry that has an identifier.
\<close>

locale audit_sink =
  fixes emit :: "'s \<Rightarrow> audit_entry \<Rightarrow> 'e + 's"
    and trail :: "'s \<Rightarrow> audit_entry list"
    and sink_ok :: "'s \<Rightarrow> bool"
  assumes append_trail:
      "sink_ok s \<Longrightarrow> emit s e = Inr s' \<Longrightarrow>
         \<exists>k. trail s' = trail s @ [e\<lparr>ae_sequence := k\<rparr>] \<and> (\<forall>x \<in> set (trail s). ae_sequence x < k)"
    and append_ok: "sink_ok s \<Longrightarrow> emit s e = Inr s' \<Longrightarrow> sink_ok s'"
    and append_accepts: "ae_id e \<noteq> [] \<Longrightarrow> \<exists>s'. emit s e = Inr s'"
begin

text \<open>Recording a complete entry succeeds and extends the trail by the stamped entry.\<close>

lemma record_complete:
  assumes "sink_ok s" and "entry_complete e"
  obtains s' k where "record_entry emit uuid now e (n, s) = (None, Suc n, s')" "sink_ok s'"
    "trail s' = trail s @ [(stamped uuid now n e)\<lparr>ae_sequence := k\<rparr>]"
    "\<forall>x \<in> set (trail s). ae_sequence x < k"
proof -
  obtain s' where s': "emit s (stamped uuid now n e) = Inr s'" using append_accepts stamped_id by blast
  obtain k where "trail s' = trail s @ [(stamped uuid now n e)\<lparr>ae_sequence := k\<rparr>]"
      "\<forall>x \<in> set (trail s). ae_sequence x < k"
    using append_trail [OF assms(1) s'] by blast
  moreover have "record_entry emit uuid now e (n, s) = (None, Suc n, s')"
    using s' by (simp add: record_entry_def prepare_complete [OF assms(2)])
  ultimately show ?thesis using that append_ok [OF assms(1) s'] by blast
qed

lemma record_incomplete:
  "\<not> entry_complete e \<Longrightarrow> snd (snd (record_entry emit uuid now e (n, s))) = s"
  by (simp add: record_entry_def prepare_incomplete)

text \<open>Whatever is recorded, what the trail held before stays as it was.\<close>

lemma record_extends:
  assumes "sink_ok s"
  shows "sink_ok (snd (snd (record_entry emit uuid now e (n, s)))) \<and>
    (\<exists>new. trail (snd (snd (record_entry emit uuid now e (n, s)))) = trail s @ new)"
proof (cases "entry_complete e")
  case True
  obtain s' k where "record_entry emit uuid now e (n, s) = (None, Suc n, s')" "sink_ok s'"
      "trail s' = trail s @ [(stamped uuid now n e)\<lparr>ae_sequence := k\<rparr>]"
    by (rule record_complete [OF assms True])
  then show ?thesis by simp
next
  case False
  then show ?thesis using assms by (simp add: record_incomplete)
qed

end

end
