(* ===== verification/Storage.thy ===== *)
theory Storage
  imports AuditTrail
begin

text \<open>
  The in-memory store of \<^verbatim>\<open>src/internal/storage/memory.go\<close> and the paging rules of \<^verbatim>\<open>store.go\<close>.
  Records are values here, so the deep copies the code makes to cut references are the identity,
  which the theory \<open>Aliasing\<close> justifies on a heap of pointers;
  a nil argument cannot be written down except where the code gives it a meaning (the optional
  action of \<^verbatim>\<open>SaveActionWithAudit\<close>). One operation holds the lock throughout, so it is one step.
\<close>

subsection \<open>Paging and filters\<close>

definition default_page_size :: int where "default_page_size = 50"
definition max_page_size :: int where "max_page_size = 200"

definition clamp_limit :: "int \<Rightarrow> int" where
  "clamp_limit limit =
     (if limit \<le> 0 then default_page_size
      else if limit > max_page_size then max_page_size
      else limit)"

record incident_filter =
  fl_status :: string
  fl_severity :: string
  fl_min_risk_score :: int
  fl_limit :: int
  fl_offset :: int

definition normalize_filter :: "incident_filter \<Rightarrow> incident_filter" where
  "normalize_filter f =
     f\<lparr>fl_limit := clamp_limit (fl_limit f),
       fl_offset := (if fl_offset f < 0 then 0 else fl_offset f),
       fl_min_risk_score := (if fl_min_risk_score f < 0 then 0 else fl_min_risk_score f)\<rparr>"

lemma clamp_limit_bounds: "1 \<le> clamp_limit l \<and> clamp_limit l \<le> 200"
  by (auto simp: clamp_limit_def default_page_size_def max_page_size_def)

subsection \<open>The store\<close>

datatype store_error = NotFound | EventNeedsId | IncidentNeedsId | ActionNeedsId | AuditNeedsId

text \<open>\<^verbatim>\<open>eventIDs\<close> is a Go map used as a set: the list of its keys.\<close>

record memory_store =
  ms_events :: "security_event list"
  ms_event_ids :: "string list"
  ms_incidents :: "(string \<times> incident) list"
  ms_incident_order :: "string list"
  ms_actions :: "(string \<times> response_action) list"
  ms_action_order :: "string list"
  ms_audit_log :: "audit_entry list"
  ms_audit_seq :: int
  ms_max_events :: nat

definition new_memory_store :: "int \<Rightarrow> memory_store" where
  "new_memory_store max_events =
     \<lparr> ms_events = [], ms_event_ids = [], ms_incidents = [], ms_incident_order = [], ms_actions = [],
       ms_action_order = [], ms_audit_log = [], ms_audit_seq = 0,
       ms_max_events = (if max_events \<le> 0 then 10000 else nat max_events) \<rparr>"

definition save_event :: "memory_store \<Rightarrow> security_event \<Rightarrow> store_error + memory_store" where
  "save_event s ev =
     (if ev_id ev = [] then Inl EventNeedsId
      else if ev_id ev \<in> set (ms_event_ids s) then Inr s
      else
        let evs = ms_events s @ [ev];
            ids = ms_event_ids s @ [ev_id ev]
        in if length evs > ms_max_events s then
             let dropped = take (length evs - ms_max_events s) evs
             in Inr (s\<lparr>ms_events := drop (length evs - ms_max_events s) evs,
                       ms_event_ids := fold (\<lambda>old is. filter (\<lambda>i. i \<noteq> ev_id old) is) dropped ids\<rparr>)
           else Inr (s\<lparr>ms_events := evs, ms_event_ids := ids\<rparr>))"

definition list_events :: "memory_store \<Rightarrow> int \<Rightarrow> int \<Rightarrow> security_event list \<times> int" where
  "list_events s limit offset =
     (let limit' = clamp_limit limit; offset' = (if offset < 0 then 0 else offset)
      in (page_of (rev (ms_events s)) limit' offset', int (length (ms_events s))))"

definition count_events :: "memory_store \<Rightarrow> int" where
  "count_events s = int (length (ms_events s))"

definition save_incident :: "memory_store \<Rightarrow> incident \<Rightarrow> store_error + memory_store" where
  "save_incident s i =
     (if inc_id i = [] then Inl IncidentNeedsId
      else
        let order = (case map_of (ms_incidents s) (inc_id i) of
                       None \<Rightarrow> ms_incident_order s @ [inc_id i]
                     | Some _ \<Rightarrow> ms_incident_order s)
        in Inr (s\<lparr>ms_incident_order := order,
                  ms_incidents := AList.update (inc_id i) i (ms_incidents s)\<rparr>))"

definition get_incident :: "memory_store \<Rightarrow> string \<Rightarrow> store_error + incident" where
  "get_incident s iid = (case map_of (ms_incidents s) iid of None \<Rightarrow> Inl NotFound | Some i \<Rightarrow> Inr i)"

definition filter_incident :: "incident_filter \<Rightarrow> incident \<Rightarrow> bool" where
  "filter_incident f i \<longleftrightarrow>
     \<not> (fl_status f \<noteq> [] \<and> inc_status i \<noteq> fl_status f) \<and>
     \<not> (fl_severity f \<noteq> [] \<and> inc_severity i \<noteq> fl_severity f) \<and>
     \<not> inc_risk_score i < fl_min_risk_score f"

text \<open>The order of an incident listing: most recently active first, then by descending identifier.\<close>

definition incident_before :: "incident \<Rightarrow> incident \<Rightarrow> bool" where
  "incident_before i j =
     (if inc_last_seen i \<noteq> inc_last_seen j then inc_last_seen i > inc_last_seen j else inc_id i > inc_id j)"

definition matched_incidents :: "memory_store \<Rightarrow> incident_filter \<Rightarrow> incident list" where
  "matched_incidents s f =
     rev (sort_key (\<lambda>i. (inc_last_seen i, inc_id i))
       (rev (filter (filter_incident f) (List.map_filter (map_of (ms_incidents s)) (ms_incident_order s)))))"

definition list_incidents :: "memory_store \<Rightarrow> incident_filter \<Rightarrow> incident list \<times> int" where
  "list_incidents s f0 =
     (let f = normalize_filter f0; matched = matched_incidents s f
      in (page_of matched (fl_limit f) (fl_offset f), int (length matched)))"

definition save_action_locked :: "response_action \<Rightarrow> memory_store \<Rightarrow> memory_store" where
  "save_action_locked a s =
     (let order = (case map_of (ms_actions s) (act_id a) of
                     None \<Rightarrow> ms_action_order s @ [act_id a]
                   | Some _ \<Rightarrow> ms_action_order s)
      in s\<lparr>ms_action_order := order, ms_actions := AList.update (act_id a) a (ms_actions s)\<rparr>)"

definition save_action :: "memory_store \<Rightarrow> response_action \<Rightarrow> store_error + memory_store" where
  "save_action s a = (if act_id a = [] then Inl ActionNeedsId else Inr (save_action_locked a s))"

definition append_audit_locked :: "audit_entry \<Rightarrow> memory_store \<Rightarrow> memory_store" where
  "append_audit_locked e s =
     (let q = ms_audit_seq s + 1
      in s\<lparr>ms_audit_seq := q, ms_audit_log := ms_audit_log s @ [e\<lparr>ae_sequence := q\<rparr>]\<rparr>)"

definition append_audit :: "memory_store \<Rightarrow> audit_entry \<Rightarrow> store_error + memory_store" where
  "append_audit s e = (if ae_id e = [] then Inl AuditNeedsId else Inr (append_audit_locked e s))"

definition save_action_with_audit ::
  "memory_store \<Rightarrow> response_action option \<Rightarrow> audit_entry list \<Rightarrow> store_error + memory_store" where
  "save_action_with_audit s act entries =
     (if (case act of None \<Rightarrow> False | Some a \<Rightarrow> act_id a = []) then Inl ActionNeedsId
      else if \<exists>e \<in> set entries. ae_id e = [] then Inl AuditNeedsId
      else
        let s1 = (case act of None \<Rightarrow> s | Some a \<Rightarrow> save_action_locked a s)
        in Inr (fold append_audit_locked entries s1))"

definition get_action :: "memory_store \<Rightarrow> string \<Rightarrow> store_error + response_action" where
  "get_action s aid = (case map_of (ms_actions s) aid of None \<Rightarrow> Inl NotFound | Some a \<Rightarrow> Inr a)"

definition list_actions ::
  "memory_store \<Rightarrow> string \<Rightarrow> int \<Rightarrow> int \<Rightarrow> response_action list \<times> int" where
  "list_actions s incident_id limit offset =
     (let limit' = clamp_limit limit; offset' = (if offset < 0 then 0 else offset);
          matched = filter (\<lambda>a. \<not> (incident_id \<noteq> [] \<and> act_incident_id a \<noteq> incident_id))
            (List.map_filter (map_of (ms_actions s)) (rev (ms_action_order s)))
      in (page_of matched limit' offset', int (length matched)))"

definition list_audit :: "memory_store \<Rightarrow> int \<Rightarrow> int \<Rightarrow> audit_entry list \<times> int" where
  "list_audit s limit offset =
     (let limit' = clamp_limit limit; offset' = (if offset < 0 then 0 else offset)
      in (page_of (ms_audit_log s) limit' offset', int (length (ms_audit_log s))))"

subsection \<open>What the store keeps true\<close>

definition events_wf :: "memory_store \<Rightarrow> bool" where
  "events_wf s \<longleftrightarrow>
     ms_event_ids s = map ev_id (ms_events s) \<and> distinct (map ev_id (ms_events s)) \<and>
     [] \<notin> set (map ev_id (ms_events s)) \<and> length (ms_events s) \<le> ms_max_events s \<and> 0 < ms_max_events s"

text \<open>A map kept beside a list of its keys in the order of their first insertion.\<close>

definition ordered_wf :: "('v \<Rightarrow> string) \<Rightarrow> string list \<Rightarrow> (string \<times> 'v) list \<Rightarrow> bool" where
  "ordered_wf ident order m \<longleftrightarrow>
     distinct order \<and> (\<forall>k. k \<in> set order \<longleftrightarrow> map_of m k \<noteq> None) \<and>
     (\<forall>k v. map_of m k = Some v \<longrightarrow> ident v = k \<and> k \<noteq> [])"

lemma ordered_wf_insert:
  assumes "ordered_wf ident order m" and "ident v \<noteq> []"
  shows "ordered_wf ident (case map_of m (ident v) of None \<Rightarrow> order @ [ident v] | Some _ \<Rightarrow> order)
    (AList.update (ident v) v m)"
  using assms by (auto simp: ordered_wf_def split: option.split)

definition incidents_wf :: "memory_store \<Rightarrow> bool" where
  "incidents_wf s \<longleftrightarrow> ordered_wf inc_id (ms_incident_order s) (ms_incidents s)"

definition actions_wf :: "memory_store \<Rightarrow> bool" where
  "actions_wf s \<longleftrightarrow> ordered_wf act_id (ms_action_order s) (ms_actions s)"

definition audit_wf :: "memory_store \<Rightarrow> bool" where
  "audit_wf s \<longleftrightarrow>
     ms_audit_seq s = int (length (ms_audit_log s)) \<and>
     map ae_sequence (ms_audit_log s) = map (\<lambda>i. int i + 1) [0..<length (ms_audit_log s)] \<and>
     (\<forall>e \<in> set (ms_audit_log s). ae_id e \<noteq> [])"

definition store_wf :: "memory_store \<Rightarrow> bool" where
  "store_wf s \<longleftrightarrow> events_wf s \<and> incidents_wf s \<and> actions_wf s \<and> audit_wf s"

lemma new_memory_store_wf [wf_intros]: "store_wf (new_memory_store m)"
  by (simp add: store_wf_def events_wf_def incidents_wf_def actions_wf_def ordered_wf_def audit_wf_def
      new_memory_store_def)

text \<open>What each operation changes.\<close>

lemma save_event_frame:
  assumes "save_event s ev = Inr s'"
  shows "ms_incidents s' = ms_incidents s \<and> ms_incident_order s' = ms_incident_order s \<and>
    ms_actions s' = ms_actions s \<and> ms_action_order s' = ms_action_order s \<and>
    ms_audit_log s' = ms_audit_log s \<and> ms_audit_seq s' = ms_audit_seq s"
  using assms by (auto simp: save_event_def Let_def split: if_splits)

lemma save_incident_frame:
  assumes "save_incident s i = Inr s'"
  shows "ms_events s' = ms_events s \<and> ms_event_ids s' = ms_event_ids s \<and> ms_max_events s' = ms_max_events s \<and>
    ms_actions s' = ms_actions s \<and> ms_action_order s' = ms_action_order s \<and>
    ms_audit_log s' = ms_audit_log s \<and> ms_audit_seq s' = ms_audit_seq s"
  using assms by (auto simp: save_incident_def Let_def split: if_splits)

lemma save_action_locked_frame [simp]:
  "ms_events (save_action_locked a s) = ms_events s" "ms_event_ids (save_action_locked a s) = ms_event_ids s"
  "ms_max_events (save_action_locked a s) = ms_max_events s" "ms_incidents (save_action_locked a s) = ms_incidents s"
  "ms_incident_order (save_action_locked a s) = ms_incident_order s"
  "ms_audit_log (save_action_locked a s) = ms_audit_log s" "ms_audit_seq (save_action_locked a s) = ms_audit_seq s"
  by (simp_all add: save_action_locked_def Let_def)

lemma append_audit_locked_frame [simp]:
  "ms_events (append_audit_locked e s) = ms_events s" "ms_event_ids (append_audit_locked e s) = ms_event_ids s"
  "ms_max_events (append_audit_locked e s) = ms_max_events s" "ms_incidents (append_audit_locked e s) = ms_incidents s"
  "ms_incident_order (append_audit_locked e s) = ms_incident_order s"
  "ms_actions (append_audit_locked e s) = ms_actions s" "ms_action_order (append_audit_locked e s) = ms_action_order s"
  by (simp_all add: append_audit_locked_def Let_def)

text \<open>Each part of the invariant reads only its own fields.\<close>

lemma wf_congs:
  "ms_events s' = ms_events s \<Longrightarrow> ms_event_ids s' = ms_event_ids s \<Longrightarrow> ms_max_events s' = ms_max_events s \<Longrightarrow>
     events_wf s' = events_wf s"
  "ms_incidents s' = ms_incidents s \<Longrightarrow> ms_incident_order s' = ms_incident_order s \<Longrightarrow> incidents_wf s' = incidents_wf s"
  "ms_actions s' = ms_actions s \<Longrightarrow> ms_action_order s' = ms_action_order s \<Longrightarrow> actions_wf s' = actions_wf s"
  "ms_audit_log s' = ms_audit_log s \<Longrightarrow> ms_audit_seq s' = ms_audit_seq s \<Longrightarrow> audit_wf s' = audit_wf s"
  by (simp_all add: events_wf_def incidents_wf_def actions_wf_def audit_wf_def)

definition the_store :: "store_error + memory_store \<Rightarrow> memory_store" where
  "the_store r = (case r of Inl _ \<Rightarrow> new_memory_store 0 | Inr s \<Rightarrow> s)"

subsection \<open>Events\<close>

lemma fold_filter: "fold (\<lambda>old is. filter (\<lambda>i. i \<noteq> ev_id old) is) olds ids = filter (\<lambda>i. i \<notin> ev_id ` set olds) ids"
  by (induction olds arbitrary: ids) (auto simp: filter_filter intro!: filter_cong)

lemma filter_taken:
  assumes "distinct (map f xs)"
  shows "filter (\<lambda>i. i \<notin> f ` set (take k xs)) (map f xs) = map f (drop k xs)"
proof -
  have "filter (\<lambda>i. i \<notin> f ` set (take k xs)) (map f (take k xs) @ map f (drop k xs)) = map f (drop k xs)"
  proof -
    have "distinct (map f (take k xs) @ map f (drop k xs))" using assms by (metis append_take_drop_id map_append)
    then have "set (map f (drop k xs)) \<inter> f ` set (take k xs) = {}" by auto
    then have "filter (\<lambda>i. i \<notin> f ` set (take k xs)) (map f (drop k xs)) = map f (drop k xs)"
      by (intro filter_True) auto
    then show ?thesis by (simp add: filter_empty_conv)
  qed
  then show ?thesis by (metis append_take_drop_id map_append)
qed

text \<open>On a well-formed store a new event is added at the end and the oldest ones are dropped.\<close>

lemma save_event_new:
  assumes "events_wf s" and "ev_id ev \<noteq> []" and "ev_id ev \<notin> set (map ev_id (ms_events s))"
  shows "save_event s ev = Inr (s\<lparr>
    ms_events := drop (Suc (length (ms_events s)) - ms_max_events s) (ms_events s @ [ev]),
    ms_event_ids := map ev_id (drop (Suc (length (ms_events s)) - ms_max_events s) (ms_events s @ [ev]))\<rparr>)"
proof -
  let ?evs = "ms_events s @ [ev]"
  have ids: "ms_event_ids s = map ev_id (ms_events s)" and d: "distinct (map ev_id ?evs)"
    using assms by (simp_all add: events_wf_def)
  have ids': "ms_event_ids s @ [ev_id ev] = map ev_id ?evs" by (simp add: ids)
  have new: "ev_id ev \<notin> set (ms_event_ids s)" using assms(3) by (simp add: ids)
  show ?thesis
  proof (cases "length ?evs > ms_max_events s")
    case True
    then show ?thesis
      unfolding save_event_def Let_def ids' using assms(2) new
      by (simp only: if_False if_True fold_filter filter_taken [OF d]) simp
  next
    case False
    then show ?thesis
      unfolding save_event_def Let_def ids' using assms(2) new by (simp add: not_less)
  qed
qed

lemma save_event_known:
  "events_wf s \<Longrightarrow> ev_id ev \<in> set (map ev_id (ms_events s)) \<Longrightarrow> save_event s ev = Inr s"
  by (auto simp: save_event_def events_wf_def)

lemma save_event_events_wf:
  assumes "events_wf s" and "save_event s ev = Inr s'"
  shows "events_wf s'"
proof (cases "ev_id ev \<in> set (map ev_id (ms_events s))")
  case True
  then show ?thesis using assms save_event_known by fastforce
next
  case False
  have id: "ev_id ev \<noteq> []" using assms(2) by (auto simp: save_event_def)
  let ?d = "Suc (length (ms_events s)) - ms_max_events s"
  have s': "ms_events s' = drop ?d (ms_events s @ [ev])" "ms_event_ids s' = map ev_id (drop ?d (ms_events s @ [ev]))"
    "ms_max_events s' = ms_max_events s"
    using assms(2) save_event_new [OF assms(1) id False] by auto
  have d: "distinct (map ev_id (ms_events s @ [ev]))" using assms(1) False by (simp add: events_wf_def)
  have "distinct (map ev_id (drop ?d (ms_events s @ [ev])))"
    using distinct_drop [OF d] by (simp only: drop_map)
  moreover have "set (map ev_id (drop ?d (ms_events s @ [ev]))) \<subseteq> insert (ev_id ev) (set (map ev_id (ms_events s)))"
    using set_drop_subset [of ?d "ms_events s @ [ev]"] by auto
  ultimately show ?thesis
    using assms(1) id unfolding events_wf_def s' by auto
qed

subsection \<open>Incidents and actions\<close>

lemma save_incident_incidents_wf:
  assumes "incidents_wf s" and "save_incident s i = Inr s'"
  shows "incidents_wf s'"
  using assms ordered_wf_insert [of inc_id "ms_incident_order s" "ms_incidents s" i]
  by (auto simp: incidents_wf_def save_incident_def Let_def split: if_splits)

lemma save_action_locked_actions_wf:
  assumes "actions_wf s" and "act_id a \<noteq> []"
  shows "actions_wf (save_action_locked a s)"
  using assms ordered_wf_insert [of act_id "ms_action_order s" "ms_actions s" a]
  by (simp add: actions_wf_def save_action_locked_def Let_def)

subsection \<open>The trail\<close>

lemma append_audit_locked_log:
  "audit_wf s \<Longrightarrow> ms_audit_log (append_audit_locked e s) =
     ms_audit_log s @ [e\<lparr>ae_sequence := int (length (ms_audit_log s)) + 1\<rparr>]"
  by (simp add: append_audit_locked_def Let_def audit_wf_def)

lemma append_audit_locked_wf:
  "audit_wf s \<Longrightarrow> ae_id e \<noteq> [] \<Longrightarrow> audit_wf (append_audit_locked e s)"
  by (simp add: audit_wf_def append_audit_locked_def Let_def)

definition numbered :: "nat \<Rightarrow> audit_entry list \<Rightarrow> audit_entry list" where
  "numbered n es = map (\<lambda>(i, e). e\<lparr>ae_sequence := int (n + i) + 1\<rparr>) (zip [0..<length es] es)"

lemma numbered_Nil [simp]: "numbered n [] = []"
  by (simp add: numbered_def)

lemma numbered_Cons: "numbered n (e # es) = e\<lparr>ae_sequence := int n + 1\<rparr> # numbered (Suc n) es"
proof -
  have "zip [0..<length (e # es)] (e # es) = (0, e) # map (\<lambda>(i, x). (Suc i, x)) (zip [0..<length es] es)"
    by (simp add: upt_conv_Cons map_Suc_upt [symmetric] zip_map1 del: upt_Suc)
  then show ?thesis by (simp add: numbered_def comp_def case_prod_unfold)
qed

lemma fold_append_audit:
  "audit_wf s \<Longrightarrow> \<forall>e \<in> set es. ae_id e \<noteq> [] \<Longrightarrow>
     audit_wf (fold append_audit_locked es s) \<and>
     ms_audit_log (fold append_audit_locked es s) = ms_audit_log s @ numbered (length (ms_audit_log s)) es"
  by (induction es arbitrary: s)
    (simp_all add: append_audit_locked_wf append_audit_locked_log numbered_Cons)

lemma fold_append_audit_frame [simp]:
  "ms_events (fold append_audit_locked es s) = ms_events s"
  "ms_event_ids (fold append_audit_locked es s) = ms_event_ids s"
  "ms_max_events (fold append_audit_locked es s) = ms_max_events s"
  "ms_incidents (fold append_audit_locked es s) = ms_incidents s"
  "ms_incident_order (fold append_audit_locked es s) = ms_incident_order s"
  "ms_actions (fold append_audit_locked es s) = ms_actions s"
  "ms_action_order (fold append_audit_locked es s) = ms_action_order s"
  by (induction es arbitrary: s) simp_all

subsection \<open>The store as a state machine\<close>

inductive store_step :: "memory_store \<Rightarrow> memory_store \<Rightarrow> bool" where
  step_event: "save_event s ev = Inr s' \<Longrightarrow> store_step s s'"
| step_incident: "save_incident s i = Inr s' \<Longrightarrow> store_step s s'"
| step_action: "save_action s a = Inr s' \<Longrightarrow> store_step s s'"
| step_audit: "append_audit s e = Inr s' \<Longrightarrow> store_step s s'"
| step_evaluation: "save_action_with_audit s act es = Inr s' \<Longrightarrow> store_step s s'"

inductive store_run :: "memory_store \<Rightarrow> memory_store \<Rightarrow> bool" for s0 where
  run_start: "store_run s0 s0"
| run_step: "store_run s0 s \<Longrightarrow> store_step s s' \<Longrightarrow> store_run s0 s'"

inductive_cases store_stepE: "store_step s s'"

lemma save_action_with_audit_eq:
  "save_action_with_audit s act es = Inr s' \<longleftrightarrow>
     (\<forall>a. act = Some a \<longrightarrow> act_id a \<noteq> []) \<and> (\<forall>e \<in> set es. ae_id e \<noteq> []) \<and>
     s' = fold append_audit_locked es (case act of None \<Rightarrow> s | Some a \<Rightarrow> save_action_locked a s)"
  by (cases act) (auto simp: save_action_with_audit_def Let_def)

lemma save_action_locked_wf: "store_wf s \<Longrightarrow> act_id a \<noteq> [] \<Longrightarrow> store_wf (save_action_locked a s)"
  using wf_congs [of "save_action_locked a s" s] save_action_locked_actions_wf by (simp add: store_wf_def)

lemma fold_append_audit_wf: "store_wf s \<Longrightarrow> \<forall>e \<in> set es. ae_id e \<noteq> [] \<Longrightarrow> store_wf (fold append_audit_locked es s)"
  using wf_congs [of "fold append_audit_locked es s" s] fold_append_audit by (simp add: store_wf_def)

lemma store_step_wf:
  assumes "store_step s s'" and "store_wf s"
  shows "store_wf s'"
  using assms(1)
proof (cases rule: store_step.cases)
  case (step_event ev)
  then show ?thesis
    using assms(2) save_event_frame [OF step_event] wf_congs [of s' s] save_event_events_wf by (auto simp: store_wf_def)
next
  case (step_incident i)
  then show ?thesis
    using assms(2) save_incident_frame [OF step_incident] wf_congs [of s' s] save_incident_incidents_wf
    by (auto simp: store_wf_def)
next
  case (step_action a)
  then show ?thesis using assms(2) save_action_locked_wf by (auto simp: save_action_def split: if_splits)
next
  case (step_audit e)
  then show ?thesis
    using assms(2) fold_append_audit_wf [of s "[e]"] by (auto simp: append_audit_def split: if_splits)
next
  case (step_evaluation act es)
  then show ?thesis
    using assms(2) fold_append_audit_wf save_action_locked_wf
    by (cases act) (auto simp: save_action_with_audit_eq)
qed

lemma store_step_trail:
  assumes "store_step s s'" and "store_wf s"
  shows "\<exists>new. ms_audit_log s' = ms_audit_log s @ new"
  using assms(1)
proof (cases rule: store_step.cases)
  case (step_event ev)
  then show ?thesis using save_event_frame by force
next
  case (step_incident i)
  then show ?thesis using save_incident_frame by force
next
  case (step_action a)
  then show ?thesis by (auto simp: save_action_def split: if_splits)
next
  case (step_audit e)
  then show ?thesis by (auto simp: append_audit_def append_audit_locked_def Let_def split: if_splits)
next
  case (step_evaluation act es)
  then have ids: "\<forall>e \<in> set es. ae_id e \<noteq> []" by (simp add: save_action_with_audit_eq)
  let ?s1 = "case act of None \<Rightarrow> s | Some a \<Rightarrow> save_action_locked a s"
  have "audit_wf ?s1" using assms(2) wf_congs(4) [of ?s1 s] by (simp add: store_wf_def split: option.split)
  from fold_append_audit [OF this ids] step_evaluation show ?thesis
    by (auto simp: save_action_with_audit_eq split: option.split)
qed

lemma store_run_wf: "store_run s0 s \<Longrightarrow> store_wf s0 \<Longrightarrow> store_wf s"
  by (induction rule: store_run.induct) (auto intro: store_step_wf)

lemma store_run_trail: "store_run s0 s \<Longrightarrow> store_wf s0 \<Longrightarrow> \<exists>new. ms_audit_log s = ms_audit_log s0 @ new"
proof (induction rule: store_run.induct)
  case (run_step s s')
  then show ?case using store_step_trail store_run_wf by (metis append.assoc)
qed simp

subsection \<open>The interfaces the store provides\<close>

text \<open>
  \<^verbatim>\<open>correlation.IncidentStore\<close>: an accepted incident is what a later lookup under its identifier
  returns, other lookups are not affected, and a lookup returns an incident with the
  identifier that was asked for.
\<close>

locale incident_store =
  fixes get :: "'s \<Rightarrow> string \<Rightarrow> 'e + incident"
    and save :: "'s \<Rightarrow> incident \<Rightarrow> 'e + 's"
    and store_ok :: "'s \<Rightarrow> bool"
  assumes save_get: "save s i = Inr s' \<Longrightarrow> get s' k = (if k = inc_id i then Inr i else get s k)"
    and get_id: "store_ok s \<Longrightarrow> get s k = Inr i \<Longrightarrow> inc_id i = k"
    and save_ok: "store_ok s \<Longrightarrow> save s i = Inr s' \<Longrightarrow> store_ok s'"
begin

lemma get_saved: "save s i = Inr s' \<Longrightarrow> get s' (inc_id i) = Inr i"
  by (simp add: save_get)

lemma get_other: "save s i = Inr s' \<Longrightarrow> k \<noteq> inc_id i \<Longrightarrow> get s' k = get s k"
  by (simp add: save_get)

end

interpretation memory_incidents: incident_store get_incident save_incident incidents_wf
proof
  show "get_incident s' k = (if k = inc_id i then Inr i else get_incident s k)"
    if "save_incident s i = Inr s'" for s s' i k
    using that by (auto simp: get_incident_def save_incident_def Let_def split: if_splits)
  show "inc_id i = k" if wf: "incidents_wf s" and "get_incident s k = Inr i" for s k i
  proof -
    have "map_of (ms_incidents s) k = Some i" using that(2) by (simp add: get_incident_def split: option.splits)
    then show ?thesis using wf unfolding incidents_wf_def ordered_wf_def by blast
  qed
qed (rule save_incident_incidents_wf)

interpretation memory_sink: audit_sink append_audit ms_audit_log audit_wf
proof
  fix s s' :: memory_store and e
  assume wf: "audit_wf s" and app: "append_audit s e = Inr s'"
  have log: "ms_audit_log s' = ms_audit_log s @ [e\<lparr>ae_sequence := int (length (ms_audit_log s)) + 1\<rparr>]"
    using app append_audit_locked_log [OF wf] by (auto simp: append_audit_def split: if_splits)
  have "ae_sequence ` set (ms_audit_log s) = (\<lambda>i. int i + 1) ` {0..<length (ms_audit_log s)}"
    using wf unfolding audit_wf_def by (metis list.set_map set_upt)
  then have "\<forall>x \<in> set (ms_audit_log s). ae_sequence x < int (length (ms_audit_log s)) + 1"
    by (force simp: set_eq_iff image_iff)
  with log show "\<exists>k. ms_audit_log s' = ms_audit_log s @ [e\<lparr>ae_sequence := k\<rparr>] \<and>
      (\<forall>x \<in> set (ms_audit_log s). ae_sequence x < k)" by blast
  show "audit_wf s'" using wf app by (auto simp: append_audit_def append_audit_locked_wf split: if_splits)
next
  fix s and e :: audit_entry
  assume "ae_id e \<noteq> []"
  then show "\<exists>s'. append_audit s e = Inr s'" by (simp add: append_audit_def)
qed

subsection \<open>Listings\<close>

lemma ordered_values:
  assumes "ordered_wf ident order m"
  shows "map ident (List.map_filter (map_of m) order) = order"
proof (rule map_filter_all)
  fix k assume "k \<in> set order"
  then obtain v where "map_of m k = Some v" using assms by (auto simp: ordered_wf_def)
  then show "\<exists>v. map_of m k = Some v \<and> ident v = k" using assms by (auto simp: ordered_wf_def)
qed

lemma in_map_filter: "v \<in> set (List.map_filter f xs) \<longleftrightarrow> (\<exists>k \<in> set xs. f k = Some v)"
  by (induction xs) (auto simp: List.map_filter_simps split: option.split)

lemma set_map_filter_order:
  assumes "ordered_wf ident order m"
  shows "v \<in> set (List.map_filter (map_of m) order) \<longleftrightarrow> map_of m (ident v) = Some v"
proof
  assume "v \<in> set (List.map_filter (map_of m) order)"
  then obtain k where k: "map_of m k = Some v" by (auto simp: in_map_filter)
  then have "ident v = k" using assms unfolding ordered_wf_def by blast
  with k show "map_of m (ident v) = Some v" by simp
next
  assume v: "map_of m (ident v) = Some v"
  then have "ident v \<in> set order" using assms unfolding ordered_wf_def by blast
  with v show "v \<in> set (List.map_filter (map_of m) order)" unfolding in_map_filter by blast
qed

lemma matched_incidents_spec:
  assumes "incidents_wf s"
  shows "sorted_wrt incident_before (matched_incidents s f)"
    and "i \<in> set (matched_incidents s f) \<longleftrightarrow> get_incident s (inc_id i) = Inr i \<and> filter_incident f i"
proof -
  let ?key = "\<lambda>i. (inc_last_seen i, inc_id i)"
  let ?base = "filter (filter_incident f) (List.map_filter (map_of (ms_incidents s)) (ms_incident_order s))"
  let ?sorted = "sort_key ?key (rev ?base)"
  have wf: "ordered_wf inc_id (ms_incident_order s) (ms_incidents s)" using assms by (simp add: incidents_wf_def)
  have "distinct (map inc_id (List.map_filter (map_of (ms_incidents s)) (ms_incident_order s)))"
    using wf by (simp only: ordered_values) (simp add: ordered_wf_def)
  then have d: "distinct (map inc_id ?base)" by (rule distinct_map_filter)
  have "mset (map inc_id ?sorted) = mset (map inc_id ?base)" by simp
  then have "distinct (map inc_id ?sorted)" using d mset_eq_imp_distinct_iff by blast
  then have "distinct (map ?key ?sorted)" unfolding distinct_map by (auto simp: inj_on_def)
  then have "sorted_wrt (<) (map ?key ?sorted)" by (simp add: strict_sorted_iff)
  then have "sorted_wrt (\<lambda>i j. ?key i < ?key j) ?sorted" by (simp add: sorted_wrt_map)
  then have "sorted_wrt (\<lambda>i j. ?key j < ?key i) (rev ?sorted)" by (simp add: sorted_wrt_rev)
  then show "sorted_wrt incident_before (matched_incidents s f)"
    unfolding matched_incidents_def by (rule sorted_wrt_mono_rel [rotated]) (auto simp: incident_before_def)
  show "i \<in> set (matched_incidents s f) \<longleftrightarrow> get_incident s (inc_id i) = Inr i \<and> filter_incident f i"
    using set_map_filter_order [OF wf, of i]
    by (auto simp: matched_incidents_def get_incident_def split: option.splits)
qed

subsection \<open>Properties\<close>

text \<open>
  C36 (invariant): in every state the store can reach, at most \<^verbatim>\<open>maxEvents\<close> events are held, no two
  with one identifier, and the set of known identifiers mirrors them; every incident and
  action is filed once under its own identifier; and the trail is numbered 1, 2, 3, ...
\<close>

theorem store_reachable_wf:
  assumes "store_run (new_memory_store m) s"
  shows "length (ms_events s) \<le> ms_max_events s \<and> ms_event_ids s = map ev_id (ms_events s) \<and>
    distinct (map ev_id (ms_events s)) \<and> ordered_wf inc_id (ms_incident_order s) (ms_incidents s) \<and>
    ordered_wf act_id (ms_action_order s) (ms_actions s) \<and>
    map ae_sequence (ms_audit_log s) = map (\<lambda>i. int i + 1) [0..<length (ms_audit_log s)]"
proof -
  have "store_wf s" by (rule store_run_wf [OF assms new_memory_store_wf])
  then show ?thesis
    by (simp add: store_wf_def events_wf_def incidents_wf_def actions_wf_def audit_wf_def)
qed

definition sample_store :: memory_store where
  "sample_store = the_store (save_event (the_store (save_event (the_store (save_event (new_memory_store 2)
     (zero_event\<lparr>ev_id := ''a''\<rparr>))) (zero_event\<lparr>ev_id := ''b''\<rparr>))) (zero_event\<lparr>ev_id := ''c''\<rparr>))"

lemma sample_store_run: "store_run (new_memory_store 2) sample_store"
proof -
  have step: "store_run (new_memory_store 2) (the_store (save_event s ev))"
    if run: "store_run (new_memory_store 2) s" and ok: "\<exists>s'. save_event s ev = Inr s'" for s ev
  proof -
    obtain s' where s': "save_event s ev = Inr s'" using ok by blast
    show ?thesis using run_step [OF run step_event [OF s']] s' by (simp add: the_store_def)
  qed
  show ?thesis
    unfolding sample_store_def
    by (intro step run_start) (simp_all add: save_event_def Let_def new_memory_store_def zero_event_def)
qed

theorem store_reachable_wf_witness:
  "map ev_id (ms_events sample_store) = [''b'', ''c''] \<and> ms_event_ids sample_store = [''b'', ''c'']"
proof -
  have "map ev_id (ms_events sample_store) = [''b'', ''c'']" by code_simp
  with store_reachable_wf [OF sample_store_run] show ?thesis by simp
qed

text \<open>
  Saving an event twice is saving it once. A new event is kept as the newest, the
  oldest are dropped beyond the retention bound, and a second save of it changes nothing, so a
  retry storm does not become a duplicate storm.
\<close>

theorem save_event_once:
  assumes "store_wf s" and "ev_id ev \<noteq> []" and "ev_id ev \<notin> ev_id ` set (ms_events s)"
  shows "\<exists>s'. save_event s ev = Inr s' \<and> save_event s' ev = Inr s' \<and>
    ms_events s' = drop (Suc (length (ms_events s)) - ms_max_events s) (ms_events s @ [ev])"
proof -
  have wf: "events_wf s" and new: "ev_id ev \<notin> set (map ev_id (ms_events s))"
    using assms(1,3) by (simp_all add: store_wf_def)
  obtain s' where s': "save_event s ev = Inr s'"
    and evs: "ms_events s' = drop (Suc (length (ms_events s)) - ms_max_events s) (ms_events s @ [ev])"
    using save_event_new [OF wf assms(2) new] by auto
  have "0 < ms_max_events s" using wf by (simp add: events_wf_def)
  then have "ev \<in> set (ms_events s')" unfolding evs by simp
  then have "save_event s' ev = Inr s'"
    by (intro save_event_known save_event_events_wf [OF wf s']) simp
  with s' evs show ?thesis by blast
qed

theorem save_event_once_witness:
  "\<exists>s'. save_event (new_memory_store 1) (zero_event\<lparr>ev_id := ''a''\<rparr>) = Inr s' \<and>
     save_event s' (zero_event\<lparr>ev_id := ''a''\<rparr>) = Inr s'"
  using save_event_once [of "new_memory_store 1" "zero_event\<lparr>ev_id := ''a''\<rparr>", OF new_memory_store_wf]
  by (auto simp: new_memory_store_def)

text \<open>
  The audit trail is append-only. Whatever operations follow, the entries a store
  holds stay in place, unchanged and in order.
\<close>

theorem audit_trail_append_only:
  assumes "store_run (new_memory_store m) s" and "store_run s s'"
  shows "take (length (ms_audit_log s)) (ms_audit_log s') = ms_audit_log s"
proof -
  have "store_wf s" by (rule store_run_wf [OF assms(1) new_memory_store_wf])
  then obtain new where "ms_audit_log s' = ms_audit_log s @ new" using store_run_trail [OF assms(2)] by blast
  then show ?thesis by simp
qed

theorem audit_trail_append_only_witness:
  "(let e = zero_entry\<lparr>ae_id := ''aud-1''\<rparr>; s = append_audit_locked e (new_memory_store 5)
    in take 1 (ms_audit_log (append_audit_locked (e\<lparr>ae_id := ''aud-2''\<rparr>) s)) = [e\<lparr>ae_sequence := 1\<rparr>])"
proof -
  let ?e = "zero_entry\<lparr>ae_id := ''aud-1''\<rparr>" and ?f = "zero_entry\<lparr>ae_id := ''aud-2''\<rparr>"
  let ?s = "append_audit_locked ?e (new_memory_store 5)"
  have "store_run (new_memory_store 5) ?s"
    by (rule run_step [OF run_start step_audit [where e = ?e]]) (simp add: append_audit_def)
  moreover have "store_run ?s (append_audit_locked ?f ?s)"
    by (rule run_step [OF run_start step_audit [where e = ?f]]) (simp add: append_audit_def)
  ultimately have "take (length (ms_audit_log ?s)) (ms_audit_log (append_audit_locked ?f ?s)) = ms_audit_log ?s"
    by (rule audit_trail_append_only)
  then show ?thesis by (simp add: append_audit_locked_def new_memory_store_def Let_def)
qed

text \<open>
  C26 (error): \<^verbatim>\<open>SaveActionWithAudit\<close> writes everything or nothing. It is refused exactly when the
  action or an entry has no identifier; otherwise the action can be read back and the trail
  grows by all the entries, in order and consecutively numbered.
\<close>

theorem save_action_with_audit_atomic:
  assumes "store_wf s"
  shows "case save_action_with_audit s (Some a) es of
      Inl _ \<Rightarrow> act_id a = [] \<or> (\<exists>e \<in> set es. ae_id e = [])
    | Inr s' \<Rightarrow> act_id a \<noteq> [] \<and> (\<forall>e \<in> set es. ae_id e \<noteq> []) \<and> get_action s' (act_id a) = Inr a \<and>
        ms_audit_log s' = ms_audit_log s @ numbered (length (ms_audit_log s)) es \<and>
        ms_events s' = ms_events s \<and> ms_incidents s' = ms_incidents s"
proof (cases "save_action_with_audit s (Some a) es")
  case (Inl err)
  then show ?thesis by (auto simp: save_action_with_audit_def Let_def split: if_splits)
next
  case (Inr s')
  then have ids: "act_id a \<noteq> []" "\<forall>e \<in> set es. ae_id e \<noteq> []"
    and s': "s' = fold append_audit_locked es (save_action_locked a s)"
    by (simp_all add: save_action_with_audit_eq)
  have "audit_wf (save_action_locked a s)" using save_action_locked_wf [OF assms ids(1)] by (simp add: store_wf_def)
  from fold_append_audit [OF this ids(2)] have "ms_audit_log s' = ms_audit_log s @ numbered (length (ms_audit_log s)) es"
    by (simp add: s')
  moreover have "get_action s' (act_id a) = Inr a"
    by (simp add: s' get_action_def save_action_locked_def Let_def)
  ultimately show ?thesis using Inr ids by (simp add: s')
qed

definition sample_action :: response_action where
  "sample_action = \<lparr> act_id = ''act-1'', act_incident_id = ''inc-1'', act_action_type = ''require_mfa'',
     act_mode = ModeSimulate, act_status = ActionDenied, act_requested_by = ''amy'', act_policy_decision = None,
     act_reason = [], act_reversible = True, act_destructive = False, act_rollback_action = [],
     act_target_entity_id = [], act_simulated = None, act_created_at = 1, act_executed_at = None \<rparr>"

theorem save_action_with_audit_atomic_witness:
  "(case save_action_with_audit (new_memory_store 5) (Some sample_action) [zero_entry\<lparr>ae_id := ''aud-1''\<rparr>] of
      Inl _ \<Rightarrow> False
    | Inr s' \<Rightarrow> get_action s' ''act-1'' = Inr sample_action \<and> length (ms_audit_log s') = 1)"
proof -
  obtain s' where s': "save_action_with_audit (new_memory_store 5) (Some sample_action) [zero_entry\<lparr>ae_id := ''aud-1''\<rparr>] = Inr s'"
    by (simp add: save_action_with_audit_def Let_def sample_action_def)
  from save_action_with_audit_atomic [OF new_memory_store_wf [of 5], where a = sample_action and
      es = "[zero_entry\<lparr>ae_id := ''aud-1''\<rparr>]"]
  have "get_action s' (act_id sample_action) = Inr sample_action \<and>
      ms_audit_log s' = ms_audit_log (new_memory_store 5) @ numbered (length (ms_audit_log (new_memory_store 5)))
        [zero_entry\<lparr>ae_id := ''aud-1''\<rparr>]"
    unfolding s' sum.case by blast
  moreover have "act_id sample_action = ''act-1''" "ms_audit_log (new_memory_store 5) = []"
    by (simp_all add: sample_action_def new_memory_store_def)
  ultimately show ?thesis unfolding s' sum.case by (simp add: numbered_Cons)
qed

text \<open>
  An incident listing is a page of at most 200 entries of one well-defined list:
  the incidents that pass the filter, each once, most recently active first and then by
  descending identifier; the total is the length of that list.
\<close>

theorem list_incidents_pages:
  assumes "store_wf s" and "list_incidents s f = (items, n)"
  shows "\<exists>matched. sorted_wrt incident_before matched \<and> n = int (length matched) \<and>
    (\<forall>i. i \<in> set matched \<longleftrightarrow> get_incident s (inc_id i) = Inr i \<and> filter_incident (normalize_filter f) i) \<and>
    items = take (nat (clamp_limit (fl_limit f))) (drop (nat (max 0 (fl_offset f))) matched) \<and> length items \<le> 200"
proof -
  let ?f = "normalize_filter f"
  let ?L = "matched_incidents s ?f"
  have wf: "incidents_wf s" using assms(1) by (simp add: store_wf_def)
  have lim: "0 \<le> fl_limit ?f" "0 \<le> fl_offset ?f" "fl_limit ?f \<le> 200"
    using clamp_limit_bounds [of "fl_limit f"] by (simp_all add: normalize_filter_def)
  have "items = page_of ?L (fl_limit ?f) (fl_offset ?f)" "n = int (length ?L)"
    using assms(2) by (simp_all add: list_incidents_def Let_def)
  then have "items = take (nat (fl_limit ?f)) (drop (nat (fl_offset ?f)) ?L)"
    using lim by (simp add: page_of_eq)
  moreover have "nat (fl_limit ?f) = nat (clamp_limit (fl_limit f))" "nat (fl_offset ?f) = nat (max 0 (fl_offset f))"
    by (simp_all add: normalize_filter_def)
  ultimately have "items = take (nat (clamp_limit (fl_limit f))) (drop (nat (max 0 (fl_offset f))) ?L)" by simp
  moreover from this have "length items \<le> nat (clamp_limit (fl_limit f))" by simp
  then have "length items \<le> 200" using clamp_limit_bounds [of "fl_limit f"] by linarith
  ultimately show ?thesis
    using matched_incidents_spec [OF wf, where f = ?f] \<open>n = int (length ?L)\<close> by blast
qed

theorem list_incidents_pages_witness:
  "\<exists>items n. list_incidents (new_memory_store 5) \<lparr> fl_status = [], fl_severity = [], fl_min_risk_score = - 3,
     fl_limit = 1000, fl_offset = - 1 \<rparr> = (items, n) \<and> length items \<le> 200"
proof -
  let ?f = "\<lparr> fl_status = [], fl_severity = [], fl_min_risk_score = - 3, fl_limit = 1000, fl_offset = - 1 \<rparr>"
  obtain items n where l: "list_incidents (new_memory_store 5) ?f = (items, n)" by fastforce
  from list_incidents_pages [OF new_memory_store_wf l] l show ?thesis by blast
qed

end
