(* ===== verification/Engine.thy ===== *)
theory Engine
  imports Storage
begin

text \<open>
  The correlation engine of \<^verbatim>\<open>src/internal/correlation/engine.go\<close>: rules run over an event, threshold
  rules count hits per subject, and findings are folded into the subject's open incident, whose
  derived fields are then rebuilt. The incident store is the interface \<^verbatim>\<open>IncidentStore\<close>: its two
  operations are arguments, constrained by the locale \<open>incident_store\<close>. The clock and the UUID
  library are arguments too. A whole call is one step here; calls
  that overlap are the subject of the theory \<open>Concurrency\<close>.
\<close>

subsection \<open>State\<close>

definition default_window :: duration where "default_window = 6 * hour"
definition max_finding_events :: nat where "max_finding_events = 100"
definition max_incident_evidence :: nat where "max_incident_evidence = 200"

record subject_state =
  ss_incident_id :: string
  ss_last_seen :: time

record engine =
  en_rules :: "rule list"
  en_window :: duration
  en_open_subjects :: "(string \<times> subject_state) list"
  en_threshold_hits :: "(string \<times> time list) list"

datatype engine_error = RulesMissing | PersistFailed

text \<open>\<^verbatim>\<open>NewEngine\<close>; a missing graph or store cannot be written down here.\<close>

definition new_engine :: "rule list \<Rightarrow> duration \<Rightarrow> engine_error + engine" where
  "new_engine rules window =
     (if rules = [] then Inl RulesMissing
      else Inr \<lparr> en_rules = rules, en_window = (if window \<le> 0 then default_window else window),
             en_open_subjects = [], en_threshold_hits = [] \<rparr>)"

subsection \<open>Thresholds and evaluation\<close>

definition subject_key :: "security_event \<Rightarrow> string" where
  "subject_key ev =
     (let key = actor_key ev in
      if key \<noteq> [] then key else ''unattributed:'' @ ev_source_type ev @ '':'' @ ev_source_name ev)"

definition hits_key :: "string \<Rightarrow> rule \<Rightarrow> string" where
  "hits_key subject r = subject @ ''|'' @ r_id r"

text \<open>The new list of hits: those inside the window, at most \<^verbatim>\<open>Count\<close> of them, the latest arrivals.\<close>

definition keep_hits :: "threshold \<Rightarrow> time \<Rightarrow> time list \<Rightarrow> time list" where
  "keep_hits th now_at old =
     (let cutoff = now_at + (- th_window th);
          kept = filter (\<lambda>t. \<not> t < cutoff) (old @ [now_at])
      in if int (length kept) > th_count th then drop (length kept - nat (th_count th)) kept else kept)"

definition threshold_met ::
  "string \<Rightarrow> rule \<Rightarrow> threshold \<Rightarrow> time \<Rightarrow> (string \<times> time list) list \<Rightarrow> bool \<times> (string \<times> time list) list" where
  "threshold_met subject r th now_at hits =
     (let key = hits_key subject r; kept = keep_hits th now_at (map_get hits key)
      in (int (length kept) \<ge> th_count th, AList.update key kept hits))"

definition make_finding :: "string \<Rightarrow> rule \<Rightarrow> security_event \<Rightarrow> finding" where
  "make_finding fid r ev =
     \<lparr> f_id = fid, f_rule_id = r_id r, f_title = r_title r, f_description = r_description r,
       f_category = r_category r, f_severity = r_severity r, f_confidence = r_confidence r,
       f_techniques = r_techniques r, f_entity_ids = entity_ids_for_event ev, f_event_ids = [ev_id ev],
       f_first_seen = ev_timestamp ev, f_last_seen = ev_timestamp ev \<rparr>"

fun evaluate_rules ::
  "(nat \<Rightarrow> string) \<Rightarrow> security_event \<Rightarrow> string \<Rightarrow> rule list \<Rightarrow> (string \<times> time list) list \<Rightarrow> nat \<Rightarrow>
     finding list \<times> (string \<times> time list) list \<times> nat" where
  "evaluate_rules uuid ev subject [] hits n = ([], hits, n)"
| "evaluate_rules uuid ev subject (r # rs) hits n =
     (if \<not> matches r ev then evaluate_rules uuid ev subject rs hits n
      else
        let (met, hits') = (case r_threshold r of
              None \<Rightarrow> (True, hits)
            | Some th \<Rightarrow> threshold_met subject r th (ev_timestamp ev) hits)
        in if \<not> met then evaluate_rules uuid ev subject rs hits' n
           else
             let (fid, n1) = new_id uuid PrefixFinding n;
                 (fs, hits'', n2) = evaluate_rules uuid ev subject rs hits' n1
             in (make_finding fid r ev # fs, hits'', n2))"

subsection \<open>Merging findings\<close>

fun add_event_ids :: "string list \<Rightarrow> string list \<Rightarrow> string list" where
  "add_event_ids existing [] = existing"
| "add_event_ids existing (i # is) =
     (if length existing \<ge> max_finding_events then existing
      else if i \<in> set existing then add_event_ids existing is
      else add_event_ids (existing @ [i]) is)"

fun add_entity_ids :: "string list \<Rightarrow> string list \<Rightarrow> string list" where
  "add_entity_ids existing [] = existing"
| "add_entity_ids existing (i # is) =
     (if i \<in> set existing then add_entity_ids existing is else add_entity_ids (existing @ [i]) is)"

definition merge_existing :: "finding \<Rightarrow> finding \<Rightarrow> finding" where
  "merge_existing e f =
     e\<lparr>f_last_seen := (if f_last_seen f > f_last_seen e then f_last_seen f else f_last_seen e),
       f_first_seen := (if f_first_seen f < f_first_seen e then f_first_seen f else f_first_seen e),
       f_event_ids := add_event_ids (f_event_ids e) (f_event_ids f),
       f_entity_ids := add_entity_ids (f_entity_ids e) (f_entity_ids f)\<rparr>"

fun merge_finding :: "finding \<Rightarrow> finding list \<Rightarrow> finding list" where
  "merge_finding f [] = [f]"
| "merge_finding f (e # es) =
     (if f_rule_id e \<noteq> f_rule_id f then e # merge_finding f es else merge_existing e f # es)"

subsection \<open>Derived fields\<close>

definition incident_ids :: "finding list \<Rightarrow> string list" where
  "incident_ids fs = sorted_keys (concat (map f_entity_ids fs))"

definition entity_ref_of :: "sgraph \<Rightarrow> string \<Rightarrow> entity_ref option" where
  "entity_ref_of g i =
     (case get_entity g i of
        None \<Rightarrow>
          (case split_entity_id i of
             None \<Rightarrow> None
           | Some (t, key) \<Rightarrow>
               Some \<lparr> ref_id = i, ref_type = t, ref_name = key, ref_criticality = CriticalityMedium \<rparr>)
      | Some e \<Rightarrow>
          Some \<lparr> ref_id = ent_id e, ref_type = ent_type e, ref_name = ent_name e,
                 ref_criticality = ent_criticality e \<rparr>)"

definition ids_touch_critical :: "sgraph \<Rightarrow> string list \<Rightarrow> bool" where
  "ids_touch_critical g ids \<longleftrightarrow>
     list_ex (\<lambda>i. case get_entity g i of None \<Rightarrow> False | Some e \<Rightarrow> ent_criticality e = CriticalityCritical) ids"

definition collect_techniques :: "finding list \<Rightarrow> technique list" where
  "collect_techniques fs =
     sort_key tech_id (map snd (fold (\<lambda>t m. AList.update (tech_id t) t m) (concat (map f_techniques fs)) []))"

definition human_category :: "category \<Rightarrow> string" where
  "human_category c =
     (if c = CategoryAuthentication then ''Authentication''
      else if c = CategorySessionAnomaly then ''Session''
      else if c = CategoryPrivilegeEscalation then ''Privilege escalation''
      else if c = CategoryCredentialAccess then ''Credential access''
      else if c = CategoryCloudAccess then ''Cloud access''
      else if c = CategoryDataAccess then ''Data access''
      else if c = CategoryProcessExecution then ''Process execution''
      else if c = CategoryNetworkActivity then ''Network''
      else if c = CategoryConfigChange then ''Configuration change''
      else c)"

definition title_identity :: "incident \<Rightarrow> string" where
  "title_identity i =
     (case find (\<lambda>e. ref_type e = TypeIdentity \<and> ref_name e \<noteq> []) (inc_entities i) of
        Some e \<Rightarrow> ref_name e
      | None \<Rightarrow> inc_primary_identity i)"

definition build_title :: "incident \<Rightarrow> string" where
  "build_title i =
     (case evidence_categories i of
        [] \<Rightarrow> ''Activity involving '' @ title_identity i
      | [c] \<Rightarrow> human_category c @ '' activity involving '' @ title_identity i
      | cs \<Rightarrow> ''Multi-stage activity involving '' @ title_identity i @ '' ('' @ show_nat (length cs)
                @ '' evidence categories)'')"

definition evidence_summary :: "security_event \<Rightarrow> string" where
  "evidence_summary ev =
     (let who = (case ev_actor ev of
            None \<Rightarrow> ''unattributed actor''
          | Some a \<Rightarrow> if actor_name a \<noteq> [] then actor_name a
                      else if actor_id a \<noteq> [] then actor_id a else ''unattributed actor'');
          what = (case ev_target ev of
            None \<Rightarrow> []
          | Some t \<Rightarrow> '' on '' @ (if target_name t = [] then target_id t else target_name t))
      in who @ '': '' @ ev_event_type ev @ what)"

definition append_evidence :: "security_event \<Rightarrow> evidence list \<Rightarrow> evidence list" where
  "append_evidence ev es =
     (if \<exists>x \<in> set es. evd_event_id x = ev_id ev then es
      else if length es \<ge> max_incident_evidence then es
      else sort_key (\<lambda>x. (evd_occurred_at x, evd_event_id x))
             (es @ [\<lparr> evd_event_id = ev_id ev, evd_occurred_at = ev_timestamp ev, evd_category = ev_category ev,
                      evd_summary = evidence_summary ev, evd_source_name = ev_source_name ev \<rparr>]))"

definition recompute :: "sgraph \<Rightarrow> security_event \<Rightarrow> incident \<Rightarrow> incident" where
  "recompute g ev i =
     (let fs = sort_key f_rule_id (inc_findings i);
          ids = incident_ids fs;
          refs = List.map_filter (entity_ref_of g) ids;
          blast = estimate_blast_radius g ids (int default_max_hops);
          critical = (ids_touch_critical g ids \<or> br_critical_assets blast > 0);
          a = assess \<lparr> in_findings = fs, in_blast_score = br_score blast, in_touches_critical = critical \<rparr>;
          i1 = i\<lparr>inc_findings := fs, inc_entities := refs, inc_blast_radius := blast,
                 inc_risk_score := as_score a, inc_severity := as_severity a, inc_confidence := as_confidence a,
                 inc_attack_techniques := collect_techniques fs,
                 inc_recommended_actions := recommend_actions fs refs\<rparr>;
          i2 = i1\<lparr>inc_title := build_title i1\<rparr>
      in i2\<lparr>inc_evidence := append_evidence ev (inc_evidence i2)\<rparr>)"

subsection \<open>Processing an event\<close>

definition empty_blast :: blast_radius where
  "empty_blast = \<lparr> br_score = 0, br_max_hops = 0, br_critical_assets = 0, br_summary = [], br_reachable = [] \<rparr>"

definition new_incident :: "string \<Rightarrow> string \<Rightarrow> security_event \<Rightarrow> incident" where
  "new_incident iid subject ev =
     \<lparr> inc_id = iid, inc_schema_version = incident_schema_version, inc_title = [], inc_status = StatusOpen,
       inc_severity = [], inc_risk_score = 0, inc_confidence = 0, inc_first_seen = ev_timestamp ev,
       inc_last_seen = 0, inc_updated_at = 0, inc_primary_identity = subject, inc_entities = [],
       inc_findings = [], inc_attack_techniques = [], inc_blast_radius = empty_blast,
       inc_recommended_actions = [], inc_evidence = [] \<rparr>"

definition open_incident ::
  "('s \<Rightarrow> string \<Rightarrow> 'e + incident) \<Rightarrow> engine \<Rightarrow> 's \<Rightarrow> string \<Rightarrow> security_event \<Rightarrow> incident option" where
  "open_incident get en s subject ev =
     (case map_of (en_open_subjects en) subject of
        None \<Rightarrow> None
      | Some st \<Rightarrow>
          if time_sub (ev_timestamp ev) (ss_last_seen st) > en_window en then None
          else case get s (ss_incident_id st) of
                 Inl _ \<Rightarrow> None
               | Inr i \<Rightarrow> if inc_status i \<noteq> StatusClosed then Some i else None)"

definition update_incident :: "sgraph \<Rightarrow> time \<Rightarrow> security_event \<Rightarrow> finding list \<Rightarrow> incident \<Rightarrow> incident" where
  "update_incident g now ev fs i =
     (let i1 = i\<lparr>inc_findings := fold merge_finding fs (inc_findings i)\<rparr>;
          i2 = (if ev_timestamp ev < inc_first_seen i1 \<or> is_zero_time (inc_first_seen i1)
                then i1\<lparr>inc_first_seen := ev_timestamp ev\<rparr> else i1);
          i3 = (if ev_timestamp ev > inc_last_seen i2 then i2\<lparr>inc_last_seen := ev_timestamp ev\<rparr> else i2)
      in recompute g ev (i3\<lparr>inc_updated_at := now\<rparr>))"

definition merge_into_incident ::
  "('s \<Rightarrow> string \<Rightarrow> 'e + incident) \<Rightarrow> ('s \<Rightarrow> incident \<Rightarrow> 'e + 's) \<Rightarrow> (nat \<Rightarrow> string) \<Rightarrow> time \<Rightarrow> sgraph \<Rightarrow>
     security_event \<Rightarrow> string \<Rightarrow> finding list \<Rightarrow> engine \<times> nat \<times> 's \<Rightarrow>
     (engine_error + incident) \<times> engine \<times> nat \<times> 's" where
  "merge_into_incident get save uuid now g ev subject fs st =
     (let (en, n, s) = st;
          (inc0, n') = (case open_incident get en s subject ev of
              Some i \<Rightarrow> (i, n)
            | None \<Rightarrow> let (iid, n1) = new_id uuid PrefixIncident n in (new_incident iid subject ev, n1));
          inc1 = update_incident g now ev fs inc0
      in case save s inc1 of
           Inl _ \<Rightarrow> (Inl PersistFailed, en, n', s)
         | Inr s' \<Rightarrow>
             (Inr inc1,
              en\<lparr>en_open_subjects := AList.update subject
                   \<lparr> ss_incident_id = inc_id inc1, ss_last_seen = ev_timestamp ev \<rparr> (en_open_subjects en)\<rparr>,
              n', s'))"

definition process ::
  "('s \<Rightarrow> string \<Rightarrow> 'e + incident) \<Rightarrow> ('s \<Rightarrow> incident \<Rightarrow> 'e + 's) \<Rightarrow> (nat \<Rightarrow> string) \<Rightarrow> time \<Rightarrow> sgraph \<Rightarrow>
     security_event \<Rightarrow> engine \<times> nat \<times> 's \<Rightarrow> (engine_error + incident option) \<times> engine \<times> nat \<times> 's" where
  "process get save uuid now g ev st =
     (let (en, n, s) = st;
          subject = subject_key ev;
          (fs, hits, n1) = evaluate_rules uuid ev subject (en_rules en) (en_threshold_hits en) n;
          en1 = en\<lparr>en_threshold_hits := hits\<rparr>
      in if fs = [] then (Inr None, en1, n1, s)
         else case merge_into_incident get save uuid now g ev subject fs (en1, n1, s) of
                (Inl err, st') \<Rightarrow> (Inl err, st')
              | (Inr i, st') \<Rightarrow> (Inr (Some i), st'))"

subsection \<open>Evidence only accumulates\<close>

text \<open>What scoring reads of a finding.\<close>

definition profile :: "finding \<Rightarrow> category \<times> severity \<times> gofloat" where
  "profile f = (f_category f, f_severity f, f_confidence f)"

lemma profile_evidence_le:
  assumes "map profile xs = map profile ys"
  shows "evidence_le xs ys"
proof -
  have cat: "map profile (in_category fs c) = filter (\<lambda>p. fst p = c) (map profile fs)" for fs c
    by (induction fs) (simp_all add: in_category_def profile_def)
  then have eq: "map profile (in_category xs c) = map profile (in_category ys c)" for c
    using assms by simp
  have img: "finding_weight ` set fs = (\<lambda>p. severity_weight (fst (snd p)) * clamp01 (snd (snd p))) ` set (map profile fs)"
    "(\<lambda>f. clamp01 (f_confidence f)) ` set fs = (\<lambda>p. clamp01 (snd (snd p))) ` set (map profile fs)" for fs
    by (simp_all add: image_image profile_def finding_weight_def)
  have "best_weight xs c = best_weight ys c" "best_confidence xs c = best_confidence ys c" for c
    unfolding best_weight_def best_confidence_def img eq by (rule refl)+
  moreover have "category_count xs c = category_count ys c" for c
    unfolding category_count_def using arg_cong [OF eq [of c], of length] by simp
  ultimately show ?thesis by (simp add: evidence_le_def)
qed

lemma merge_existing_frame [simp]:
  "f_rule_id (merge_existing e f) = f_rule_id e" "profile (merge_existing e f) = profile e"
  "f_event_ids (merge_existing e f) = add_event_ids (f_event_ids e) (f_event_ids f)"
  "f_entity_ids (merge_existing e f) = add_entity_ids (f_entity_ids e) (f_entity_ids f)"
  by (simp_all add: merge_existing_def profile_def)

text \<open>A finding is either merged into the one of its rule, or appended when there is none.\<close>

lemma merge_finding_new: "f_rule_id f \<notin> f_rule_id ` set es \<Longrightarrow> merge_finding f es = es @ [f]"
  by (induction es) auto

lemma merge_finding_old: "f_rule_id f \<in> f_rule_id ` set es \<Longrightarrow> map profile (merge_finding f es) = map profile es"
  by (induction es) auto

lemma merge_finding_evidence_le: "evidence_le es (merge_finding f es)"
proof (cases "f_rule_id f \<in> f_rule_id ` set es")
  case True
  then show ?thesis by (simp add: profile_evidence_le merge_finding_old)
next
  case False
  then show ?thesis by (simp add: merge_finding_new mset_evidence_le)
qed

lemma fold_merge_evidence_le: "evidence_le es (fold merge_finding fs es)"
  by (induction fs arbitrary: es) (auto intro: evidence_le_trans merge_finding_evidence_le)

lemma set_add_entity_ids: "set (add_entity_ids xs is) = set xs \<union> set is"
  by (induction xs "is" rule: add_entity_ids.induct) auto

lemma merge_finding_entities:
  "set (concat (map f_entity_ids es)) \<subseteq> set (concat (map f_entity_ids (merge_finding f es)))"
  by (induction es) (auto simp: set_add_entity_ids)

lemma fold_merge_entities:
  "set (concat (map f_entity_ids es)) \<subseteq> set (concat (map f_entity_ids (fold merge_finding fs es)))"
proof (induction fs arbitrary: es)
  case (Cons f fs)
  have "set (concat (map f_entity_ids es)) \<subseteq> set (concat (map f_entity_ids (merge_finding f es)))"
    by (rule merge_finding_entities)
  also have "\<dots> \<subseteq> set (concat (map f_entity_ids (fold merge_finding fs (merge_finding f es))))"
    by (rule Cons.IH)
  finally show ?case by (simp only: fold_simps comp_apply)
qed simp

lemma merge_finding_rules: "f_rule_id ` set (merge_finding f es) = insert (f_rule_id f) (f_rule_id ` set es)"
  by (induction es) auto

lemma merge_finding_distinct: "distinct (map f_rule_id es) \<Longrightarrow> distinct (map f_rule_id (merge_finding f es))"
proof (induction es)
  case (Cons e es)
  then show ?case using merge_finding_rules [of f es] by auto
qed simp

lemma add_event_ids_bound: "length xs \<le> max_finding_events \<Longrightarrow> length (add_event_ids xs is) \<le> max_finding_events"
  by (induction xs "is" rule: add_event_ids.induct) auto

lemma add_event_ids_distinct: "distinct xs \<Longrightarrow> distinct (add_event_ids xs is)"
  by (induction xs "is" rule: add_event_ids.induct) auto

definition finding_wf :: "finding \<Rightarrow> bool" where
  "finding_wf f \<longleftrightarrow> length (f_event_ids f) \<le> max_finding_events \<and> distinct (f_event_ids f)"

lemma merge_existing_wf: "finding_wf e \<Longrightarrow> finding_wf (merge_existing e f)"
  by (simp add: finding_wf_def add_event_ids_bound add_event_ids_distinct)

lemma merge_finding_wf:
  "finding_wf f \<Longrightarrow> \<forall>e \<in> set es. finding_wf e \<Longrightarrow> \<forall>e \<in> set (merge_finding f es). finding_wf e"
  by (induction es) (simp_all add: merge_existing_wf)

lemma fold_merge_wf:
  "\<forall>f \<in> set fs. finding_wf f \<Longrightarrow> distinct (map f_rule_id es) \<and> (\<forall>e \<in> set es. finding_wf e) \<Longrightarrow>
     distinct (map f_rule_id (fold merge_finding fs es)) \<and> (\<forall>e \<in> set (fold merge_finding fs es). finding_wf e)"
proof (induction fs arbitrary: es)
  case (Cons f fs)
  have "distinct (map f_rule_id (merge_finding f es)) \<and> (\<forall>e \<in> set (merge_finding f es). finding_wf e)"
    using Cons.prems merge_finding_distinct [of es f] merge_finding_wf [of f es] by simp
  then show ?case using Cons.IH Cons.prems(1) by simp
qed simp

subsection \<open>The score of an incident\<close>

definition risk_of :: "sgraph \<Rightarrow> finding list \<Rightarrow> assessment" where
  "risk_of g fs =
     (let blast = estimate_blast_radius g (incident_ids fs) (int default_max_hops)
      in assess \<lparr> in_findings = fs, in_blast_score = br_score blast,
           in_touches_critical = (ids_touch_critical g (incident_ids fs) \<or> br_critical_assets blast > 0) \<rparr>)"

text \<open>An incident whose risk fields are those of its findings in the graph \<open>g\<close>.\<close>

definition scored :: "sgraph \<Rightarrow> incident \<Rightarrow> bool" where
  "scored g i \<longleftrightarrow>
     (let a = risk_of g (inc_findings i)
      in inc_risk_score i = as_score a \<and> inc_severity i = as_severity a \<and> inc_confidence i = as_confidence a)"

lemma ids_touch_critical_mono:
  assumes "graph_le g h" and "set xs \<subseteq> set ys" and "ids_touch_critical g xs"
  shows "ids_touch_critical h ys"
proof -
  obtain i e where i: "i \<in> set xs" "get_entity g i = Some e" "ent_criticality e = CriticalityCritical"
    using assms(3) by (auto simp: ids_touch_critical_def list_ex_iff split: option.splits)
  then obtain e' where e': "get_entity h i = Some e'"
    "criticality_rank (ent_criticality e) \<le> criticality_rank (ent_criticality e')"
    using assms(1) unfolding graph_le_def by blast
  have "criticality_rank (ent_criticality e) = 3" unfolding i(3) by (simp add: criticality_rank_def)
  then have "criticality_rank (ent_criticality e') = 3"
    using e'(2) criticality_rank_bounds [of "ent_criticality e'"] by linarith
  then have "ent_criticality e' = CriticalityCritical" by (simp add: criticality_rank_critical)
  with e'(1) have "case get_entity h i of None \<Rightarrow> False | Some e \<Rightarrow> ent_criticality e = CriticalityCritical" by simp
  with i(1) assms(2) show ?thesis unfolding ids_touch_critical_def list_ex_iff by blast
qed

lemma risk_of_mono:
  assumes "graph_wf g" "graph_wf h" "graph_le g h" and "evidence_le xs ys"
    and "set (concat (map f_entity_ids xs)) \<subseteq> set (concat (map f_entity_ids ys))"
  shows "as_score (risk_of g xs) \<le> as_score (risk_of h ys) \<and>
    as_confidence (risk_of g xs) \<le> as_confidence (risk_of h ys) \<and>
    severity_rank (as_severity (risk_of g xs)) \<le> severity_rank (as_severity (risk_of h ys))"
proof -
  have ids: "set (incident_ids xs) \<subseteq> set (incident_ids ys)" using assms(5) by (simp add: incident_ids_def)
  let ?mh = "int default_max_hops"
  have gr: "grown g (incident_ids xs) ?mh h (incident_ids ys) ?mh"
    using assms(1-3) ids by (simp add: grown_def)
  have "br_score (estimate_blast_radius g (incident_ids xs) ?mh) \<le> br_score (estimate_blast_radius h (incident_ids ys) ?mh)"
    unfolding estimate_fields by (intro blast_score_mono final_weighted_nonneg assms(1) grown_sums(1) [OF gr])
  moreover have "br_critical_assets (estimate_blast_radius g (incident_ids xs) ?mh) \<le>
      br_critical_assets (estimate_blast_radius h (incident_ids ys) ?mh)"
    unfolding estimate_fields by (rule grown_sums(2) [OF gr])
  moreover note ids_touch_critical_mono [OF assms(3) ids]
  ultimately show ?thesis
    unfolding risk_of_def Let_def using assms(4)
    by (intro conjI assess_mono [THEN conjunct1] assess_mono [THEN conjunct2, THEN conjunct1]
        assess_mono [THEN conjunct2, THEN conjunct2, THEN conjunct2]) auto
qed

lemma recompute_fields [simp]:
  "inc_findings (recompute g ev i) = sort_key f_rule_id (inc_findings i)"
  "inc_id (recompute g ev i) = inc_id i" "inc_status (recompute g ev i) = inc_status i"
  "inc_primary_identity (recompute g ev i) = inc_primary_identity i"
  "inc_first_seen (recompute g ev i) = inc_first_seen i" "inc_last_seen (recompute g ev i) = inc_last_seen i"
  "inc_evidence (recompute g ev i) = append_evidence ev (inc_evidence i)"
  by (simp_all add: recompute_def Let_def)

lemma recompute_scored: "scored g (recompute g ev i)"
  by (simp add: scored_def risk_of_def recompute_def Let_def)

lemma update_incident_fields [simp]:
  "inc_findings (update_incident g now ev fs i) = sort_key f_rule_id (fold merge_finding fs (inc_findings i))"
  "inc_id (update_incident g now ev fs i) = inc_id i"
  "inc_status (update_incident g now ev fs i) = inc_status i"
  "inc_primary_identity (update_incident g now ev fs i) = inc_primary_identity i"
  "inc_evidence (update_incident g now ev fs i) = append_evidence ev (inc_evidence i)"
  by (simp_all add: update_incident_def Let_def)

lemma update_incident_scored: "scored g (update_incident g now ev fs i)"
  by (simp add: update_incident_def Let_def recompute_scored)

text \<open>Folding further findings into a scored incident never lowers its risk.\<close>

lemma update_incident_risk:
  assumes "graph_wf g0" "graph_wf g" "graph_le g0 g" and "scored g0 i"
  shows "inc_risk_score i \<le> inc_risk_score (update_incident g now ev fs i) \<and>
    inc_confidence i \<le> inc_confidence (update_incident g now ev fs i) \<and>
    severity_rank (inc_severity i) \<le> severity_rank (inc_severity (update_incident g now ev fs i))"
proof -
  let ?fs = "inc_findings (update_incident g now ev fs i)"
  have "evidence_le (fold merge_finding fs (inc_findings i)) ?fs" by (simp add: mset_evidence_le)
  then have "evidence_le (inc_findings i) ?fs" using evidence_le_trans fold_merge_evidence_le by blast
  moreover have "set (concat (map f_entity_ids (inc_findings i))) \<subseteq> set (concat (map f_entity_ids ?fs))"
    using fold_merge_entities [of "inc_findings i" fs] by simp
  ultimately show ?thesis
    using risk_of_mono [OF assms(1-3)] assms(4) update_incident_scored [of g now ev fs i]
    unfolding scored_def Let_def by simp
qed

subsection \<open>Invariants of the engine\<close>

definition incident_wf :: "incident \<Rightarrow> bool" where
  "incident_wf i \<longleftrightarrow>
     sorted (map f_rule_id (inc_findings i)) \<and> distinct (map f_rule_id (inc_findings i)) \<and>
     (\<forall>f \<in> set (inc_findings i). finding_wf f) \<and>
     length (inc_evidence i) \<le> max_incident_evidence \<and> distinct (map evd_event_id (inc_evidence i))"

lemma append_evidence_wf:
  assumes "length es \<le> max_incident_evidence" and "distinct (map evd_event_id es)"
  shows "length (append_evidence ev es) \<le> max_incident_evidence \<and> distinct (map evd_event_id (append_evidence ev es))"
proof -
  let ?x = "\<lparr> evd_event_id = ev_id ev, evd_occurred_at = ev_timestamp ev, evd_category = ev_category ev,
                      evd_summary = evidence_summary ev, evd_source_name = ev_source_name ev \<rparr>"
  let ?s = "sort_key (\<lambda>x. (evd_occurred_at x, evd_event_id x)) (es @ [?x])"
  have "mset (map evd_event_id ?s) = mset (map evd_event_id (es @ [?x]))" by simp
  then have "distinct (map evd_event_id ?s) = distinct (map evd_event_id (es @ [?x]))"
    by (rule mset_eq_imp_distinct_iff)
  then show ?thesis using assms by (auto simp: append_evidence_def)
qed

lemma update_incident_wf:
  assumes "incident_wf i" and "\<forall>f \<in> set fs. finding_wf f"
  shows "incident_wf (update_incident g now ev fs i)"
proof -
  let ?m = "fold merge_finding fs (inc_findings i)"
  have m: "distinct (map f_rule_id ?m)" "\<forall>f \<in> set ?m. finding_wf f"
    using fold_merge_wf [OF assms(2), of "inc_findings i"] assms(1) by (simp_all add: incident_wf_def)
  have "mset (map f_rule_id (sort_key f_rule_id ?m)) = mset (map f_rule_id ?m)" by simp
  then have "distinct (map f_rule_id (sort_key f_rule_id ?m))" using m(1) mset_eq_imp_distinct_iff by blast
  then show ?thesis
    using m(2) append_evidence_wf [of "inc_evidence i" ev] assms(1) by (simp add: incident_wf_def)
qed

lemma new_incident_wf: "incident_wf (new_incident iid subject ev)"
  by (simp add: incident_wf_def new_incident_def)

lemma evaluate_rules_wf:
  "evaluate_rules uuid ev subject rs hits n = (fs, hits', n') \<Longrightarrow>
     n \<le> n' \<and> (\<forall>f \<in> set fs. finding_wf f \<and> f_event_ids f = [ev_id ev])"
proof (induction uuid ev subject rs hits n arbitrary: fs hits' n' rule: evaluate_rules.induct)
  case (1 uuid ev subject hits n)
  then show ?case by simp
next
  case (2 uuid ev subject r rs hits n)
  show ?case
  proof (cases "matches r ev")
    case False
    with "2.prems" "2.IH"(1) show ?thesis by simp
  next
    case True
    obtain met h1 where met: "(case r_threshold r of None \<Rightarrow> (True, hits)
        | Some th \<Rightarrow> threshold_met subject r th (ev_timestamp ev) hits) = (met, h1)" by fastforce
    show ?thesis
    proof (cases met)
      case False
      with "2.prems" True met have "evaluate_rules uuid ev subject rs h1 n = (fs, hits', n')" by simp
      then show ?thesis using "2.IH"(2) True met False by simp
    next
      case met': True
      obtain fs1 h2 n2 where rest: "evaluate_rules uuid ev subject rs h1 (Suc n) = (fs1, h2, n2)"
        by (metis prod_cases3)
      then have fs: "fs = make_finding (fst (new_id uuid PrefixFinding n)) r ev # fs1" "n' = n2"
        using "2.prems" True met met' by (simp_all add: new_id_def)
      have "Suc n \<le> n2 \<and> (\<forall>f \<in> set fs1. finding_wf f \<and> f_event_ids f = [ev_id ev])"
        using "2.IH"(3) [of "(met, h1)" met h1 "new_id uuid PrefixFinding n" "fst (new_id uuid PrefixFinding n)" "Suc n"]
          True met met' rest by (simp add: new_id_def)
      then show ?thesis using fs by (simp add: make_finding_def finding_wf_def max_finding_events_def)
    qed
  qed
qed

text \<open>
  What holds between two events. Every stored incident is well-formed, carries the risk its findings
  had in an earlier graph, and was given its identifier by the engine; an open subject points at an
  incident of that subject.
\<close>

definition stored_ok :: "(nat \<Rightarrow> string) \<Rightarrow> sgraph \<Rightarrow> nat \<Rightarrow> string \<Rightarrow> incident \<Rightarrow> bool" where
  "stored_ok uuid g n k i \<longleftrightarrow>
     incident_wf i \<and> (\<exists>g0. graph_wf g0 \<and> graph_le g0 g \<and> scored g0 i) \<and>
     (\<exists>m < n. k = fst (new_id uuid PrefixIncident m))"

definition engine_inv ::
  "(nat \<Rightarrow> string) \<Rightarrow> ('s \<Rightarrow> string \<Rightarrow> 'e + incident) \<Rightarrow> sgraph \<Rightarrow> engine \<times> nat \<times> 's \<Rightarrow> bool" where
  "engine_inv uuid get g st \<longleftrightarrow>
     (let (en, n, s) = st in
       (\<forall>k i. get s k = Inr i \<longrightarrow> stored_ok uuid g n k i) \<and>
       (\<forall>subj x. map_of (en_open_subjects en) subj = Some x \<longrightarrow>
          (\<exists>m < n. ss_incident_id x = fst (new_id uuid PrefixIncident m)) \<and>
          (\<forall>i. get s (ss_incident_id x) = Inr i \<longrightarrow> inc_primary_identity i = subj)))"

text \<open>
  How the stored incidents may change while an event of \<open>subj\<close> is processed: none is lost, none
  loses risk, and those of other subjects stay as they are.
\<close>

definition incidents_advance :: "('s \<Rightarrow> string \<Rightarrow> 'e + incident) \<Rightarrow> string \<Rightarrow> 's \<Rightarrow> 's \<Rightarrow> bool" where
  "incidents_advance get subj s s' \<longleftrightarrow>
     (\<forall>k i. get s k = Inr i \<longrightarrow>
        (\<exists>i'. get s' k = Inr i' \<and> inc_primary_identity i' = inc_primary_identity i \<and>
           inc_risk_score i \<le> inc_risk_score i' \<and> (inc_primary_identity i \<noteq> subj \<longrightarrow> i' = i)))"

lemma incidents_advance_refl [simp]: "incidents_advance get subj s s"
  by (auto simp: incidents_advance_def)

lemma stored_ok_mono: "stored_ok uuid g n k i \<Longrightarrow> graph_le g h \<Longrightarrow> n \<le> n' \<Longrightarrow> stored_ok uuid h n' k i"
  unfolding stored_ok_def
  by (elim conjE exE, intro conjI) (assumption, blast intro: graph_le_trans, blast intro: order_less_le_trans)

lemma engine_inv_graph: "engine_inv uuid get g st \<Longrightarrow> graph_le g h \<Longrightarrow> engine_inv uuid get h st"
  unfolding engine_inv_def Let_def case_prod_unfold using stored_ok_mono by blast

subsection \<open>One event, over any incident store\<close>

definition step_ok ::
  "(nat \<Rightarrow> string) \<Rightarrow> ('s \<Rightarrow> string \<Rightarrow> 'e + incident) \<Rightarrow> sgraph \<Rightarrow> string \<Rightarrow>
     engine \<times> nat \<times> 's \<Rightarrow> engine \<times> nat \<times> 's \<Rightarrow> bool" where
  "step_ok uuid get g subj st st' \<longleftrightarrow>
     engine_inv uuid get g st' \<and> fst (snd st) \<le> fst (snd st') \<and>
     incidents_advance get subj (snd (snd st)) (snd (snd st'))"

lemma open_incident_Some:
  assumes "open_incident get en s subject ev = Some i"
  obtains x where "map_of (en_open_subjects en) subject = Some x" "get s (ss_incident_id x) = Inr i"
    "inc_status i \<noteq> StatusClosed"
  using assms by (auto simp: open_incident_def split: option.splits if_splits sum.splits)

lemma engine_inv_counter:
  "engine_inv uuid get g (en, n, s) \<Longrightarrow> n \<le> n' \<Longrightarrow> engine_inv uuid get g (en, n', s)"
  unfolding engine_inv_def Let_def case_prod_conv
  by (meson graph_le_refl less_le_trans stored_ok_mono)

lemma engine_inv_stored: "engine_inv uuid get g (en, n, s) \<Longrightarrow> get s k = Inr i \<Longrightarrow> stored_ok uuid g n k i"
  by (simp add: engine_inv_def)

lemma engine_inv_open:
  "engine_inv uuid get g (en, n, s) \<Longrightarrow> map_of (en_open_subjects en) subj = Some x \<Longrightarrow>
     (\<exists>m < n. ss_incident_id x = fst (new_id uuid PrefixIncident m)) \<and>
     (\<forall>i. get s (ss_incident_id x) = Inr i \<longrightarrow> inc_primary_identity i = subj)"
  unfolding engine_inv_def Let_def case_prod_conv by blast

lemma engine_inv_hits [simp]:
  "engine_inv uuid get g (en\<lparr>en_threshold_hits := h\<rparr>, n, s) = engine_inv uuid get g (en, n, s)"
  by (simp add: engine_inv_def)

context incident_store begin

text \<open>The store after the engine has saved \<open>i1\<close> and pointed the subject at it.\<close>

lemma saved_inv:
  assumes inv: "engine_inv uuid get g (en, n, s)" and "store_ok s" and save: "save s i1 = Inr s'"
    and ok: "stored_ok uuid g n' (inc_id i1) i1" and "n \<le> n'" and subj: "inc_primary_identity i1 = subject"
    and same: "\<And>i. get s (inc_id i1) = Inr i \<Longrightarrow>
      inc_primary_identity i = subject \<and> inc_risk_score i \<le> inc_risk_score i1"
    and others: "\<And>subj x. map_of (en_open_subjects en) subj = Some x \<Longrightarrow> ss_incident_id x = inc_id i1 \<Longrightarrow>
      subj = subject"
  shows "step_ok uuid get g subject (en, n, s)
    (en\<lparr>en_open_subjects := AList.update subject \<lparr> ss_incident_id = inc_id i1, ss_last_seen = t \<rparr> (en_open_subjects en)\<rparr>, n', s')"
proof -
  note get' = save_get [OF save]
  have stored: "stored_ok uuid g n' k i" if "get s' k = Inr i" for k i
  proof (cases "k = inc_id i1")
    case True
    then show ?thesis using that ok by (simp add: get')
  next
    case False
    then have "get s k = Inr i" using that by (simp add: get')
    then have "stored_ok uuid g n k i" using inv by (simp add: engine_inv_def)
    then show ?thesis using \<open>n \<le> n'\<close> by (rule stored_ok_mono [OF _ graph_le_refl])
  qed
  have opened: "(\<exists>m < n'. ss_incident_id x = fst (new_id uuid PrefixIncident m)) \<and>
      (\<forall>i. get s' (ss_incident_id x) = Inr i \<longrightarrow> inc_primary_identity i = subj)"
    if "map_of (AList.update subject \<lparr> ss_incident_id = inc_id i1, ss_last_seen = t \<rparr> (en_open_subjects en)) subj = Some x"
    for subj x
  proof (cases "subj = subject")
    case True
    then have "ss_incident_id x = inc_id i1" using that by auto
    then show ?thesis using True ok subj by (simp add: get' stored_ok_def)
  next
    case False
    then have x: "map_of (en_open_subjects en) subj = Some x" using that by simp
    then have "ss_incident_id x \<noteq> inc_id i1" using others False by blast
    moreover obtain m where "m < n" "ss_incident_id x = fst (new_id uuid PrefixIncident m)"
      "\<forall>i. get s (ss_incident_id x) = Inr i \<longrightarrow> inc_primary_identity i = subj"
      using engine_inv_open [OF inv x] by blast
    ultimately show ?thesis using \<open>n \<le> n'\<close> by (auto simp: get' intro: order_less_le_trans)
  qed
  have "incidents_advance get subject s s'"
    unfolding incidents_advance_def using same subj by (auto simp: get')
  with stored opened \<open>n \<le> n'\<close> show ?thesis by (simp add: step_ok_def engine_inv_def)
qed

lemma merge_into_incident_ok:
  assumes inv: "engine_inv uuid get g (en, n, s)" and st: "store_ok s" and uuid: "inj uuid" and wf: "graph_wf g"
    and fs: "\<forall>f \<in> set fs. finding_wf f"
    and m: "merge_into_incident get save uuid now g ev subject fs (en, n, s) = (r, st')"
  shows "step_ok uuid get g subject (en, n, s) st' \<and> store_ok (snd (snd st'))"
proof -
  define p where "p = (case open_incident get en s subject ev of Some i \<Rightarrow> (i, n)
      | None \<Rightarrow> (new_incident (fst (new_id uuid PrefixIncident n)) subject ev, Suc n))"
  let ?i1 = "update_incident g now ev fs (fst p)"
  have n: "n \<le> snd p" by (simp add: p_def split: option.split)
  have p: "(case open_incident get en s subject ev of Some i \<Rightarrow> (i, n)
      | None \<Rightarrow> let (iid, n1) = new_id uuid PrefixIncident n in (new_incident iid subject ev, n1)) = (fst p, snd p)"
    by (simp add: p_def new_id_def split: option.split)
  note m' = m [unfolded merge_into_incident_def Let_def case_prod_conv p [unfolded Let_def]]
  show ?thesis
  proof (cases "save s ?i1")
    case (Inl err)
    then have "st' = (en, snd p, s)" using m' by simp
    then show ?thesis using engine_inv_counter [OF inv n] n st by (simp add: step_ok_def)
  next
    case (Inr s')
    then have st': "st' = (en\<lparr>en_open_subjects := AList.update subject
        \<lparr> ss_incident_id = inc_id ?i1, ss_last_seen = ev_timestamp ev \<rparr> (en_open_subjects en)\<rparr>, snd p, s')"
      using m' by simp
    have sc: "scored g ?i1" by (rule update_incident_scored)
    have "step_ok uuid get g subject (en, n, s) st'"
    proof (cases "open_incident get en s subject ev")
      case None
      then have p': "p = (new_incident (fst (new_id uuid PrefixIncident n)) subject ev, Suc n)" by (simp add: p_def)
      have id: "inc_id ?i1 = fst (new_id uuid PrefixIncident n)" by (simp add: p' new_incident_def)
      have fresh: "fst (new_id uuid PrefixIncident m) \<noteq> inc_id ?i1" if "m < n" for m
        using that new_id_inj [OF uuid] unfolding id by simp
      have "incident_wf ?i1" using fs by (intro update_incident_wf) (simp_all add: p' new_incident_wf)
      then have ok: "stored_ok uuid g (snd p) (inc_id ?i1) ?i1"
        unfolding stored_ok_def id using sc wf by (auto simp: p')
      show ?thesis
        unfolding st'
      proof (rule saved_inv [OF inv st Inr ok n])
        show "inc_primary_identity ?i1 = subject" by (simp add: p' new_incident_def)
        show "inc_primary_identity i = subject \<and> inc_risk_score i \<le> inc_risk_score ?i1"
          if "get s (inc_id ?i1) = Inr i" for i
          using engine_inv_stored [OF inv that] fresh unfolding stored_ok_def by metis
        show "subj = subject" if "map_of (en_open_subjects en) subj = Some x" "ss_incident_id x = inc_id ?i1" for subj x
          using engine_inv_open [OF inv that(1)] that(2) fresh by metis
      qed
    next
      case (Some i)
      then have p': "p = (i, n)" by (simp add: p_def)
      obtain x where x: "map_of (en_open_subjects en) subject = Some x" "get s (ss_incident_id x) = Inr i"
        by (rule open_incident_Some [OF Some])
      have id: "inc_id i = ss_incident_id x" by (rule get_id [OF st x(2)])
      then have gi: "get s (inc_id i) = Inr i" using x(2) by simp
      have i: "stored_ok uuid g n (inc_id i) i" "inc_primary_identity i = subject"
        using inv x gi by (auto simp: engine_inv_def)
      have "incident_wf ?i1" using i(1) fs by (intro update_incident_wf) (simp_all add: p' stored_ok_def)
      then have ok: "stored_ok uuid g (snd p) (inc_id ?i1) ?i1"
        using i(1) sc wf unfolding stored_ok_def p' by auto
      obtain g0 where g0: "graph_wf g0" "graph_le g0 g" "scored g0 i" using i(1) by (auto simp: stored_ok_def)
      show ?thesis
        unfolding st'
      proof (rule saved_inv [OF inv st Inr ok n])
        show "inc_primary_identity ?i1 = subject" by (simp add: p' i(2))
        show "inc_primary_identity j = subject \<and> inc_risk_score j \<le> inc_risk_score ?i1"
          if "get s (inc_id ?i1) = Inr j" for j
          using that gi i(2) update_incident_risk [OF g0(1) wf g0(2,3)] by (simp add: p')
        show "subj = subject" if "map_of (en_open_subjects en) subj = Some y" "ss_incident_id y = inc_id ?i1" for subj y
          using engine_inv_open [OF inv that(1)] that(2) gi i(2) by (simp add: p')
      qed
    qed
    moreover have "store_ok s'" by (rule save_ok [OF st Inr])
    ultimately show ?thesis by (simp add: st')
  qed
qed

lemma process_ok:
  assumes inv: "engine_inv uuid get g (en, n, s)" and st: "store_ok s" and uuid: "inj uuid" and wf: "graph_wf g"
    and pr: "process get save uuid now g ev (en, n, s) = (r, st')"
  shows "step_ok uuid get g (subject_key ev) (en, n, s) st' \<and> store_ok (snd (snd st'))"
proof -
  obtain fs hits n1 where e: "evaluate_rules uuid ev (subject_key ev) (en_rules en) (en_threshold_hits en) n = (fs, hits, n1)"
    by (metis prod_cases3)
  have n1: "n \<le> n1" and fs: "\<forall>f \<in> set fs. finding_wf f" using evaluate_rules_wf [OF e] by auto
  let ?en = "en\<lparr>en_threshold_hits := hits\<rparr>"
  have inv1: "engine_inv uuid get g (?en, n1, s)" using engine_inv_counter [OF inv n1] by simp
  show ?thesis
  proof (cases "fs = []")
    case True
    then have "st' = (?en, n1, s)" using pr by (simp add: process_def e)
    then show ?thesis using inv1 n1 st by (simp add: step_ok_def)
  next
    case False
    obtain r1 st1 where m: "merge_into_incident get save uuid now g ev (subject_key ev) fs (?en, n1, s) = (r1, st1)"
      by (metis surj_pair)
    have "st' = st1" using pr False by (auto simp: process_def e m split: sum.splits)
    with merge_into_incident_ok [OF inv1 st uuid wf fs m] n1 show ?thesis by (simp add: step_ok_def)
  qed
qed

end

subsection \<open>Thresholds as counts\<close>

definition last_n :: "nat \<Rightarrow> 'a list \<Rightarrow> 'a list" where
  "last_n n xs = drop (length xs - n) xs"

lemma last_n_snoc: "last_n n (last_n n xs @ [y]) = last_n n (xs @ [y])"
proof (cases "length xs \<le> n")
  case False
  then have "length (last_n n xs) = n" by (simp add: last_n_def)
  with False show ?thesis by (cases n) (simp_all add: last_n_def Suc_diff_Suc)
qed (simp add: last_n_def)

lemma filter_last_n:
  fixes xs :: "int list"
  assumes "sorted xs"
  shows "filter (\<lambda>x. c \<le> x) (last_n n xs) = last_n n (filter (\<lambda>x. c \<le> x) xs)"
proof -
  let ?a = "filter (\<lambda>x. x < c) xs" and ?b = "filter (\<lambda>x. c \<le> x) xs"
  have xs: "xs = ?a @ ?b"
    using assms
  proof (induction xs)
    case (Cons x xs)
    show ?case
    proof (cases "x < c")
      case False
      then have "filter (\<lambda>x. x < c) (x # xs) = []" using Cons.prems by (auto simp: filter_empty_conv)
      moreover have "filter (\<lambda>x. c \<le> x) (x # xs) = x # xs"
        using False Cons.prems by (intro filter_True) auto
      ultimately show ?thesis by simp
    qed (use Cons in simp)
  qed simp
  have "filter (\<lambda>x. c \<le> x) (last_n n (?a @ ?b)) = last_n n ?b"
  proof (cases "n \<le> length ?b")
    case True
    then have "last_n n (?a @ ?b) = last_n n ?b" by (simp add: last_n_def)
    then show ?thesis by (auto simp: last_n_def filter_id_conv dest: in_set_dropD)
  next
    case False
    then have "last_n n (?a @ ?b) = drop (length ?a + length ?b - n) ?a @ ?b" by (simp add: last_n_def)
    moreover have "filter (\<lambda>x. c \<le> x) (drop k ?a) = []" for k
      by (auto simp: filter_empty_conv dest: in_set_dropD)
    ultimately show ?thesis using False by (simp add: last_n_def)
  qed
  with xs show ?thesis by metis
qed

lemma keep_hits_eq:
  "0 \<le> th_count th \<Longrightarrow> keep_hits th t old =
     last_n (nat (th_count th)) (filter (\<lambda>x. t - th_window th \<le> x) (old @ [t]))"
  unfolding keep_hits_def Let_def last_n_def by (auto simp: not_less)

text \<open>The hits kept after a sequence of hits of one rule and subject.\<close>

definition hits_after :: "threshold \<Rightarrow> time list \<Rightarrow> time list" where
  "hits_after th ts = fold (keep_hits th) ts []"

lemma hits_after_sorted:
  assumes "0 \<le> th_count th" and "0 \<le> th_window th" and "sorted (ts @ [t])"
  shows "hits_after th (ts @ [t]) =
    last_n (nat (th_count th)) (filter (\<lambda>x. t - th_window th \<le> x) (ts @ [t]))"
  using assms(3)
proof (induction ts arbitrary: t rule: rev_induct)
  case Nil
  show ?case using assms(1) by (simp add: hits_after_def keep_hits_eq)
next
  case (snoc u us)
  let ?c = "nat (th_count th)" and ?F = "filter (\<lambda>x. u - th_window th \<le> x) (us @ [u])"
  have s: "sorted (us @ [u])" and le: "u \<le> t" using snoc.prems by (simp_all add: sorted_append)
  have F: "sorted ?F" using s by (metis list.map_ident sorted_filter)
  have "filter (\<lambda>x. t - th_window th \<le> x) ?F = filter (\<lambda>x. t - th_window th \<le> x) (us @ [u])"
    using le by (auto simp: filter_filter intro!: filter_cong)
  moreover have "hits_after th ((us @ [u]) @ [t]) = keep_hits th t (last_n ?c ?F)"
    using snoc.IH [OF s] by (simp add: hits_after_def)
  moreover have "keep_hits th t (last_n ?c ?F) =
      last_n ?c (filter (\<lambda>x. t - th_window th \<le> x) (last_n ?c ?F) @ [t])"
    using assms(1,2) by (simp add: keep_hits_eq)
  ultimately show ?case
    using assms(2) by (simp only: filter_last_n [OF F] last_n_snoc) simp
qed

subsection \<open>Runs over the memory store\<close>

type_synonym correlation_state = "sgraph \<times> engine \<times> nat \<times> memory_store"

text \<open>Any number of events, each projected into the graph and then processed.\<close>

inductive correlates :: "(nat \<Rightarrow> string) \<Rightarrow> correlation_state \<Rightarrow> correlation_state \<Rightarrow> bool" for uuid st0 where
  correlates_start: "correlates uuid st0 st0"
| correlates_event:
    "correlates uuid st0 (g, en, n, s) \<Longrightarrow>
     process get_incident save_incident uuid now (project ev g) ev (en, n, s) = (r, en', n', s') \<Longrightarrow>
     correlates uuid st0 (project ev g, en', n', s')"

definition correlation_inv :: "(nat \<Rightarrow> string) \<Rightarrow> correlation_state \<Rightarrow> bool" where
  "correlation_inv uuid st \<longleftrightarrow>
     (let (g, en, n, s) = st
      in graph_wf g \<and> engine_inv uuid get_incident g (en, n, s) \<and> incidents_wf s)"

definition fresh_state :: "sgraph \<Rightarrow> engine \<Rightarrow> int \<Rightarrow> correlation_state \<Rightarrow> bool" where
  "fresh_state g en m st \<longleftrightarrow> st = (g, en, 0, new_memory_store m) \<and> graph_wf g \<and> en_open_subjects en = []"

lemma fresh_state_inv: "fresh_state g en m st \<Longrightarrow> correlation_inv uuid st"
  by (auto simp: fresh_state_def correlation_inv_def engine_inv_def new_memory_store_def get_incident_def
      incidents_wf_def ordered_wf_def)

lemma correlates_event_ok:
  assumes "correlation_inv uuid (g, en, n, s)" and "inj uuid"
    and "process get_incident save_incident uuid now (project ev g) ev (en, n, s) = (r, en', n', s')"
  shows "correlation_inv uuid (project ev g, en', n', s') \<and> incidents_advance get_incident (subject_key ev) s s'"
proof -
  have wf: "graph_wf (project ev g)" and st: "incidents_wf s"
    using assms(1) project_wf by (simp_all add: correlation_inv_def)
  have "engine_inv uuid get_incident (project ev g) (en, n, s)"
    using assms(1) engine_inv_graph project_grows unfolding correlation_inv_def by simp blast
  from memory_incidents.process_ok [OF this st assms(2) wf assms(3)] show ?thesis
    using wf by (simp add: correlation_inv_def step_ok_def)
qed

lemma correlates_inv:
  assumes "correlates uuid st0 st" and "inj uuid" and "correlation_inv uuid st0"
  shows "correlation_inv uuid st"
  using assms(1)
proof (induction rule: correlates.induct)
  case correlates_start
  then show ?case by (rule assms(3))
next
  case (correlates_event g en n s now ev r en' n' s')
  then show ?case using correlates_event_ok [OF _ assms(2)] by blast
qed

lemma correlates_advance:
  assumes "correlates uuid st0 st" and "inj uuid" and "correlation_inv uuid st0"
    and "get_incident (snd (snd (snd st0))) k = Inr i"
  shows "\<exists>i'. get_incident (snd (snd (snd st))) k = Inr i' \<and> inc_primary_identity i' = inc_primary_identity i \<and>
    inc_risk_score i \<le> inc_risk_score i'"
  using assms(1)
proof (induction rule: correlates.induct)
  case correlates_start
  then show ?case using assms(4) by simp
next
  case (correlates_event g en n s now ev r en' n' s')
  have "correlation_inv uuid (g, en, n, s)" by (rule correlates_inv [OF correlates_event.hyps(1) assms(2,3)])
  then have "incidents_advance get_incident (subject_key ev) s s'"
    using correlates_event_ok [OF _ assms(2) correlates_event.hyps(2)] by blast
  with correlates_event.IH show ?case unfolding incidents_advance_def by (fastforce intro: order_trans)
qed

lemma scored_bounds:
  assumes "scored g i"
  shows "0 \<le> inc_risk_score i \<and> inc_risk_score i \<le> 100 \<and> 0 \<le> inc_confidence i \<and> inc_confidence i \<le> 95 / 100 \<and>
    inc_severity i = severity_for_score (inc_risk_score i)"
  using assms saturate_bounds rounded_confidence_bounds [of "inc_findings i"]
  by (simp add: scored_def risk_of_def Let_def assess_fields max_confidence_def)

subsection \<open>A sample run\<close>

definition sample_uuid :: "nat \<Rightarrow> string" where
  "sample_uuid n = replicate n (CHR ''x'')"

lemma sample_uuid_inj: "inj sample_uuid"
  by (rule injI) (metis length_replicate sample_uuid_def)

definition login :: "string \<Rightarrow> time \<Rightarrow> security_event" where
  "login eid t = zero_event\<lparr>ev_id := eid, ev_timestamp := t, ev_event_type := ''Login'', ev_category := CategoryAuthentication,
     ev_actor := Some \<lparr> actor_type = ''user'', actor_id = ''amy'', actor_name = ''Amy'', actor_domain = [],
       actor_session_id = [], actor_privileged = False \<rparr>, ev_labels := [(''zone'', ''DMZ'')]\<rparr>"

definition sample_engine :: engine where
  "sample_engine = \<lparr> en_rules = [sample_rule ''a'' ''login''], en_window = default_window,
     en_open_subjects = [], en_threshold_hits = [] \<rparr>"

text \<open>What processing an event that yields findings comes to, over the memory store.\<close>

definition starting_incident :: "(nat \<Rightarrow> string) \<Rightarrow> engine \<Rightarrow> memory_store \<Rightarrow> nat \<Rightarrow> security_event \<Rightarrow> incident" where
  "starting_incident uuid en s n ev =
     (case open_incident get_incident en s (subject_key ev) ev of
        Some i \<Rightarrow> i
      | None \<Rightarrow> new_incident (fst (new_id uuid PrefixIncident n)) (subject_key ev) ev)"

lemma process_memory:
  assumes "evaluate_rules uuid ev (subject_key ev) (en_rules en) (en_threshold_hits en) n = (fs, hits, n1)"
    and "fs \<noteq> []" and "incidents_wf s"
  obtains n' s' i where
    "i = update_incident g now ev fs (starting_incident uuid (en\<lparr>en_threshold_hits := hits\<rparr>) s n1 ev)"
    "process get_incident save_incident uuid now g ev (en, n, s) =
       (Inr (Some i), en\<lparr>en_threshold_hits := hits, en_open_subjects := AList.update (subject_key ev)
          \<lparr> ss_incident_id = inc_id i, ss_last_seen = ev_timestamp ev \<rparr> (en_open_subjects en)\<rparr>, n', s')"
    "get_incident s' (inc_id i) = Inr i"
proof -
  let ?en = "en\<lparr>en_threshold_hits := hits\<rparr>"
  let ?i0 = "starting_incident uuid ?en s n1 ev"
  let ?i = "update_incident g now ev fs ?i0"
  have "inc_id ?i0 \<noteq> []"
  proof (cases "open_incident get_incident ?en s (subject_key ev) ev")
    case None
    then show ?thesis by (simp add: starting_incident_def new_incident_def)
  next
    case (Some i)
    have "\<exists>k. get_incident s k = Inr i"
      using Some by (auto simp: open_incident_def split: option.splits if_splits sum.splits)
    then obtain k where "get_incident s k = Inr i" by (rule exE)
    then have "map_of (ms_incidents s) k = Some i" by (simp add: get_incident_def split: option.splits)
    then have "inc_id i \<noteq> []" using assms(3) unfolding incidents_wf_def ordered_wf_def by blast
    with Some show ?thesis by (simp add: starting_incident_def)
  qed
  then obtain s' where s': "save_incident s ?i = Inr s'" by (simp add: save_incident_def Let_def)
  obtain n' where "process get_incident save_incident uuid now g ev (en, n, s) =
      (Inr (Some ?i), en\<lparr>en_threshold_hits := hits, en_open_subjects := AList.update (subject_key ev)
          \<lparr> ss_incident_id = inc_id ?i, ss_last_seen = ev_timestamp ev \<rparr> (en_open_subjects en)\<rparr>, n', s')"
    using assms(1,2) s'
    by (cases "open_incident get_incident ?en s (subject_key ev) ev")
      (simp_all add: process_def merge_into_incident_def starting_incident_def new_id_def Let_def)
  moreover have "get_incident s' (inc_id ?i) = Inr ?i" by (rule memory_incidents.get_saved [OF s'])
  ultimately show ?thesis using that by blast
qed

lemma sample_first_event:
  obtains i en' n' s' where
    "correlates sample_uuid (new_graph, sample_engine, 0, new_memory_store 9)
       (project (login ''e1'' 1) new_graph, en', n', s')"
    "get_incident s' (inc_id i) = Inr i" "inc_primary_identity i = ''user:amy''"
proof -
  let ?ev = "login ''e1'' 1"
  obtain fs hits n1 where e: "evaluate_rules sample_uuid ?ev (subject_key ?ev) (en_rules sample_engine)
      (en_threshold_hits sample_engine) 0 = (fs, hits, n1)" by (metis prod_cases3)
  have "fst (evaluate_rules sample_uuid ?ev (subject_key ?ev) (en_rules sample_engine)
      (en_threshold_hits sample_engine) 0) \<noteq> []" by code_simp
  then have "fs \<noteq> []" by (simp add: e)
  have wf: "incidents_wf (new_memory_store 9)" by (simp add: incidents_wf_def ordered_wf_def new_memory_store_def)
  obtain i en' n' s' where
      i: "i = update_incident (project ?ev new_graph) 5 ?ev fs
        (starting_incident sample_uuid (sample_engine\<lparr>en_threshold_hits := hits\<rparr>) (new_memory_store 9) n1 ?ev)"
      and p: "process get_incident save_incident sample_uuid 5 (project ?ev new_graph) ?ev
        (sample_engine, 0, new_memory_store 9) = (Inr (Some i), en', n', s')"
      and g: "get_incident s' (inc_id i) = Inr i"
    using process_memory [OF e \<open>fs \<noteq> []\<close> wf] by metis
  have "inc_primary_identity i = subject_key ?ev"
    by (simp add: i starting_incident_def open_incident_def sample_engine_def new_incident_def)
  also have "\<dots> = ''user:amy''" by code_simp
  finally show ?thesis using that correlates_event [OF correlates_start p] g by blast
qed

lemma sample_fresh: "fresh_state new_graph sample_engine 9 (new_graph, sample_engine, 0, new_memory_store 9)"
  by (simp add: fresh_state_def new_graph_wf sample_engine_def)

subsection \<open>Properties\<close>

text \<open>
  While events keep coming, an incident is never lost, never moves to another subject,
  and its risk score never falls. The identifiers of the UUID library are taken to be distinct.
\<close>

theorem incident_risk_never_falls:
  assumes "fresh_state g0 en m st0" and "inj uuid" and "correlates uuid st0 (g, en1, n, s)"
    and "correlates uuid (g, en1, n, s) (g', en2, n', s')" and "get_incident s k = Inr i"
  shows "\<exists>i'. get_incident s' k = Inr i' \<and> inc_primary_identity i' = inc_primary_identity i \<and>
    inc_risk_score i \<le> inc_risk_score i'"
proof -
  have "correlation_inv uuid (g, en1, n, s)"
    by (rule correlates_inv [OF assms(3,2) fresh_state_inv [OF assms(1)]])
  from correlates_advance [OF assms(4,2) this] assms(5) show ?thesis by simp
qed

theorem incident_risk_never_falls_witness:
  "\<exists>s s' k i i'. get_incident s k = Inr i \<and> get_incident s' k = Inr i' \<and> inc_primary_identity i' = ''user:amy'' \<and>
     inc_risk_score i \<le> inc_risk_score i'"
proof -
  obtain i en1 n s where r: "correlates sample_uuid (new_graph, sample_engine, 0, new_memory_store 9)
       (project (login ''e1'' 1) new_graph, en1, n, s)"
    and i: "get_incident s (inc_id i) = Inr i" "inc_primary_identity i = ''user:amy''"
    by (rule sample_first_event)
  obtain r2 en2 n2 s2 where "process get_incident save_incident sample_uuid 7
      (project (login ''e2'' 2) (project (login ''e1'' 1) new_graph)) (login ''e2'' 2) (en1, n, s) = (r2, en2, n2, s2)"
    by (metis prod_cases4)
  from correlates_event [OF correlates_start this]
  obtain i' where "get_incident s2 (inc_id i) = Inr i'" "inc_primary_identity i' = inc_primary_identity i"
      "inc_risk_score i \<le> inc_risk_score i'"
    using incident_risk_never_falls [OF sample_fresh sample_uuid_inj r _ i(1)] by blast
  with i show ?thesis by metis
qed

text \<open>
  C26 (safety): subjects are kept apart. Processing an event can change the stored incidents of its
  own subject only, and at every moment an open subject points at an incident about that subject.
\<close>

theorem subjects_kept_apart:
  assumes "fresh_state g0 en m st0" and "inj uuid" and "correlates uuid st0 (g, en1, n, s)"
    and "process get_incident save_incident uuid now (project ev g) ev (en1, n, s) = (r, en2, n2, s2)"
    and "get_incident s k = Inr i" and "inc_primary_identity i \<noteq> subject_key ev"
  shows "get_incident s2 k = Inr i \<and>
    (case open_incident get_incident en2 s2 (subject_key ev') ev' of
       None \<Rightarrow> True | Some j \<Rightarrow> inc_primary_identity j = subject_key ev')"
proof -
  have inv: "correlation_inv uuid (g, en1, n, s)"
    by (rule correlates_inv [OF assms(3,2) fresh_state_inv [OF assms(1)]])
  note step = correlates_event_ok [OF inv assms(2,4)]
  have "get_incident s2 k = Inr i"
    using step assms(5,6) unfolding incidents_advance_def by blast
  moreover have "inc_primary_identity j = subject_key ev'"
    if opened: "open_incident get_incident en2 s2 (subject_key ev') ev' = Some j" for j
  proof -
    obtain x where x: "map_of (en_open_subjects en2) (subject_key ev') = Some x" "get_incident s2 (ss_incident_id x) = Inr j"
      by (rule open_incident_Some [OF opened])
    have "engine_inv uuid get_incident (project ev g) (en2, n2, s2)" using step by (simp add: correlation_inv_def)
    from engine_inv_open [OF this x(1)] x(2) show ?thesis by blast
  qed
  ultimately show ?thesis by (simp split: option.split)
qed

theorem subjects_kept_apart_witness:
  "\<exists>s s2 k i. get_incident s k = Inr i \<and> inc_primary_identity i = ''user:amy'' \<and> get_incident s2 k = Inr i"
proof -
  obtain i en1 n s where r: "correlates sample_uuid (new_graph, sample_engine, 0, new_memory_store 9)
       (project (login ''e1'' 1) new_graph, en1, n, s)"
    and i: "get_incident s (inc_id i) = Inr i" "inc_primary_identity i = ''user:amy''"
    by (rule sample_first_event)
  let ?ev = "zero_event\<lparr>ev_id := ''e2''\<rparr>"
  obtain r2 en2 n2 s2 where p: "process get_incident save_incident sample_uuid 7
      (project ?ev (project (login ''e1'' 1) new_graph)) ?ev (en1, n, s) = (r2, en2, n2, s2)"
    by (metis prod_cases4)
  have "subject_key ?ev = ''unattributed::''" by code_simp
  then have "inc_primary_identity i \<noteq> subject_key ?ev" using i(2) by simp
  from subjects_kept_apart [OF sample_fresh sample_uuid_inj r p i(1) this] i show ?thesis by blast
qed

text \<open>
  Every incident in the store has one finding per rule, at most 100 event references
  per finding and at most 200 evidence lines, none repeated; its score lies between 0 and 100,
  its confidence below 0.95, and its severity is the score's band.
\<close>

theorem stored_incidents_bounded:
  assumes "fresh_state g0 en m st0" and "inj uuid" and "correlates uuid st0 (g, en1, n, s)"
    and "get_incident s k = Inr i"
  shows "distinct (map f_rule_id (inc_findings i)) \<and> (\<forall>f \<in> set (inc_findings i). length (f_event_ids f) \<le> 100) \<and>
    length (inc_evidence i) \<le> 200 \<and> distinct (map evd_event_id (inc_evidence i)) \<and>
    0 \<le> inc_risk_score i \<and> inc_risk_score i \<le> 100 \<and> 0 \<le> inc_confidence i \<and> inc_confidence i \<le> 95 / 100 \<and>
    inc_severity i = severity_for_score (inc_risk_score i)"
proof -
  have "correlation_inv uuid (g, en1, n, s)"
    by (rule correlates_inv [OF assms(3,2) fresh_state_inv [OF assms(1)]])
  then have "stored_ok uuid g n k i"
    using engine_inv_stored assms(4) unfolding correlation_inv_def by fastforce
  then obtain g1 where "incident_wf i" "scored g1 i" by (auto simp: stored_ok_def)
  with scored_bounds [OF this(2)] show ?thesis
    by (simp add: incident_wf_def finding_wf_def max_finding_events_def max_incident_evidence_def)
qed

theorem stored_incidents_bounded_witness:
  "\<exists>s k i. get_incident s k = Inr i \<and> inc_primary_identity i = ''user:amy'' \<and>
     0 \<le> inc_risk_score i \<and> inc_risk_score i \<le> 100"
proof -
  obtain i en1 n s where r: "correlates sample_uuid (new_graph, sample_engine, 0, new_memory_store 9)
       (project (login ''e1'' 1) new_graph, en1, n, s)"
    and i: "get_incident s (inc_id i) = Inr i" "inc_primary_identity i = ''user:amy''"
    by (rule sample_first_event)
  from stored_incidents_bounded [OF sample_fresh sample_uuid_inj r i(1)] i show ?thesis by blast
qed

text \<open>
  C29 (equivalence): for hits that arrive in order of time, the bounded list of hits decides what a
  count over the whole history would: a threshold is met exactly when at least \<^verbatim>\<open>Count\<close> hits
  of the subject lie within the window that ends at the last hit.
\<close>

theorem threshold_counts_window:
  assumes "threshold_ok th" and "sorted (ts @ [t])"
  shows "fst (threshold_met subj r th t [(hits_key subj r, hits_after th ts)]) \<longleftrightarrow>
    th_count th \<le> int (length (filter (\<lambda>x. t - th_window th \<le> x) (ts @ [t])))"
proof -
  have pos: "0 \<le> th_count th" "0 \<le> th_window th" using assms(1) by (simp_all add: threshold_ok_def)
  have "keep_hits th t (hits_after th ts) = hits_after th (ts @ [t])" by (simp add: hits_after_def)
  also have "\<dots> = last_n (nat (th_count th)) (filter (\<lambda>x. t - th_window th \<le> x) (ts @ [t]))"
    by (rule hits_after_sorted [OF pos assms(2)])
  finally have "fst (threshold_met subj r th t [(hits_key subj r, hits_after th ts)]) \<longleftrightarrow>
      th_count th \<le> int (length (last_n (nat (th_count th)) (filter (\<lambda>x. t - th_window th \<le> x) (ts @ [t]))))"
    by (simp add: threshold_met_def Let_def map_get_def)
  then show ?thesis using pos(1) by (auto simp: last_n_def)
qed

theorem threshold_counts_window_witness:
  "fst (threshold_met ''amy'' (sample_rule ''a'' ''login'') \<lparr> th_count = 2, th_window = 10 \<rparr> 14
     [(hits_key ''amy'' (sample_rule ''a'' ''login''), hits_after \<lparr> th_count = 2, th_window = 10 \<rparr> [1, 5])])"
  using threshold_counts_window [of "\<lparr> th_count = 2, th_window = 10 \<rparr>" "[1, 5]" 14 "''amy''" "sample_rule ''a'' ''login''"]
  by (simp add: threshold_ok_def)

text \<open>
  A threshold counts arrivals, not events. The same event delivered \<^verbatim>\<open>Count\<close> times
  meets the threshold, because a repeated delivery adds its timestamp again.
\<close>

theorem retries_meet_threshold:
  assumes "threshold_ok th"
  shows "fst (threshold_met subj r th t [(hits_key subj r, hits_after th (replicate (nat (th_count th) - 1) t))])"
proof -
  let ?k = "nat (th_count th) - 1"
  have pos: "0 \<le> th_count th" "0 \<le> th_window th" "2 \<le> th_count th" using assms by (simp_all add: threshold_ok_def)
  have "sorted (replicate ?k t @ [t])" by (simp add: sorted_append)
  from hits_after_sorted [OF pos(1,2) this]
  have "keep_hits th t (hits_after th (replicate ?k t)) =
      last_n (nat (th_count th)) (filter (\<lambda>x. t - th_window th \<le> x) (replicate ?k t @ [t]))"
    by (simp add: hits_after_def)
  also have "filter (\<lambda>x. t - th_window th \<le> x) (replicate ?k t @ [t]) = replicate ?k t @ [t]"
    using pos(2) by (intro filter_True) auto
  finally have "int (length (keep_hits th t (hits_after th (replicate ?k t)))) = th_count th"
    using pos by (simp add: last_n_def)
  then show ?thesis by (simp add: threshold_met_def Let_def map_get_def)
qed

theorem retries_meet_threshold_witness:
  "fst (threshold_met ''amy'' (sample_rule ''a'' ''login'') \<lparr> th_count = 3, th_window = 10 \<rparr> 7
     [(hits_key ''amy'' (sample_rule ''a'' ''login''), hits_after \<lparr> th_count = 3, th_window = 10 \<rparr> [7, 7])])"
  using retries_meet_threshold [of "\<lparr> th_count = 3, th_window = 10 \<rparr>" "''amy''" "sample_rule ''a'' ''login''" 7]
  by (simp add: threshold_ok_def numeral_2_eq_2)

text \<open>
  An event that arrives late drops no hit that is later than itself, so a threshold
  can be met by hits further apart than its window: with a window of 10, hits at 100 and at 0 meet
  a count of two.
\<close>

theorem late_hit_ignores_window:
  "threshold_met subj r \<lparr> th_count = 2, th_window = 10 \<rparr> 0 [(hits_key subj r, hits_after \<lparr> th_count = 2, th_window = 10 \<rparr> [100])]
     = (True, [(hits_key subj r, [100, 0])])"
  by (simp add: threshold_met_def hits_after_def keep_hits_def Let_def map_get_def)

text \<open>
  A late event moves the correlation window of its subject back to its own time. After
  it, an event more than the window younger than it is not absorbed, however recently the
  incident was last active.
\<close>

theorem late_event_rewinds_window:
  assumes "process get save uuid now g ev (en, n, s) = (Inr (Some i), en1, n1, s1)"
    and "subject_key ev' = subject_key ev" and "en_window en < time_sub (ev_timestamp ev') (ev_timestamp ev)"
  shows "open_incident get en1 s2 (subject_key ev') ev' = None"
proof -
  have "map_of (en_open_subjects en1) (subject_key ev) = Some \<lparr> ss_incident_id = inc_id i, ss_last_seen = ev_timestamp ev \<rparr>
      \<and> en_window en1 = en_window en"
    using assms(1)
    by (auto simp: process_def merge_into_incident_def Let_def split: prod.splits sum.splits option.splits if_splits)
  with assms(2,3) show ?thesis by (simp add: open_incident_def)
qed

text \<open>The incident of the witness was last active at 100 hours; the late event is of 95 hours.\<close>

definition active_incident :: incident where
  "active_incident = (new_incident ''inc-0'' ''user:amy'' (login ''e1'' (100 * hour)))\<lparr>inc_last_seen := 100 * hour\<rparr>"

theorem late_event_rewinds_window_witness:
  "\<exists>en s i en1 n1 s1. process get_incident save_incident sample_uuid 9 new_graph (login ''e2'' (95 * hour)) (en, 0, s)
       = (Inr (Some i), en1, n1, s1) \<and> inc_id i = ''inc-0'' \<and> inc_last_seen i = 100 * hour \<and>
     open_incident get_incident en1 s1 ''user:amy'' (login ''e3'' (100 * hour + 90 * minute)) = None"
proof -
  let ?ev = "login ''e2'' (95 * hour)" and ?ev' = "login ''e3'' (100 * hour + 90 * minute)"
  let ?s = "the_store (save_incident (new_memory_store 9) active_incident)"
  let ?en = "sample_engine\<lparr>en_open_subjects := [(''user:amy'', \<lparr> ss_incident_id = ''inc-0'', ss_last_seen = 100 * hour \<rparr>)]\<rparr>"
  obtain fs hits n1 where e: "evaluate_rules sample_uuid ?ev (subject_key ?ev) (en_rules ?en)
      (en_threshold_hits ?en) 0 = (fs, hits, n1)" by (metis prod_cases3)
  have "fst (evaluate_rules sample_uuid ?ev (subject_key ?ev) (en_rules ?en) (en_threshold_hits ?en) 0) \<noteq> []"
    by code_simp
  then have fs: "fs \<noteq> []" unfolding e by simp
  have save: "save_incident (new_memory_store 9) active_incident = Inr ?s"
    by (simp add: save_incident_def active_incident_def new_incident_def Let_def the_store_def)
  have wf: "incidents_wf ?s"
    by (rule save_incident_incidents_wf [OF _ save]) (simp add: incidents_wf_def ordered_wf_def new_memory_store_def)
  have keys: "subject_key ?ev = ''user:amy''" "subject_key ?ev' = ''user:amy''" by code_simp+
  have stored: "get_incident ?s ''inc-0'' = Inr active_incident"
    using memory_incidents.get_saved [OF save] by (simp add: active_incident_def new_incident_def)
  have times: "\<not> time_sub (95 * hour) (100 * hour) > default_window"
    "default_window < time_sub (100 * hour + 90 * minute) (95 * hour)" by code_simp+
  have ts: "ev_timestamp ?ev = 95 * hour" "ev_timestamp ?ev' = 100 * hour + 90 * minute" by (simp_all add: login_def)
  have opened: "open_incident get_incident (?en\<lparr>en_threshold_hits := hits\<rparr>) ?s (subject_key ?ev) ?ev = Some active_incident"
  proof -
    have "inc_status active_incident = StatusOpen" by (simp add: active_incident_def new_incident_def)
    then show ?thesis using times(1) by (simp add: open_incident_def keys stored ts sample_engine_def)
  qed
  obtain n' s' i where i: "i = update_incident new_graph 9 ?ev fs
        (starting_incident sample_uuid (?en\<lparr>en_threshold_hits := hits\<rparr>) ?s n1 ?ev)"
    and p: "process get_incident save_incident sample_uuid 9 new_graph ?ev (?en, 0, ?s) =
       (Inr (Some i), ?en\<lparr>en_threshold_hits := hits, en_open_subjects := AList.update (subject_key ?ev)
          \<lparr> ss_incident_id = inc_id i, ss_last_seen = ev_timestamp ?ev \<rparr> (en_open_subjects ?en)\<rparr>, n', s')"
    by (rule process_memory [OF e fs wf])
  have i': "i = update_incident new_graph 9 ?ev fs active_incident" by (simp add: i starting_incident_def opened)
  have last: "ev_timestamp (login e t) = t" for e t by (simp add: login_def)
  have "inc_last_seen i = 100 * hour" "inc_id i = ''inc-0''"
    by (simp_all add: i' update_incident_def Let_def active_incident_def new_incident_def last hour_def minute_def second_def)
  moreover have "open_incident get_incident (?en\<lparr>en_threshold_hits := hits, en_open_subjects := AList.update (subject_key ?ev)
          \<lparr> ss_incident_id = inc_id i, ss_last_seen = ev_timestamp ?ev \<rparr> (en_open_subjects ?en)\<rparr>) s' (subject_key ?ev') ?ev' = None"
    by (rule late_event_rewinds_window [OF p]) (use times(2) in \<open>simp_all add: keys ts sample_engine_def\<close>)
  ultimately show ?thesis using p keys(2) by metis
qed

end
