(* ===== verification/Policy.thy ===== *)
theory Policy
  imports Engine
begin

text \<open>
  The Policy Kernel of \<^verbatim>\<open>src/internal/policy\<close> and the policy it evaluates,
  \<^verbatim>\<open>src/policies/rego/griefer/response.rego\<close>. Open Policy Agent, the JSON codec, the HTTP client and
  the URL parser are parameters, collected in records; what they return is unconstrained unless a
  lemma says so. The Rego rules are functions of the input document: a partial rule is the list of
  the reasons it produces, a set of which is then sorted. The contract of a kernel is the locale
  \<open>policy_kernel\<close>, interpreted for the embedded and for the remote kernel.
\<close>

subsection \<open>Decision requests\<close>

abbreviation EffectAllow :: string where "EffectAllow \<equiv> ''allow''"
abbreviation EffectDeny :: string where "EffectDeny \<equiv> ''deny''"
abbreviation EffectRequireApproval :: string where "EffectRequireApproval \<equiv> ''require_approval''"

abbreviation EngineEmbedded :: string where "EngineEmbedded \<equiv> ''embedded''"
abbreviation EngineRemote :: string where "EngineRemote \<equiv> ''remote''"
abbreviation EngineUnavailable :: string where "EngineUnavailable \<equiv> ''unavailable''"

abbreviation policy_package :: string where "policy_package \<equiv> ''griefer.response''"
abbreviation policy_version :: string where "policy_version \<equiv> ''0.1.0''"

record action_input =
  ai_type :: string
  ai_mode :: string
  ai_known :: bool
  ai_destructive :: bool
  ai_reversible :: bool
  ai_rollback_action :: string
  ai_targets_critical_asset :: bool
  ai_isolation :: bool
  ai_target_entity_id :: string

text \<open>A nil slice is encoded as the JSON null, which the policy tells apart from an empty array.\<close>

record incident_input =
  ii_id :: string
  ii_risk_score :: int
  ii_confidence :: real
  ii_severity :: string
  ii_evidence_categories :: "string list option"
  ii_finding_count :: int

record request_input =
  ri_automated :: bool
  ri_requested_by :: string

record policy_input =
  pi_action :: action_input
  pi_incident :: incident_input
  pi_request :: request_input

text \<open>An error value, and whether \<^verbatim>\<open>errors.Is\<close> finds \<^verbatim>\<open>context.DeadlineExceeded\<close> in it.\<close>

record kernel_error =
  ke_text :: string
  ke_deadline :: bool

definition plain_error :: "string \<Rightarrow> kernel_error" where
  "plain_error t = \<lparr> ke_text = t, ke_deadline = False \<rparr>"

definition wrap_error :: "string \<Rightarrow> kernel_error \<Rightarrow> kernel_error" where
  "wrap_error prefix e = e\<lparr>ke_text := prefix @ ke_text e\<rparr>"

subsection \<open>Verdicts\<close>

definition fail_closed :: "string \<Rightarrow> string \<Rightarrow> time \<Rightarrow> policy_decision" where
  "fail_closed eng reason now =
     \<lparr> pd_effect = EffectDeny, pd_allow = False, pd_reasons = [reason],
       pd_policy_package = policy_package, pd_policy_version = policy_version,
       pd_evaluated_at = now, pd_fail_closed = True, pd_engine = eng \<rparr>"

record raw_decision =
  rd_effect :: string
  rd_allow :: bool
  rd_reasons :: "string list"
  rd_policy_package :: string
  rd_policy_version :: string
  rd_evidence_category_count :: int

definition to_decision :: "raw_decision \<Rightarrow> string \<Rightarrow> time \<Rightarrow> policy_decision option" where
  "to_decision r eng now =
     (if \<not> (rd_effect r = EffectAllow \<or> rd_effect r = EffectDeny \<or> rd_effect r = EffectRequireApproval) then None
      else if rd_effect r = EffectAllow \<and> \<not> rd_allow r then None
      else if rd_effect r \<noteq> EffectAllow \<and> rd_allow r then None
      else if rd_reasons r = [] then None
      else Some
        \<lparr> pd_effect = rd_effect r, pd_allow = rd_allow r, pd_reasons = rd_reasons r,
          pd_policy_package = (if rd_policy_package r = [] then policy_package else rd_policy_package r),
          pd_policy_version = (if rd_policy_version r = [] then ''unknown'' else rd_policy_version r),
          pd_evaluated_at = now, pd_fail_closed = False, pd_engine = eng \<rparr>)"

definition malformed_error :: "raw_decision \<Rightarrow> kernel_error" where
  "malformed_error r =
     plain_error (''policy returned a malformed decision (effect='' @ quote (rd_effect r) @ '', reasons=''
       @ show_nat (length (rd_reasons r)) @ '')'')"

subsection \<open>The embedded kernel\<close>

text \<open>What a prepared query returns: a list of results, each with the values of its expressions.\<close>

record 'v embedded_kernel =
  ek_eval :: "policy_input \<Rightarrow> kernel_error + 'v list list"
  ek_marshal :: "'v \<Rightarrow> kernel_error + string"
  ek_unmarshal :: "string \<Rightarrow> kernel_error + raw_decision"

definition evaluate_embedded ::
  "'v embedded_kernel \<Rightarrow> time \<Rightarrow> policy_input \<Rightarrow> kernel_error + policy_decision" where
  "evaluate_embedded k now i =
     (case ek_eval k i of
        Inl e \<Rightarrow> Inl (wrap_error ''evaluate policy: '' e)
      | Inr ((v # _) # _) \<Rightarrow>
          (case ek_marshal k v of
             Inl e \<Rightarrow> Inl (wrap_error ''encode policy decision: '' e)
           | Inr encoded \<Rightarrow>
               (case ek_unmarshal k encoded of
                  Inl e \<Rightarrow> Inl (wrap_error ''decode policy decision: '' e)
                | Inr raw \<Rightarrow>
                    (case to_decision raw EngineEmbedded now of
                       None \<Rightarrow> Inl (malformed_error raw)
                     | Some d \<Rightarrow> Inr d)))
      | Inr _ \<Rightarrow> Inl (plain_error ''policy produced no decision document''))"

definition embedded_evaluate ::
  "'v embedded_kernel \<Rightarrow> time \<Rightarrow> policy_input \<Rightarrow> policy_decision \<times> kernel_error option" where
  "embedded_evaluate k now i =
     (case evaluate_embedded k now i of
        Inl e \<Rightarrow> (fail_closed EngineEmbedded
          (''Policy Kernel could not evaluate this request; GRIEFER fails closed and denies the action. '' @ ke_text e)
          now, Some e)
      | Inr d \<Rightarrow> (d, None))"

definition probe_input :: policy_input where
  "probe_input =
     \<lparr> pi_action = \<lparr> ai_type = ''preserve_evidence'', ai_mode = ''simulate'', ai_known = True,
         ai_destructive = False, ai_reversible = True, ai_rollback_action = ''release_evidence_hold'',
         ai_targets_critical_asset = False, ai_isolation = False, ai_target_entity_id = [] \<rparr>,
       pi_incident = \<lparr> ii_id = ''healthcheck'', ii_risk_score = 0, ii_confidence = 0, ii_severity = [],
         ii_evidence_categories = Some [], ii_finding_count = 0 \<rparr>,
       pi_request = \<lparr> ri_automated = True, ri_requested_by = ''healthcheck'' \<rparr> \<rparr>"

definition embedded_health :: "'v embedded_kernel \<Rightarrow> time \<Rightarrow> kernel_error option" where
  "embedded_health k now =
     (case evaluate_embedded k now probe_input of Inl e \<Rightarrow> Some e | Inr _ \<Rightarrow> None)"

text \<open>
  Compiling the policy: the entries a walk of the file system visits, in its order. Reading a file
  may fail, and so may the walk itself.
\<close>

datatype walk_entry =
    WalkFailure kernel_error
  | WalkDirectory string
  | WalkFile string "kernel_error + string"

fun collect_modules :: "walk_entry list \<Rightarrow> (string \<times> string) list \<Rightarrow> kernel_error + (string \<times> string) list" where
  "collect_modules [] ms = Inr ms"
| "collect_modules (WalkFailure e # es) ms = Inl e"
| "collect_modules (WalkDirectory p # es) ms = collect_modules es ms"
| "collect_modules (WalkFile p c # es) ms =
     (if \<not> has_suffix p ''.rego'' then collect_modules es ms
      else case c of
             Inl e \<Rightarrow> Inl (wrap_error (''read policy '' @ p @ '': '') e)
           | Inr src \<Rightarrow> collect_modules es (AList.update p src ms))"

definition new_embedded_kernel_from_fs ::
  "((string \<times> string) list \<Rightarrow> kernel_error + 'v embedded_kernel) \<Rightarrow> string \<Rightarrow> walk_entry list \<Rightarrow>
     kernel_error + 'v embedded_kernel" where
  "new_embedded_kernel_from_fs prepare_query dir es =
     (case collect_modules es [] of
        Inl e \<Rightarrow> Inl (wrap_error (''policy: walk '' @ quote dir @ '': '') e)
      | Inr modules \<Rightarrow>
          if modules = [] then Inl (plain_error (''policy: no rego modules found under '' @ quote dir))
          else case prepare_query modules of
                 Inl e \<Rightarrow> Inl (wrap_error ''policy: compile embedded policy: '' e)
               | Inr k \<Rightarrow> Inr k)"

subsection \<open>The remote kernel\<close>

definition max_policy_response_bytes :: nat where "max_policy_response_bytes = 262144"
definition default_policy_timeout :: duration where "default_policy_timeout = 3 * second"

text \<open>
  A response: its status, the bytes the server sends and the error, if any, that ends them. A read of
  at most \<open>n\<close> bytes meets that error only when the body is shorter.
\<close>

record http_response =
  rs_status :: int
  rs_body :: string
  rs_read_error :: "kernel_error option"

definition read_limited :: "nat \<Rightarrow> http_response \<Rightarrow> kernel_error + string" where
  "read_limited n r =
     (case rs_read_error r of
        Some e \<Rightarrow> if length (rs_body r) < n then Inl e else Inr (take n (rs_body r))
      | None \<Rightarrow> Inr (take n (rs_body r)))"

text \<open>What the kernel uses of the HTTP client and of the codec, for a given deadline.\<close>

record http_client =
  hc_encode :: "policy_input \<Rightarrow> kernel_error + string"
  hc_request :: "string \<Rightarrow> kernel_error option"
  hc_post :: "duration \<Rightarrow> string \<Rightarrow> string \<Rightarrow> kernel_error + http_response"
  hc_get :: "duration \<Rightarrow> string \<Rightarrow> kernel_error + http_response"
  hc_decode :: "string \<Rightarrow> kernel_error + raw_decision option"

record remote_kernel =
  rk_decision_url :: string
  rk_health_url :: string
  rk_timeout :: duration

record parsed_url =
  pu_scheme :: string
  pu_string :: string

definition trim_suffix :: "string \<Rightarrow> string \<Rightarrow> string" where
  "trim_suffix s t = (if has_suffix s t then take (length s - length t) s else s)"

definition trim_slashes :: "string \<Rightarrow> string" where
  "trim_slashes s = rev (dropWhile (\<lambda>c. c = CHR ''/'') (rev (dropWhile (\<lambda>c. c = CHR ''/'') s)))"

definition new_remote_kernel ::
  "(string \<Rightarrow> kernel_error + parsed_url) \<Rightarrow> string \<Rightarrow> string \<Rightarrow> duration \<Rightarrow> kernel_error + remote_kernel" where
  "new_remote_kernel url_parse base_url decision_path timeout =
     (if base_url = [] then Inl (plain_error ''policy: remote kernel requires a base URL'')
      else case url_parse (trim_suffix base_url ''/'') of
             Inl e \<Rightarrow> Inl (wrap_error ''policy: invalid OPA base URL: '' e)
           | Inr base \<Rightarrow>
               if pu_scheme base \<noteq> ''http'' \<and> pu_scheme base \<noteq> ''https''
               then Inl (plain_error (''policy: OPA base URL must be http or https, got '' @ quote (pu_scheme base)))
               else
                 let path = trim_slashes decision_path in
                 if path = [] then Inl (plain_error ''policy: remote kernel requires a decision path'')
                 else Inr \<lparr> rk_decision_url = pu_string base @ ''/v1/data/'' @ path,
                            rk_health_url = pu_string base @ ''/health'',
                            rk_timeout = (if timeout \<le> 0 then default_policy_timeout else timeout) \<rparr>)"

definition remote_health :: "http_client \<Rightarrow> remote_kernel \<Rightarrow> kernel_error option" where
  "remote_health c k =
     (case hc_request c (rk_health_url k) of
        Some e \<Rightarrow> Some (wrap_error ''policy: build health request: '' e)
      | None \<Rightarrow>
          (case hc_get c (rk_timeout k) (rk_health_url k) of
             Inl e \<Rightarrow> Some (wrap_error ''policy: OPA health request failed: '' e)
           | Inr resp \<Rightarrow>
               if rs_status resp \<noteq> 200
               then Some (plain_error (''policy: OPA health returned status '' @ show_int (rs_status resp)))
               else None))"

text \<open>From a response with status 200 to a decision.\<close>

definition decision_of_response :: "http_client \<Rightarrow> time \<Rightarrow> http_response \<Rightarrow> kernel_error + policy_decision" where
  "decision_of_response c now resp =
     (case read_limited max_policy_response_bytes resp of
        Inl e \<Rightarrow> Inl (wrap_error ''read policy response: '' e)
      | Inr payload \<Rightarrow>
          (case hc_decode c payload of
             Inl e \<Rightarrow> Inl (wrap_error ''decode policy response: '' e)
           | Inr None \<Rightarrow> Inl (plain_error ''policy document is undefined at the configured decision path'')
           | Inr (Some raw) \<Rightarrow>
               (case to_decision raw EngineRemote now of
                  None \<Rightarrow> Inl (malformed_error raw)
                | Some d \<Rightarrow> Inr d)))"

definition evaluate_remote ::
  "http_client \<Rightarrow> remote_kernel \<Rightarrow> time \<Rightarrow> policy_input \<Rightarrow> kernel_error + policy_decision" where
  "evaluate_remote c k now i =
     (case hc_encode c i of
        Inl e \<Rightarrow> Inl (wrap_error ''encode policy input: '' e)
      | Inr body \<Rightarrow>
          (case hc_request c (rk_decision_url k) of
             Some e \<Rightarrow> Inl (wrap_error ''build policy request: '' e)
           | None \<Rightarrow>
               (case hc_post c (rk_timeout k) (rk_decision_url k) body of
                  Inl e \<Rightarrow> Inl (wrap_error ''policy request failed: '' e)
                | Inr resp \<Rightarrow>
                    if rs_status resp \<noteq> 200
                    then Inl (plain_error (''policy endpoint returned status '' @ show_int (rs_status resp)))
                    else decision_of_response c now resp)))"

definition remote_evaluate ::
  "http_client \<Rightarrow> remote_kernel \<Rightarrow> time \<Rightarrow> policy_input \<Rightarrow> policy_decision \<times> kernel_error option" where
  "remote_evaluate c k now i =
     (case evaluate_remote c k now i of
        Inl e \<Rightarrow> (fail_closed EngineUnavailable
          (''Policy Kernel is unreachable or returned an unusable decision; GRIEFER fails closed and denies the action. ''
            @ ke_text e) now, Some e)
      | Inr d \<Rightarrow> (d, None))"

subsection \<open>The response policy\<close>

definition min_evidence_categories :: int where "min_evidence_categories = 2"
definition min_automated_risk_score :: int where "min_automated_risk_score = 40"

text \<open>
  The kinds of the fields are those of the Go records, so of the checks of \<^verbatim>\<open>input_complete\<close> only the
  one for the array can fail.
\<close>

definition input_complete :: "policy_input \<Rightarrow> bool" where
  "input_complete i \<longleftrightarrow> ii_evidence_categories (pi_incident i) \<noteq> None"

definition evidence_category_set :: "policy_input \<Rightarrow> string list" where
  "evidence_category_set i =
     (case ii_evidence_categories (pi_incident i) of None \<Rightarrow> [] | Some cs \<Rightarrow> remdups cs)"

definition evidence_category_count :: "policy_input \<Rightarrow> int" where
  "evidence_category_count i = int (length (evidence_category_set i))"

definition known_modes :: "string list" where
  "known_modes = [''simulate'', ''execute'']"

text \<open>One element per partial rule: the reason it adds when its body holds.\<close>

definition rule_when :: "bool \<Rightarrow> string \<Rightarrow> string list" where
  "rule_when c reason = (if c then [reason] else [])"

definition deny_reasons :: "policy_input \<Rightarrow> string list" where
  "deny_reasons i =
     (let a = pi_action i in
      rule_when (\<not> input_complete i)
        ''Policy input is incomplete or malformed; GRIEFER fails closed on decision requests it cannot fully evaluate.''
      @ rule_when (ai_destructive a)
        (''Action '' @ quote (ai_type a) @ '' is classified destructive. Destructive actions are denied unconditionally in every mode and cannot be approved through this path.'')
      @ rule_when (\<not> ai_known a)
        (''Action type '' @ quote (ai_type a) @ '' is not defined in the GRIEFER action catalog. Only catalog actions may be evaluated.'')
      @ rule_when (ai_mode a \<notin> set known_modes)
        (''Response mode '' @ quote (ai_mode a) @ '' is not recognised.''))"

definition approval_reasons :: "policy_input \<Rightarrow> string list" where
  "approval_reasons i =
     (let a = pi_action i; inc = pi_incident i; automated = ri_automated (pi_request i);
          weak = evidence_category_count i < min_evidence_categories in
      rule_when (\<not> ai_reversible a)
        (''Action '' @ quote (ai_type a) @ '' is not reversible. An action that cannot be undone requires an explicit human decision.'')
      @ rule_when (ai_reversible a \<and> ai_rollback_action a = [])
        (''Action '' @ quote (ai_type a) @ '' declares no rollback action. Without a defined way back, a human must approve it.'')
      @ rule_when (ai_targets_critical_asset a)
        ''Action targets an asset classified critical. Critical assets always require human approval.''
      @ rule_when (automated \<and> weak)
        (''Automated response requires at least '' @ show_int min_evidence_categories
          @ '' independent evidence categories; this incident has '' @ show_int (evidence_category_count i) @ ''.'')
      @ rule_when (ai_isolation a \<and> automated \<and> weak)
        (''Isolation-class action '' @ quote (ai_type a) @ '' cannot be triggered automatically by a single weak signal.'')
      @ rule_when (automated \<and> ii_risk_score inc < min_automated_risk_score)
        (''Incident risk score '' @ show_int (ii_risk_score inc) @ '' is below the automation threshold of ''
          @ show_int min_automated_risk_score @ ''.'')
      @ rule_when (ai_mode a = ''execute'')
        ''Mode 'execute' performs changes in external systems and always requires human approval at the current autonomy level.'')"

definition policy_effect :: "policy_input \<Rightarrow> string" where
  "policy_effect i =
     (if deny_reasons i \<noteq> [] then EffectDeny
      else if approval_reasons i \<noteq> [] then EffectRequireApproval
      else if input_complete i then EffectAllow
      else EffectDeny)"

definition allow_reasons :: "policy_input \<Rightarrow> string list" where
  "allow_reasons i =
     rule_when (policy_effect i = EffectAllow)
       (''Action '' @ quote (ai_type (pi_action i)) @ '' is non-destructive and reversible via ''
         @ quote (ai_rollback_action (pi_action i)) @ '', corroborated by '' @ show_int (evidence_category_count i)
         @ '' independent evidence categories at risk score '' @ show_int (ii_risk_score (pi_incident i))
         @ '', and runs in '' @ quote (ai_mode (pi_action i)) @ '' mode.'')"

definition policy_reasons :: "policy_input \<Rightarrow> string list" where
  "policy_reasons i =
     sorted_keys (if policy_effect i = EffectDeny then deny_reasons i
                  else if policy_effect i = EffectRequireApproval then approval_reasons i
                  else allow_reasons i)"

definition policy_document :: "policy_input \<Rightarrow> raw_decision" where
  "policy_document i =
     \<lparr> rd_effect = policy_effect i, rd_allow = (policy_effect i = EffectAllow),
       rd_reasons = (if policy_reasons i \<noteq> [] then policy_reasons i
         else [''Denied by default: the Policy Kernel produced no applicable rule for this request.'']),
       rd_policy_package = ''griefer.response'', rd_policy_version = ''0.1.0'',
       rd_evidence_category_count = evidence_category_count i \<rparr>"

subsection \<open>The contract of a kernel\<close>

definition decision_wf :: "policy_decision \<Rightarrow> bool" where
  "decision_wf d \<longleftrightarrow>
     pd_effect d \<in> {EffectAllow, EffectDeny, EffectRequireApproval} \<and> (pd_allow d \<longleftrightarrow> pd_effect d = EffectAllow) \<and>
     pd_reasons d \<noteq> [] \<and> pd_policy_package d \<noteq> [] \<and> pd_policy_version d \<noteq> []"

lemma fail_closed_wf [wf_intros]: "decision_wf (fail_closed eng reason now)"
  by (simp add: decision_wf_def fail_closed_def)

lemma fail_closed_denies [simp]:
  "pd_effect (fail_closed eng reason now) = EffectDeny" "pd_fail_closed (fail_closed eng reason now)"
  "pd_engine (fail_closed eng reason now) = eng"
  by (simp_all add: fail_closed_def)

lemma to_decision_wf:
  assumes "to_decision r eng now = Some d"
  shows "decision_wf d" and "\<not> pd_fail_closed d" and "pd_effect d = rd_effect r" and "pd_reasons d = rd_reasons r"
  using assms by (auto simp: to_decision_def decision_wf_def split: if_splits)

lemma to_decision_accepts:
  "to_decision r eng now \<noteq> None \<longleftrightarrow>
     rd_effect r \<in> {EffectAllow, EffectDeny, EffectRequireApproval} \<and>
     (rd_allow r \<longleftrightarrow> rd_effect r = EffectAllow) \<and> rd_reasons r \<noteq> []"
  by (auto simp: to_decision_def)

locale policy_kernel =
  fixes evaluate :: "time \<Rightarrow> policy_input \<Rightarrow> policy_decision \<times> kernel_error option"
  assumes evaluate_wf: "decision_wf (fst (evaluate now i))"
    and evaluate_closed: "snd (evaluate now i) \<noteq> None \<Longrightarrow> pd_effect (fst (evaluate now i)) = EffectDeny"
    and evaluate_flag: "pd_fail_closed (fst (evaluate now i)) \<longleftrightarrow> snd (evaluate now i) \<noteq> None"
begin

lemma allow_means_evaluated:
  assumes "pd_effect (fst (evaluate now i)) = EffectAllow"
  shows "snd (evaluate now i) = None" and "\<not> pd_fail_closed (fst (evaluate now i))" and "pd_allow (fst (evaluate now i))"
  using assms evaluate_closed [of now i] evaluate_flag [of now i] evaluate_wf [of now i]
  by (auto simp: decision_wf_def)

lemma effect_cases:
  obtains "pd_effect (fst (evaluate now i)) = EffectAllow" | "pd_effect (fst (evaluate now i)) = EffectDeny"
  | "pd_effect (fst (evaluate now i)) = EffectRequireApproval"
  using evaluate_wf [of now i] by (auto simp: decision_wf_def)

end

lemma evaluate_embedded_decision:
  assumes "evaluate_embedded k now i = Inr d"
  shows "\<exists>raw. to_decision raw EngineEmbedded now = Some d"
  using assms by (auto simp: evaluate_embedded_def split: sum.splits list.splits option.splits)

lemma evaluate_remote_decision:
  assumes "evaluate_remote c k now i = Inr d"
  shows "\<exists>raw. to_decision raw EngineRemote now = Some d"
  using assms
  by (auto simp: evaluate_remote_def decision_of_response_def split: sum.splits option.splits if_splits)

interpretation embedded: policy_kernel "embedded_evaluate k" for k
proof
  fix now i
  show "decision_wf (fst (embedded_evaluate k now i))"
    using evaluate_embedded_decision [of k now i]
    by (auto simp: embedded_evaluate_def fail_closed_wf split: sum.split dest: to_decision_wf)
  show "snd (embedded_evaluate k now i) \<noteq> None \<Longrightarrow> pd_effect (fst (embedded_evaluate k now i)) = EffectDeny"
    by (auto simp: embedded_evaluate_def split: sum.splits)
  show "pd_fail_closed (fst (embedded_evaluate k now i)) \<longleftrightarrow> snd (embedded_evaluate k now i) \<noteq> None"
    using evaluate_embedded_decision [of k now i]
    by (auto simp: embedded_evaluate_def split: sum.split dest: to_decision_wf)
qed

interpretation remote: policy_kernel "remote_evaluate c k" for c k
proof
  fix now i
  show "decision_wf (fst (remote_evaluate c k now i))"
    using evaluate_remote_decision [of c k now i]
    by (auto simp: remote_evaluate_def fail_closed_wf split: sum.split dest: to_decision_wf)
  show "snd (remote_evaluate c k now i) \<noteq> None \<Longrightarrow> pd_effect (fst (remote_evaluate c k now i)) = EffectDeny"
    by (auto simp: remote_evaluate_def split: sum.splits)
  show "pd_fail_closed (fst (remote_evaluate c k now i)) \<longleftrightarrow> snd (remote_evaluate c k now i) \<noteq> None"
    using evaluate_remote_decision [of c k now i]
    by (auto simp: remote_evaluate_def split: sum.split dest: to_decision_wf)
qed

subsection \<open>What the policy decides\<close>

text \<open>The design rules at the head of the policy, as one function with three verdicts.\<close>

datatype verdict = Permit | AskHuman | Refuse

definition corroborated :: "policy_input \<Rightarrow> bool" where
  "corroborated i \<longleftrightarrow>
     (case ii_evidence_categories (pi_incident i) of None \<Rightarrow> False | Some cs \<Rightarrow> card (set cs) \<ge> 2)"

definition authorize :: "policy_input \<Rightarrow> verdict" where
  "authorize i =
     (let a = pi_action i in
      if ii_evidence_categories (pi_incident i) = None \<or> ai_destructive a \<or> \<not> ai_known a \<or>
         ai_mode a \<notin> {''simulate'', ''execute''} then Refuse
      else if ai_mode a = ''simulate'' \<and> ai_reversible a \<and> ai_rollback_action a \<noteq> [] \<and>
         \<not> ai_targets_critical_asset a \<and>
         (\<not> ri_automated (pi_request i) \<or> corroborated i \<and> ii_risk_score (pi_incident i) \<ge> 40) then Permit
      else AskHuman)"

definition effect_of :: "verdict \<Rightarrow> string" where
  "effect_of v = (case v of Permit \<Rightarrow> EffectAllow | AskHuman \<Rightarrow> EffectRequireApproval | Refuse \<Rightarrow> EffectDeny)"

lemma effect_authorize_iff:
  "effect_of (authorize i) = EffectDeny \<longleftrightarrow>
     ii_evidence_categories (pi_incident i) = None \<or> ai_destructive (pi_action i) \<or> \<not> ai_known (pi_action i) \<or>
     ai_mode (pi_action i) \<notin> {''simulate'', ''execute''}"
  "effect_of (authorize i) = EffectAllow \<longleftrightarrow>
     ii_evidence_categories (pi_incident i) \<noteq> None \<and> \<not> ai_destructive (pi_action i) \<and> ai_known (pi_action i) \<and>
     ai_mode (pi_action i) = ''simulate'' \<and> ai_reversible (pi_action i) \<and> ai_rollback_action (pi_action i) \<noteq> [] \<and>
     \<not> ai_targets_critical_asset (pi_action i) \<and>
     (\<not> ri_automated (pi_request i) \<or> corroborated i \<and> ii_risk_score (pi_incident i) \<ge> 40)"
  unfolding authorize_def effect_of_def Let_def by auto

lemma rule_when_Nil [simp]: "rule_when c r = [] \<longleftrightarrow> \<not> c"
  by (simp add: rule_when_def)

lemma evidence_category_count_card:
  "ii_evidence_categories (pi_incident i) \<noteq> None \<Longrightarrow> evidence_category_count i < 2 \<longleftrightarrow> \<not> corroborated i"
  by (auto simp: evidence_category_count_def evidence_category_set_def corroborated_def length_remdups_card_conv)

lemma deny_reasons_Nil:
  "deny_reasons i = [] \<longleftrightarrow>
     ii_evidence_categories (pi_incident i) \<noteq> None \<and> \<not> ai_destructive (pi_action i) \<and> ai_known (pi_action i) \<and>
     ai_mode (pi_action i) \<in> {''simulate'', ''execute''}"
  by (auto simp: deny_reasons_def Let_def input_complete_def known_modes_def)

lemma approval_reasons_Nil:
  "approval_reasons i = [] \<longleftrightarrow>
     ai_reversible (pi_action i) \<and> ai_rollback_action (pi_action i) \<noteq> [] \<and> \<not> ai_targets_critical_asset (pi_action i) \<and>
     ai_mode (pi_action i) \<noteq> ''execute'' \<and>
     (\<not> ri_automated (pi_request i) \<or> \<not> evidence_category_count i < 2 \<and> ii_risk_score (pi_incident i) \<ge> 40)"
  by (auto simp: approval_reasons_def Let_def min_evidence_categories_def min_automated_risk_score_def)

lemma policy_effect_authorize: "policy_effect i = effect_of (authorize i)"
  by (cases "ii_evidence_categories (pi_incident i)")
    (auto simp: policy_effect_def authorize_def effect_of_def Let_def deny_reasons_Nil approval_reasons_Nil
      input_complete_def evidence_category_count_card)

lemma policy_reasons_nonempty: "policy_reasons i \<noteq> []"
proof -
  have "deny_reasons i = [] \<Longrightarrow> input_complete i" by (simp add: deny_reasons_Nil input_complete_def)
  then show ?thesis by (auto simp: policy_reasons_def policy_effect_def allow_reasons_def)
qed

text \<open>The document of the policy is one that a kernel accepts.\<close>

lemma policy_document_accepted:
  "\<exists>d. to_decision (policy_document i) eng now = Some d \<and> pd_effect d = effect_of (authorize i) \<and>
     pd_reasons d = policy_reasons i"
  by (auto simp: to_decision_def policy_document_def policy_reasons_nonempty policy_effect_authorize effect_of_def
      split: verdict.split)

subsection \<open>Properties of the kernels\<close>

text \<open>
  What a kernel is given when the policy that ships with the code answers a request: the library
  hands the policy's document back through the codec.
\<close>

definition embedded_serves :: "'v embedded_kernel \<Rightarrow> policy_input \<Rightarrow> bool" where
  "embedded_serves k i \<longleftrightarrow>
     (\<exists>v vs rs enc. ek_eval k i = Inr ((v # vs) # rs) \<and> ek_marshal k v = Inr enc \<and>
        ek_unmarshal k enc = Inr (policy_document i))"

definition remote_serves :: "http_client \<Rightarrow> remote_kernel \<Rightarrow> policy_input \<Rightarrow> bool" where
  "remote_serves c k i \<longleftrightarrow>
     (\<exists>body resp payload. hc_encode c i = Inr body \<and> hc_request c (rk_decision_url k) = None \<and>
        hc_post c (rk_timeout k) (rk_decision_url k) body = Inr resp \<and> rs_status resp = 200 \<and>
        read_limited max_policy_response_bytes resp = Inr payload \<and>
        hc_decode c payload = Inr (Some (policy_document i)))"

lemma embedded_serves_evaluate:
  assumes "embedded_serves k i"
  shows "\<exists>d. embedded_evaluate k now i = (d, None) \<and> to_decision (policy_document i) EngineEmbedded now = Some d"
  using assms policy_document_accepted [of i EngineEmbedded now]
  by (auto simp: embedded_serves_def embedded_evaluate_def evaluate_embedded_def)

lemma remote_serves_evaluate:
  assumes "remote_serves c k i"
  shows "\<exists>d. remote_evaluate c k now i = (d, None) \<and> to_decision (policy_document i) EngineRemote now = Some d"
  using assms policy_document_accepted [of i EngineRemote now]
  by (auto simp: remote_serves_def remote_evaluate_def evaluate_remote_def decision_of_response_def)

text \<open>
  C3 (refinement): both kernels implement the abstract authorization \<open>authorize\<close>. When the policy
  that ships with the code answers, the embedded and the remote kernel return no error, the effect
  of the abstract verdict and the same sorted, non-empty list of reasons; so moving the policy into
  a sidecar changes no verdict, and the seven design rules at the head of the policy file are what
  it enforces.
\<close>

theorem kernels_refine_authorization:
  assumes "embedded_serves ek i" and "remote_serves hc rk i"
  shows "snd (embedded_evaluate ek now i) = None \<and> snd (remote_evaluate hc rk now i) = None \<and>
    pd_effect (fst (embedded_evaluate ek now i)) = effect_of (authorize i) \<and>
    pd_effect (fst (remote_evaluate hc rk now i)) = effect_of (authorize i) \<and>
    pd_reasons (fst (embedded_evaluate ek now i)) = policy_reasons i \<and>
    pd_reasons (fst (remote_evaluate hc rk now i)) = policy_reasons i \<and>
    policy_reasons i \<noteq> [] \<and> sorted (policy_reasons i)"
  using embedded_serves_evaluate [OF assms(1), of now] remote_serves_evaluate [OF assms(2), of now]
    policy_document_accepted [of i EngineEmbedded now] policy_document_accepted [of i EngineRemote now]
  by (auto simp: policy_reasons_nonempty) (simp add: policy_reasons_def)

definition sample_embedded :: "policy_input embedded_kernel" where
  "sample_embedded = \<lparr> ek_eval = (\<lambda>i. Inr [[i]]), ek_marshal = (\<lambda>v. Inr ''{}''),
     ek_unmarshal = (\<lambda>enc. Inr (policy_document probe_input)) \<rparr>"

definition sample_client :: http_client where
  "sample_client = \<lparr> hc_encode = (\<lambda>i. Inr ''{}''), hc_request = (\<lambda>u. None),
     hc_post = (\<lambda>t u b. Inr \<lparr> rs_status = 200, rs_body = b, rs_read_error = None \<rparr>),
     hc_get = (\<lambda>t u. Inr \<lparr> rs_status = 200, rs_body = [], rs_read_error = None \<rparr>),
     hc_decode = (\<lambda>p. Inr (Some (policy_document probe_input))) \<rparr>"

definition sample_remote :: remote_kernel where
  "sample_remote = \<lparr> rk_decision_url = ''http://opa/v1/data/griefer/response/decision'',
     rk_health_url = ''http://opa/health'', rk_timeout = second \<rparr>"

lemma sample_embedded_serves: "embedded_serves sample_embedded probe_input"
  by (simp add: embedded_serves_def sample_embedded_def)

lemma sample_remote_serves: "remote_serves sample_client sample_remote probe_input"
  by (simp add: remote_serves_def sample_client_def sample_remote_def read_limited_def)

theorem kernels_refine_authorization_witness:
  "pd_effect (fst (embedded_evaluate sample_embedded 5 probe_input)) = EffectRequireApproval \<and>
   pd_effect (fst (remote_evaluate sample_client sample_remote 5 probe_input)) = EffectRequireApproval"
proof -
  have "effect_of (authorize probe_input) = EffectRequireApproval" by code_simp
  then show ?thesis
    using kernels_refine_authorization [OF sample_embedded_serves sample_remote_serves, of 5] by simp
qed

text \<open>
  C8 (error): both kernels fail closed. Whatever the evaluator, the codec or the server does, the
  decision is a well-formed verdict with a reason. It is marked fail-closed exactly when an error is
  reported, and then it denies; an action is allowed only by a document that was evaluated and says so
  in both of its fields.
\<close>

theorem kernels_fail_closed:
  "decision_wf (fst (embedded_evaluate ek now i)) \<and> decision_wf (fst (remote_evaluate hc rk now i)) \<and>
   (pd_fail_closed (fst (embedded_evaluate ek now i)) \<longleftrightarrow> snd (embedded_evaluate ek now i) \<noteq> None) \<and>
   (pd_fail_closed (fst (remote_evaluate hc rk now i)) \<longleftrightarrow> snd (remote_evaluate hc rk now i) \<noteq> None) \<and>
   \<not> (pd_effect (fst (embedded_evaluate ek now i)) \<noteq> EffectDeny \<and> snd (embedded_evaluate ek now i) \<noteq> None) \<and>
   \<not> (pd_effect (fst (remote_evaluate hc rk now i)) \<noteq> EffectDeny \<and> snd (remote_evaluate hc rk now i) \<noteq> None)"
  using embedded.evaluate_wf [of ek now i] embedded.evaluate_flag [of ek now i]
    embedded.evaluate_closed [where k = ek and now = now and i = i]
    remote.evaluate_wf [of hc rk now i] remote.evaluate_flag [of hc rk now i]
    remote.evaluate_closed [where c = hc and k = rk and now = now and i = i] by blast

definition more_evidence :: "policy_input \<Rightarrow> policy_input \<Rightarrow> bool" where
  "more_evidence i j \<longleftrightarrow>
     pi_action j = (pi_action i)\<lparr>ai_isolation := ai_isolation (pi_action j)\<rparr> \<and>
     (case (ii_evidence_categories (pi_incident i), ii_evidence_categories (pi_incident j)) of
        (Some cs, Some ds) \<Rightarrow> set cs \<subseteq> set ds | (None, _) \<Rightarrow> True | (Some _, None) \<Rightarrow> False) \<and>
     ii_risk_score (pi_incident i) \<le> ii_risk_score (pi_incident j) \<and>
     (ri_automated (pi_request j) \<longrightarrow> ri_automated (pi_request i))"

lemma more_evidence_corroborated:
  assumes "more_evidence i j" and "corroborated i"
  shows "corroborated j"
proof -
  obtain cs where cs: "ii_evidence_categories (pi_incident i) = Some cs" "card (set cs) \<ge> 2"
    using assms(2) by (auto simp: corroborated_def split: option.splits)
  then obtain ds where ds: "ii_evidence_categories (pi_incident j) = Some ds" "set cs \<subseteq> set ds"
    using assms(1) by (auto simp: more_evidence_def split: option.splits)
  then have "card (set cs) \<le> card (set ds)" by (intro card_mono) auto
  with cs ds show ?thesis by (simp add: corroborated_def)
qed

lemma more_evidence_action:
  assumes "more_evidence i j"
  shows "ai_type (pi_action j) = ai_type (pi_action i)" "ai_mode (pi_action j) = ai_mode (pi_action i)"
    "ai_known (pi_action j) = ai_known (pi_action i)" "ai_destructive (pi_action j) = ai_destructive (pi_action i)"
    "ai_reversible (pi_action j) = ai_reversible (pi_action i)"
    "ai_rollback_action (pi_action j) = ai_rollback_action (pi_action i)"
    "ai_targets_critical_asset (pi_action j) = ai_targets_critical_asset (pi_action i)"
  using assms unfolding more_evidence_def
  by (metis (no_types, lifting) action_input.select_convs action_input.update_convs action_input.surjective)+

text \<open>
  C17 (safety): more evidence never makes the policy stricter. For the same action, a request with at
  least the evidence categories, at least the risk score, and made by a human if the other one was, is
  refused only if the other one is, and is permitted if the other one is. The isolation flag plays no
  part in the verdict: its rule repeats the one about corroboration.
\<close>

theorem policy_monotone:
  assumes "more_evidence i j"
  shows "(policy_effect j = EffectDeny \<longrightarrow> policy_effect i = EffectDeny) \<and>
    (policy_effect i = EffectAllow \<longrightarrow> policy_effect j = EffectAllow)"
proof -
  have none: "ii_evidence_categories (pi_incident j) = None \<Longrightarrow> ii_evidence_categories (pi_incident i) = None"
    using assms by (auto simp: more_evidence_def split: option.splits)
  have "ii_risk_score (pi_incident i) \<le> ii_risk_score (pi_incident j)"
    and "ri_automated (pi_request j) \<Longrightarrow> ri_automated (pi_request i)"
    using assms by (auto simp: more_evidence_def)
  then show ?thesis
    using more_evidence_corroborated [OF assms] none
    unfolding policy_effect_authorize effect_authorize_iff more_evidence_action [OF assms] by fastforce
qed

theorem policy_monotone_witness:
  "policy_effect (probe_input\<lparr>pi_incident := (pi_incident probe_input)\<lparr>
      ii_evidence_categories := Some [''authentication'', ''cloud_access''], ii_risk_score := 55\<rparr>\<rparr>) \<noteq> EffectDeny"
proof -
  have "more_evidence probe_input (probe_input\<lparr>pi_incident := (pi_incident probe_input)\<lparr>
      ii_evidence_categories := Some [''authentication'', ''cloud_access''], ii_risk_score := 55\<rparr>\<rparr>)"
    by (simp add: more_evidence_def probe_input_def)
  moreover have "policy_effect probe_input \<noteq> EffectDeny" by code_simp
  ultimately show ?thesis using policy_monotone by blast
qed

end
