(* ===== verification/Revision.thy ===== *)
theory Revision
  imports Policy
begin

text \<open>
  The policy revision of \<^verbatim>\<open>src/policies/policies.go\<close>: a hash over the non-test Rego files of the
  embedded tree, in path order. SHA-256 with its hexadecimal rendering is a parameter. The lemmas show
  that the text given to the hash determines the files, by a reader that recovers them from it.
\<close>

subsection \<open>The text that is hashed\<close>

abbreviation newline :: char where "newline \<equiv> CHR 0x0A"

text \<open>The files the walk keeps; \<^verbatim>\<open>None\<close> when the walk itself fails.\<close>

fun revision_paths :: "walk_entry list \<Rightarrow> (string \<times> (kernel_error + string)) list option" where
  "revision_paths [] = Some []"
| "revision_paths (WalkFailure e # es) = None"
| "revision_paths (WalkDirectory p # es) = revision_paths es"
| "revision_paths (WalkFile p c # es) =
     (if \<not> has_suffix p ''.rego'' \<or> has_suffix p ''_test.rego'' then revision_paths es
      else map_option (\<lambda>ps. (p, c) # ps) (revision_paths es))"

definition hash_file :: "string \<times> string \<Rightarrow> string" where
  "hash_file f =
     show_nat (length (fst f)) @ '':'' @ fst f @ [newline] @
     show_nat (length (snd f)) @ '':'' @ [newline] @ snd f"

definition hash_input :: "(string \<times> string) list \<Rightarrow> string" where
  "hash_input fs = concat (map hash_file fs)"

fun read_contents :: "(string \<times> (kernel_error + string)) list \<Rightarrow> (string \<times> string) list option" where
  "read_contents [] = Some []"
| "read_contents ((p, Inl e) # ps) = None"
| "read_contents ((p, Inr c) # ps) = map_option (\<lambda>fs. (p, c) # fs) (read_contents ps)"

definition revision :: "(string \<Rightarrow> string) \<Rightarrow> walk_entry list \<Rightarrow> string" where
  "revision sha256_hex es =
     (case revision_paths es of
        None \<Rightarrow> ''sha256:unavailable''
      | Some ps \<Rightarrow>
          (case read_contents (sort_key fst ps) of
             None \<Rightarrow> ''sha256:unavailable''
           | Some fs \<Rightarrow> ''sha256:'' @ sha256_hex (hash_input fs)))"

subsection \<open>Reading it back\<close>

definition is_digit :: "char \<Rightarrow> bool" where
  "is_digit c \<longleftrightarrow> 48 \<le> byte c \<and> byte c \<le> 57"

definition nat_of_digits :: "string \<Rightarrow> nat" where
  "nat_of_digits = foldl (\<lambda>n c. 10 * n + (byte c - 48)) 0"

definition read_length :: "string \<Rightarrow> (nat \<times> string) option" where
  "read_length s =
     (case dropWhile is_digit s of
        c # r \<Rightarrow> if c = CHR '':'' then Some (nat_of_digits (takeWhile is_digit s), r) else None
      | [] \<Rightarrow> None)"

definition read_file :: "string \<Rightarrow> ((string \<times> string) \<times> string) option" where
  "read_file s =
     (case read_length s of
        None \<Rightarrow> None
      | Some (n, r) \<Rightarrow>
          (case read_length (drop (Suc n) r) of
             None \<Rightarrow> None
           | Some (m, q) \<Rightarrow> Some ((take n r, take m (drop 1 q)), drop (Suc m) q)))"

lemma read_length_shorter: "read_length s = Some (n, r) \<Longrightarrow> length r < length s"
  using length_dropWhile_le [of is_digit s]
  by (auto simp: read_length_def split: list.splits if_splits)

lemma read_file_shorter: "read_file s = Some (f, r) \<Longrightarrow> length r < length s"
  by (fastforce simp: read_file_def split: option.splits dest!: read_length_shorter)

function read_files :: "string \<Rightarrow> (string \<times> string) list option" where
  "read_files s =
     (if s = [] then Some []
      else case read_file s of
             None \<Rightarrow> None
           | Some (f, r) \<Rightarrow> map_option (\<lambda>fs. f # fs) (read_files r))"
  by pat_completeness auto

termination
  by (relation "measure length") (auto dest: read_file_shorter)

declare read_files.simps [simp del]

lemma digit_is_digit [simp]: "n < 10 \<Longrightarrow> is_digit (digit n)"
  by (simp add: is_digit_def digit_def)

lemma show_nat_digits: "\<forall>c \<in> set (show_nat n). is_digit c"
proof (induction n rule: show_nat.induct)
  case (1 n)
  then show ?case by (subst show_nat.simps) auto
qed

lemma nat_of_digits_snoc: "nat_of_digits (s @ [c]) = 10 * nat_of_digits s + (byte c - 48)"
  by (simp add: nat_of_digits_def)

lemma nat_of_digits_show_nat [simp]: "nat_of_digits (show_nat n) = n"
proof (induction n rule: show_nat.induct)
  case (1 n)
  have d: "byte (digit k) - 48 = k" if "k < 10" for k using that by (simp add: digit_def)
  show ?case
  proof (cases "n < 10")
    case True
    then show ?thesis by (subst show_nat.simps) (simp add: nat_of_digits_def d)
  next
    case False
    then have "nat_of_digits (show_nat (n div 10)) = n div 10" using 1 by simp
    with False show ?thesis by (subst show_nat.simps) (simp add: nat_of_digits_snoc d)
  qed
qed

lemma read_length_show [simp]: "read_length (show_nat n @ CHR '':'' # r) = Some (n, r)"
proof -
  have "\<not> is_digit CHR '':''" by code_simp
  then show ?thesis
    using show_nat_digits [of n] by (simp add: read_length_def takeWhile_append2 dropWhile_append2)
qed

lemma read_file_hash [simp]: "read_file (hash_file f @ r) = Some (f, r)"
  by (simp add: read_file_def hash_file_def)

lemma read_files_hash: "read_files (hash_input fs) = Some fs"
proof (induction fs)
  case (Cons f fs)
  have "hash_input (f # fs) = hash_file f @ hash_input fs" by (simp add: hash_input_def)
  moreover have "hash_file f @ hash_input fs \<noteq> []" by (simp add: hash_file_def)
  ultimately show ?case using Cons by (subst read_files.simps) simp
qed (simp add: hash_input_def read_files.simps)

subsection \<open>What a revision identifies\<close>

text \<open>Walks that meet the same files in another order, and test files, make no difference.\<close>

definition policy_sources :: "walk_entry list \<Rightarrow> (string \<times> string) list option" where
  "policy_sources es = Option.bind (revision_paths es) (\<lambda>ps. read_contents (sort_key fst ps))"

lemma revision_policy_sources:
  "revision h es = ''sha256:'' @ (case policy_sources es of None \<Rightarrow> ''unavailable'' | Some fs \<Rightarrow> h (hash_input fs))"
  by (simp add: revision_def policy_sources_def split: option.split)

text \<open>
  C15 (roundtrip): the text that is hashed can be read back. Because every path and every content is
  preceded by its length, the reader \<open>read_files\<close> recovers exactly the sorted list of files from it,
  so no two policy trees run together into the same text. With a hash that does not collide on two
  readable trees, equal revisions mean that the same rules were in force.
\<close>

theorem revision_identifies_policy:
  assumes "policy_sources es = Some fs" and "policy_sources es' = Some gs"
    and "h (hash_input fs) = h (hash_input gs) \<longrightarrow> hash_input fs = hash_input gs"
  shows "read_files (hash_input fs) = Some fs \<and> (revision h es = revision h es' \<longleftrightarrow> fs = gs)"
proof -
  have "hash_input fs = hash_input gs \<longleftrightarrow> fs = gs"
    by (metis option.inject read_files_hash)
  then show ?thesis
    using assms by (auto simp: revision_policy_sources read_files_hash)
qed

theorem revision_identifies_policy_witness:
  "revision (\<lambda>t. t) [WalkDirectory ''rego'', WalkFile ''rego/a.rego'' (Inr ''x'')] \<noteq>
   revision (\<lambda>t. t) [WalkFile ''rego/a.rego'' (Inr ''y''), WalkFile ''rego/a_test.rego'' (Inr ''x'')]"
proof -
  have "policy_sources [WalkDirectory ''rego'', WalkFile ''rego/a.rego'' (Inr ''x'')] = Some [(''rego/a.rego'', ''x'')]"
    and "policy_sources [WalkFile ''rego/a.rego'' (Inr ''y''), WalkFile ''rego/a_test.rego'' (Inr ''x'')]
      = Some [(''rego/a.rego'', ''y'')]"
    by (simp_all add: policy_sources_def has_suffix_def)
  from revision_identifies_policy [OF this, of "\<lambda>t. t"] show ?thesis by simp
qed

end
