(* ===== verification/Service.thy ===== *)
theory Service
  imports Revision
begin

text \<open>
  The service layer of \<^verbatim>\<open>src/internal/api/service.go\<close>: ingestion of one event and evaluation of one
  proposed response action. The store, the correlator, the Policy Kernel and the event bus are
  interfaces of the code, and fields of a record here; the locales \<open>correlator\<close> and
  \<open>platform_store\<close> state what the service relies on, and both are interpreted on the engine and on
  the memory store. The clock stands still within one operation. Logging is left out; what is counted is in \<open>Metrics\<close>.
\<close>

subsection \<open>What the service is wired from\<close>

text \<open>The operations of \<^verbatim>\<open>storage.Store\<close>, which includes the sink of the audit trail.\<close>

record ('s, 'e) store_ops =
  so_append :: "'s \<Rightarrow> audit_entry \<Rightarrow> 'e + 's"
  so_list_audit :: "'s \<Rightarrow> int \<Rightarrow> int \<Rightarrow> 'e + audit_entry list \<times> int"
  so_save_event :: "'s \<Rightarrow> security_event \<Rightarrow> 'e + 's"
  so_list_events :: "'s \<Rightarrow> int \<Rightarrow> int \<Rightarrow> 'e + security_event list \<times> int"
  so_count_events :: "'s \<Rightarrow> 'e + int"
  so_get_incident :: "'s \<Rightarrow> string \<Rightarrow> 'e + incident"
  so_list_incidents :: "'s \<Rightarrow> incident_filter \<Rightarrow> 'e + incident list \<times> int"
  so_get_action :: "'s \<Rightarrow> string \<Rightarrow> 'e + response_action"
  so_list_actions :: "'s \<Rightarrow> string \<Rightarrow> int \<Rightarrow> int \<Rightarrow> 'e + response_action list \<times> int"
  so_save_action_with_audit :: "'s \<Rightarrow> response_action option \<Rightarrow> audit_entry list \<Rightarrow> 'e + 's"
  so_ping :: "'s \<Rightarrow> 'e option"
  so_kind :: string
  so_is_not_found :: "'e \<Rightarrow> bool"

text \<open>What a call of the correlator ends in; a panic is one of the ways.\<close>

datatype correlation_outcome =
    CorrelationPanic | CorrelationError | CorrelationDone "incident option"

record ('s, 'c) service_state =
  sv_graph :: sgraph
  sv_correlator :: 'c
  sv_ids :: nat
  sv_store :: 's

text \<open>
  Publishing is whether it reports an error. The code does not recover a panic of the publisher, and
  none is expressed here: the two publishers of the program, in the theory \<open>Bus\<close>, return errors.
\<close>

record ('raw, 's, 'e, 'c) service =
  sd_schema :: "'raw \<Rightarrow> schema_outcome"
  sd_unmarshal :: "'raw \<Rightarrow> security_event option"
  sd_store :: "('s, 'e) store_ops"
  sd_process :: "(time \<Rightarrow> sgraph \<Rightarrow> security_event \<Rightarrow> 'c \<times> nat \<times> 's \<Rightarrow> correlation_outcome \<times> 'c \<times> nat \<times> 's) option"
  sd_evaluate :: "time \<Rightarrow> policy_input \<Rightarrow> policy_decision \<times> kernel_error option"
  sd_publish_fails :: "security_event \<Rightarrow> bool"
  sd_uuid :: "nat \<Rightarrow> string"
  sd_revision :: string
  sd_max_batch_events :: int
  sd_kernel_name :: string
  sd_kernel_healthy :: "time \<Rightarrow> bool"
  sd_bus_kind :: string
  sd_bus_healthy :: bool
  sd_rule_count :: int

definition default_max_batch :: int where "default_max_batch = 500"

text \<open>\<^verbatim>\<open>NewService\<close>, where the only option that is not just stored is the batch limit.\<close>

definition new_service :: "('raw, 's, 'e, 'c) service \<Rightarrow> ('raw, 's, 'e, 'c) service" where
  "new_service opts =
     opts\<lparr>sd_max_batch_events :=
       (if sd_max_batch_events opts \<le> 0 then default_max_batch else sd_max_batch_events opts)\<rparr>"

subsection \<open>The operator\<close>

text \<open>The asserted operator of \<^verbatim>\<open>httpx/principal.go\<close>, as the request context carries it.\<close>

record principal =
  pr_subject :: string
  pr_role :: string

definition zero_principal :: principal where
  "zero_principal = \<lparr> pr_subject = [], pr_role = [] \<rparr>"

definition principal_zero :: "principal \<Rightarrow> bool" where
  "principal_zero p \<longleftrightarrow> pr_subject p = []"

record request_context =
  rc_request_id :: string
  rc_principal :: principal

subsection \<open>Ingestion\<close>

record ingest_result =
  ir_event_id :: string
  ir_incident_id :: string
  ir_risk_score :: int
  ir_quarantined :: "string list"
  ir_degraded :: "string list"

datatype 'e ingest_error =
    IngestInvalid validation_error
  | IngestTimestamp timestamp_error
  | IngestPersist 'e

definition record_audit ::
  "('raw, 's, 'e, 'c) service \<Rightarrow> time \<Rightarrow> audit_entry \<Rightarrow> ('s, 'c) service_state \<Rightarrow> ('s, 'c) service_state" where
  "record_audit d now e st =
     (case record_entry (so_append (sd_store d)) (sd_uuid d) now e (sv_ids st, sv_store st) of
        (_, n, s) \<Rightarrow> st\<lparr>sv_ids := n, sv_store := s\<rparr>)"

definition rejected_entry :: "request_context \<Rightarrow> string \<Rightarrow> string \<Rightarrow> string \<Rightarrow> audit_entry" where
  "rejected_entry rc subject_id reason kind =
     zero_entry\<lparr>ae_action := ActionEventRejected, ae_subject_type := SubjectEvent, ae_subject_id := subject_id,
       ae_outcome := OutcomeDenied, ae_request_id := rc_request_id rc, ae_reason := reason,
       ae_details := [(''error_kind'', DString kind)]\<rparr>"

definition quarantined_entry :: "request_context \<Rightarrow> security_event \<Rightarrow> audit_entry" where
  "quarantined_entry rc ev =
     zero_entry\<lparr>ae_action := ActionEventQuarantined, ae_subject_type := SubjectEvent, ae_subject_id := ev_id ev,
       ae_outcome := OutcomeDenied, ae_request_id := rc_request_id rc,
       ae_reason := ''telemetry contained reserved control-plane label keys; they were stripped before processing'',
       ae_details := [(''quarantined_keys'', DStrings (ev_quarantined ev)), (''source_name'', DString (ev_source_name ev))]\<rparr>"

definition correlation_failed_entry :: "request_context \<Rightarrow> security_event \<Rightarrow> audit_entry" where
  "correlation_failed_entry rc ev =
     zero_entry\<lparr>ae_action := ActionCorrelationFailed, ae_subject_type := SubjectEvent, ae_subject_id := ev_id ev,
       ae_outcome := OutcomeFailure, ae_request_id := rc_request_id rc,
       ae_reason := ''correlation engine returned an error; the event is stored and can be reprocessed''\<rparr>"

definition incident_entry :: "request_context \<Rightarrow> security_event \<Rightarrow> incident \<Rightarrow> audit_entry" where
  "incident_entry rc ev i =
     zero_entry\<lparr>ae_action := ActionIncidentUpdated, ae_subject_type := SubjectIncident, ae_subject_id := inc_id i,
       ae_outcome := OutcomeSuccess, ae_request_id := rc_request_id rc,
       ae_reason := ''incident updated from event '' @ ev_id ev @ ''; risk score '' @ show_int (inc_risk_score i),
       ae_details :=
         [(''event_id'', DString (ev_id ev)), (''risk_score'', DInt (inc_risk_score i)),
          (''severity'', DString (inc_severity i)), (''finding_count'', DInt (int (length (inc_findings i)))),
          (''evidence_types'', DStrings (evidence_categories i)),
          (''blast_radius'', DInt (br_score (inc_blast_radius i))),
          (''critical_assets'', DInt (br_critical_assets (inc_blast_radius i)))]\<rparr>"

definition ingested_entry :: "request_context \<Rightarrow> security_event \<Rightarrow> string list \<Rightarrow> audit_entry" where
  "ingested_entry rc ev degraded =
     zero_entry\<lparr>ae_action := ActionEventIngested, ae_subject_type := SubjectEvent, ae_subject_id := ev_id ev,
       ae_outcome := OutcomeSuccess, ae_request_id := rc_request_id rc,
       ae_reason := ''event accepted from '' @ ev_source_type ev @ ''/'' @ ev_source_name ev,
       ae_details := [(''category'', DString (ev_category ev)), (''severity'', DString (ev_severity ev)),
         (''event_type'', DString (ev_event_type ev)), (''degraded'', DStrings degraded)]\<rparr>"

text \<open>\<^verbatim>\<open>correlate\<close>: a panic of the correlator comes back as an error, with the state it left.\<close>

definition correlate ::
  "(time \<Rightarrow> sgraph \<Rightarrow> security_event \<Rightarrow> 'c \<times> nat \<times> 's \<Rightarrow> correlation_outcome \<times> 'c \<times> nat \<times> 's) \<Rightarrow> time \<Rightarrow>
     security_event \<Rightarrow> ('s, 'c) service_state \<Rightarrow> incident option option \<times> ('s, 'c) service_state" where
  "correlate run now ev st =
     (case run now (sv_graph st) ev (sv_correlator st, sv_ids st, sv_store st) of
        (outcome, c, n, s) \<Rightarrow>
          ((case outcome of CorrelationDone i \<Rightarrow> Some i | CorrelationError \<Rightarrow> None | CorrelationPanic \<Rightarrow> None),
           st\<lparr>sv_correlator := c, sv_ids := n, sv_store := s\<rparr>))"

text \<open>The analysis of a stored event: correlation if there is a correlator, with its audit entry.\<close>

definition analyse ::
  "('raw, 's, 'e, 'c) service \<Rightarrow> time \<Rightarrow> request_context \<Rightarrow> security_event \<Rightarrow>
     ingest_result \<times> ('s, 'c) service_state \<Rightarrow> ingest_result \<times> ('s, 'c) service_state" where
  "analyse d now rc ev rs =
     (let (r, st) = rs in
      case sd_process d of
        None \<Rightarrow> (r\<lparr>ir_degraded := ir_degraded r @ [''correlation'']\<rparr>, st)
      | Some run \<Rightarrow>
          (case correlate run now ev st of
             (None, st') \<Rightarrow>
               (r\<lparr>ir_degraded := ir_degraded r @ [''correlation'']\<rparr>,
                record_audit d now (correlation_failed_entry rc ev) st')
           | (Some None, st') \<Rightarrow> (r, st')
           | (Some (Some i), st') \<Rightarrow>
               (r\<lparr>ir_incident_id := inc_id i, ir_risk_score := inc_risk_score i\<rparr>,
                record_audit d now (incident_entry rc ev i) st')))"

text \<open>The result before analysis, and the state once a stored event has been noted and projected.\<close>

definition start_result :: "('raw, 's, 'e, 'c) service \<Rightarrow> security_event \<Rightarrow> ingest_result" where
  "start_result d ev =
     \<lparr> ir_event_id = ev_id ev, ir_incident_id = [], ir_risk_score = 0, ir_quarantined = ev_quarantined ev,
       ir_degraded = (if sd_publish_fails d ev then [''event_bus''] else []) \<rparr>"

definition after_store ::
  "('raw, 's, 'e, 'c) service \<Rightarrow> time \<Rightarrow> request_context \<Rightarrow> security_event \<Rightarrow>
     ('s, 'c) service_state \<Rightarrow> ('s, 'c) service_state" where
  "after_store d now rc ev st1 =
     (let st2 = (if ev_quarantined ev \<noteq> [] then record_audit d now (quarantined_entry rc ev) st1 else st1)
      in st2\<lparr>sv_graph := project ev (sv_graph st2)\<rparr>)"

definition ingest ::
  "('raw, 's, 'e, 'c) service \<Rightarrow> time \<Rightarrow> request_context \<Rightarrow> 'raw \<Rightarrow> ('s, 'c) service_state \<Rightarrow>
     ('e ingest_error + ingest_result) \<times> ('s, 'c) service_state" where
  "ingest d now rc raw st =
     (case decode_event (sd_schema d) (sd_unmarshal d) raw of
        Inl verr \<Rightarrow>
          (Inl (IngestInvalid verr), record_audit d now
             (rejected_entry rc [] ''event failed schema validation at the ingest trust boundary'' ''schema_validation'') st)
      | Inr ev0 \<Rightarrow>
          (case normalize (sd_uuid d) now (sv_ids st) ev0 of
             Inl terr \<Rightarrow>
               (Inl (IngestTimestamp terr), record_audit d now
                  (rejected_entry rc (ev_id ev0) (timestamp_error_text terr) ''normalization'') st)
           | Inr (ev, n1) \<Rightarrow>
               (case so_save_event (sd_store d) (sv_store st) ev of
                  Inl err \<Rightarrow> (Inl (IngestPersist err), st\<lparr>sv_ids := n1\<rparr>)
                | Inr s1 \<Rightarrow>
                    let (r, st4) = analyse d now rc ev (start_result d ev, after_store d now rc ev (st\<lparr>sv_ids := n1, sv_store := s1\<rparr>))
                    in (Inr r, record_audit d now (ingested_entry rc ev (ir_degraded r)) st4))))"

subsection \<open>The contract of the store\<close>

text \<open>
  An audit entry without the sequence number that the sink gives it. The laws speak of the trail, of
  the recorded events, of the actions on file and of the incidents; a store that
  is \<open>sound\<close> takes every complete request.
\<close>

definition clear_sequence :: "audit_entry \<Rightarrow> audit_entry" where
  "clear_sequence e = e\<lparr>ae_sequence := 0\<rparr>"

lemma clear_sequence_set [simp]: "clear_sequence (e\<lparr>ae_sequence := k\<rparr>) = clear_sequence e"
  by (simp add: clear_sequence_def)

definition extends_trail :: "audit_entry list \<Rightarrow> audit_entry list \<Rightarrow> audit_entry list \<Rightarrow> bool" where
  "extends_trail old new es \<longleftrightarrow> (\<exists>xs. new = old @ xs \<and> map clear_sequence xs = map clear_sequence es)"

lemma extends_trail_refl [simp]: "extends_trail t t []"
  by (simp add: extends_trail_def)

lemma extends_trail_trans:
  "extends_trail a b es \<Longrightarrow> extends_trail b c fs \<Longrightarrow> extends_trail a c (es @ fs)"
  unfolding extends_trail_def by (metis append.assoc map_append)

lemma extends_trail_last:
  assumes "extends_trail old new (es @ [e])"
  shows "\<exists>xs x. new = old @ xs @ [x] \<and> clear_sequence x = clear_sequence e"
proof -
  obtain ys where new: "new = old @ ys" and ys: "map clear_sequence ys = map clear_sequence es @ [clear_sequence e]"
    using assms by (auto simp: extends_trail_def)
  then obtain xs x where "ys = xs @ [x]" by (cases ys rule: rev_cases) auto
  with new ys show ?thesis by auto
qed

lemma clear_sequence_fields:
  assumes "clear_sequence x = clear_sequence y"
  shows "ae_action x = ae_action y" "ae_subject_id x = ae_subject_id y" "ae_actor x = ae_actor y"
    "ae_request_id x = ae_request_id y" "ae_outcome x = ae_outcome y" "ae_details x = ae_details y"
    "ae_subject_type x = ae_subject_type y" "ae_reason x = ae_reason y" "ae_actor_role x = ae_actor_role y"
  using arg_cong [OF assms, of ae_action] arg_cong [OF assms, of ae_subject_id] arg_cong [OF assms, of ae_actor]
    arg_cong [OF assms, of ae_request_id] arg_cong [OF assms, of ae_outcome] arg_cong [OF assms, of ae_details]
    arg_cong [OF assms, of ae_subject_type] arg_cong [OF assms, of ae_reason] arg_cong [OF assms, of ae_actor_role]
  by (simp_all add: clear_sequence_def)

text \<open>
  What recording an event does to the recorded events: some event has its identifier afterwards, and
  it is this event unless the identifier was on record.
\<close>

definition event_recorded :: "security_event \<Rightarrow> security_event list \<Rightarrow> security_event list \<Rightarrow> bool" where
  "event_recorded ev old new \<longleftrightarrow>
     ev_id ev \<in> ev_id ` set new \<and> (ev_id ev \<in> ev_id ` set old \<or> ev \<in> set new)"

locale platform_store = audit_sink "so_append ops" trail sound
  for ops :: "('s, 'e) store_ops" and trail :: "'s \<Rightarrow> audit_entry list" and sound :: "'s \<Rightarrow> bool" +
  fixes on_record :: "'s \<Rightarrow> security_event list" and filed :: "'s \<Rightarrow> string \<Rightarrow> response_action option"
  assumes append_frame: "sound s \<Longrightarrow> so_append ops s e = Inr s' \<Longrightarrow>
      on_record s' = on_record s \<and> filed s' = filed s \<and> so_get_incident ops s' = so_get_incident ops s"
    and save_event_law: "sound s \<Longrightarrow> so_save_event ops s ev = Inr s' \<Longrightarrow>
      sound s' \<and> event_recorded ev (on_record s) (on_record s') \<and> trail s' = trail s \<and> filed s' = filed s \<and>
      so_get_incident ops s' = so_get_incident ops s"
    and save_action_law: "sound s \<Longrightarrow> (\<And>a. act = Some a \<Longrightarrow> act_id a \<noteq> []) \<Longrightarrow> \<forall>e \<in> set es. ae_id e \<noteq> [] \<Longrightarrow>
      \<exists>s'. so_save_action_with_audit ops s act es = Inr s' \<and> sound s' \<and> extends_trail (trail s) (trail s') es \<and>
        filed s' = (case act of None \<Rightarrow> filed s | Some a \<Rightarrow> (filed s)(act_id a \<mapsto> a)) \<and>
        on_record s' = on_record s \<and> so_get_incident ops s' = so_get_incident ops s"
begin

text \<open>Recording a complete entry adds exactly that entry, stamped.\<close>

lemma record_audit_law:
  fixes now :: time
  assumes "sd_store d = ops" and "sound (sv_store st)" and "entry_complete e"
  defines "st' \<equiv> record_audit d now e st"
  shows "sound (sv_store st')"
    and "extends_trail (trail (sv_store st)) (trail (sv_store st')) [stamped (sd_uuid d) now (sv_ids st) e]"
    and "on_record (sv_store st') = on_record (sv_store st)" and "filed (sv_store st') = filed (sv_store st)"
    and "so_get_incident ops (sv_store st') = so_get_incident ops (sv_store st)"
    and "sv_graph st' = sv_graph st" and "sv_correlator st' = sv_correlator st"
proof -
  let ?p = "stamped (sd_uuid d) now (sv_ids st) e"
  obtain s' where s': "so_append ops (sv_store st) ?p = Inr s'" using append_accepts stamped_id by blast
  have st': "st' = st\<lparr>sv_ids := Suc (sv_ids st), sv_store := s'\<rparr>"
    unfolding st'_def record_audit_def record_entry_def
    using s' by (simp add: assms(1) prepare_complete [OF assms(3)])
  show "sound (sv_store st')" using append_ok [OF assms(2) s'] by (simp add: st')
  show "extends_trail (trail (sv_store st)) (trail (sv_store st')) [?p]"
    using append_trail [OF assms(2) s'] unfolding extends_trail_def by (auto simp: st')
  show "on_record (sv_store st') = on_record (sv_store st)" and "filed (sv_store st') = filed (sv_store st)"
    and "so_get_incident ops (sv_store st') = so_get_incident ops (sv_store st)"
    using append_frame [OF assms(2) s'] by (simp_all add: st')
  show "sv_graph st' = sv_graph st" and "sv_correlator st' = sv_correlator st" by (simp_all add: st')
qed

end

text \<open>What the service relies on of a correlator: it changes incidents and nothing else in the store.\<close>

locale correlator = platform_store ops trail sound on_record filed
  for ops :: "('s, 'e) store_ops" and trail :: "'s \<Rightarrow> audit_entry list" and sound :: "'s \<Rightarrow> bool"
    and on_record :: "'s \<Rightarrow> security_event list" and filed :: "'s \<Rightarrow> string \<Rightarrow> response_action option" +
  fixes run :: "time \<Rightarrow> sgraph \<Rightarrow> security_event \<Rightarrow> 'c \<times> nat \<times> 's \<Rightarrow> correlation_outcome \<times> 'c \<times> nat \<times> 's"
  assumes run_keeps: "sound s \<Longrightarrow> run now g ev (c, n, s) = (out, c', n', s') \<Longrightarrow>
      sound s' \<and> on_record s' = on_record s \<and> trail s' = trail s \<and> filed s' = filed s"

subsection \<open>Admission\<close>

text \<open>The part of ingestion that decides whether an event is accepted.\<close>

definition admitted ::
  "('raw, 's, 'e, 'c) service \<Rightarrow> time \<Rightarrow> 'raw \<Rightarrow> ('s, 'c) service_state \<Rightarrow> 'e ingest_error + security_event \<times> 's" where
  "admitted d now raw st =
     (case decode_event (sd_schema d) (sd_unmarshal d) raw of
        Inl verr \<Rightarrow> Inl (IngestInvalid verr)
      | Inr ev0 \<Rightarrow>
          (case normalize (sd_uuid d) now (sv_ids st) ev0 of
             Inl terr \<Rightarrow> Inl (IngestTimestamp terr)
           | Inr (ev, n1) \<Rightarrow>
               (case so_save_event (sd_store d) (sv_store st) ev of
                  Inl err \<Rightarrow> Inl (IngestPersist err)
                | Inr s1 \<Rightarrow> Inr (ev, s1))))"

lemma admitted_analysis [simp]:
  "admitted (d\<lparr>sd_process := p, sd_publish_fails := f\<rparr>) now raw st = admitted d now raw st"
  by (auto simp: admitted_def split: sum.splits)

lemma record_audit_frame [simp]:
  "sv_graph (record_audit d now e st) = sv_graph st" "sv_correlator (record_audit d now e st) = sv_correlator st"
  by (simp_all add: record_audit_def split: prod.split)

lemma analyse_result:
  assumes "analyse d now rc ev (r, st) = (r', st')"
  shows "ir_event_id r' = ir_event_id r" "ir_quarantined r' = ir_quarantined r" "sv_graph st' = sv_graph st"
  using assms by (auto simp: analyse_def correlate_def Let_def split: option.splits prod.splits correlation_outcome.splits)

text \<open>An error is decided before the analysis; an accepted event is projected into the graph.\<close>

lemma ingest_refused:
  "admitted d now raw st = Inl e \<Longrightarrow>
     fst (ingest d now rc raw st) = Inl e \<and> sv_graph (snd (ingest d now rc raw st)) = sv_graph st"
  by (auto simp: admitted_def ingest_def split: sum.splits prod.splits)

text \<open>A refusal does not even depend on the correlator and the bus.\<close>

lemma ingest_refused_same:
  assumes "admitted d now raw st = Inl e"
  shows "ingest (d\<lparr>sd_process := p, sd_publish_fails := f\<rparr>) now rc raw st = ingest d now rc raw st"
  using assms by (auto simp: admitted_def ingest_def record_audit_def split: sum.splits prod.splits)

lemma start_result_fields [simp]:
  "ir_event_id (start_result d ev) = ev_id ev" "ir_quarantined (start_result d ev) = ev_quarantined ev"
  by (simp_all add: start_result_def)

lemma after_store_graph [simp]: "sv_graph (after_store d now rc ev st) = project ev (sv_graph st)"
  by (simp add: after_store_def Let_def)

lemma ingest_accepted:
  assumes "admitted d now raw st = Inr (ev, s1)"
  obtains n1 r st4 where
    "analyse d now rc ev (start_result d ev, after_store d now rc ev (st\<lparr>sv_ids := n1, sv_store := s1\<rparr>)) = (r, st4)"
    "ingest d now rc raw st = (Inr r, record_audit d now (ingested_entry rc ev (ir_degraded r)) st4)"
    "so_save_event (sd_store d) (sv_store st) ev = Inr s1"
proof -
  obtain ev0 n1 where "decode_event (sd_schema d) (sd_unmarshal d) raw = Inr ev0"
    "normalize (sd_uuid d) now (sv_ids st) ev0 = Inr (ev, n1)" "so_save_event (sd_store d) (sv_store st) ev = Inr s1"
    using assms by (auto simp: admitted_def split: sum.splits)
  moreover obtain r st4 where
    "analyse d now rc ev (start_result d ev, after_store d now rc ev (st\<lparr>sv_ids := n1, sv_store := s1\<rparr>)) = (r, st4)"
    by (metis surj_pair)
  ultimately show ?thesis using that by (simp add: ingest_def)
qed

lemma entries_complete [simp]:
  "entry_complete (rejected_entry rc i reason kind)" "entry_complete (quarantined_entry rc ev)"
  "entry_complete (correlation_failed_entry rc ev)" "entry_complete (incident_entry rc ev inc)"
  "entry_complete (ingested_entry rc ev deg)"
  by (simp_all add: entry_complete_def rejected_entry_def quarantined_entry_def correlation_failed_entry_def
      incident_entry_def ingested_entry_def)

lemma ingested_entry_fields:
  "ae_action (ingested_entry rc ev deg) = ActionEventIngested" "ae_subject_id (ingested_entry rc ev deg) = ev_id ev"
  by (simp_all add: ingested_entry_def)

text \<open>What a step of ingestion keeps: the trail grows, the events and actions on record stay.\<close>

definition trail_grows ::
  "('s \<Rightarrow> audit_entry list) \<Rightarrow> ('s \<Rightarrow> security_event list) \<Rightarrow> ('s \<Rightarrow> string \<Rightarrow> response_action option) \<Rightarrow> 's \<Rightarrow> 's \<Rightarrow> bool" where
  "trail_grows trail on_record filed s s' \<longleftrightarrow>
     (\<exists>es. extends_trail (trail s) (trail s') es) \<and> on_record s' = on_record s \<and> filed s' = filed s"

lemma trail_grows_refl [simp]: "trail_grows trail on_record filed s s"
  unfolding trail_grows_def using extends_trail_refl by blast

lemma trail_grows_trans:
  "trail_grows trail on_record filed a b \<Longrightarrow> trail_grows trail on_record filed b c \<Longrightarrow> trail_grows trail on_record filed a c"
  unfolding trail_grows_def using extends_trail_trans by metis

context correlator begin

lemma record_audit_grows:
  assumes "sd_store d = ops" and "sound (sv_store st)" and "entry_complete e"
  shows "sound (sv_store (record_audit d now e st)) \<and>
    trail_grows trail on_record filed (sv_store st) (sv_store (record_audit d now e st))"
  using record_audit_law [OF assms, of now] unfolding trail_grows_def by blast

lemma correlate_grows:
  assumes "sound (sv_store st)" and "correlate run now ev st = (out, st')"
  shows "sound (sv_store st') \<and> trail_grows trail on_record filed (sv_store st) (sv_store st')"
proof -
  obtain res c n s where run: "run now (sv_graph st) ev (sv_correlator st, sv_ids st, sv_store st) = (res, c, n, s)"
    by (metis prod_cases4)
  have "trail_grows trail on_record filed (sv_store st) s"
    using run_keeps [OF assms(1) run] unfolding trail_grows_def extends_trail_def by auto
  then show ?thesis using run_keeps [OF assms(1) run] assms(2) run by (auto simp: correlate_def)
qed

lemma analyse_grows:
  assumes "sd_store d = ops" and "sd_process d = None \<or> sd_process d = Some run" and "sound (sv_store st)"
    and "analyse d now rc ev (r, st) = (r', st')"
  shows "sound (sv_store st') \<and> trail_grows trail on_record filed (sv_store st) (sv_store st')"
proof (cases "sd_process d")
  case None
  then show ?thesis using assms(3,4) by (simp add: analyse_def)
next
  case (Some p)
  then have p: "p = run" using assms(2) by simp
  obtain out st1 where c: "correlate run now ev st = (out, st1)" by (metis surj_pair)
  have s1: "sound (sv_store st1)" "trail_grows trail on_record filed (sv_store st) (sv_store st1)"
    using correlate_grows [OF assms(3) c] by auto
  have an: "analyse d now rc ev (r, st) = (case (out, st1) of
      (None, st') \<Rightarrow> (r\<lparr>ir_degraded := ir_degraded r @ [''correlation'']\<rparr>,
         record_audit d now (correlation_failed_entry rc ev) st')
    | (Some None, st') \<Rightarrow> (r, st')
    | (Some (Some i), st') \<Rightarrow> (r\<lparr>ir_incident_id := inc_id i, ir_risk_score := inc_risk_score i\<rparr>,
         record_audit d now (incident_entry rc ev i) st'))"
    by (simp add: analyse_def Some p c)
  have "st' = st1 \<or> st' = record_audit d now (correlation_failed_entry rc ev) st1 \<or>
      (\<exists>i. st' = record_audit d now (incident_entry rc ev i) st1)"
    using assms(4) an by (auto split: option.splits)
  then show ?thesis
    using s1 record_audit_grows [OF assms(1) s1(1) entries_complete(3)]
      record_audit_grows [OF assms(1) s1(1) entries_complete(4)] trail_grows_trans by metis
qed

text \<open>An accepted event is on record, and its ingestion is the last entry of the trail.\<close>

lemma ingest_law:
  assumes d: "sd_store d = ops" "sd_process d = None \<or> sd_process d = Some run" and st: "sound (sv_store st)"
    and adm: "admitted d now raw st = Inr (ev, s1)"
  obtains r st' es n where "ingest d now rc raw st = (Inr r, st')" "ir_event_id r = ev_id ev"
    "ir_quarantined r = ev_quarantined ev" "sv_graph st' = project ev (sv_graph st)" "sound (sv_store st')"
    "on_record (sv_store st') = on_record s1" "event_recorded ev (on_record (sv_store st)) (on_record (sv_store st'))"
    "filed (sv_store st') = filed (sv_store st)"
    "extends_trail (trail (sv_store st)) (trail (sv_store st'))
       (es @ [stamped (sd_uuid d) now n (ingested_entry rc ev (ir_degraded r))])"
proof -
  obtain n1 r st4 where
    an: "analyse d now rc ev (start_result d ev, after_store d now rc ev (st\<lparr>sv_ids := n1, sv_store := s1\<rparr>)) = (r, st4)"
    and ing: "ingest d now rc raw st = (Inr r, record_audit d now (ingested_entry rc ev (ir_degraded r)) st4)"
    and save: "so_save_event (sd_store d) (sv_store st) ev = Inr s1"
    using ingest_accepted [OF adm] by metis
  let ?st1 = "st\<lparr>sv_ids := n1, sv_store := s1\<rparr>" and ?st3 = "after_store d now rc ev (st\<lparr>sv_ids := n1, sv_store := s1\<rparr>)"
  have s1: "sound s1" "event_recorded ev (on_record (sv_store st)) (on_record s1)" "trail s1 = trail (sv_store st)" "filed s1 = filed (sv_store st)"
    using save_event_law [OF st save [unfolded d(1)]] by auto
  have st3: "sound (sv_store ?st3) \<and> trail_grows trail on_record filed s1 (sv_store ?st3)"
    using record_audit_grows [OF d(1), of ?st1] s1(1) by (simp add: after_store_def Let_def)
  have st4: "sound (sv_store st4)" "trail_grows trail on_record filed s1 (sv_store st4)"
    using analyse_grows [OF d conjunct1 [OF st3] an] conjunct2 [OF st3] trail_grows_trans by metis+
  obtain es where es: "extends_trail (trail (sv_store st)) (trail (sv_store st4)) es"
    using st4(2) s1(3) unfolding trail_grows_def by auto
  let ?st' = "record_audit d now (ingested_entry rc ev (ir_degraded r)) st4"
  have law: "sound (sv_store ?st')" "on_record (sv_store ?st') = on_record s1" "filed (sv_store ?st') = filed s1"
    "extends_trail (trail (sv_store st4)) (trail (sv_store ?st'))
      [stamped (sd_uuid d) now (sv_ids st4) (ingested_entry rc ev (ir_degraded r))]"
    using record_audit_law [OF d(1) st4(1), of "ingested_entry rc ev (ir_degraded r)" now] st4(2)
    by (auto simp: trail_grows_def)
  show ?thesis
    by (rule that [OF ing]) (use analyse_result [OF an] law s1 extends_trail_trans [OF es law(4)] in auto)
qed

end

subsection \<open>The memory store and the engine behind the interfaces\<close>

definition memory_ops :: "(memory_store, store_error) store_ops" where
  "memory_ops = \<lparr>
     so_append = append_audit, so_list_audit = (\<lambda>s l k. Inr (list_audit s l k)),
     so_save_event = save_event, so_list_events = (\<lambda>s l k. Inr (list_events s l k)),
     so_count_events = (\<lambda>s. Inr (count_events s)), so_get_incident = get_incident,
     so_list_incidents = (\<lambda>s f. Inr (list_incidents s f)), so_get_action = get_action,
     so_list_actions = (\<lambda>s i l k. Inr (list_actions s i l k)),
     so_save_action_with_audit = save_action_with_audit, so_ping = (\<lambda>s. None), so_kind = ''memory'',
     so_is_not_found = (\<lambda>e. e = NotFound) \<rparr>"

definition filed_action :: "memory_store \<Rightarrow> string \<Rightarrow> response_action option" where
  "filed_action s = map_of (ms_actions s)"

lemma memory_ops_simps [simp]:
  "so_append memory_ops = append_audit" "so_save_event memory_ops = save_event"
  "so_get_incident memory_ops = get_incident" "so_save_action_with_audit memory_ops = save_action_with_audit"
  "so_is_not_found memory_ops e \<longleftrightarrow> e = NotFound"
  by (simp_all add: memory_ops_def)

lemma save_event_records:
  assumes "events_wf s" and "save_event s ev = Inr s'"
  shows "event_recorded ev (ms_events s) (ms_events s')"
proof (cases "ev_id ev \<in> set (map ev_id (ms_events s))")
  case True
  then show ?thesis using assms save_event_known [OF assms(1) True] by (simp add: event_recorded_def)
next
  case False
  have "ev_id ev \<noteq> []" using assms(2) by (auto simp: save_event_def)
  moreover have "Suc (length (ms_events s)) - ms_max_events s \<le> length (ms_events s)"
    using assms(1) unfolding events_wf_def by linarith
  ultimately show ?thesis using assms save_event_new [OF assms(1) _ False] by (auto simp: event_recorded_def)
qed

lemma get_incident_cong: "ms_incidents s' = ms_incidents s \<Longrightarrow> get_incident s' = get_incident s"
  by (rule ext) (simp add: get_incident_def)

lemma map_clear_numbered: "map clear_sequence (numbered n es) = map clear_sequence es"
  by (induction es arbitrary: n) (simp_all add: numbered_Cons)

interpretation memory: platform_store memory_ops ms_audit_log store_wf ms_events filed_action
proof
  fix s s' and e :: audit_entry
  assume wf: "store_wf s" and app: "so_append memory_ops s e = Inr s'"
  then have "append_audit s e = Inr s'" and "audit_wf s" by (simp_all add: store_wf_def)
  then show "\<exists>k. ms_audit_log s' = ms_audit_log s @ [e\<lparr>ae_sequence := k\<rparr>] \<and> (\<forall>x \<in> set (ms_audit_log s). ae_sequence x < k)"
    using memory_sink.append_trail by blast
  show "store_wf s'" using wf app store_step_wf step_audit by simp blast
  show "ms_events s' = ms_events s \<and> filed_action s' = filed_action s \<and>
      so_get_incident memory_ops s' = so_get_incident memory_ops s"
    using app by (auto simp: append_audit_def filed_action_def split: if_splits intro!: get_incident_cong)
next
  fix s :: memory_store and e :: audit_entry
  assume "ae_id e \<noteq> []"
  then show "\<exists>s'. so_append memory_ops s e = Inr s'" by (simp add: append_audit_def)
next
  fix s s' ev
  assume wf: "store_wf s" and sv: "so_save_event memory_ops s ev = Inr s'"
  then have "save_event s ev = Inr s'" by simp
  from store_step_wf [OF step_event [OF this] wf] save_event_records [OF _ this] save_event_frame [OF this] wf
  show "store_wf s' \<and> event_recorded ev (ms_events s) (ms_events s') \<and> ms_audit_log s' = ms_audit_log s \<and>
      filed_action s' = filed_action s \<and> so_get_incident memory_ops s' = so_get_incident memory_ops s"
    by (auto simp: store_wf_def filed_action_def intro!: get_incident_cong)
next
  fix s and act :: "response_action option" and es :: "audit_entry list"
  assume wf: "store_wf s" and act: "\<And>a. act = Some a \<Longrightarrow> act_id a \<noteq> []" and es: "\<forall>e \<in> set es. ae_id e \<noteq> []"
  let ?s1 = "case act of None \<Rightarrow> s | Some a \<Rightarrow> save_action_locked a s"
  let ?s' = "fold append_audit_locked es ?s1"
  have sv: "save_action_with_audit s act es = Inr ?s'" using act es by (simp add: save_action_with_audit_eq)
  have "audit_wf ?s1" and log: "ms_audit_log ?s1 = ms_audit_log s"
    using wf wf_congs(4) [of ?s1 s] by (simp_all add: store_wf_def split: option.split)
  then have "ms_audit_log ?s' = ms_audit_log s @ numbered (length (ms_audit_log s)) es"
    using fold_append_audit [OF _ es, of ?s1] by simp
  then have "extends_trail (ms_audit_log s) (ms_audit_log ?s') es"
    by (auto simp: extends_trail_def map_clear_numbered)
  moreover have "filed_action ?s' = (case act of None \<Rightarrow> filed_action s | Some a \<Rightarrow> (filed_action s)(act_id a \<mapsto> a))"
    by (simp add: filed_action_def save_action_locked_def Let_def split: option.split)
  moreover have "ms_events ?s' = ms_events s" by (simp split: option.split)
  moreover have "get_incident ?s' = get_incident s" by (rule get_incident_cong) (simp split: option.split)
  ultimately show "\<exists>s'. so_save_action_with_audit memory_ops s act es = Inr s' \<and> store_wf s' \<and>
      extends_trail (ms_audit_log s) (ms_audit_log s') es \<and>
      filed_action s' = (case act of None \<Rightarrow> filed_action s | Some a \<Rightarrow> (filed_action s)(act_id a \<mapsto> a)) \<and>
      ms_events s' = ms_events s \<and> so_get_incident memory_ops s' = so_get_incident memory_ops s"
    using sv store_step_wf [OF step_evaluation [OF sv] wf] by simp
qed

text \<open>The correlation engine as the service's correlator.\<close>

definition engine_run ::
  "(nat \<Rightarrow> string) \<Rightarrow> time \<Rightarrow> sgraph \<Rightarrow> security_event \<Rightarrow> engine \<times> nat \<times> memory_store \<Rightarrow>
     correlation_outcome \<times> engine \<times> nat \<times> memory_store" where
  "engine_run uuid now g ev st =
     (case process get_incident save_incident uuid now g ev st of
        (Inl err, st') \<Rightarrow> (CorrelationError, st')
      | (Inr i, st') \<Rightarrow> (CorrelationDone i, st'))"

lemma process_store:
  assumes "process get save uuid now g ev (en, n, s) = (r, en', n', s')"
  shows "s' = s \<or> (\<exists>i. save s i = Inr s')"
proof -
  obtain fs hits n1 where ev: "evaluate_rules uuid ev (subject_key ev) (en_rules en) (en_threshold_hits en) n = (fs, hits, n1)"
    by (metis prod_cases3)
  let ?m = "merge_into_incident get save uuid now g ev (subject_key ev) fs (en\<lparr>en_threshold_hits := hits\<rparr>, n1, s)"
  have "snd (snd (snd ?m)) = s \<or> (\<exists>i. save s i = Inr (snd (snd (snd ?m))))"
    by (auto simp: merge_into_incident_def Let_def split: prod.split sum.split option.split)
  moreover have "s' = s \<or> s' = snd (snd (snd ?m))"
    using assms by (auto simp: process_def Let_def ev split: if_splits sum.splits prod.splits)
  ultimately show ?thesis by auto
qed

interpretation engine_correlator: correlator memory_ops ms_audit_log store_wf ms_events filed_action "engine_run uuid"
  for uuid
proof
  fix s now g ev c n out c' n' s'
  assume wf: "store_wf s" and run: "engine_run uuid now g ev (c, n, s) = (out, c', n', s')"
  then obtain r where "process get_incident save_incident uuid now g ev (c, n, s) = (r, c', n', s')"
    by (auto simp: engine_run_def split: prod.splits sum.splits)
  from process_store [OF this] consider "s' = s" | i where "save_incident s i = Inr s'" by blast
  then show "store_wf s' \<and> ms_events s' = ms_events s \<and> ms_audit_log s' = ms_audit_log s \<and>
      filed_action s' = filed_action s"
  proof cases
    case 2
    then show ?thesis
      using store_step_wf [OF step_incident [OF 2] wf] save_incident_frame [OF 2]
      by (simp add: filed_action_def)
  qed (use wf in simp)
qed

subsection \<open>Properties of ingestion\<close>

text \<open>
  C5 (safety): analysis cannot stop recording, on the memory store. Take any correlator that touches
  nothing but incidents in the store, whether it panics, fails or finds something, and any bus,
  whether it takes the event or reports an error. A submission is refused with the same error and the
  same state, or accepted, exactly as it would be with no correlator and a working bus. An accepted
  event has the same identifier and quarantined labels; the recorded events and the graph are the
  same, and the event is among the recorded ones unless its identifier was there already. No action on
  file changes, and the trail only grows, by at least the entry, at its end, that describes the event
  and names what was degraded.
\<close>

theorem ingest_survives_analysis:
  fixes d :: "('raw, memory_store, store_error, 'c) service"
  assumes "correlator memory_ops ms_audit_log store_wf ms_events filed_action run"
    and "sd_store d = memory_ops" and "sd_process d = Some run" and "store_wf (sv_store st)"
  defines "d' \<equiv> d\<lparr>sd_process := None, sd_publish_fails := (\<lambda>ev. False)\<rparr>"
  shows "case ingest d' now rc raw st of
      (Inl e, st0) \<Rightarrow> ingest d now rc raw st = (Inl e, st0)
    | (Inr r0, st0) \<Rightarrow> (\<exists>r st' ev s1 xs x n. ingest d now rc raw st = (Inr r, st') \<and>
        admitted d now raw st = Inr (ev, s1) \<and> ir_event_id r = ev_id ev \<and>
        ir_event_id r = ir_event_id r0 \<and> ir_quarantined r = ir_quarantined r0 \<and> sv_graph st' = sv_graph st0 \<and>
        ms_events (sv_store st') = ms_events (sv_store st0) \<and>
        event_recorded ev (ms_events (sv_store st)) (ms_events (sv_store st')) \<and>
        filed_action (sv_store st') = filed_action (sv_store st) \<and> store_wf (sv_store st') \<and>
        ms_audit_log (sv_store st') = ms_audit_log (sv_store st) @ xs @ [x] \<and>
        clear_sequence x = clear_sequence (stamped (sd_uuid d) now n (ingested_entry rc ev (ir_degraded r))))"
proof (cases "admitted d now raw st")
  case (Inl e)
  then have "admitted d' now raw st = Inl e" by (simp add: d'_def)
  moreover have "ingest d' now rc raw st = ingest d now rc raw st"
    unfolding d'_def by (rule ingest_refused_same [OF Inl])
  ultimately show ?thesis using ingest_refused [of d' now raw st e rc] by (auto split: prod.split sum.split)
next
  case (Inr a)
  then obtain ev s1 where adm: "admitted d now raw st = Inr (ev, s1)" by (metis surj_pair)
  then have adm': "admitted d' now raw st = Inr (ev, s1)" by (simp add: d'_def)
  note law = correlator.ingest_law [OF assms(1)]
  obtain r st' es n where i: "ingest d now rc raw st = (Inr r, st')" "ir_event_id r = ev_id ev"
    "ir_quarantined r = ev_quarantined ev" "sv_graph st' = project ev (sv_graph st)" "store_wf (sv_store st')"
    "ms_events (sv_store st') = ms_events s1" "event_recorded ev (ms_events (sv_store st)) (ms_events (sv_store st'))"
    "filed_action (sv_store st') = filed_action (sv_store st)"
    "extends_trail (ms_audit_log (sv_store st)) (ms_audit_log (sv_store st'))
       (es @ [stamped (sd_uuid d) now n (ingested_entry rc ev (ir_degraded r))])"
    by (rule law [OF assms(2) disjI2 [OF assms(3)] assms(4) adm]) auto
  obtain r0 st0 where i0: "ingest d' now rc raw st = (Inr r0, st0)" "ir_event_id r0 = ev_id ev"
    "ir_quarantined r0 = ev_quarantined ev" "sv_graph st0 = project ev (sv_graph st)"
    "ms_events (sv_store st0) = ms_events s1"
    by (rule law [OF _ _ assms(4) adm', of rc]) (auto simp: d'_def assms(2))
  obtain xs x where new: "ms_audit_log (sv_store st') = ms_audit_log (sv_store st) @ xs @ [x]"
    and x: "clear_sequence x = clear_sequence (stamped (sd_uuid d) now n (ingested_entry rc ev (ir_degraded r)))"
    using extends_trail_last [OF i(9)] by metis
  have same: "ms_events (sv_store st') = ms_events (sv_store st0)" by (simp only: i i0)
  show ?thesis
    unfolding i0(1) prod.case sum.case
    by (rule exI [of _ r], rule exI [of _ st'], rule exI [of _ ev], rule exI [of _ s1], rule exI [of _ xs],
        rule exI [of _ x], rule exI [of _ n], intro conjI adm same i(1,2,5,7,8) new x) (simp_all only: i(1-5) i0(2-4))
qed

definition panic_run ::
  "time \<Rightarrow> sgraph \<Rightarrow> security_event \<Rightarrow> unit \<times> nat \<times> memory_store \<Rightarrow> correlation_outcome \<times> unit \<times> nat \<times> memory_store" where
  "panic_run now g ev st = (CorrelationPanic, st)"

lemma panic_correlator: "correlator memory_ops ms_audit_log store_wf ms_events filed_action panic_run"
  by (intro correlator.intro correlator_axioms.intro, rule memory.platform_store_axioms)
    (simp_all add: panic_run_def)

definition sample_service :: "(string, memory_store, store_error, unit) service" where
  "sample_service = \<lparr> sd_schema = (\<lambda>raw. SchemaValid), sd_unmarshal = (\<lambda>raw. Some (login raw 5)),
     sd_store = memory_ops, sd_process = Some panic_run, sd_evaluate = embedded_evaluate sample_embedded,
     sd_publish_fails = (\<lambda>ev. True), sd_uuid = sample_uuid, sd_revision = ''sha256:0'',
     sd_max_batch_events = 500, sd_kernel_name = EngineEmbedded, sd_kernel_healthy = (\<lambda>now. True),
     sd_bus_kind = ''disabled'', sd_bus_healthy = True, sd_rule_count = 1 \<rparr>"

definition sample_state :: "(memory_store, unit) service_state" where
  "sample_state = \<lparr> sv_graph = new_graph, sv_correlator = (), sv_ids = 0, sv_store = new_memory_store 10 \<rparr>"

definition sample_context :: request_context where
  "sample_context = \<lparr> rc_request_id = ''req-1'', rc_principal = zero_principal \<rparr>"

lemma sample_normalized: "\<exists>ev. normalize sample_uuid 9 0 (login ''e1'' 5) = Inr (ev, 0) \<and> ev_id ev = ''e1''"
  by (simp add: normalize_def check_timestamp_def is_zero_time_def login_def zero_event_def max_clock_skew_ahead_def
      max_event_age_def minute_def hour_def second_def Let_def sanitize_def)

theorem ingest_survives_analysis_witness:
  "\<exists>r st'. ingest sample_service 9 sample_context ''e1'' sample_state = (Inr r, st') \<and>
     ir_event_id r \<in> ev_id ` set (ms_events (sv_store st'))"
proof -
  let ?d = "sample_service\<lparr>sd_process := None, sd_publish_fails := (\<lambda>ev. False)\<rparr>"
  have "sd_store sample_service = memory_ops" and "sd_process sample_service = Some panic_run"
    and "store_wf (sv_store sample_state)"
    using new_memory_store_wf by (simp_all add: sample_service_def sample_state_def)
  note law = ingest_survives_analysis [OF panic_correlator this, of 9 sample_context "''e1''"]
  have "\<not> isl (admitted sample_service 9 ''e1'' sample_state)"
    using sample_normalized by (auto simp: admitted_def decode_event_def validate_event_def sample_service_def sample_state_def
        save_event_def new_memory_store_def Let_def)
  then obtain ev s1 where "admitted sample_service 9 ''e1'' sample_state = Inr (ev, s1)"
    by (metis isl_def sum.exhaust surj_pair)
  then have "admitted ?d 9 ''e1'' sample_state = Inr (ev, s1)" by simp
  then obtain r0 st0 where "ingest ?d 9 sample_context ''e1'' sample_state = (Inr r0, st0)"
    using ingest_accepted by metis
  with law show ?thesis by (auto simp: event_recorded_def)
qed

end
