(* ===== verification/Evaluation.thy ===== *)
theory Evaluation
  imports Service
begin

text \<open>
  The evaluation of a proposed response action, \<^verbatim>\<open>EvaluateAction\<close> of \<^verbatim>\<open>src/internal/api/service.go\<close>
  with its helpers: the policy input is built from the catalog, the incident and the graph, the
  kernel is asked, the verdict becomes the status of the action, and the action is saved together
  with the audit entries that describe it.
\<close>

subsection \<open>Small helpers\<close>

fun join_reasons :: "string list \<Rightarrow> string" where
  "join_reasons [] = ''No reason was recorded; GRIEFER treats this as a denial.''"
| "join_reasons (r # rs) = foldl (\<lambda>out x. out @ '' '' @ x) r rs"

definition audit_outcome_for :: "string \<Rightarrow> string" where
  "audit_outcome_for eff =
     (if eff = EffectAllow then OutcomeSuccess
      else if eff = EffectRequireApproval then OutcomePending
      else OutcomeDenied)"

definition audit_action_for :: "action_status \<Rightarrow> string" where
  "audit_action_for s =
     (if s = ActionSimulated then ActionActionSimulated
      else if s = ActionRequiresApproval then ActionActionNeedsApproval
      else if s = ActionRejected then ActionActionRejected
      else ActionActionDenied)"

definition evaluation_result :: "action_status \<Rightarrow> kernel_error option \<Rightarrow> string" where
  "evaluation_result s kernel_err =
     (case kernel_err of
        Some e \<Rightarrow> if ke_deadline e then ResultPolicyTimeout else ResultPolicyUnavailable
      | None \<Rightarrow>
          if s = ActionSimulated then ResultAllowed
          else if s = ActionRequiresApproval then ResultRequiresApproval
          else ResultDenied)"

text \<open>
  \<^verbatim>\<open>fmt.Sprintf\<close> on a simulation template and one integer: the first verb \<^verbatim>\<open>%d\<close> is replaced, and an
  integer without a verb is reported as an extra operand.
\<close>

fun fill_verb :: "string \<Rightarrow> string \<Rightarrow> string option" where
  "fill_verb n [] = None"
| "fill_verb n (c # cs) =
     (case cs of
        c' # cs' \<Rightarrow> if c = CHR ''%'' \<and> c' = CHR ''d'' then Some (n @ cs') else map_option ((#) c) (fill_verb n cs)
      | [] \<Rightarrow> None)"

definition format_count :: "string \<Rightarrow> nat \<Rightarrow> string" where
  "format_count template n =
     (case fill_verb (show_nat n) template of
        Some t \<Rightarrow> t
      | None \<Rightarrow> template @ ''%!(EXTRA int='' @ show_nat n @ '')'')"

definition affected_entities :: "incident \<Rightarrow> string \<Rightarrow> string list" where
  "affected_entities i tgt = (if tgt \<noteq> [] then [tgt] else map ref_id (inc_entities i))"

definition build_simulated_effect :: "action_spec \<Rightarrow> incident \<Rightarrow> string \<Rightarrow> simulated_effect" where
  "build_simulated_effect spec i tgt =
     (let affected = affected_entities i tgt; rollback = spec_rollback_action spec in
      \<lparr> sim_description = format_count (spec_simulation_template spec) (length affected),
        sim_affected_entities = affected,
        sim_rollback_plan =
          (if rollback = [] then ''No rollback exists for this action; it would require human approval before execution.''
           else ''Run '' @ quote rollback @ '' to reverse this action.'') \<rparr>)"

definition apply_decision ::
  "response_action \<Rightarrow> action_spec \<Rightarrow> incident \<Rightarrow> policy_decision \<Rightarrow> response_action" where
  "apply_decision a spec i d =
     (if pd_effect d = EffectDeny then
        a\<lparr>act_status := ActionDenied, act_reason := join_reasons (pd_reasons d)\<rparr>
      else if pd_effect d = EffectRequireApproval then
        a\<lparr>act_status := ActionRequiresApproval, act_reason := join_reasons (pd_reasons d)\<rparr>
      else if pd_effect d = EffectAllow then
        (if act_mode a \<noteq> ModeSimulate then
           a\<lparr>act_status := ActionRequiresApproval,
             act_reason := ''GRIEFER v0.1 implements simulation only; no actuator exists for mode \"execute\".''\<rparr>
         else
           a\<lparr>act_status := ActionSimulated, act_reason := join_reasons (pd_reasons d),
             act_simulated := Some (build_simulated_effect spec i (act_target_entity_id a))\<rparr>)
      else
        a\<lparr>act_status := ActionDenied,
          act_reason := ''Policy Kernel returned an unrecognised effect; GRIEFER denies by default.''\<rparr>)"

subsection \<open>The target\<close>

definition find_recommendation :: "incident \<Rightarrow> string \<Rightarrow> recommended_action option" where
  "find_recommendation i action_type = find (\<lambda>r. ra_action_type r = action_type) (inc_recommended_actions i)"

text \<open>The state of the loop for the most critical entity: its rank, identifier and criticality.\<close>

definition pick_critical :: "entity_ref \<Rightarrow> int \<times> string \<times> bool \<Rightarrow> int \<times> string \<times> bool" where
  "pick_critical e best =
     (if criticality_rank (ref_criticality e) > fst best
      then (criticality_rank (ref_criticality e), ref_id e, ref_criticality e = CriticalityCritical)
      else best)"

definition resolve_action_target ::
  "sgraph \<Rightarrow> incident \<Rightarrow> recommended_action option \<Rightarrow> string \<times> bool" where
  "resolve_action_target g i rec =
     (case rec of
        Some r \<Rightarrow>
          if ra_target_entity_id r \<noteq> [] then
            (case get_entity g (ra_target_entity_id r) of
               Some ent \<Rightarrow> (ent_id ent, ent_criticality ent = CriticalityCritical)
             | None \<Rightarrow> (ra_target_entity_id r, ra_targets_critical_asset r))
          else snd (fold pick_critical (inc_entities i) (- 1, [], False))
      | None \<Rightarrow> snd (fold pick_critical (inc_entities i) (- 1, [], False)))"

subsection \<open>Persisting an evaluation\<close>

fun prepare_entries ::
  "(nat \<Rightarrow> string) \<Rightarrow> time \<Rightarrow> audit_entry list \<Rightarrow> nat \<Rightarrow> audit_entry list \<times> nat" where
  "prepare_entries uuid now [] n = ([], n)"
| "prepare_entries uuid now (e # es) n =
     (case prepare uuid now e n of
        (Inl err, n') \<Rightarrow> prepare_entries uuid now es n'
      | (Inr p, n') \<Rightarrow> (case prepare_entries uuid now es n' of (ps, n'') \<Rightarrow> (p # ps, n'')))"

definition persist_evaluation ::
  "('raw, 's, 'e, 'c) service \<Rightarrow> time \<Rightarrow> response_action option \<Rightarrow> audit_entry list \<Rightarrow>
     ('s, 'c) service_state \<Rightarrow> ('s, 'c) service_state" where
  "persist_evaluation d now act entries st =
     (case prepare_entries (sd_uuid d) now entries (sv_ids st) of
        (prepared, n) \<Rightarrow>
          (case so_save_action_with_audit (sd_store d) (sv_store st) act prepared of
             Inl err \<Rightarrow> st\<lparr>sv_ids := n\<rparr>
           | Inr s' \<Rightarrow> st\<lparr>sv_ids := n, sv_store := s'\<rparr>))"

subsection \<open>Evaluating a request\<close>

record evaluate_request =
  er_incident_id :: string
  er_action_type :: string
  er_mode :: string
  er_requested_by :: string
  er_automated :: bool

datatype 'e evaluate_error =
    UnknownActionType string | InvalidMode string | IncidentNotFound | IncidentNotLoaded 'e

definition actor_of :: "principal \<Rightarrow> string" where
  "actor_of p = (if pr_subject p = [] then audit_system_actor else pr_subject p)"

definition requested_mode :: "evaluate_request \<Rightarrow> mode" where
  "requested_mode req = (if er_mode req = [] then ModeSimulate else er_mode req)"

definition new_action :: "string \<Rightarrow> time \<Rightarrow> principal \<Rightarrow> evaluate_request \<Rightarrow> response_action" where
  "new_action aid now p req =
     \<lparr> act_id = aid, act_incident_id = er_incident_id req, act_action_type = er_action_type req,
       act_mode = requested_mode req, act_status = [], act_requested_by = actor_of p,
       act_policy_decision = None, act_reason = [], act_reversible = False, act_destructive = False,
       act_rollback_action = [], act_target_entity_id = [], act_simulated = None,
       act_created_at = now, act_executed_at = None \<rparr>"

definition reject_action :: "response_action \<Rightarrow> string \<Rightarrow> response_action" where
  "reject_action a reason = a\<lparr>act_status := ActionRejected, act_reason := reason\<rparr>"

text \<open>The shape every entry of an evaluation shares.\<close>

definition base_entry ::
  "string \<Rightarrow> request_context \<Rightarrow> evaluate_request \<Rightarrow> string \<Rightarrow> string \<Rightarrow> string \<Rightarrow> string \<Rightarrow> string \<Rightarrow>
     (string \<times> detail) list \<Rightarrow> audit_entry" where
  "base_entry revn rc req aid result act outcome reason extra =
     zero_entry\<lparr>ae_actor := actor_of (rc_principal rc), ae_actor_role := pr_role (rc_principal rc),
       ae_action := act, ae_subject_type := SubjectAction, ae_subject_id := aid, ae_outcome := outcome,
       ae_reason := reason, ae_request_id := rc_request_id rc,
       ae_details := fold (\<lambda>(k, v) m. AList.update k v m) extra
         [(''result'', DString result), (''incident_id'', DString (er_incident_id req)),
          (''action_type'', DString (er_action_type req)), (''mode'', DString (requested_mode req)),
          (''response_action_id'', DString aid), (''policy_revision'', DString revn)]\<rparr>"

definition policy_input_for ::
  "action_spec \<Rightarrow> mode \<Rightarrow> string \<Rightarrow> bool \<Rightarrow> incident \<Rightarrow> principal \<Rightarrow> evaluate_request \<Rightarrow> policy_input" where
  "policy_input_for spec m tgt critical i p req =
     \<lparr> pi_action = \<lparr> ai_type = spec_type spec, ai_mode = m, ai_known = True,
         ai_destructive = spec_destructive spec, ai_reversible = spec_reversible spec,
         ai_rollback_action = spec_rollback_action spec, ai_targets_critical_asset = critical,
         ai_isolation = spec_isolation spec, ai_target_entity_id = tgt \<rparr>,
       pi_incident = \<lparr> ii_id = inc_id i, ii_risk_score = inc_risk_score i, ii_confidence = inc_confidence i,
         ii_severity = inc_severity i, ii_evidence_categories = Some (evidence_categories i),
         ii_finding_count = int (length (inc_findings i)) \<rparr>,
       pi_request = \<lparr> ri_automated = (principal_zero p \<and> er_automated req), ri_requested_by = actor_of p \<rparr> \<rparr>"

definition decision_details ::
  "incident \<Rightarrow> action_spec \<Rightarrow> policy_decision \<Rightarrow> bool \<Rightarrow> (string \<times> detail) list" where
  "decision_details i spec d critical =
     [(''incident_id'', DString (inc_id i)), (''action_type'', DString (spec_type spec)),
      (''effect'', DString (pd_effect d)), (''fail_closed'', DBool (pd_fail_closed d)),
      (''engine'', DString (pd_engine d)), (''policy_version'', DString (pd_policy_version d)),
      (''reversible'', DBool (spec_reversible spec)), (''destructive'', DBool (spec_destructive spec)),
      (''rollback_action'', DString (spec_rollback_action spec)), (''targets_critical'', DBool critical),
      (''risk_score'', DInt (inc_risk_score i)), (''evidence_types'', DStrings (evidence_categories i))]"

text \<open>From the loaded incident to the action and its entries: everything but the saving.\<close>

definition judge ::
  "('raw, 's, 'e, 'c) service \<Rightarrow> time \<Rightarrow> request_context \<Rightarrow> evaluate_request \<Rightarrow> sgraph \<Rightarrow> action_spec \<Rightarrow>
     incident \<Rightarrow> response_action \<Rightarrow> response_action \<times> audit_entry list" where
  "judge d now rc req g spec i a0 =
     (let (tgt, critical) = resolve_action_target g i (find_recommendation i (spec_type spec));
          a1 = a0\<lparr>act_reversible := spec_reversible spec, act_destructive := spec_destructive spec,
                  act_rollback_action := spec_rollback_action spec, act_target_entity_id := tgt\<rparr>;
          (decision, kernel_err) =
            sd_evaluate d now (policy_input_for spec (requested_mode req) tgt critical i (rc_principal rc) req);
          a2 = apply_decision (a1\<lparr>act_policy_decision := Some decision\<rparr>) spec i decision;
          result = evaluation_result (act_status a2) kernel_err
      in (a2,
          [base_entry (sd_revision d) rc req (act_id a0) result ActionPolicyEvaluated
             (audit_outcome_for (pd_effect decision)) (join_reasons (pd_reasons decision))
             (decision_details i spec decision critical),
           base_entry (sd_revision d) rc req (act_id a0) result (audit_action_for (act_status a2))
             (audit_outcome_for (pd_effect decision)) (act_reason a2) []]))"

definition evaluate_action ::
  "('raw, 's, 'e, 'c) service \<Rightarrow> time \<Rightarrow> request_context \<Rightarrow> evaluate_request \<Rightarrow> ('s, 'c) service_state \<Rightarrow>
     (response_action option \<times> 'e evaluate_error option) \<times> ('s, 'c) service_state" where
  "evaluate_action d now rc req st0 =
     (let (aid, n) = new_id (sd_uuid d) PrefixAction (sv_ids st0);
          st = st0\<lparr>sv_ids := n\<rparr>;
          a0 = new_action aid now (rc_principal rc) req;
          entry = base_entry (sd_revision d) rc req aid
      in case lookup_action (er_action_type req) of
           None \<Rightarrow>
             let a = reject_action a0 (''Action type '' @ quote (er_action_type req)
                       @ '' is not defined in the GRIEFER action catalog.'')
             in ((Some a, Some (UnknownActionType (er_action_type req))),
                 persist_evaluation d now (Some a)
                   [entry ResultInvalidAction ActionActionRejected OutcomeDenied (act_reason a) []] st)
         | Some spec \<Rightarrow>
             if \<not> mode_valid (requested_mode req) then
               let a = reject_action a0 (''Response mode '' @ quote (er_mode req) @ '' is not recognised.'')
               in ((Some a, Some (InvalidMode (er_mode req))),
                   persist_evaluation d now (Some a)
                     [entry ResultValidationFailed ActionActionRejected OutcomeDenied (act_reason a) []] st)
             else
               (case so_get_incident (sd_store d) (sv_store st) (er_incident_id req) of
                  Inl err \<Rightarrow>
                    if so_is_not_found (sd_store d) err then
                      ((None, Some IncidentNotFound),
                       persist_evaluation d now None
                         [entry ResultValidationFailed ActionActionRejected OutcomeDenied
                            ''The referenced incident does not exist.'' []] st)
                    else
                      ((None, Some (IncidentNotLoaded err)),
                       persist_evaluation d now None
                         [entry ResultInternalError ActionActionRejected OutcomeFailure
                            ''The incident could not be loaded.'' []] st)
                | Inr i \<Rightarrow>
                    let (a, entries) = judge d now rc req (sv_graph st) spec i a0
                    in ((Some a, None), persist_evaluation d now (Some a) entries st)))"

subsection \<open>What an evaluation writes\<close>

lemma prepare_entries_complete:
  assumes "\<forall>e \<in> set es. entry_complete e"
  shows "list_all2 (\<lambda>p e. \<exists>m. p = stamped uuid now m e) (fst (prepare_entries uuid now es n)) es"
  using assms
proof (induction es arbitrary: n)
  case (Cons e es)
  obtain ps m where "prepare_entries uuid now es (Suc n) = (ps, m)" by (metis surj_pair)
  then show ?case using Cons.IH [of "Suc n"] Cons.prems by (auto simp: prepare_complete)
qed simp

lemma list_all2_member: "list_all2 P xs ys \<Longrightarrow> x \<in> set xs \<Longrightarrow> \<exists>y \<in> set ys. P x y"
  by (induction rule: list_all2_induct) auto

lemma map_eq_member:
  assumes "map f xs = map f ys" and "x \<in> set xs"
  shows "\<exists>y \<in> set ys. f x = f y"
proof -
  have "f x \<in> set (map f ys)" using assms by (metis image_eqI list.set_map)
  then show ?thesis by auto
qed

lemma stamped_list_ids: "list_all2 (\<lambda>p e. \<exists>m. p = stamped uuid now m e) ps es \<Longrightarrow> \<forall>p \<in> set ps. ae_id p \<noteq> []"
  by (induction rule: list_all2_induct) auto

text \<open>What stays the same when an action is evaluated.\<close>

definition same_world ::
  "('s \<Rightarrow> security_event list) \<Rightarrow> ('s \<Rightarrow> string \<Rightarrow> 'e + incident) \<Rightarrow> ('s, 'c) service_state \<Rightarrow> ('s, 'c) service_state \<Rightarrow> bool" where
  "same_world on_record get st st' \<longleftrightarrow>
     sv_graph st' = sv_graph st \<and> sv_correlator st' = sv_correlator st \<and>
     on_record (sv_store st') = on_record (sv_store st) \<and> get (sv_store st') = get (sv_store st)"

context platform_store begin

text \<open>The action and its entries are written together, and nothing else changes.\<close>

lemma persist_law:
  fixes now :: time
  assumes d: "sd_store d = ops" and st: "sound (sv_store st)" and act: "\<And>a. act = Some a \<Longrightarrow> act_id a \<noteq> []"
    and es: "\<forall>e \<in> set es. entry_complete e"
  defines "st' \<equiv> persist_evaluation d now act es st"
  shows "sound (sv_store st') \<and>
    (\<exists>ps. list_all2 (\<lambda>p e. \<exists>m. p = stamped (sd_uuid d) now m e) ps es \<and>
       extends_trail (trail (sv_store st)) (trail (sv_store st')) ps) \<and>
    filed (sv_store st') = (case act of None \<Rightarrow> filed (sv_store st) | Some a \<Rightarrow> (filed (sv_store st))(act_id a \<mapsto> a)) \<and>
    same_world on_record (so_get_incident ops) st st'"
proof -
  obtain ps n where p: "prepare_entries (sd_uuid d) now es (sv_ids st) = (ps, n)" by (metis surj_pair)
  have ps: "list_all2 (\<lambda>p e. \<exists>m. p = stamped (sd_uuid d) now m e) ps es"
    using prepare_entries_complete [OF es, of "sd_uuid d" now "sv_ids st"] p by simp
  obtain s' where s': "so_save_action_with_audit ops (sv_store st) act ps = Inr s'" "sound s'"
    "extends_trail (trail (sv_store st)) (trail s') ps"
    "filed s' = (case act of None \<Rightarrow> filed (sv_store st) | Some a \<Rightarrow> (filed (sv_store st))(act_id a \<mapsto> a))"
    "on_record s' = on_record (sv_store st)" "so_get_incident ops s' = so_get_incident ops (sv_store st)"
    using save_action_law [OF st act stamped_list_ids [OF ps]] by blast
  then have "st' = st\<lparr>sv_ids := n, sv_store := s'\<rparr>"
    unfolding st'_def persist_evaluation_def by (simp add: p d)
  with s' ps show ?thesis unfolding same_world_def by auto
qed

end

lemma base_entry_complete [simp]:
  "act \<noteq> [] \<Longrightarrow> outcome \<noteq> [] \<Longrightarrow> entry_complete (base_entry revn rc req aid result act outcome reason extra)"
  by (simp add: base_entry_def entry_complete_def)

lemma audit_labels_nonempty [simp]: "audit_action_for s \<noteq> []" "audit_outcome_for eff \<noteq> []"
  by (simp_all add: audit_action_for_def audit_outcome_for_def)

text \<open>An entry that says who asked, in which request, for which action and under which policy.\<close>

definition attributed :: "string \<Rightarrow> request_context \<Rightarrow> string \<Rightarrow> audit_entry \<Rightarrow> bool" where
  "attributed revn rc aid e \<longleftrightarrow>
     ae_actor e = actor_of (rc_principal rc) \<and> ae_actor_role e = pr_role (rc_principal rc) \<and>
     ae_request_id e = rc_request_id rc \<and> ae_subject_type e = SubjectAction \<and> ae_subject_id e = aid \<and>
     map_of (ae_details e) ''policy_revision'' = Some (DString revn) \<and>
     map_of (ae_details e) ''response_action_id'' = Some (DString aid) \<and>
     map_of (ae_details e) ''result'' \<noteq> None"

lemma actor_of_nonempty [simp]: "actor_of p \<noteq> []"
  by (simp add: actor_of_def)

lemma fold_update_other:
  "k \<notin> fst ` set extra \<Longrightarrow> map_of (fold (\<lambda>(k, v) m. AList.update k v m) extra m) k = map_of m k"
  by (induction extra arbitrary: m) (auto split: prod.splits)

lemma base_entry_attributed:
  assumes "{''policy_revision'', ''response_action_id'', ''result''} \<inter> fst ` set extra = {}"
  shows "attributed revn rc aid (base_entry revn rc req aid result act outcome reason extra)"
  using assms by (simp add: attributed_def base_entry_def fold_update_other)

lemma attributed_stamped [simp]: "attributed revn rc aid (stamped uuid now m e) = attributed revn rc aid e"
  if "ae_actor e \<noteq> []"
  using that by (simp add: attributed_def)

lemma judge_entries:
  assumes "judge d now rc req g spec i a0 = (a, es)"
  shows "es \<noteq> []" and "\<forall>e \<in> set es. entry_complete e \<and> attributed (sd_revision d) rc (act_id a0) e"
  using assms
  by (auto simp: judge_def Let_def decision_details_def intro!: base_entry_attributed split: prod.splits)

lemma apply_decision_frame [simp]:
  "act_id (apply_decision a spec i d) = act_id a" "act_executed_at (apply_decision a spec i d) = act_executed_at a"
  "act_mode (apply_decision a spec i d) = act_mode a" "act_requested_by (apply_decision a spec i d) = act_requested_by a"
  "act_policy_decision (apply_decision a spec i d) = act_policy_decision a"
  "act_rollback_action (apply_decision a spec i d) = act_rollback_action a"
  by (simp_all add: apply_decision_def)

lemma judge_id: "judge d now rc req g spec i a0 = (a, es) \<Longrightarrow> act_id a = act_id a0"
  by (auto simp: judge_def Let_def split: prod.splits)

lemma attributed_clear:
  assumes "clear_sequence y = clear_sequence p" and "attributed revn rc aid p"
  shows "attributed revn rc aid y"
  using assms(2) unfolding attributed_def clear_sequence_fields [OF assms(1)] .

text \<open>Every path of an evaluation ends in writing at least one attributed entry.\<close>

lemma evaluate_shape:
  assumes "evaluate_action d now rc req st = ((act, err), st')"
  obtains es where "es \<noteq> []"
    "\<forall>e \<in> set es. entry_complete e \<and> attributed (sd_revision d) rc (fst (new_id (sd_uuid d) PrefixAction (sv_ids st))) e"
    "\<And>a. act = Some a \<Longrightarrow> act_id a = fst (new_id (sd_uuid d) PrefixAction (sv_ids st))"
    "st' = persist_evaluation d now act es (st\<lparr>sv_ids := Suc (sv_ids st)\<rparr>)"
proof -
  obtain aid where nid: "new_id (sd_uuid d) PrefixAction (sv_ids st) = (aid, Suc (sv_ids st))" by (simp add: new_id_def)
  let ?st = "st\<lparr>sv_ids := Suc (sv_ids st)\<rparr>" and ?a0 = "new_action aid now (rc_principal rc) req"
  let ?entry = "base_entry (sd_revision d) rc req aid"
  let ?goal = "\<lambda>es. es \<noteq> [] \<and> (\<forall>e \<in> set es. entry_complete e \<and> attributed (sd_revision d) rc aid e) \<and>
    (\<forall>a. act = Some a \<longrightarrow> act_id a = aid) \<and> st' = persist_evaluation d now act es ?st"
  have a0: "act_id ?a0 = aid" "\<And>r. act_id (reject_action ?a0 r) = aid"
    by (simp_all add: new_action_def reject_action_def)
  have single: "\<exists>es. ?goal es" if "st' = persist_evaluation d now act [?entry result a outcome reason []] ?st"
    "a \<noteq> []" "outcome \<noteq> []" "\<And>x. act = Some x \<Longrightarrow> act_id x = aid" for result a outcome reason
    using that base_entry_attributed [of "[]"] by (intro exI [of _ "[?entry result a outcome reason []]"]) simp
  have "\<exists>es. ?goal es"
  proof (cases "lookup_action (er_action_type req)")
    case None
    define why where "why = ''Action type '' @ quote (er_action_type req) @ '' is not defined in the GRIEFER action catalog.''"
    from assms have "act = Some (reject_action ?a0 why)" and "st' = persist_evaluation d now act
        [?entry ResultInvalidAction ActionActionRejected OutcomeDenied (act_reason (reject_action ?a0 why)) []] ?st"
      unfolding evaluate_action_def Let_def nid why_def [symmetric] by (auto simp: None)
    then show ?thesis by (intro single) (auto simp: a0)
  next
    case (Some spec)
    note known = this
    show ?thesis
    proof (cases "mode_valid (requested_mode req)")
      case False
      define why where "why = ''Response mode '' @ quote (er_mode req) @ '' is not recognised.''"
      from assms have "act = Some (reject_action ?a0 why)" and "st' = persist_evaluation d now act
          [?entry ResultValidationFailed ActionActionRejected OutcomeDenied (act_reason (reject_action ?a0 why)) []] ?st"
        unfolding evaluate_action_def Let_def nid why_def [symmetric] by (auto simp: known False)
      then show ?thesis by (intro single) (auto simp: a0)
    next
      case True
      show ?thesis
      proof (cases "so_get_incident (sd_store d) (sv_store st) (er_incident_id req)")
        case (Inl e)
        from assms have "act = None" and "\<exists>result outcome reason. outcome \<noteq> [] \<and> st' = persist_evaluation d now act
            [?entry result ActionActionRejected outcome reason []] ?st"
          unfolding evaluate_action_def Let_def nid by (auto simp: known True Inl split: if_splits)
        then show ?thesis using single by (metis list.distinct(1) option.distinct(1))
      next
        case (Inr i)
        obtain a es where j: "judge d now rc req (sv_graph st) spec i ?a0 = (a, es)" by (metis surj_pair)
        from assms have "act = Some a" and "st' = persist_evaluation d now act es ?st"
          unfolding evaluate_action_def Let_def nid by (auto simp: known True Inr j)
        then show ?thesis using judge_entries [OF j] judge_id [OF j] a0 by auto
      qed
    qed
  qed
  then show ?thesis using that by (auto simp: nid)
qed

subsection \<open>Properties of evaluation\<close>

text \<open>
  C4 (safety): on the memory store no evaluation is without a trace, and an evaluation changes nothing
  else. (A store that refuses the write leaves none: the service logs the failure and answers the same;
  for PostgreSQL see \<open>postgres_evaluation_atomic\<close> in the theory \<open>Postgres\<close>.) Whatever the
  request, the kernel or the error, at least one entry is added at the end of the trail, and every
  added entry names the operator the credential vouches for (or the system), the request, the action
  and the policy revision. An action that is returned is on file; the graph, the correlator's state,
  the recorded events and the incidents are as before.
\<close>

theorem every_evaluation_audited:
  fixes d :: "('raw, memory_store, store_error, 'c) service"
  assumes "sd_store d = memory_ops" and "store_wf (sv_store st)"
    and "evaluate_action d now rc req st = ((act, err), st')"
  shows "(\<exists>x xs. ms_audit_log (sv_store st') = ms_audit_log (sv_store st) @ x # xs \<and>
      (\<forall>e \<in> set (x # xs). attributed (sd_revision d) rc (fst (new_id (sd_uuid d) PrefixAction (sv_ids st))) e)) \<and>
    filed_action (sv_store st') =
      (case act of None \<Rightarrow> filed_action (sv_store st) | Some a \<Rightarrow> (filed_action (sv_store st))(act_id a \<mapsto> a)) \<and>
    same_world ms_events get_incident st st' \<and> store_wf (sv_store st')"
proof -
  let ?aid = "fst (new_id (sd_uuid d) PrefixAction (sv_ids st))" and ?st = "st\<lparr>sv_ids := Suc (sv_ids st)\<rparr>"
  obtain es where es: "es \<noteq> []" "\<forall>e \<in> set es. entry_complete e \<and> attributed (sd_revision d) rc ?aid e"
    and act: "\<And>a. act = Some a \<Longrightarrow> act_id a = ?aid" and st': "st' = persist_evaluation d now act es ?st"
    by (rule evaluate_shape [OF assms(3)]) blast
  have ids: "\<And>a. act = Some a \<Longrightarrow> act_id a \<noteq> []" using act by simp
  have wf: "store_wf (sv_store ?st)" and complete: "\<forall>e \<in> set es. entry_complete e" using assms(2) es by auto
  have same: "sv_store ?st = sv_store st" by simp
  note law = memory.persist_law [where act = act and now = now, OF assms(1) wf ids complete, folded st', unfolded same memory_ops_simps]
  obtain ps where ps: "list_all2 (\<lambda>p e. \<exists>m. p = stamped (sd_uuid d) now m e) ps es"
    and log: "extends_trail (ms_audit_log (sv_store st)) (ms_audit_log (sv_store st')) ps"
    and rest: "store_wf (sv_store st')" "filed_action (sv_store st') =
      (case act of None \<Rightarrow> filed_action (sv_store st) | Some a \<Rightarrow> (filed_action (sv_store st))(act_id a \<mapsto> a))"
      "same_world ms_events get_incident ?st st'"
    using law by blast
  obtain ys where ys: "ms_audit_log (sv_store st') = ms_audit_log (sv_store st) @ ys"
    "map clear_sequence ys = map clear_sequence ps" using log by (auto simp: extends_trail_def)
  have "attributed (sd_revision d) rc ?aid y" if mem: "y \<in> set ys" for y
  proof -
    obtain p where "p \<in> set ps" "clear_sequence y = clear_sequence p"
      using map_eq_member [OF ys(2) mem] by blast
    moreover obtain e m where "e \<in> set es" "p = stamped (sd_uuid d) now m e"
      using list_all2_member [OF ps \<open>p \<in> set ps\<close>] by blast
    ultimately have "attributed (sd_revision d) rc ?aid p" using es(2) by (simp add: attributed_def)
    with \<open>clear_sequence y = clear_sequence p\<close> show ?thesis by (rule attributed_clear)
  qed
  note named = this
  have "ys \<noteq> []" using ys(2) ps es(1) by auto
  then obtain x xs where x: "ys = x # xs" by (cases ys) auto
  show ?thesis
  proof (intro conjI exI [of _ x] exI [of _ xs] ballI)
    show "same_world ms_events get_incident st st'" using rest(3) by (simp add: same_world_def)
  qed (use ys(1) x rest(1,2) named in simp_all)
qed

definition sample_request :: evaluate_request where
  "sample_request = \<lparr> er_incident_id = ''inc-0'', er_action_type = ''preserve_evidence'', er_mode = [],
     er_requested_by = ''mallory'', er_automated = False \<rparr>"

theorem every_evaluation_audited_witness:
  "ms_audit_log (sv_store (snd (evaluate_action sample_service 9 sample_context sample_request sample_state))) \<noteq> []"
proof -
  obtain act err st' where ev: "evaluate_action sample_service 9 sample_context sample_request sample_state = ((act, err), st')"
    by (metis surj_pair)
  have "sd_store sample_service = memory_ops" and "store_wf (sv_store sample_state)"
    using new_memory_store_wf by (simp_all add: sample_service_def sample_state_def)
  from every_evaluation_audited [OF this ev] ev show ?thesis by auto
qed

subsection \<open>The verdict\<close>

text \<open>The question put to the kernel about an action on an incident.\<close>

definition question_of ::
  "sgraph \<Rightarrow> action_spec \<Rightarrow> incident \<Rightarrow> request_context \<Rightarrow> evaluate_request \<Rightarrow> policy_input" where
  "question_of g spec i rc req =
     (let (tgt, critical) = resolve_action_target g i (find_recommendation i (spec_type spec))
      in policy_input_for spec (requested_mode req) tgt critical i (rc_principal rc) req)"

definition status_for :: "string \<Rightarrow> mode \<Rightarrow> action_status" where
  "status_for eff m =
     (if eff = EffectAllow \<and> m = ModeSimulate then ActionSimulated
      else if eff = EffectAllow \<or> eff = EffectRequireApproval then ActionRequiresApproval
      else ActionDenied)"

lemma apply_decision_status:
  "act_status (apply_decision a spec i d) = status_for (pd_effect d) (act_mode a)"
  "act_simulated a = None \<Longrightarrow>
     act_simulated (apply_decision a spec i d) \<noteq> None \<longleftrightarrow> status_for (pd_effect d) (act_mode a) = ActionSimulated"
  by (simp_all add: apply_decision_def status_for_def)

lemma judge_verdict:
  assumes "judge d now rc req g spec i (new_action aid now (rc_principal rc) req) = (a, es)"
  shows "act_status a = status_for (pd_effect (fst (sd_evaluate d now (question_of g spec i rc req)))) (requested_mode req)"
    and "act_simulated a \<noteq> None \<longleftrightarrow> act_status a = ActionSimulated"
    and "act_mode a = requested_mode req" and "act_executed_at a = None" and "act_id a = aid"
    and "act_requested_by a = actor_of (rc_principal rc)" and "act_rollback_action a = spec_rollback_action spec"
proof -
  obtain tgt critical where r: "resolve_action_target g i (find_recommendation i (spec_type spec)) = (tgt, critical)"
    by (metis surj_pair)
  obtain dec kerr where k: "sd_evaluate d now (question_of g spec i rc req) = (dec, kerr)" by (metis surj_pair)
  define a1 where "a1 = (new_action aid now (rc_principal rc) req)\<lparr>act_reversible := spec_reversible spec,
    act_destructive := spec_destructive spec, act_rollback_action := spec_rollback_action spec,
    act_target_entity_id := tgt, act_policy_decision := Some dec\<rparr>"
  have "a = apply_decision a1 spec i dec"
    using assms k by (auto simp: judge_def question_of_def Let_def r a1_def)
  moreover have "act_mode a1 = requested_mode req" "act_simulated a1 = None" "act_executed_at a1 = None"
    "act_id a1 = aid" "act_requested_by a1 = actor_of (rc_principal rc)" "act_rollback_action a1 = spec_rollback_action spec"
    by (simp_all add: a1_def new_action_def)
  ultimately show "act_status a = status_for (pd_effect (fst (sd_evaluate d now (question_of g spec i rc req)))) (requested_mode req)"
    and "act_simulated a \<noteq> None \<longleftrightarrow> act_status a = ActionSimulated"
    and "act_mode a = requested_mode req" and "act_executed_at a = None" and "act_id a = aid"
    and "act_requested_by a = actor_of (rc_principal rc)" and "act_rollback_action a = spec_rollback_action spec"
    using apply_decision_status(2) [of a1 spec i dec] by (simp_all add: k apply_decision_status(1))
qed

text \<open>When a request gets past the catalog, the mode and the lookup, the judgement is its answer.\<close>

lemma evaluate_judged:
  assumes "lookup_action (er_action_type req) = Some spec" and "mode_valid (requested_mode req)"
    and "so_get_incident (sd_store d) (sv_store st) (er_incident_id req) = Inr i"
    and "new_id (sd_uuid d) PrefixAction (sv_ids st) = (aid, n)"
    and "judge d now rc req (sv_graph st) spec i (new_action aid now (rc_principal rc) req) = (a, es)"
  shows "evaluate_action d now rc req st = ((Some a, None), persist_evaluation d now (Some a) es (st\<lparr>sv_ids := n\<rparr>))"
  unfolding evaluate_action_def Let_def assms(4) by (simp add: assms(1-3,5))

lemma evaluate_no_error:
  assumes "evaluate_action d now rc req st = ((Some a, err), st')" and "act_status a \<noteq> ActionRejected"
  obtains spec i aid n es where "lookup_action (er_action_type req) = Some spec" "mode_valid (requested_mode req)"
    "so_get_incident (sd_store d) (sv_store st) (er_incident_id req) = Inr i"
    "new_id (sd_uuid d) PrefixAction (sv_ids st) = (aid, n)"
    "judge d now rc req (sv_graph st) spec i (new_action aid now (rc_principal rc) req) = (a, es)" "err = None"
proof -
  obtain aid n where nid: "new_id (sd_uuid d) PrefixAction (sv_ids st) = (aid, n)" by (metis surj_pair)
  show ?thesis
  proof (cases "lookup_action (er_action_type req)")
    case None
    then have "act_status a = ActionRejected"
      using assms(1) unfolding evaluate_action_def Let_def nid by (auto simp: reject_action_def)
    with assms(2) show ?thesis by simp
  next
    case (Some spec)
    show ?thesis
    proof (cases "mode_valid (requested_mode req)")
      case False
      then have "act_status a = ActionRejected"
        using assms(1) Some unfolding evaluate_action_def Let_def nid by (auto simp: reject_action_def)
      with assms(2) show ?thesis by simp
    next
      case True
      show ?thesis
      proof (cases "so_get_incident (sd_store d) (sv_store st) (er_incident_id req)")
        case (Inl e)
        then show ?thesis
          using assms(1) Some True unfolding evaluate_action_def Let_def nid by (auto split: if_splits)
      next
        case (Inr i)
        obtain x es where j: "judge d now rc req (sv_graph st) spec i (new_action aid now (rc_principal rc) req) = (x, es)"
          by (metis surj_pair)
        show ?thesis
          using assms(1) evaluate_judged [OF Some True Inr nid j] that [OF Some True Inr nid] j by auto
      qed
    qed
  qed
qed

text \<open>The most critical entity is critical exactly when some entity of the incident is.\<close>

lemma pick_critical_fold:
  assumes "snd (snd best) \<longleftrightarrow> fst best = 3" and "fst best \<le> 3"
  shows "snd (snd (fold pick_critical es best)) \<longleftrightarrow>
    snd (snd best) \<or> (\<exists>e \<in> set es. ref_criticality e = CriticalityCritical)"
  using assms
proof (induction es arbitrary: best)
  case (Cons e es)
  have "snd (snd (pick_critical e best)) \<longleftrightarrow> fst (pick_critical e best) = 3" "fst (pick_critical e best) \<le> 3"
    using Cons.prems criticality_rank_bounds [of "ref_criticality e"]
    by (auto simp: pick_critical_def criticality_rank_critical)
  moreover have "snd (snd (pick_critical e best)) \<longleftrightarrow> snd (snd best) \<or> ref_criticality e = CriticalityCritical"
    using Cons.prems criticality_rank_bounds [of "ref_criticality e"] criticality_rank_critical [of "ref_criticality e"]
    by (auto simp: pick_critical_def)
  ultimately show ?case using Cons.IH by auto
qed simp

lemma unrecommended_target_critical:
  "snd (resolve_action_target g i None) \<longleftrightarrow> (\<exists>e \<in> set (inc_entities i). ref_criticality e = CriticalityCritical)"
  using pick_critical_fold [of "(- 1, [], False)" "inc_entities i"] by (simp add: resolve_action_target_def)

text \<open>A kernel that never allows what the policy does not, and one that answers as the policy does.\<close>

definition cautious :: "(time \<Rightarrow> policy_input \<Rightarrow> policy_decision \<times> kernel_error option) \<Rightarrow> bool" where
  "cautious ev \<longleftrightarrow> (\<forall>now i. pd_effect (fst (ev now i)) = EffectAllow \<longrightarrow> policy_effect i = EffectAllow)"

definition serves_policy :: "(time \<Rightarrow> policy_input \<Rightarrow> policy_decision \<times> kernel_error option) \<Rightarrow> bool" where
  "serves_policy ev \<longleftrightarrow> (\<forall>now i. pd_effect (fst (ev now i)) = policy_effect i)"

definition denies_on_error :: "(time \<Rightarrow> policy_input \<Rightarrow> policy_decision \<times> kernel_error option) \<Rightarrow> bool" where
  "denies_on_error ev \<longleftrightarrow> (\<forall>now i. snd (ev now i) \<noteq> None \<longrightarrow> pd_effect (fst (ev now i)) = EffectDeny)"

lemma kernels_deny_on_error: "denies_on_error (embedded_evaluate k)" "denies_on_error (remote_evaluate c r)"
  using embedded.evaluate_closed [where k = k] remote.evaluate_closed [where c = c and k = r]
  unfolding denies_on_error_def by blast+

lemma embedded_serves_policy: "(\<And>i. embedded_serves k i) \<Longrightarrow> serves_policy (embedded_evaluate k)"
  unfolding serves_policy_def policy_effect_authorize
  by (metis embedded_serves_evaluate fst_conv option.inject policy_document_accepted)

lemma remote_serves_policy: "(\<And>i. remote_serves c k i) \<Longrightarrow> serves_policy (remote_evaluate c k)"
  unfolding serves_policy_def policy_effect_authorize
  by (metis remote_serves_evaluate fst_conv option.inject policy_document_accepted)

lemma serves_policy_cautious: "serves_policy ev \<Longrightarrow> cautious ev"
  by (simp add: serves_policy_def cautious_def)

text \<open>What the policy permits of the question about an action of the catalog.\<close>

lemma question_fields [simp]:
  "pi_action (question_of g spec i rc req) =
     \<lparr> ai_type = spec_type spec, ai_mode = requested_mode req, ai_known = True,
       ai_destructive = spec_destructive spec, ai_reversible = spec_reversible spec,
       ai_rollback_action = spec_rollback_action spec,
       ai_targets_critical_asset = snd (resolve_action_target g i (find_recommendation i (spec_type spec))),
       ai_isolation = spec_isolation spec,
       ai_target_entity_id = fst (resolve_action_target g i (find_recommendation i (spec_type spec))) \<rparr>"
  "ii_evidence_categories (pi_incident (question_of g spec i rc req)) = Some (evidence_categories i)"
  "ii_risk_score (pi_incident (question_of g spec i rc req)) = inc_risk_score i"
  "ri_automated (pi_request (question_of g spec i rc req)) \<longleftrightarrow> principal_zero (rc_principal rc) \<and> er_automated req"
  by (simp_all add: question_of_def policy_input_for_def Let_def split: prod.split)

lemma question_corroborated: "corroborated (question_of g spec i rc req) \<longleftrightarrow> 2 \<le> length (evidence_categories i)"
  by (simp add: corroborated_def evidence_categories_eq length_sorted_keys)

lemma question_permitted:
  "policy_effect (question_of g spec i rc req) = EffectAllow \<longleftrightarrow>
     \<not> spec_destructive spec \<and> requested_mode req = ModeSimulate \<and> spec_reversible spec \<and>
     spec_rollback_action spec \<noteq> [] \<and>
     \<not> snd (resolve_action_target g i (find_recommendation i (spec_type spec))) \<and>
     (\<not> (principal_zero (rc_principal rc) \<and> er_automated req) \<or>
      2 \<le> length (evidence_categories i) \<and> 40 \<le> inc_risk_score i)"
  by (simp add: policy_effect_authorize effect_authorize_iff question_corroborated)

lemma question_refused:
  "policy_effect (question_of g spec i rc req) = EffectDeny \<longleftrightarrow> spec_destructive spec \<or> \<not> mode_valid (requested_mode req)"
  by (auto simp: policy_effect_authorize effect_authorize_iff mode_valid_def)

definition ideal_evaluate :: "time \<Rightarrow> policy_input \<Rightarrow> policy_decision \<times> kernel_error option" where
  "ideal_evaluate now i =
     (case to_decision (policy_document i) EngineEmbedded now of
        Some d \<Rightarrow> (d, None)
      | None \<Rightarrow> (fail_closed EngineEmbedded ''malformed'' now, Some (plain_error ''malformed'')))"

lemma ideal_serves: "serves_policy ideal_evaluate"
  unfolding serves_policy_def
proof (intro allI)
  fix now i
  obtain d where "to_decision (policy_document i) EngineEmbedded now = Some d" "pd_effect d = effect_of (authorize i)"
    using policy_document_accepted by blast
  then show "pd_effect (fst (ideal_evaluate now i)) = policy_effect i"
    by (simp add: ideal_evaluate_def policy_effect_authorize)
qed

text \<open>No answer marks its action as executed, and the effect is described exactly when it was simulated.\<close>

lemma evaluation_never_executes:
  assumes "evaluate_action d now rc req st = ((Some a, err), st')"
  shows "act_executed_at a = None \<and> (act_simulated a \<noteq> None \<longleftrightarrow> act_status a = ActionSimulated)"
proof (cases "act_status a = ActionRejected")
  case True
  obtain aid n where nid: "new_id (sd_uuid d) PrefixAction (sv_ids st) = (aid, n)" by (metis surj_pair)
  have judged: "act_status x \<noteq> ActionRejected"
    if "judge d now rc req g spec i (new_action aid now (rc_principal rc) req) = (x, es)" for g spec i x es
    using judge_verdict(1) [OF that] by (auto simp: status_for_def)
  have "\<exists>reason. a = reject_action (new_action aid now (rc_principal rc) req) reason"
    using assms True judged unfolding evaluate_action_def Let_def nid
    by (auto split: option.splits sum.splits if_splits prod.splits)
  then show ?thesis by (auto simp: reject_action_def new_action_def)
next
  case False
  obtain spec i aid n es where
    j: "judge d now rc req (sv_graph st) spec i (new_action aid now (rc_principal rc) req) = (a, es)"
    by (rule evaluate_no_error [OF assms False])
  show ?thesis using judge_verdict(2) [OF j] judge_verdict(4) [OF j] by blast
qed


definition verdict_status :: "verdict \<Rightarrow> action_status" where
  "verdict_status v =
     (case v of Permit \<Rightarrow> ActionSimulated | AskHuman \<Rightarrow> ActionRequiresApproval | Refuse \<Rightarrow> ActionDenied)"

lemma status_for_authorize:
  "status_for (effect_of (authorize q)) (ai_mode (pi_action q)) = verdict_status (authorize q)"
  by (auto simp: status_for_def effect_of_def verdict_status_def authorize_def Let_def split: if_splits)

lemma evaluation_answered_any:
  fixes d :: "('raw, memory_store, store_error, 'c) service"
  assumes "sd_store d = memory_ops" and "store_wf (sv_store st)"
    and "lookup_action (er_action_type req) = Some spec" and "mode_valid (requested_mode req)"
    and "get_incident (sv_store st) (er_incident_id req) = Inr i"
  shows "\<exists>a st'. evaluate_action d now rc req st = ((Some a, None), st') \<and>
    act_status a = status_for (pd_effect (fst (sd_evaluate d now (question_of (sv_graph st) spec i rc req)))) (requested_mode req) \<and>
    act_requested_by a = actor_of (rc_principal rc) \<and> filed_action (sv_store st') (act_id a) = Some a"
proof -
  obtain aid where nid: "new_id (sd_uuid d) PrefixAction (sv_ids st) = (aid, Suc (sv_ids st))" "aid \<noteq> []"
    by (simp add: new_id_def)
  obtain a es where j: "judge d now rc req (sv_graph st) spec i (new_action aid now (rc_principal rc) req) = (a, es)"
    by (metis surj_pair)
  note v = judge_verdict [OF j]
  let ?st = "st\<lparr>sv_ids := Suc (sv_ids st)\<rparr>" and ?st' = "persist_evaluation d now (Some a) es (st\<lparr>sv_ids := Suc (sv_ids st)\<rparr>)"
  have "evaluate_action d now rc req st = ((Some a, None), ?st')"
    by (rule evaluate_judged [OF assms(3,4) _ nid(1) j]) (simp add: assms(1,5))
  moreover have "filed_action (sv_store ?st') (act_id a) = Some a"
    using memory.persist_law [where d = d and st = ?st and act = "Some a" and es = es and now = now]
      assms(1,2) judge_entries(2) [OF j] v(5) nid(2) by auto
  ultimately show ?thesis using v(1,6) by blast
qed

lemma status_of_policy:
  assumes "eff = policy_effect (question_of g spec i rc req)"
  shows "status_for eff (requested_mode req) = verdict_status (authorize (question_of g spec i rc req))"
  using status_for_authorize [of "question_of g spec i rc req"] by (simp add: assms policy_effect_authorize)

lemma evaluation_answered:
  fixes d :: "('raw, memory_store, store_error, 'c) service"
  assumes "serves_policy (sd_evaluate d)" and "sd_store d = memory_ops" and "store_wf (sv_store st)"
    and "lookup_action (er_action_type req) = Some spec" and "mode_valid (requested_mode req)"
    and "get_incident (sv_store st) (er_incident_id req) = Inr i"
  shows "\<exists>a st'. evaluate_action d now rc req st = ((Some a, None), st') \<and>
    act_status a = verdict_status (authorize (question_of (sv_graph st) spec i rc req)) \<and>
    act_requested_by a = actor_of (rc_principal rc) \<and> filed_action (sv_store st') (act_id a) = Some a"
  using evaluation_answered_any [OF assms(2-6), of now rc] status_of_policy assms(1)
  unfolding serves_policy_def by (metis (no_types))

lemma verdict_status_effect:
  "verdict_status (authorize q) =
     (if policy_effect q = EffectAllow then ActionSimulated
      else if policy_effect q = EffectDeny then ActionDenied
      else ActionRequiresApproval)"
  by (simp add: policy_effect_authorize effect_of_def verdict_status_def split: verdict.split)

text \<open>
  C7 (liveness): every well-formed request is answered, whatever the kernel says, and the answer is what
  the policy says when the kernel does. On the memory store a known action, a valid mode and a stored
  incident always yield an action without an error, attributed to the operator and on file. Where the
  kernel decides the question as the policy does, its status is that of the abstract verdict. Where the
  kernel reports an error it is denied, provided the kernel denies on errors, as both kernels of the
  program do (\<open>kernels_fail_closed\<close> in the theory \<open>Policy\<close>).
\<close>

theorem evaluation_follows_policy:
  fixes d :: "('raw, memory_store, store_error, 'c) service" and rc :: request_context
  assumes "sd_store d = memory_ops" and "store_wf (sv_store st)"
    and "lookup_action (er_action_type req) = Some spec" and "mode_valid (requested_mode req)"
    and "get_incident (sv_store st) (er_incident_id req) = Inr i"
  defines "q \<equiv> question_of (sv_graph st) spec i rc req"
  shows "\<exists>a st'. evaluate_action d now rc req st = ((Some a, None), st') \<and>
    act_requested_by a = actor_of (rc_principal rc) \<and> filed_action (sv_store st') (act_id a) = Some a \<and>
    (pd_effect (fst (sd_evaluate d now q)) = policy_effect q \<longrightarrow> act_status a = verdict_status (authorize q)) \<and>
    (denies_on_error (sd_evaluate d) \<and> snd (sd_evaluate d now q) \<noteq> None \<longrightarrow> act_status a = ActionDenied)"
proof -
  obtain a st' where a: "evaluate_action d now rc req st = ((Some a, None), st')"
    "act_status a = status_for (pd_effect (fst (sd_evaluate d now q))) (requested_mode req)"
    "act_requested_by a = actor_of (rc_principal rc)" "filed_action (sv_store st') (act_id a) = Some a"
    unfolding q_def using evaluation_answered_any [OF assms(1-5)] by blast
  moreover have "act_status a = verdict_status (authorize q)" if "pd_effect (fst (sd_evaluate d now q)) = policy_effect q"
    using a(2) that status_of_policy unfolding q_def by simp
  moreover have "act_status a = ActionDenied" if "denies_on_error (sd_evaluate d)" "snd (sd_evaluate d now q) \<noteq> None"
    using a(2) that by (simp add: denies_on_error_def status_for_def)
  ultimately show ?thesis by blast
qed

text \<open>A store with one incident that has no findings, and a request about it.\<close>

definition judged_service :: "(string, memory_store, store_error, unit) service" where
  "judged_service = sample_service\<lparr>sd_evaluate := ideal_evaluate\<rparr>"

definition judged_state :: "(memory_store, unit) service_state" where
  "judged_state = sample_state\<lparr>sv_store := the_store (save_incident (new_memory_store 10) active_incident)\<rparr>"

lemma judged_facts:
  "serves_policy (sd_evaluate judged_service)" "sd_store judged_service = memory_ops"
  "store_wf (sv_store judged_state)" "get_incident (sv_store judged_state) ''inc-0'' = Inr active_incident"
  "mode_valid (requested_mode sample_request)" "er_incident_id sample_request = ''inc-0''"
  "er_action_type sample_request = ''preserve_evidence''" "\<not> er_automated sample_request"
proof -
  let ?s = "the_store (save_incident (new_memory_store 10) active_incident)"
  have save: "save_incident (new_memory_store 10) active_incident = Inr ?s"
    by (simp add: save_incident_def active_incident_def new_incident_def Let_def the_store_def)
  show "store_wf (sv_store judged_state)"
    using store_step_wf [OF step_incident [OF save] new_memory_store_wf] by (simp add: judged_state_def)
  show "get_incident (sv_store judged_state) ''inc-0'' = Inr active_incident"
    using memory_incidents.get_saved [OF save] by (simp add: judged_state_def active_incident_def new_incident_def)
qed (simp_all add: judged_service_def sample_service_def ideal_serves sample_request_def requested_mode_def mode_valid_def)

lemma active_incident_fields [simp]:
  "inc_recommended_actions active_incident = []" "inc_entities active_incident = []" "inc_findings active_incident = []"
  "inc_risk_score active_incident = 0" "evidence_categories active_incident = []"
  by (simp_all add: active_incident_def new_incident_def evidence_categories_eq sorted_keys_def)

definition preserve_spec :: action_spec where
  "preserve_spec = the (lookup_action ''preserve_evidence'')"

lemma preserve_spec_facts:
  "lookup_action ''preserve_evidence'' = Some preserve_spec" "\<not> spec_destructive preserve_spec"
  "spec_reversible preserve_spec" "spec_rollback_action preserve_spec \<noteq> []" "spec_type preserve_spec = ''preserve_evidence''"
  by (simp_all add: preserve_spec_def lookup_action_def catalog_def safe_spec_def)

lemma sample_mode [simp]: "requested_mode sample_request = ModeSimulate"
  by (simp add: requested_mode_def sample_request_def)

lemma sample_permitted:
  "authorize (question_of (sv_graph judged_state) preserve_spec active_incident sample_context sample_request) = Permit"
proof -
  have "policy_effect (question_of (sv_graph judged_state) preserve_spec active_incident sample_context sample_request) = EffectAllow"
    unfolding question_permitted using preserve_spec_facts judged_facts(8)
    by (simp add: find_recommendation_def resolve_action_target_def)
  then show ?thesis by (auto simp: policy_effect_authorize effect_of_def split: verdict.splits)
qed

lemma sample_lookup: "lookup_action (er_action_type sample_request) = Some preserve_spec"
  by (simp add: judged_facts(7) preserve_spec_facts(1))

lemma sample_incident: "get_incident (sv_store judged_state) (er_incident_id sample_request) = Inr active_incident"
  by (simp add: judged_facts(4,6))

text \<open>The same service behind a kernel that is down.\<close>

definition down_service :: "(string, memory_store, store_error, unit) service" where
  "down_service = judged_service\<lparr>sd_evaluate := \<lambda>now i.
     (fail_closed EngineRemote ''connection refused'' now, Some (plain_error ''connection refused''))\<rparr>"

lemma down_facts: "sd_store down_service = memory_ops" "denies_on_error (sd_evaluate down_service)"
  "snd (sd_evaluate down_service now q) \<noteq> None"
  by (simp_all add: down_service_def judged_facts(2) denies_on_error_def fail_closed_def)

theorem evaluation_follows_policy_witness:
  "(\<exists>a st'. evaluate_action judged_service 9 sample_context sample_request judged_state = ((Some a, None), st') \<and>
     act_status a = ActionSimulated \<and> act_requested_by a = audit_system_actor) \<and>
   (\<exists>a st'. evaluate_action down_service 9 sample_context sample_request judged_state = ((Some a, None), st') \<and>
     act_status a = ActionDenied)"
proof
  have "verdict_status Permit = ActionSimulated" by (simp add: verdict_status_def)
  moreover have "actor_of (rc_principal sample_context) = audit_system_actor"
    by (simp add: actor_of_def sample_context_def zero_principal_def)
  ultimately show "\<exists>a st'. evaluate_action judged_service 9 sample_context sample_request judged_state = ((Some a, None), st') \<and>
     act_status a = ActionSimulated \<and> act_requested_by a = audit_system_actor"
    using evaluation_follows_policy [OF judged_facts(2,3) sample_lookup judged_facts(5) sample_incident,
        of 9 sample_context] sample_permitted judged_facts(1) unfolding serves_policy_def by metis
  show "\<exists>a st'. evaluate_action down_service 9 sample_context sample_request judged_state = ((Some a, None), st') \<and>
     act_status a = ActionDenied"
    using evaluation_follows_policy [OF down_facts(1) judged_facts(3) sample_lookup judged_facts(5) sample_incident,
        of 9 sample_context] down_facts(2,3) by blast
qed

text \<open>The answer to the sample request, for the other witnesses.\<close>

lemma sample_evaluation:
  obtains a st' where "evaluate_action judged_service 9 sample_context sample_request judged_state = ((Some a, None), st')"
    "act_status a = ActionSimulated"
proof -
  obtain aid n where nid: "new_id (sd_uuid judged_service) PrefixAction (sv_ids judged_state) = (aid, n)" by (metis surj_pair)
  obtain a es where j: "judge judged_service 9 sample_context sample_request (sv_graph judged_state) preserve_spec
      active_incident (new_action aid 9 (rc_principal sample_context) sample_request) = (a, es)" by (metis surj_pair)
  have "so_get_incident (sd_store judged_service) (sv_store judged_state) (er_incident_id sample_request) = Inr active_incident"
    by (simp add: judged_facts(2) sample_incident)
  from evaluate_judged [OF sample_lookup judged_facts(5) this nid j]
  show ?thesis
  proof (rule that)
    have "status_for EffectAllow ModeSimulate = ActionSimulated" by (simp add: status_for_def)
    then show "act_status a = ActionSimulated"
      using judge_verdict(1) [OF j] judged_facts(1) sample_permitted
      by (simp add: serves_policy_def policy_effect_authorize effect_of_def)
  qed
qed


text \<open>
  C16 (safety): what a caller writes in the body about itself does not count. The field that names who
  asks is never read: the same request under another name gives the same answer and the same trail.
  For a request that carries an operator the flag that calls it automated is not read either.
\<close>

theorem caller_claims_ignored:
  "evaluate_action d now rc (req\<lparr>er_requested_by := who\<rparr>) st = evaluate_action d now rc req st \<and>
   (principal_zero (rc_principal rc) \<or>
    evaluate_action d now rc (req\<lparr>er_automated := b\<rparr>) st = evaluate_action d now rc req st)"
proof -
  have base: "base_entry r rc (req\<lparr>er_requested_by := who\<rparr>) = base_entry r rc req"
    "base_entry r rc (req\<lparr>er_automated := b\<rparr>) = base_entry r rc req" for r
    by (intro ext; simp add: base_entry_def requested_mode_def)+
  have mode: "requested_mode (req\<lparr>er_requested_by := who\<rparr>) = requested_mode req"
    "requested_mode (req\<lparr>er_automated := b\<rparr>) = requested_mode req" by (simp_all add: requested_mode_def)
  have act: "new_action aid now p (req\<lparr>er_requested_by := who\<rparr>) = new_action aid now p req"
    "new_action aid now p (req\<lparr>er_automated := b\<rparr>) = new_action aid now p req" for aid p
    by (simp_all add: new_action_def mode)
  have who: "policy_input_for spec m t c i p (req\<lparr>er_requested_by := who\<rparr>) = policy_input_for spec m t c i p req"
    and auto: "\<not> principal_zero p \<Longrightarrow>
      policy_input_for spec m t c i p (req\<lparr>er_automated := b\<rparr>) = policy_input_for spec m t c i p req" for spec m t c i p
    by (simp_all add: policy_input_for_def)
  have fields: "er_action_type (req\<lparr>er_requested_by := who\<rparr>) = er_action_type req"
    "er_action_type (req\<lparr>er_automated := b\<rparr>) = er_action_type req"
    "er_mode (req\<lparr>er_requested_by := who\<rparr>) = er_mode req" "er_mode (req\<lparr>er_automated := b\<rparr>) = er_mode req"
    "er_incident_id (req\<lparr>er_requested_by := who\<rparr>) = er_incident_id req"
    "er_incident_id (req\<lparr>er_automated := b\<rparr>) = er_incident_id req" by simp_all
  have jw: "judge d now rc (req\<lparr>er_requested_by := who\<rparr>) = judge d now rc req"
    by (intro ext, unfold judge_def base mode who, rule refl)
  have ja: "judge d now rc (req\<lparr>er_automated := b\<rparr>) = judge d now rc req" if "\<not> principal_zero (rc_principal rc)"
    by (intro ext, unfold judge_def base mode auto [OF that], rule refl)
  have "evaluate_action d now rc (req\<lparr>er_requested_by := who\<rparr>) st = evaluate_action d now rc req st"
    unfolding evaluate_action_def base mode act fields jw by (rule refl)
  moreover have "evaluate_action d now rc (req\<lparr>er_automated := b\<rparr>) st = evaluate_action d now rc req st"
    if "\<not> principal_zero (rc_principal rc)"
    unfolding evaluate_action_def base mode act fields ja [OF that] by (rule refl)
  ultimately show ?thesis by blast
qed

text \<open>
  Without an operator the caller chooses the bar. The same request about the same incident,
  made by a component on nobody's behalf, needs a human when its body says that it is automated and is
  simulated at once when it says that it is not, however weak the evidence: the flag is derived only
  for requests that carry an operator.
\<close>

theorem unattributed_caller_chooses_bar:
  fixes d :: "('raw, memory_store, store_error, 'c) service"
  assumes "serves_policy (sd_evaluate d)" and "sd_store d = memory_ops" and "store_wf (sv_store st)"
    and "lookup_action (er_action_type req) = Some spec" and "requested_mode req = ModeSimulate"
    and "get_incident (sv_store st) (er_incident_id req) = Inr i"
    and "principal_zero (rc_principal rc)" and "\<not> spec_destructive spec" and "spec_reversible spec"
    and "\<not> snd (resolve_action_target (sv_graph st) i (find_recommendation i (spec_type spec)))"
    and "length (evidence_categories i) < 2"
  shows "\<exists>a b st1 st2.
    evaluate_action d now rc (req\<lparr>er_automated := True\<rparr>) st = ((Some a, None), st1) \<and> act_status a = ActionRequiresApproval \<and>
    evaluate_action d now rc (req\<lparr>er_automated := False\<rparr>) st = ((Some b, None), st2) \<and> act_status b = ActionSimulated"
proof -
  let ?r = "\<lambda>flag. req\<lparr>er_automated := flag\<rparr>"
  have mode: "requested_mode (?r flag) = ModeSimulate" for flag
    using assms(5) by (simp add: requested_mode_def split: if_splits)
  have answered: "\<exists>a st'. evaluate_action d now rc (?r flag) st = ((Some a, None), st') \<and>
      act_status a = verdict_status (authorize (question_of (sv_graph st) spec i rc (?r flag)))" for flag
    using evaluation_answered [OF assms(1,2,3), of "?r flag" spec i now rc] assms(4,6)
    by (auto simp: mode mode_valid_def)
  have "spec_rollback_action spec \<noteq> []" using catalog_spec(2) [OF assms(4)] assms(9) by simp
  then have "policy_effect (question_of (sv_graph st) spec i rc (?r False)) = EffectAllow"
    and "policy_effect (question_of (sv_graph st) spec i rc (?r True)) \<noteq> EffectAllow"
    and "policy_effect (question_of (sv_graph st) spec i rc (?r True)) \<noteq> EffectDeny"
    using assms(7-11) unfolding question_permitted question_refused mode by (simp_all add: mode_valid_def)
  then show ?thesis
    using answered [of True] answered [of False] unfolding verdict_status_effect by auto
qed

theorem unattributed_caller_chooses_bar_witness:
  "\<exists>a b st1 st2.
    evaluate_action judged_service 9 sample_context (sample_request\<lparr>er_automated := True\<rparr>) judged_state = ((Some a, None), st1) \<and>
    act_status a = ActionRequiresApproval \<and>
    evaluate_action judged_service 9 sample_context (sample_request\<lparr>er_automated := False\<rparr>) judged_state = ((Some b, None), st2) \<and>
    act_status b = ActionSimulated"
proof -
  have "principal_zero (rc_principal sample_context)"
    by (simp add: principal_zero_def sample_context_def zero_principal_def)
  moreover have "\<not> snd (resolve_action_target (sv_graph judged_state) active_incident
      (find_recommendation active_incident (spec_type preserve_spec)))"
    by (simp add: find_recommendation_def resolve_action_target_def)
  moreover have "length (evidence_categories active_incident) < 2" by simp
  ultimately show ?thesis
    using unattributed_caller_chooses_bar [OF judged_facts(1,2,3) sample_lookup sample_mode sample_incident]
      preserve_spec_facts(2,3) by blast
qed

end
