(* ===== verification/Httpx.thy ===== *)
theory Httpx
  imports Evaluation
begin

text \<open>
  The HTTP plumbing of \<^verbatim>\<open>src/internal/httpx\<close>: request identity, service authentication, the asserted
  operator, roles, content type, body limit, panics, access log and the rate limiter. A handler maps a
  request, the response written so far and a state to the way it ends and the new response and state;
  middleware maps handlers to handlers. SHA-256, the address parser and the token bucket are
  parameters.
\<close>

subsection \<open>Requests, responses and handlers\<close>

text \<open>
  The request as a handler sees it: what the client sent, and what middleware put into its context. A
  header that is absent reads as the empty string. The body is what a read delivers, \<^verbatim>\<open>None\<close> for a
  failing connection.
\<close>

record http_request =
  hr_method :: string
  hr_path :: string
  hr_headers :: "(string \<times> string) list"
  hr_query :: "(string \<times> string) list"
  hr_remote_addr :: string
  hr_body :: "string option"
  hr_max_bytes :: "int option"
  hr_request_id :: string
  hr_principal :: principal

definition header :: "http_request \<Rightarrow> string \<Rightarrow> string" where
  "header r k = (case map_of (hr_headers r) k of None \<Rightarrow> [] | Some v \<Rightarrow> v)"

definition query :: "http_request \<Rightarrow> string \<Rightarrow> string" where
  "query r k = (case map_of (hr_query r) k of None \<Rightarrow> [] | Some v \<Rightarrow> v)"

abbreviation CodeValidationFailed :: string where "CodeValidationFailed \<equiv> ''validation_failed''"
abbreviation CodeMalformedRequest :: string where "CodeMalformedRequest \<equiv> ''malformed_request''"
abbreviation CodeNotFound :: string where "CodeNotFound \<equiv> ''not_found''"
abbreviation CodeUnauthorized :: string where "CodeUnauthorized \<equiv> ''unauthorized''"
abbreviation CodeForbidden :: string where "CodeForbidden \<equiv> ''forbidden''"
abbreviation CodePayloadTooLarge :: string where "CodePayloadTooLarge \<equiv> ''payload_too_large''"
abbreviation CodeRateLimited :: string where "CodeRateLimited \<equiv> ''rate_limited''"
abbreviation CodeUnsupportedMedia :: string where "CodeUnsupportedMedia \<equiv> ''unsupported_media_type''"
abbreviation CodeInternal :: string where "CodeInternal \<equiv> ''internal_error''"

text \<open>The values the code puts into the details of an error.\<close>

datatype error_detail =
    DetailInt int | DetailBool bool | DetailStrings "string list" | DetailFields "(string \<times> string) list"

record error_body =
  eb_code :: string
  eb_message :: string
  eb_request_id :: string
  eb_details :: "(string \<times> error_detail) list"

text \<open>A response body: the error envelope, or a document of the API.\<close>

datatype 'd body = ErrorResponse error_body | Document 'd

text \<open>
  A response writer. The status is 0 until it is written; afterwards neither it nor the headers
  change, while further bodies are still appended.
\<close>

record 'd writer =
  wr_headers :: "(string \<times> string) list"
  wr_status :: int
  wr_body :: "'d body list"

definition new_writer :: "'d writer" where
  "new_writer = \<lparr> wr_headers = [], wr_status = 0, wr_body = [] \<rparr>"

definition set_header :: "string \<Rightarrow> string \<Rightarrow> 'd writer \<Rightarrow> 'd writer" where
  "set_header k v w = (if wr_status w = 0 then w\<lparr>wr_headers := AList.update k v (wr_headers w)\<rparr> else w)"

definition write_header :: "int \<Rightarrow> 'd writer \<Rightarrow> 'd writer" where
  "write_header status w = (if wr_status w = 0 then w\<lparr>wr_status := status\<rparr> else w)"

definition write_json :: "int \<Rightarrow> 'd body \<Rightarrow> 'd writer \<Rightarrow> 'd writer" where
  "write_json status b w =
     (let w1 = write_header status (set_header ''X-Content-Type-Options'' ''nosniff''
            (set_header ''Content-Type'' ''application/json; charset=utf-8'' w))
      in w1\<lparr>wr_body := wr_body w1 @ [b]\<rparr>)"

definition error_response :: "http_request \<Rightarrow> string \<Rightarrow> string \<Rightarrow> (string \<times> error_detail) list \<Rightarrow> error_body" where
  "error_response r code message details =
     \<lparr> eb_code = code, eb_message = message, eb_request_id = hr_request_id r, eb_details = details \<rparr>"

definition write_error ::
  "http_request \<Rightarrow> int \<Rightarrow> string \<Rightarrow> string \<Rightarrow> (string \<times> error_detail) list \<Rightarrow> 'd writer \<Rightarrow> 'd writer" where
  "write_error r status code message details w =
     write_json status (ErrorResponse (error_response r code message details)) w"

text \<open>
  How a handler ends: it returns, it panics with a value, here as the log prints it, or it panics with
  \<^verbatim>\<open>http.ErrAbortHandler\<close>, which \<^verbatim>\<open>Recover\<close> passes on.
\<close>

datatype ending = Returned | Panicked string | Aborted

type_synonym ('d, 'w) handler = "http_request \<Rightarrow> 'd writer \<times> 'w \<Rightarrow> ending \<times> 'd writer \<times> 'w"

text \<open>A handler that answers and returns.\<close>

definition answer :: "('d writer \<Rightarrow> 'd writer) \<Rightarrow> 'd writer \<times> 'w \<Rightarrow> ending \<times> 'd writer \<times> 'w" where
  "answer f st = (Returned, f (fst st), snd st)"

subsection \<open>Request identity\<close>

definition max_inbound_request_id_len :: nat where "max_inbound_request_id_len = 64"

definition request_id_char :: "char \<Rightarrow> bool" where
  "request_id_char c \<longleftrightarrow>
     97 \<le> byte c \<and> byte c \<le> 122 \<or> 65 \<le> byte c \<and> byte c \<le> 90 \<or> 48 \<le> byte c \<and> byte c \<le> 57 \<or>
     c \<in> {CHR ''-'', CHR ''_'', CHR ''.'', CHR '':''}"

definition sanitize_request_id :: "string \<Rightarrow> string" where
  "sanitize_request_id raw0 =
     (let raw = trim_space raw0 in
      if raw = [] \<or> length raw > max_inbound_request_id_len then []
      else if list_all request_id_char raw then raw else [])"

text \<open>\<open>draw_id\<close> draws an identifier from the UUID library.\<close>

definition request_id :: "('w \<Rightarrow> string \<times> 'w) \<Rightarrow> ('d, 'w) handler \<Rightarrow> ('d, 'w) handler" where
  "request_id draw_id nxt r st =
     (let wanted = sanitize_request_id (header r ''X-Request-Id'');
          (rid, w) = (if wanted = [] then draw_id (snd st) else (wanted, snd st))
      in nxt (r\<lparr>hr_request_id := rid\<rparr>) (set_header ''X-Request-Id'' rid (fst st), w))"

subsection \<open>Headers, limits and panics\<close>

definition security_headers :: "('d, 'w) handler \<Rightarrow> ('d, 'w) handler" where
  "security_headers nxt r st =
     nxt r (set_header ''Content-Security-Policy'' (''default-src 'none'; frame-ancestors 'none'' @ [CHR 0x27])
       (set_header ''Cache-Control'' ''no-store''
       (set_header ''Referrer-Policy'' ''no-referrer''
       (set_header ''X-Frame-Options'' ''DENY''
       (set_header ''X-Content-Type-Options'' ''nosniff'' (fst st))))), snd st)"

text \<open>The line that \<^verbatim>\<open>Recover\<close> logs at the level of an error, which \<open>emit\<close> adds to the log.\<close>

record panic_line =
  pn_request_id :: string
  pn_method :: string
  pn_path :: string
  pn_panic :: string

definition recover_panics :: "(panic_line \<Rightarrow> 'w \<Rightarrow> 'w) \<Rightarrow> ('d, 'w) handler \<Rightarrow> ('d, 'w) handler" where
  "recover_panics emit nxt r st =
     (case nxt r st of
        (Panicked v, wr, w) \<Rightarrow>
          (Returned, write_error r 500 CodeInternal
             ''The request could not be completed. Use the request_id when reporting this.'' [] wr,
           emit \<lparr> pn_request_id = hr_request_id r, pn_method = hr_method r, pn_path = hr_path r, pn_panic = v \<rparr> w)
      | other \<Rightarrow> other)"

definition max_bytes :: "int \<Rightarrow> ('d, 'w) handler \<Rightarrow> ('d, 'w) handler" where
  "max_bytes limit nxt r st = nxt (r\<lparr>hr_max_bytes := Some limit\<rparr>) st"

definition require_json :: "('d, 'w) handler \<Rightarrow> ('d, 'w) handler" where
  "require_json nxt r st =
     (let ct = header r ''Content-Type'' in
      if hr_method r \<in> {''POST'', ''PUT'', ''PATCH''} \<and> ct \<noteq> [] \<and>
         \<not> equal_fold (trim_space (takeWhile (\<lambda>c. c \<noteq> CHR '';'') ct)) ''application/json''
      then answer (write_error r 415 CodeUnsupportedMedia ''Request body must be application/json.'' []) st
      else nxt r st)"

text \<open>The access log: one line per request that returns, with a level chosen by the status.\<close>

datatype log_level = LevelInfo | LevelWarn | LevelError

record log_line =
  ll_level :: log_level
  ll_request_id :: string
  ll_method :: string
  ll_path :: string
  ll_status :: int
  ll_client :: string

definition client_ip :: "(string \<Rightarrow> string option) \<Rightarrow> http_request \<Rightarrow> string" where
  "client_ip split_host r = (case split_host (hr_remote_addr r) of None \<Rightarrow> hr_remote_addr r | Some h \<Rightarrow> h)"

definition access_log ::
  "(string \<Rightarrow> string option) \<Rightarrow> (log_line \<Rightarrow> 'w \<Rightarrow> 'w) \<Rightarrow> string list \<Rightarrow> ('d, 'w) handler \<Rightarrow> ('d, 'w) handler" where
  "access_log split_host emit skip_paths nxt r st =
     (if hr_path r \<in> set skip_paths then nxt r st
      else case nxt r st of
             (Returned, wr, w) \<Rightarrow>
               (let status = (if wr_status wr = 0 then 200 else wr_status wr);
                    level = (if status \<ge> 500 then LevelError else if status \<ge> 400 then LevelWarn else LevelInfo)
                in (Returned, wr, emit \<lparr> ll_level = level, ll_request_id = hr_request_id r, ll_method = hr_method r,
                      ll_path = hr_path r, ll_status = status, ll_client = client_ip split_host r \<rparr> w))
           | other \<Rightarrow> other)"

subsection \<open>Authentication and the operator\<close>

record service_auth =
  sa_digest :: string
  sa_exempt :: "string list"

definition new_service_auth :: "(string \<Rightarrow> string) \<Rightarrow> string \<Rightarrow> string list \<Rightarrow> service_auth" where
  "new_service_auth sha256 token exempt = \<lparr> sa_digest = sha256 token, sa_exempt = exempt \<rparr>"

definition authorized :: "(string \<Rightarrow> string) \<Rightarrow> service_auth \<Rightarrow> string \<Rightarrow> bool" where
  "authorized sha256 a hdr =
     (if length hdr \<le> 7 \<or> \<not> equal_fold (take 7 hdr) ''Bearer '' then False
      else sha256 (trim_space (drop 7 hdr)) = sa_digest a)"

definition authenticate :: "(string \<Rightarrow> string) \<Rightarrow> service_auth \<Rightarrow> ('d, 'w) handler \<Rightarrow> ('d, 'w) handler" where
  "authenticate sha256 a nxt r st =
     (if hr_path r \<in> set (sa_exempt a) then nxt r st
      else if \<not> authorized sha256 a (header r ''Authorization'') then
        answer (\<lambda>wr. write_error r 401 CodeUnauthorized ''Authentication is required.'' []
          (set_header ''WWW-Authenticate'' ''Bearer realm=\"griefer\"'' wr)) st
      else nxt r st)"

text \<open>The pattern \<^verbatim>\<open>^[A-Za-z0-9._:@-]{1,128}$\<close>.\<close>

definition principal_char :: "char \<Rightarrow> bool" where
  "principal_char c \<longleftrightarrow>
     65 \<le> byte c \<and> byte c \<le> 90 \<or> 97 \<le> byte c \<and> byte c \<le> 122 \<or> 48 \<le> byte c \<and> byte c \<le> 57 \<or>
     c \<in> {CHR ''.'', CHR ''_'', CHR '':'', CHR ''@'', CHR ''-''}"

definition principal_pattern :: "string \<Rightarrow> bool" where
  "principal_pattern s \<longleftrightarrow> 1 \<le> length s \<and> length s \<le> 128 \<and> list_all principal_char s"

definition principal_middleware :: "('d, 'w) handler \<Rightarrow> ('d, 'w) handler" where
  "principal_middleware nxt r st =
     (let subject = trim_space (header r ''X-Griefer-Actor''); role = trim_space (header r ''X-Griefer-Actor-Role'') in
      if subject = [] \<and> role = [] then nxt r st
      else if \<not> principal_pattern subject then
        answer (write_error r 400 CodeValidationFailed ''The asserted actor is not in an acceptable form.'' []) st
      else if role \<noteq> [] \<and> \<not> principal_pattern role then
        answer (write_error r 400 CodeValidationFailed ''The asserted actor role is not in an acceptable form.'' []) st
      else nxt (r\<lparr>hr_principal := \<lparr> pr_subject = subject, pr_role = role \<rparr>\<rparr>) st)"

definition require_role :: "string \<Rightarrow> ('d, 'w) handler \<Rightarrow> ('d, 'w) handler" where
  "require_role role nxt r st =
     (if principal_zero (hr_principal r) \<or> pr_role (hr_principal r) = role then nxt r st
      else answer (write_error r 403 CodeForbidden ''This account does not have access to that resource.'' []) st)"

text \<open>\<^verbatim>\<open>Chain\<close>: the first middleware is the outermost layer.\<close>

definition chain :: "('d, 'w) handler \<Rightarrow> (('d, 'w) handler \<Rightarrow> ('d, 'w) handler) list \<Rightarrow> ('d, 'w) handler" where
  "chain h ms = foldr (\<lambda>m acc. m acc) ms h"

subsection \<open>The rate limiter\<close>

text \<open>The token bucket of the rate library: how one is made, and how it takes a token.\<close>

record 'b token_bucket =
  tb_new :: "gofloat \<Rightarrow> int \<Rightarrow> 'b"
  tb_allow :: "time \<Rightarrow> 'b \<Rightarrow> bool \<times> 'b"

record 'b client_bucket =
  cb_limiter :: 'b
  cb_last_seen :: time

record 'b rate_limiter =
  rl_buckets :: "(string \<times> 'b client_bucket) list"
  rl_rps :: gofloat
  rl_burst :: int
  rl_ttl :: duration
  rl_max_hosts :: nat

definition max_tracked_clients :: nat where "max_tracked_clients = 10000"

definition new_rate_limiter :: "gofloat \<Rightarrow> int \<Rightarrow> 'b rate_limiter" where
  "new_rate_limiter rps burst =
     \<lparr> rl_buckets = [], rl_rps = (if rps \<le> Num 0 then Num 1 else rps), rl_burst = (if burst < 1 then 1 else burst),
       rl_ttl = 10 * minute, rl_max_hosts = max_tracked_clients \<rparr>"

definition evict_idle :: "time \<Rightarrow> 'b rate_limiter \<Rightarrow> 'b rate_limiter" where
  "evict_idle now l =
     l\<lparr>rl_buckets := filter (\<lambda>kb. \<not> time_sub now (cb_last_seen (snd kb)) > rl_ttl l) (rl_buckets l)\<rparr>"

definition take_token ::
  "'b token_bucket \<Rightarrow> time \<Rightarrow> string \<Rightarrow> 'b client_bucket \<Rightarrow> 'b rate_limiter \<Rightarrow> bool \<times> 'b rate_limiter" where
  "take_token tb now client b l =
     (let (ok, lim) = tb_allow tb now (cb_limiter b)
      in (ok, l\<lparr>rl_buckets := AList.update client \<lparr> cb_limiter = lim, cb_last_seen = now \<rparr> (rl_buckets l)\<rparr>))"

definition allow_client ::
  "'b token_bucket \<Rightarrow> time \<Rightarrow> string \<Rightarrow> 'b rate_limiter \<Rightarrow> bool \<times> 'b rate_limiter" where
  "allow_client tb now client l =
     (case map_of (rl_buckets l) client of
        Some b \<Rightarrow> take_token tb now client b l
      | None \<Rightarrow>
          let l1 = (if length (rl_buckets l) \<ge> rl_max_hosts l then evict_idle now l else l)
          in if length (rl_buckets l1) \<ge> rl_max_hosts l1 then (False, l1)
             else take_token tb now client
                    \<lparr> cb_limiter = tb_new tb (rl_rps l1) (rl_burst l1), cb_last_seen = now \<rparr> l1)"

definition rate_limit ::
  "(string \<Rightarrow> string option) \<Rightarrow> (string \<Rightarrow> 'w \<Rightarrow> bool \<times> 'w) \<Rightarrow> ('d, 'w) handler \<Rightarrow> ('d, 'w) handler" where
  "rate_limit split_host allow nxt r st =
     (let (ok, w) = allow (client_ip split_host r) (snd st) in
      if \<not> ok then
        answer (\<lambda>wr. write_error r 429 CodeRateLimited ''Too many requests. Slow down and retry.'' []
          (set_header ''Retry-After'' ''1'' wr)) (fst st, w)
      else nxt r (fst st, w))"

subsection \<open>The limiter's own memory\<close>

definition limiter_wf :: "'b rate_limiter \<Rightarrow> bool" where
  "limiter_wf l \<longleftrightarrow> distinct (map fst (rl_buckets l)) \<and> length (rl_buckets l) \<le> rl_max_hosts l"

lemma length_update: "length (AList.update k v m) = (if k \<in> fst ` set m then length m else Suc (length m))"
  by (induction m) auto

lemma evict_idle_wf: "limiter_wf l \<Longrightarrow> limiter_wf (evict_idle now l)"
  by (auto simp: limiter_wf_def evict_idle_def distinct_map_filter intro: order_trans [OF length_filter_le])

lemma take_token_fields:
  assumes "take_token tb now client b l = (ok, l')"
  shows "rl_max_hosts l' = rl_max_hosts l" "rl_ttl l' = rl_ttl l"
    "\<exists>lim. rl_buckets l' = AList.update client \<lparr> cb_limiter = lim, cb_last_seen = now \<rparr> (rl_buckets l)"
  using assms by (auto simp: take_token_def split: prod.splits)

lemma allow_client_cases:
  assumes "allow_client tb now client l = (ok, l')"
  obtains (known) b where "map_of (rl_buckets l) client = Some b" "take_token tb now client b l = (ok, l')"
  | (full) "map_of (rl_buckets l) client = None" "l' = evict_idle now l \<or> l' = l"
  | (added) l1 b where "map_of (rl_buckets l) client = None" "l1 = l \<or> l1 = evict_idle now l"
      "length (rl_buckets l1) < rl_max_hosts l1" "take_token tb now client b l1 = (ok, l')"
  using assms by (auto simp: allow_client_def Let_def not_le split: option.splits if_splits)

lemma allow_client_wf:
  assumes "limiter_wf l" and "allow_client tb now client l = (ok, l')"
  shows "limiter_wf l' \<and> rl_max_hosts l' = rl_max_hosts l \<and> rl_ttl l' = rl_ttl l"
  using assms(2)
proof (cases rule: allow_client_cases)
  case (known b)
  then have "client \<in> fst ` set (rl_buckets l)" by (blast intro: map_of_Some_keys)
  then show ?thesis
    using take_token_fields [OF known(2)] assms(1) unfolding limiter_wf_def length_update
    by (elim exE) (simp add: length_update)
next
  case full
  then show ?thesis using evict_idle_wf [OF assms(1)] assms(1) by (auto simp: evict_idle_def)
next
  case (added l1 b)
  then have "limiter_wf l1" "rl_max_hosts l1 = rl_max_hosts l" "rl_ttl l1 = rl_ttl l"
    using evict_idle_wf [OF assms(1)] assms(1) by (auto simp: evict_idle_def)
  then show ?thesis using take_token_fields [OF added(4)] added(3) by (auto simp: limiter_wf_def length_update)
qed

text \<open>Another client's request leaves the bucket of an active client alone.\<close>

lemma allow_client_keeps:
  assumes "limiter_wf l" and "allow_client tb now other l = (ok, l')" and "other \<noteq> client"
    and "map_of (rl_buckets l) client = Some b" and "time_sub now (cb_last_seen b) \<le> rl_ttl l"
  shows "map_of (rl_buckets l') client = Some b"
proof -
  have evict: "map_of (rl_buckets (evict_idle now l)) client = Some b"
  proof -
    have "(client, b) \<in> set (rl_buckets l)" using assms(4) by (rule map_of_SomeD)
    then have "(client, b) \<in> set (rl_buckets (evict_idle now l))" using assms(5) by (simp add: evict_idle_def)
    then show ?thesis using evict_idle_wf [OF assms(1)] by (simp add: limiter_wf_def)
  qed
  from assms(2) show ?thesis
  proof (cases rule: allow_client_cases)
    case (known b')
    then show ?thesis using take_token_fields(3) [OF known(2)] assms(3,4) by auto
  next
    case full
    then show ?thesis using evict assms(4) by auto
  next
    case (added l1 b')
    then show ?thesis using take_token_fields(3) [OF added(4)] evict assms(3,4) by auto
  qed
qed

definition allow_all :: "'b token_bucket \<Rightarrow> (time \<times> string) list \<Rightarrow> 'b rate_limiter \<Rightarrow> 'b rate_limiter" where
  "allow_all tb reqs l = fold (\<lambda>tc acc. snd (allow_client tb (fst tc) (snd tc) acc)) reqs l"


definition sample_bucket :: "nat token_bucket" where
  "sample_bucket = \<lparr> tb_new = (\<lambda>rps burst. nat burst), tb_allow = (\<lambda>now n. (n > 0, n - 1)) \<rparr>"


end
