(* ===== verification/Handlers.thy ===== *)
theory Handlers
  imports Httpx
begin

text \<open>
  The endpoints of \<^verbatim>\<open>src/internal/api/handlers.go\<close>: each reads its request, calls the service or the
  store, and writes one response. The JSON decoders of the two structured bodies are parameters.
\<close>

subsection \<open>Documents\<close>

record component_status =
  cs_name :: string
  cs_kind :: string
  cs_healthy :: bool
  cs_required :: bool
  cs_detail :: string

record readiness_response =
  rr_status :: string
  rr_version :: string
  rr_time :: time
  rr_components :: "component_status list"
  rr_response_mode :: string
  rr_simulation_only :: bool

record system_status =
  sy_readiness :: readiness_response
  sy_events :: int
  sy_incidents :: int
  sy_entities :: int
  sy_edges :: int
  sy_rules :: int

record batch_item =
  bi_index :: int
  bi_status :: string
  bi_result :: "ingest_result option"
  bi_error :: "error_body option"

record batch_response =
  br_accepted :: int
  br_rejected :: int
  br_results :: "batch_item list"

record entity_response =
  en_entity :: entity
  en_edges :: "edge list"
  en_blast_radius :: blast_radius

record 'a page =
  pg_items :: "'a list"
  pg_total :: int
  pg_limit :: int
  pg_offset :: int

datatype document =
    HealthDoc string time | ReadinessDoc readiness_response | StatusDoc system_status | MetricsDoc
  | IngestDoc ingest_result | BatchDoc batch_response | EventsDoc "security_event page"
  | IncidentsDoc "incident page" | IncidentDoc incident | EntityDoc entity_response
  | ActionDoc response_action | ActionsDoc "response_action page" | AuditDoc "audit_entry page"

abbreviation api_version :: string where "api_version \<equiv> ''0.1.0''"

subsection \<open>Reading requests\<close>

text \<open>\<^verbatim>\<open>strconv.Atoi\<close>: an optional sign and decimal digits within the range of a 64-bit integer.\<close>

definition atoi :: "string \<Rightarrow> int option" where
  "atoi s =
     (let neg = (s \<noteq> [] \<and> hd s = CHR ''-'');
          ds = (if s \<noteq> [] \<and> (hd s = CHR ''-'' \<or> hd s = CHR ''+'') then tl s else s);
          v = (if neg then - int (nat_of_digits ds) else int (nat_of_digits ds))
      in if ds = [] \<or> \<not> list_all is_digit ds then None
         else if v < - (2 ^ 63) \<or> 2 ^ 63 \<le> v then None
         else Some v)"

definition atoi_or :: "string \<Rightarrow> int \<Rightarrow> int" where
  "atoi_or raw fallback = (if raw = [] then fallback else case atoi raw of None \<Rightarrow> fallback | Some v \<Rightarrow> v)"

definition pagination :: "http_request \<Rightarrow> int \<times> int" where
  "pagination r =
     (let limit = clamp_limit (atoi_or (query r ''limit'') default_page_size);
          offset = atoi_or (query r ''offset'') 0
      in (limit, if offset < 0 then 0 else offset))"

text \<open>The body, or the response that says why there is none.\<close>

definition read_body :: "http_request \<Rightarrow> 'd writer \<Rightarrow> 'd writer + string" where
  "read_body r wr =
     (case hr_body r of
        None \<Rightarrow> Inl (write_error r 400 CodeMalformedRequest ''Request body could not be read.'' [] wr)
      | Some raw \<Rightarrow>
          (case hr_max_bytes r of
             Some limit \<Rightarrow>
               if int (length raw) > limit then
                 Inl (write_error r 413 CodePayloadTooLarge
                   (''Request body exceeds the '' @ show_int limit @ '' byte limit.'') [(''max_bytes'', DetailInt limit)] wr)
               else if raw = [] then Inl (write_error r 400 CodeMalformedRequest ''Request body is empty.'' [] wr)
               else Inr raw
           | None \<Rightarrow>
               if raw = [] then Inl (write_error r 400 CodeMalformedRequest ''Request body is empty.'' [] wr)
               else Inr raw))"

definition context_of :: "http_request \<Rightarrow> request_context" where
  "context_of r = \<lparr> rc_request_id = hr_request_id r, rc_principal = hr_principal r \<rparr>"

definition write_internal :: "http_request \<Rightarrow> 'd writer \<Rightarrow> 'd writer" where
  "write_internal r wr =
     write_error r 500 CodeInternal ''The request could not be completed. Use the request_id when reporting this.'' [] wr"

subsection \<open>Health\<close>

definition handle_health :: "time \<Rightarrow> (document, 'w) handler" where
  "handle_health now r st = answer (write_json 200 (Document (HealthDoc api_version now))) st"

definition check_store :: "(string, 's, 'e, 'c) service \<Rightarrow> 's \<Rightarrow> component_status" where
  "check_store d s =
     (let ok = (so_ping (sd_store d) s = None) in
      \<lparr> cs_name = ''storage'', cs_kind = so_kind (sd_store d), cs_healthy = ok, cs_required = True,
        cs_detail = (if ok then [] else ''storage is unreachable'') \<rparr>)"

definition check_kernel :: "(string, 's, 'e, 'c) service \<Rightarrow> time \<Rightarrow> component_status" where
  "check_kernel d now =
     \<lparr> cs_name = ''policy_kernel'', cs_kind = sd_kernel_name d, cs_healthy = sd_kernel_healthy d now, cs_required = True,
       cs_detail = (if sd_kernel_healthy d now then []
         else ''policy kernel cannot evaluate; response actions will fail closed'') \<rparr>"

definition check_bus :: "(string, 's, 'e, 'c) service \<Rightarrow> component_status" where
  "check_bus d =
     \<lparr> cs_name = ''event_bus'', cs_kind = sd_bus_kind d, cs_healthy = sd_bus_healthy d, cs_required = False,
       cs_detail = (if sd_bus_healthy d then [] else ''event bus is unavailable; ingestion continues without fan-out'') \<rparr>"

definition readiness ::
  "(string, 's, 'e, 'c) service \<Rightarrow> time \<Rightarrow> ('s, 'c) service_state \<Rightarrow> readiness_response" where
  "readiness d now st =
     (let cs = [check_store d (sv_store st), check_kernel d now, check_bus d] in
      \<lparr> rr_status = (if list_ex (\<lambda>c. cs_required c \<and> \<not> cs_healthy c) cs then ''degraded'' else ''ready''),
        rr_version = api_version, rr_time = now, rr_components = cs,
        rr_response_mode = ModeSimulate, rr_simulation_only = True \<rparr>)"

definition handle_ready ::
  "(string, 's, 'e, 'c) service \<Rightarrow> time \<Rightarrow> (document, ('s, 'c) service_state) handler" where
  "handle_ready d now r st =
     (let b = readiness d now (snd st)
      in answer (write_json (if rr_status b \<noteq> ''ready'' then 503 else 200) (Document (ReadinessDoc b))) st)"

definition handle_system_status ::
  "(string, 's, 'e, 'c) service \<Rightarrow> time \<Rightarrow> (document, ('s, 'c) service_state) handler" where
  "handle_system_status d now r st =
     (let s = sv_store (snd st); ops = sd_store d;
          filt = \<lparr> fl_status = StatusOpen, fl_severity = [], fl_min_risk_score = 0, fl_limit = 1, fl_offset = 0 \<rparr>
      in answer (write_json 200 (Document (StatusDoc
           \<lparr> sy_readiness = readiness d now (snd st),
             sy_events = (case so_count_events ops s of Inl _ \<Rightarrow> 0 | Inr n \<Rightarrow> n),
             sy_incidents = (case so_list_incidents ops s filt of Inl _ \<Rightarrow> 0 | Inr p \<Rightarrow> snd p),
             sy_entities = fst (graph_size (sv_graph (snd st))), sy_edges = snd (graph_size (sv_graph (snd st))),
             sy_rules = sd_rule_count d \<rparr>))) st)"

subsection \<open>Events\<close>

definition ingest_error_body :: "http_request \<Rightarrow> 'e ingest_error \<Rightarrow> error_body" where
  "ingest_error_body r err =
     (case err of
        IngestInvalid v \<Rightarrow>
          error_response r CodeValidationFailed ''Event does not conform to the GRIEFER event schema.''
            ((''errors'', DetailFields (v_errors v)) # (if v_truncated v then [(''truncated'', DetailBool True)] else []))
      | IngestTimestamp t \<Rightarrow> error_response r CodeValidationFailed (timestamp_error_text t) []
      | IngestPersist _ \<Rightarrow>
          error_response r CodeInternal ''The event could not be processed. Use the request_id when reporting this.'' [])"

definition write_ingest_error :: "http_request \<Rightarrow> 'e ingest_error \<Rightarrow> 'd writer \<Rightarrow> 'd writer" where
  "write_ingest_error r err wr =
     (let b = ingest_error_body r err
      in write_json (if eb_code b = CodeInternal then 500 else 400) (ErrorResponse b) wr)"

definition handle_ingest_event ::
  "(string, 's, 'e, 'c) service \<Rightarrow> time \<Rightarrow> (document, ('s, 'c) service_state) handler" where
  "handle_ingest_event d now r st =
     (case read_body r (fst st) of
        Inl wr \<Rightarrow> (Returned, wr, snd st)
      | Inr raw \<Rightarrow>
          (case ingest d now (context_of r) raw (snd st) of
             (Inl err, sv) \<Rightarrow> (Returned, write_ingest_error r err (fst st), sv)
           | (Inr res, sv) \<Rightarrow> (Returned, write_json 202 (Document (IngestDoc res)) (fst st), sv)))"

text \<open>The events of a batch are ingested one after the other, whatever becomes of each.\<close>

fun ingest_items ::
  "(string, 's, 'e, 'c) service \<Rightarrow> time \<Rightarrow> http_request \<Rightarrow> int \<Rightarrow> string list \<Rightarrow> ('s, 'c) service_state \<Rightarrow>
     batch_item list \<times> ('s, 'c) service_state" where
  "ingest_items d now r i [] st = ([], st)"
| "ingest_items d now r i (x # xs) st =
     (let (res, st1) = ingest d now (context_of r) x st;
          item = (case res of
             Inl err \<Rightarrow> \<lparr> bi_index = i, bi_status = ''rejected'', bi_result = None, bi_error = Some (ingest_error_body r err) \<rparr>
           | Inr y \<Rightarrow> \<lparr> bi_index = i, bi_status = ''accepted'', bi_result = Some y, bi_error = None \<rparr>);
          (items, st2) = ingest_items d now r (i + 1) xs st1
      in (item # items, st2))"

definition batch_of :: "batch_item list \<Rightarrow> batch_response" where
  "batch_of items =
     \<lparr> br_accepted = int (length (filter (\<lambda>x. bi_error x = None) items)),
       br_rejected = int (length (filter (\<lambda>x. bi_error x \<noteq> None) items)), br_results = items \<rparr>"

definition batch_status :: "batch_response \<Rightarrow> int" where
  "batch_status b = (if br_rejected b = 0 then 202 else if br_accepted b = 0 then 400 else 207)"

definition handle_ingest_batch ::
  "(string \<Rightarrow> string list option) \<Rightarrow> (string, 's, 'e, 'c) service \<Rightarrow> time \<Rightarrow>
     (document, ('s, 'c) service_state) handler" where
  "handle_ingest_batch decode d now r st =
     (case read_body r (fst st) of
        Inl wr \<Rightarrow> (Returned, wr, snd st)
      | Inr raw \<Rightarrow>
          (case decode raw of
             None \<Rightarrow> answer (write_error r 400 CodeMalformedRequest
               ''Request body must be a JSON object with an \"events\" array.'' []) st
           | Some evs \<Rightarrow>
               if evs = [] then answer (write_error r 400 CodeValidationFailed
                 ''The \"events\" array must contain at least one event.'' []) st
               else if int (length evs) > sd_max_batch_events d then
                 answer (write_error r 413 CodePayloadTooLarge
                   (''A batch may contain at most '' @ show_int (sd_max_batch_events d) @ '' events; received ''
                     @ show_nat (length evs) @ ''.'')
                   [(''max_events'', DetailInt (sd_max_batch_events d)), (''received'', DetailInt (int (length evs)))]) st
               else
                 let (items, sv) = ingest_items d now r 0 evs (snd st); b = batch_of items
                 in (Returned, write_json (batch_status b) (Document (BatchDoc b)) (fst st), sv)))"

text \<open>A page of a listing, or the opaque internal error.\<close>

definition answer_page ::
  "http_request \<Rightarrow> ('a page \<Rightarrow> document) \<Rightarrow> int \<times> int \<Rightarrow> 'e + 'a list \<times> int \<Rightarrow> document writer \<times> 'w \<Rightarrow>
     ending \<times> document writer \<times> 'w" where
  "answer_page r doc lo listed st =
     (case listed of
        Inl _ \<Rightarrow> answer (write_internal r) st
      | Inr p \<Rightarrow> answer (write_json 200 (Document (doc
          \<lparr> pg_items = fst p, pg_total = snd p, pg_limit = fst lo, pg_offset = snd lo \<rparr>))) st)"

definition handle_list_events ::
  "(string, 's, 'e, 'c) service \<Rightarrow> (document, ('s, 'c) service_state) handler" where
  "handle_list_events d r st =
     (let lo = pagination r in answer_page r EventsDoc lo (so_list_events (sd_store d) (sv_store (snd st)) (fst lo) (snd lo)) st)"

subsection \<open>Incidents and entities\<close>

definition valid_incident_status :: "string \<Rightarrow> bool" where
  "valid_incident_status s \<longleftrightarrow> s \<in> {StatusOpen, StatusInvestigating, StatusContained, StatusClosed}"

text \<open>The risk filter of a listing: absent, an integer in range, or a mistake.\<close>

definition min_risk_param :: "http_request \<Rightarrow> int option" where
  "min_risk_param r =
     (if query r ''min_risk_score'' = [] then Some 0
      else case atoi (query r ''min_risk_score'') of
             None \<Rightarrow> None
           | Some v \<Rightarrow> if v < 0 \<or> v > 100 then None else Some v)"

definition handle_list_incidents ::
  "(string, 's, 'e, 'c) service \<Rightarrow> (document, ('s, 'c) service_state) handler" where
  "handle_list_incidents d r st =
     (let lo = pagination r; status = query r ''status''; sev = query r ''severity'' in
      case min_risk_param r of
        None \<Rightarrow> answer (write_error r 400 CodeValidationFailed
          ''Query parameter \"min_risk_score\" must be an integer between 0 and 100.'' []) st
      | Some risk \<Rightarrow>
          if status \<noteq> [] \<and> \<not> valid_incident_status status then
            answer (write_error r 400 CodeValidationFailed
              ''Query parameter \"status\" must be one of: open, investigating, contained, closed.'' []) st
          else if sev \<noteq> [] \<and> \<not> severity_valid sev then
            answer (write_error r 400 CodeValidationFailed
              ''Query parameter \"severity\" must be one of: informational, low, medium, high, critical.'' []) st
          else answer_page r IncidentsDoc lo (so_list_incidents (sd_store d) (sv_store (snd st))
                 \<lparr> fl_status = status, fl_severity = sev, fl_min_risk_score = risk, fl_limit = fst lo, fl_offset = snd lo \<rparr>) st)"

text \<open>A record that was looked up, the 404 of a missing one, or the internal error.\<close>

definition answer_found ::
  "http_request \<Rightarrow> ('e \<Rightarrow> bool) \<Rightarrow> string \<Rightarrow> ('a \<Rightarrow> document) \<Rightarrow> 'e + 'a \<Rightarrow> document writer \<times> 'w \<Rightarrow>
     ending \<times> document writer \<times> 'w" where
  "answer_found r not_found what doc found st =
     (case found of
        Inl err \<Rightarrow>
          if not_found err then answer (write_error r 404 CodeNotFound (what @ '' not found.'') []) st
          else answer (write_internal r) st
      | Inr x \<Rightarrow> answer (write_json 200 (Document (doc x))) st)"

definition handle_get_incident ::
  "(string, 's, 'e, 'c) service \<Rightarrow> string \<Rightarrow> (document, ('s, 'c) service_state) handler" where
  "handle_get_incident d pid r st =
     answer_found r (so_is_not_found (sd_store d)) ''Incident'' IncidentDoc
       (so_get_incident (sd_store d) (sv_store (snd st)) pid) st"

definition handle_get_entity :: "string \<Rightarrow> (document, ('s, 'c) service_state) handler" where
  "handle_get_entity pid r st =
     (let g = sv_graph (snd st) in
      case get_entity g pid of
        None \<Rightarrow> answer (write_error r 404 CodeNotFound ''Entity not found in the Security Graph.'' []) st
      | Some e \<Rightarrow> answer (write_json 200 (Document (EntityDoc
          \<lparr> en_entity = e, en_edges = neighbours g pid,
            en_blast_radius = estimate_blast_radius g [pid] (int default_max_hops) \<rparr>))) st)"

subsection \<open>Actions and audit\<close>

definition evaluation_answer ::
  "http_request \<Rightarrow> response_action option \<times> 'e evaluate_error option \<Rightarrow> document writer \<Rightarrow> document writer" where
  "evaluation_answer r res wr =
     (case res of
        (_, Some (UnknownActionType _)) \<Rightarrow>
          write_error r 400 CodeValidationFailed ''Unknown action type.''
            [(''allowed_action_types'', DetailStrings known_action_types)] wr
      | (_, Some IncidentNotFound) \<Rightarrow> write_error r 404 CodeNotFound ''Incident not found.'' [] wr
      | (Some a, Some _) \<Rightarrow>
          if act_status a = ActionRejected then write_error r 400 CodeValidationFailed (act_reason a) [] wr
          else write_internal r wr
      | (None, Some _) \<Rightarrow> write_internal r wr
      | (Some a, None) \<Rightarrow>
          write_json 200 (Document (ActionDoc a))
            (if (case act_policy_decision a of None \<Rightarrow> False | Some p \<Rightarrow> pd_fail_closed p)
             then set_header ''X-Griefer-Policy-Degraded'' ''true'' wr else wr)
      | (None, None) \<Rightarrow> wr)"

definition handle_evaluate_action ::
  "(string \<Rightarrow> evaluate_request option) \<Rightarrow> (string, 's, 'e, 'c) service \<Rightarrow> time \<Rightarrow>
     (document, ('s, 'c) service_state) handler" where
  "handle_evaluate_action decode d now r st =
     (case read_body r (fst st) of
        Inl wr \<Rightarrow> (Returned, wr, snd st)
      | Inr raw \<Rightarrow>
          (case decode raw of
             None \<Rightarrow> answer (write_error r 400 CodeMalformedRequest
               ''Request body must be a JSON object with incident_id, action_type and optional mode, requested_by, automated.'' []) st
           | Some req \<Rightarrow>
               if trim_space (er_incident_id req) = [] \<or> trim_space (er_action_type req) = [] then
                 answer (write_error r 400 CodeValidationFailed
                   ''Fields \"incident_id\" and \"action_type\" are required.'' []) st
               else
                 (case evaluate_action d now (context_of r) req (snd st) of
                    (res, sv) \<Rightarrow> (Returned, evaluation_answer r res (fst st), sv))))"

definition handle_get_action ::
  "(string, 's, 'e, 'c) service \<Rightarrow> string \<Rightarrow> (document, ('s, 'c) service_state) handler" where
  "handle_get_action d pid r st =
     answer_found r (so_is_not_found (sd_store d)) ''Response action'' ActionDoc
       (so_get_action (sd_store d) (sv_store (snd st)) pid) st"

definition handle_list_actions ::
  "(string, 's, 'e, 'c) service \<Rightarrow> (document, ('s, 'c) service_state) handler" where
  "handle_list_actions d r st =
     (let lo = pagination r
      in answer_page r ActionsDoc lo
           (so_list_actions (sd_store d) (sv_store (snd st)) (query r ''incident_id'') (fst lo) (snd lo)) st)"

definition handle_list_audit ::
  "(string, 's, 'e, 'c) service \<Rightarrow> (document, ('s, 'c) service_state) handler" where
  "handle_list_audit d r st =
     (let lo = pagination r in answer_page r AuditDoc lo (so_list_audit (sd_store d) (sv_store (snd st)) (fst lo) (snd lo)) st)"

subsection \<open>A batch is its events in order\<close>

definition state_after ::
  "(string, 's, 'e, 'c) service \<Rightarrow> time \<Rightarrow> http_request \<Rightarrow> string list \<Rightarrow> ('s, 'c) service_state \<Rightarrow> ('s, 'c) service_state" where
  "state_after d now r xs st = fold (\<lambda>x s. snd (ingest d now (context_of r) x s)) xs st"

definition item_for :: "http_request \<Rightarrow> int \<Rightarrow> 'e ingest_error + ingest_result \<Rightarrow> batch_item" where
  "item_for r i res =
     (case res of
        Inl err \<Rightarrow> \<lparr> bi_index = i, bi_status = ''rejected'', bi_result = None, bi_error = Some (ingest_error_body r err) \<rparr>
      | Inr y \<Rightarrow> \<lparr> bi_index = i, bi_status = ''accepted'', bi_result = Some y, bi_error = None \<rparr>)"

lemma ingest_items_nth:
  "length (fst (ingest_items d now r i xs st)) = length xs \<and>
   snd (ingest_items d now r i xs st) = state_after d now r xs st \<and>
   (\<forall>k < length xs. fst (ingest_items d now r i xs st) ! k =
      item_for r (i + int k) (fst (ingest d now (context_of r) (xs ! k) (state_after d now r (take k xs) st))))"
proof (induction xs arbitrary: i st)
  case (Cons x xs)
  obtain res st1 where x: "ingest d now (context_of r) x st = (res, st1)" by (metis surj_pair)
  obtain items st2 where xs: "ingest_items d now r (i + 1) xs st1 = (items, st2)" by (metis surj_pair)
  have run: "ingest_items d now r i (x # xs) st = (item_for r i res # items, st2)"
    by (simp add: x xs Let_def item_for_def split: sum.split)
  show ?case
  proof (intro conjI allI impI)
    fix k assume k: "k < length (x # xs)"
    show "fst (ingest_items d now r i (x # xs) st) ! k =
        item_for r (i + int k) (fst (ingest d now (context_of r) ((x # xs) ! k) (state_after d now r (take k (x # xs)) st)))"
    proof (cases k)
      case 0
      then show ?thesis by (simp add: run x state_after_def del: ingest_items.simps)
    next
      case (Suc j)
      then have "items ! j = item_for r (i + 1 + int j)
          (fst (ingest d now (context_of r) (xs ! j) (state_after d now r (take j xs) st1)))"
        using Cons.IH [where i = "i + 1" and st = st1] k by (simp add: xs)
      then show ?thesis using Suc by (simp add: run x state_after_def add.commute add.left_commute del: ingest_items.simps)
    qed
  qed (use Cons.IH [where i = "i + 1" and st = st1] in \<open>simp_all add: run x xs state_after_def del: ingest_items.simps\<close>)
qed (simp add: state_after_def)

lemma batch_counts: "br_accepted (batch_of items) + br_rejected (batch_of items) = int (length items)"
  using sum_length_filter_compl [of "\<lambda>x. bi_error x = None" items] by (simp add: batch_of_def)

text \<open>
  C28 (functional): a batch is its events in order. For a batch within the limit the answer has one item
  per event, and item \<open>k\<close> is what ingesting event \<open>k\<close> alone returns after the events before it, whether
  those were accepted or not. The state afterwards is that of the single ingestions, the counts add up
  to the size of the batch, and the status is 202 when nothing was rejected, 400 when nothing was
  accepted and 207 otherwise.
\<close>

theorem batch_is_sequential:
  assumes "read_body r wr = Inr raw" and "decode raw = Some evs" and "evs \<noteq> []"
    and "int (length evs) \<le> sd_max_batch_events d"
  shows "\<exists>b. handle_ingest_batch decode d now r (wr, st) =
      (Returned, write_json (batch_status b) (Document (BatchDoc b)) wr, state_after d now r evs st) \<and>
    length (br_results b) = length evs \<and> br_accepted b + br_rejected b = int (length evs) \<and>
    (\<forall>k < length evs. br_results b ! k =
       item_for r (int k) (fst (ingest d now (context_of r) (evs ! k) (state_after d now r (take k evs) st)))) \<and>
    batch_status b =
      (if \<forall>x \<in> set (br_results b). bi_error x = None then 202
       else if \<forall>x \<in> set (br_results b). bi_error x \<noteq> None then 400 else 207)"
proof -
  obtain items sv where run: "ingest_items d now r 0 evs st = (items, sv)" by (metis surj_pair)
  note nth = ingest_items_nth [of d now r 0 evs st, unfolded run fst_conv snd_conv]
  have "handle_ingest_batch decode d now r (wr, st) =
      (Returned, write_json (batch_status (batch_of items)) (Document (BatchDoc (batch_of items))) wr, state_after d now r evs st)"
    using assms nth by (simp add: handle_ingest_batch_def run Let_def)
  moreover have "batch_status (batch_of items) =
      (if \<forall>x \<in> set items. bi_error x = None then 202 else if \<forall>x \<in> set items. bi_error x \<noteq> None then 400 else 207)"
    by (auto simp: batch_status_def batch_of_def filter_empty_conv)
  moreover have "br_results (batch_of items) = items" by (simp add: batch_of_def)
  ultimately show ?thesis using nth batch_counts [of items] by (intro exI [of _ "batch_of items"]) simp
qed

definition sample_http :: "string \<Rightarrow> string \<Rightarrow> string \<Rightarrow> http_request" where
  "sample_http meth path b =
     \<lparr> hr_method = meth, hr_path = path, hr_headers = [], hr_query = [], hr_remote_addr = ''10.0.0.1:80'',
       hr_body = Some b, hr_max_bytes = None, hr_request_id = [], hr_principal = zero_principal \<rparr>"

theorem batch_is_sequential_witness:
  "\<exists>b wr. handle_ingest_batch (\<lambda>raw. Some [''e1'', ''e2'']) sample_service 9 (sample_http ''POST'' ''/api/v1/events/batch'' ''x'')
      (new_writer, sample_state) = (Returned, wr,
        state_after sample_service 9 (sample_http ''POST'' ''/api/v1/events/batch'' ''x'') [''e1'', ''e2''] sample_state) \<and>
    wr_body wr = [Document (BatchDoc b)] \<and> br_accepted b + br_rejected b = 2"
proof -
  have "read_body (sample_http ''POST'' ''/api/v1/events/batch'' ''x'') new_writer = Inr ''x''"
    by (simp add: read_body_def sample_http_def)
  moreover have "int (length [''e1'', ''e2'']) \<le> sd_max_batch_events sample_service" by (simp add: sample_service_def)
  ultimately show ?thesis
    using batch_is_sequential [of _ new_writer _ "\<lambda>raw. Some [''e1'', ''e2'']" "[''e1'', ''e2'']" sample_service 9 sample_state]
    by (fastforce simp: write_json_def write_header_def set_header_def new_writer_def Let_def)
qed

end
