(* ===== verification/Router.thy ===== *)
theory Router
  imports Handlers
begin

text \<open>
  The HTTP surface of \<^verbatim>\<open>src/internal/api/router.go\<close>: the table of routes, the layers around single
  endpoints, and the middleware chain around all of them. The state of the server is that of the
  service, the rate limiter's and the access log. Metrics are in the theory \<open>Metrics\<close>, and the request multiplexer is
  taken on paths that are already clean.
\<close>

subsection \<open>Routes\<close>

datatype endpoint =
    EpHealth | EpReady | EpMetrics | EpIngestEvent | EpIngestBatch | EpEvaluate | EpListEvents | EpListIncidents
  | EpGetIncident string | EpGetEntity string | EpListActions | EpGetAction string | EpListAudit | EpStatus
  | EpNotFound

text \<open>The segment matched by a trailing wildcard: not empty and without a slash.\<close>

definition wildcard :: "string \<Rightarrow> string \<Rightarrow> string option" where
  "wildcard prefix path =
     (case cut_prefix path prefix of
        None \<Rightarrow> None
      | Some seg \<Rightarrow> if seg = [] \<or> CHR ''/'' \<in> set seg then None else Some seg)"

text \<open>A pattern for \<^verbatim>\<open>GET\<close> also answers \<^verbatim>\<open>HEAD\<close>; everything else falls to the catch-all route.\<close>

definition route :: "bool \<Rightarrow> string \<Rightarrow> string \<Rightarrow> endpoint" where
  "route registry meth path =
     (if meth = ''POST'' then
        (if path = ''/api/v1/events'' then EpIngestEvent
         else if path = ''/api/v1/events/batch'' then EpIngestBatch
         else if path = ''/api/v1/actions/evaluate'' then EpEvaluate
         else EpNotFound)
      else if meth = ''GET'' \<or> meth = ''HEAD'' then
        (if path = ''/health'' then EpHealth
         else if path = ''/ready'' then EpReady
         else if path = ''/metrics'' \<and> registry then EpMetrics
         else if path = ''/api/v1/events'' then EpListEvents
         else if path = ''/api/v1/incidents'' then EpListIncidents
         else if path = ''/api/v1/actions'' then EpListActions
         else if path = ''/api/v1/audit'' then EpListAudit
         else if path = ''/api/v1/system/status'' then EpStatus
         else case wildcard ''/api/v1/incidents/'' path of
                Some i \<Rightarrow> EpGetIncident i
              | None \<Rightarrow>
                  (case wildcard ''/api/v1/entities/'' path of
                     Some i \<Rightarrow> EpGetEntity i
                   | None \<Rightarrow> (case wildcard ''/api/v1/actions/'' path of Some i \<Rightarrow> EpGetAction i | None \<Rightarrow> EpNotFound)))
      else EpNotFound)"

subsection \<open>The server\<close>

text \<open>The lines of the access log and those of \<^verbatim>\<open>Recover\<close> go to one logger; here they are two lists.\<close>

record ('s, 'c, 'b) server_state =
  sr_service :: "('s, 'c) service_state"
  sr_limiter :: "'b rate_limiter"
  sr_log :: "log_line list"
  sr_panics :: "panic_line list"

record ('s, 'e, 'c, 'b) router_options =
  ro_service :: "(string, 's, 'e, 'c) service"
  ro_registry :: bool
  ro_max_request_bytes :: int
  ro_token :: string
  ro_sha256 :: "string \<Rightarrow> string"
  ro_split_host :: "string \<Rightarrow> string option"
  ro_bucket :: "'b token_bucket"
  ro_decode_batch :: "string \<Rightarrow> string list option"
  ro_decode_request :: "string \<Rightarrow> evaluate_request option"

abbreviation role_admin :: string where "role_admin \<equiv> ''admin''"

text \<open>A handler of the service as one of the server.\<close>

definition on_service ::
  "('d, ('s, 'c) service_state) handler \<Rightarrow> ('d, ('s, 'c, 'b) server_state) handler" where
  "on_service h r st =
     (case h r (fst st, sr_service (snd st)) of (e, wr, sv) \<Rightarrow> (e, wr, (snd st)\<lparr>sr_service := sv\<rparr>))"

definition allow_request ::
  "('s, 'e, 'c, 'b) router_options \<Rightarrow> time \<Rightarrow> string \<Rightarrow> ('s, 'c, 'b) server_state \<Rightarrow> bool \<times> ('s, 'c, 'b) server_state" where
  "allow_request opts now client w =
     (case allow_client (ro_bucket opts) now client (sr_limiter w) of (ok, l) \<Rightarrow> (ok, w\<lparr>sr_limiter := l\<rparr>))"

definition draw_request_id ::
  "('s, 'e, 'c, 'b) router_options \<Rightarrow> ('s, 'c, 'b) server_state \<Rightarrow> string \<times> ('s, 'c, 'b) server_state" where
  "draw_request_id opts w =
     (case new_id (sd_uuid (ro_service opts)) PrefixRequest (sv_ids (sr_service w)) of
        (rid, n) \<Rightarrow> (rid, w\<lparr>sr_service := (sr_service w)\<lparr>sv_ids := n\<rparr>\<rparr>))"

definition log_request :: "log_line \<Rightarrow> ('s, 'c, 'b) server_state \<Rightarrow> ('s, 'c, 'b) server_state" where
  "log_request line w = w\<lparr>sr_log := sr_log w @ [line]\<rparr>"

definition log_panic :: "panic_line \<Rightarrow> ('s, 'c, 'b) server_state \<Rightarrow> ('s, 'c, 'b) server_state" where
  "log_panic line w = w\<lparr>sr_panics := sr_panics w @ [line]\<rparr>"

text \<open>The layers of a write endpoint.\<close>

definition write_endpoint ::
  "('s, 'e, 'c, 'b) router_options \<Rightarrow> time \<Rightarrow> (document, ('s, 'c) service_state) handler \<Rightarrow>
     (document, ('s, 'c, 'b) server_state) handler" where
  "write_endpoint opts now h =
     chain (on_service h) [rate_limit (ro_split_host opts) (allow_request opts now), require_json]"

definition not_found :: "(document, 'w) handler" where
  "not_found r st = answer (write_error r 404 CodeNotFound
     ''No such endpoint. See /api/v1 documentation in api/openapi.yaml.'' []) st"

definition dispatch ::
  "('s, 'e, 'c, 'b) router_options \<Rightarrow> time \<Rightarrow> (document, ('s, 'c, 'b) server_state) handler" where
  "dispatch opts now r =
     (let d = ro_service opts in
      case route (ro_registry opts) (hr_method r) (hr_path r) of
        EpHealth \<Rightarrow> on_service (handle_health now) r
      | EpReady \<Rightarrow> on_service (handle_ready d now) r
      | EpMetrics \<Rightarrow> on_service (\<lambda>r. answer (write_json 200 (Document MetricsDoc))) r
      | EpIngestEvent \<Rightarrow> write_endpoint opts now (handle_ingest_event d now) r
      | EpIngestBatch \<Rightarrow> write_endpoint opts now (handle_ingest_batch (ro_decode_batch opts) d now) r
      | EpEvaluate \<Rightarrow> write_endpoint opts now (handle_evaluate_action (ro_decode_request opts) d now) r
      | EpListEvents \<Rightarrow> on_service (handle_list_events d) r
      | EpListIncidents \<Rightarrow> on_service (handle_list_incidents d) r
      | EpGetIncident i \<Rightarrow> on_service (handle_get_incident d i) r
      | EpGetEntity i \<Rightarrow> on_service (handle_get_entity i) r
      | EpListActions \<Rightarrow> on_service (handle_list_actions d) r
      | EpGetAction i \<Rightarrow> on_service (handle_get_action d i) r
      | EpListAudit \<Rightarrow> require_role role_admin (on_service (handle_list_audit d)) r
      | EpStatus \<Rightarrow> on_service (handle_system_status d now) r
      | EpNotFound \<Rightarrow> not_found r)"

definition default_max_request_bytes :: int where "default_max_request_bytes = 1048576"

definition auth_exempt :: "string list" where "auth_exempt = [''/health'', ''/ready'']"

definition auth_of :: "('s, 'e, 'c, 'b) router_options \<Rightarrow> service_auth" where
  "auth_of opts = new_service_auth (ro_sha256 opts) (ro_token opts) auth_exempt"

text \<open>The chain around every endpoint, outermost layer first.\<close>

definition middleware ::
  "('s, 'e, 'c, 'b) router_options \<Rightarrow>
     ((document, ('s, 'c, 'b) server_state) handler \<Rightarrow> (document, ('s, 'c, 'b) server_state) handler) list" where
  "middleware opts =
     [recover_panics log_panic,
      request_id (draw_request_id opts),
      access_log (ro_split_host opts) log_request [''/metrics'', ''/health''],
      security_headers,
      max_bytes (if ro_max_request_bytes opts \<le> 0 then default_max_request_bytes else ro_max_request_bytes opts)]
     @ (if ro_token opts \<noteq> [] then [authenticate (ro_sha256 opts) (auth_of opts), principal_middleware] else [])"

definition router ::
  "('s, 'e, 'c, 'b) router_options \<Rightarrow> time \<Rightarrow> (document, ('s, 'c, 'b) server_state) handler" where
  "router opts now = chain (dispatch opts now) (middleware opts)"

subsection \<open>What the layers preserve\<close>

text \<open>
  \<open>keeps P I h\<close>: on requests with \<open>P\<close> the handler preserves \<open>I\<close>, a predicate of the response so far and
  the state. The layers of the chain preserve every \<open>I\<close> that headers, error bodies, log lines and
  drawn identifiers do not touch, for every \<open>P\<close> about what the client sent.
\<close>

definition keeps ::
  "(http_request \<Rightarrow> bool) \<Rightarrow> (document writer \<times> 'w \<Rightarrow> bool) \<Rightarrow> (document, 'w) handler \<Rightarrow> bool" where
  "keeps P I h \<longleftrightarrow> (\<forall>r st. P r \<longrightarrow> I st \<longrightarrow> I (snd (h r st)))"

definition layer_stable ::
  "('s, 'e, 'c, 'b) router_options \<Rightarrow> (document writer \<times> ('s, 'c, 'b) server_state \<Rightarrow> bool) \<Rightarrow> bool" where
  "layer_stable opts I \<longleftrightarrow>
     (\<forall>a w k v. I (a, w) \<longrightarrow> I (set_header k v a, w)) \<and>
     (\<forall>a w s b. I (a, w) \<longrightarrow> I (write_json s (ErrorResponse b) a, w)) \<and>
     (\<forall>a w line. I (a, w) \<longrightarrow> I (a, log_request line w)) \<and>
     (\<forall>a w line. I (a, w) \<longrightarrow> I (a, log_panic line w)) \<and>
     (\<forall>a w. I (a, w) \<longrightarrow> I (a, snd (draw_request_id opts w)))"

definition client_only :: "(http_request \<Rightarrow> bool) \<Rightarrow> bool" where
  "client_only P \<longleftrightarrow>
     (\<forall>r x. P (r\<lparr>hr_request_id := x\<rparr>) = P r) \<and> (\<forall>r x. P (r\<lparr>hr_max_bytes := x\<rparr>) = P r) \<and>
     (\<forall>r x. P (r\<lparr>hr_principal := x\<rparr>) = P r)"

lemma keepsI: "(\<And>r a w. P r \<Longrightarrow> I (a, w) \<Longrightarrow> I (snd (h r (a, w)))) \<Longrightarrow> keeps P I h"
  by (simp add: keeps_def)

lemma keepsD: "keeps P I h \<Longrightarrow> P r \<Longrightarrow> I (a, w) \<Longrightarrow> h r (a, w) = (e, wr, w') \<Longrightarrow> I (wr, w')"
  unfolding keeps_def by (metis snd_conv)

lemma keepsD_snd: "keeps P I h \<Longrightarrow> P r \<Longrightarrow> I st \<Longrightarrow> I (snd (h r st))"
  unfolding keeps_def by blast

lemma layer_stableD:
  assumes "layer_stable opts I" and "I (a, w)"
  shows "I (set_header k v a, w)" and "I (write_error r s code msg ds a, w)" and "I (a, log_request line w)"
    and "draw_request_id opts w = (rid, w') \<Longrightarrow> I (a, w')" and "I (a, log_panic pline w)"
proof -
  note stable = assms(1) [unfolded layer_stable_def]
  show "I (set_header k v a, w)" and "I (write_error r s code msg ds a, w)" and "I (a, log_request line w)"
    and "I (a, log_panic pline w)"
    using stable assms(2) unfolding write_error_def by blast+
  show "I (a, w')" if "draw_request_id opts w = (rid, w')" using stable assms(2) that by (metis snd_conv)
qed

lemma client_onlyD:
  assumes "client_only P"
  shows "P (r\<lparr>hr_request_id := x\<rparr>) = P r" and "P (r\<lparr>hr_max_bytes := m\<rparr>) = P r" and "P (r\<lparr>hr_principal := q\<rparr>) = P r"
  using assms by (simp_all add: client_only_def)

lemma answer_state [simp]: "snd (answer f st) = (f (fst st), snd st)" "fst (answer f st) = Returned"
  by (simp_all add: answer_def)

lemma keeps_recover:
  assumes "layer_stable opts I" and "keeps P I h" shows "keeps P I (recover_panics log_panic h)"
proof (rule keepsI)
  fix r a w assume "P r" "I (a, w)"
  obtain e wr w' where h: "h r (a, w) = (e, wr, w')" by (metis prod_cases3)
  have "I (wr, w')" using keepsD [OF assms(2) \<open>P r\<close> \<open>I (a, w)\<close> h] .
  then show "I (snd (recover_panics log_panic h r (a, w)))"
    using layer_stableD(2,5) [OF assms(1)] by (cases e) (simp_all add: recover_panics_def h)
qed

lemma keeps_access_log:
  assumes "layer_stable opts I" and "keeps P I h" shows "keeps P I (access_log split log_request skips h)"
proof (rule keepsI)
  fix r a w assume "P r" "I (a, w)"
  obtain e wr w' where h: "h r (a, w) = (e, wr, w')" by (metis prod_cases3)
  have "I (wr, w')" using keepsD [OF assms(2) \<open>P r\<close> \<open>I (a, w)\<close> h] .
  then show "I (snd (access_log split log_request skips h r (a, w)))"
    using layer_stableD(3) [OF assms(1)] by (cases e) (simp_all add: access_log_def h Let_def)
qed

lemma keeps_request_id:
  assumes "layer_stable opts I" and "client_only P" and "keeps P I h" shows "keeps P I (request_id (draw_request_id opts) h)"
proof (rule keepsI)
  fix r a w assume r: "P r" "I (a, w)"
  obtain rid w' where w: "(if sanitize_request_id (header r ''X-Request-Id'') = [] then draw_request_id opts w
      else (sanitize_request_id (header r ''X-Request-Id''), w)) = (rid, w')" by (metis surj_pair)
  have "I (a, w')"
    using w r(2) layer_stableD(4) [OF assms(1) r(2)] by (auto split: if_splits)
  then have "I (set_header ''X-Request-Id'' rid a, w')" by (rule layer_stableD(1) [OF assms(1)])
  then have "I (snd (h (r\<lparr>hr_request_id := rid\<rparr>) (set_header ''X-Request-Id'' rid a, w')))"
    using keepsD_snd [OF assms(3)] r(1) client_onlyD(1) [OF assms(2)] by blast
  moreover have "request_id (draw_request_id opts) h r (a, w) =
      h (r\<lparr>hr_request_id := rid\<rparr>) (set_header ''X-Request-Id'' rid a, w')"
    unfolding request_id_def Let_def fst_conv snd_conv w by simp
  ultimately show "I (snd (request_id (draw_request_id opts) h r (a, w)))" by simp
qed

lemma keeps_security_headers:
  assumes "layer_stable opts I" and "keeps P I h" shows "keeps P I (security_headers h)"
  by (rule keepsI) (simp add: security_headers_def keepsD_snd [OF assms(2)] layer_stableD(1) [OF assms(1)])

lemma keeps_max_bytes: "client_only P \<Longrightarrow> keeps P I h \<Longrightarrow> keeps P I (max_bytes limit h)"
  by (rule keepsI) (simp add: max_bytes_def keepsD_snd client_onlyD)

lemma keeps_principal:
  assumes "layer_stable opts I" and "client_only P" and "keeps P I h" shows "keeps P I (principal_middleware h)"
proof (rule keepsI)
  fix r a w assume r: "P r" "I (a, w)"
  then have "I (snd (h (r\<lparr>hr_principal := q\<rparr>) (a, w)))" for q
    using keepsD_snd [OF assms(3)] client_onlyD(3) [OF assms(2)] by blast
  then show "I (snd (principal_middleware h r (a, w)))"
    using keepsD_snd [OF assms(3) r] layer_stableD(2) [OF assms(1) r(2)] by (simp add: principal_middleware_def Let_def)
qed

abbreviation credential :: "('s, 'e, 'c, 'b) router_options \<Rightarrow> http_request \<Rightarrow> bool" where
  "credential opts r \<equiv> authorized (ro_sha256 opts) (auth_of opts) (header r ''Authorization'')"

lemma sa_exempt_auth_of [simp]: "sa_exempt (auth_of opts) = auth_exempt"
  by (simp add: auth_of_def new_service_auth_def)

lemma keeps_authenticate:
  assumes "layer_stable opts I" and "keeps (\<lambda>r. P r \<and> (credential opts r \<or> hr_path r \<in> set auth_exempt)) I h"
  shows "keeps P I (authenticate (ro_sha256 opts) (auth_of opts) h)"
proof (rule keepsI)
  fix r a w assume r: "P r" "I (a, w)"
  then have "credential opts r \<or> hr_path r \<in> set auth_exempt \<Longrightarrow> I (snd (h r (a, w)))"
    using keepsD_snd [OF assms(2), of r "(a, w)"] by blast
  then show "I (snd (authenticate (ro_sha256 opts) (auth_of opts) h r (a, w)))"
    using layer_stableD(2) [OF assms(1) layer_stableD(1) [OF assms(1) r(2)]] by (simp add: authenticate_def)
qed

lemma router_chain:
  "ro_token opts \<noteq> [] \<Longrightarrow> \<exists>limit. router opts now = recover_panics log_panic (request_id (draw_request_id opts)
     (access_log (ro_split_host opts) log_request [''/metrics'', ''/health''] (security_headers (max_bytes limit
       (authenticate (ro_sha256 opts) (auth_of opts) (principal_middleware (dispatch opts now)))))))"
  by (auto simp: router_def chain_def middleware_def)

text \<open>What the endpoints preserve behind the credential check, the whole chain preserves.\<close>

lemma keeps_router:
  assumes "ro_token opts \<noteq> []" and "layer_stable opts I" and "client_only P"
    and "keeps (\<lambda>r. P r \<and> (credential opts r \<or> hr_path r \<in> set auth_exempt)) I (principal_middleware (dispatch opts now))"
  shows "keeps P I (router opts now)"
proof -
  obtain limit where "router opts now = recover_panics log_panic (request_id (draw_request_id opts)
     (access_log (ro_split_host opts) log_request [''/metrics'', ''/health''] (security_headers (max_bytes limit
       (authenticate (ro_sha256 opts) (auth_of opts) (principal_middleware (dispatch opts now)))))))"
    using router_chain [OF assms(1)] by blast
  then show ?thesis
    by (simp only:) (rule keeps_recover [OF assms(2)] keeps_request_id [OF assms(2,3)] keeps_access_log [OF assms(2)]
        keeps_security_headers [OF assms(2)] keeps_max_bytes [OF assms(3)] keeps_authenticate [OF assms(2)] assms(4))+
qed

text \<open>Read endpoints leave the state alone.\<close>

lemma answer_page_state [simp]: "snd (snd (answer_page r doc lo listed st)) = snd st"
  by (simp add: answer_page_def split: sum.split)

lemma answer_found_state [simp]: "snd (snd (answer_found r nf what doc found st)) = snd st"
  by (simp add: answer_found_def split: sum.split)

lemma read_handlers_state [simp]:
  "snd (snd (handle_health now r st)) = snd st" "snd (snd (handle_ready d now r st)) = snd st"
  "snd (snd (handle_system_status d now r st)) = snd st" "snd (snd (handle_list_events d r st)) = snd st"
  "snd (snd (handle_list_incidents d r st)) = snd st" "snd (snd (handle_get_incident d i r st)) = snd st"
  "snd (snd (handle_get_entity i r st)) = snd st" "snd (snd (handle_list_actions d r st)) = snd st"
  "snd (snd (handle_get_action d i r st)) = snd st" "snd (snd (handle_list_audit d r st)) = snd st"
  by (simp_all add: handle_health_def handle_ready_def handle_system_status_def handle_list_events_def
      handle_list_incidents_def handle_get_incident_def handle_get_entity_def handle_list_actions_def
      handle_get_action_def handle_list_audit_def Let_def split: option.split)

lemma route_write:
  "hr_method r \<noteq> ''POST'' \<Longrightarrow> route reg (hr_method r) p \<notin> {EpIngestEvent, EpIngestBatch, EpEvaluate}"
  by (auto simp: route_def split: option.split)

lemma exempt_route:
  assumes "p \<in> set auth_exempt"
  shows "route reg m p \<in> {EpHealth, EpReady, EpNotFound}"
proof -
  consider "p = ''/health''" | "p = ''/ready''" using assms by (auto simp: auth_exempt_def)
  then show ?thesis
  proof cases
    case 1
    show ?thesis unfolding 1 route_def by simp
  next
    case 2
    show ?thesis unfolding 2 route_def by simp
  qed
qed

subsection \<open>What a request without a credential can change\<close>

text \<open>The stored records, the graph and the correlator are as before; counters, limiter and log may move.\<close>

definition unchanged :: "('s, 'c, 'b) server_state \<Rightarrow> ('s, 'c, 'b) server_state \<Rightarrow> bool" where
  "unchanged w w' \<longleftrightarrow>
     sv_store (sr_service w') = sv_store (sr_service w) \<and> sv_graph (sr_service w') = sv_graph (sr_service w) \<and>
     sv_correlator (sr_service w') = sv_correlator (sr_service w)"

lemma unchanged_stable: "layer_stable opts (\<lambda>st. unchanged w (snd st))"
  by (auto simp: layer_stable_def unchanged_def log_request_def log_panic_def draw_request_id_def split: prod.split)

lemma on_service_unchanged:
  "snd (snd (h r (fst st, sr_service (snd st)))) = sr_service (snd st) \<Longrightarrow>
     unchanged w (snd st) \<Longrightarrow> unchanged w (snd (snd (on_service h r st)))"
  by (auto simp: on_service_def unchanged_def split: prod.split)

lemma dispatch_read:
  assumes "route (ro_registry opts) (hr_method r) (hr_path r) \<notin> {EpIngestEvent, EpIngestBatch, EpEvaluate}"
    and "unchanged w (snd st)"
  shows "unchanged w (snd (snd (dispatch opts now r st)))"
proof (cases "route (ro_registry opts) (hr_method r) (hr_path r)")
  case EpListAudit
  have "unchanged w (snd (snd (on_service (handle_list_audit (ro_service opts)) r st)))"
    by (rule on_service_unchanged) (simp_all add: assms(2))
  then show ?thesis using assms(2) by (simp add: dispatch_def Let_def EpListAudit require_role_def)
qed (use assms in \<open>simp_all add: dispatch_def Let_def not_found_def on_service_unchanged\<close>)

lemma router_unchanged:
  assumes "ro_token opts \<noteq> []" and "\<not> credential opts r \<or> hr_method r \<noteq> ''POST''"
  shows "unchanged w (snd (snd (router opts now r (wr, w))))"
proof -
  define P where "P r \<longleftrightarrow> \<not> credential opts r \<or> hr_method r \<noteq> ''POST''" for r
  have "client_only P" by (simp add: client_only_def P_def header_def)
  have "keeps P' (\<lambda>st. unchanged w (snd st)) (dispatch opts now)"
    if P': "P' = (\<lambda>r. P r \<and> (credential opts r \<or> hr_path r \<in> set auth_exempt))" for P'
  proof (rule keepsI, rule dispatch_read)
    fix r assume "P' r"
    then consider "hr_path r \<in> set auth_exempt" | "hr_method r \<noteq> ''POST''" by (auto simp: P' P_def)
    then show "route (ro_registry opts) (hr_method r) (hr_path r) \<notin> {EpIngestEvent, EpIngestBatch, EpEvaluate}"
      by (cases; use exempt_route [of "hr_path r" "ro_registry opts" "hr_method r"] route_write [of r] in force)
  qed simp
  then have "keeps P (\<lambda>st. unchanged w (snd st)) (router opts now)"
    by (intro keeps_router keeps_principal assms(1) unchanged_stable \<open>client_only P\<close>)
      (simp_all add: client_only_def P_def header_def)
  moreover have "P r" using assms(2) by (simp add: P_def)
  moreover have "unchanged w (snd (wr, w))" by (simp add: unchanged_def)
  ultimately show ?thesis by (rule keepsD_snd)
qed

text \<open>
  C13 (safety): only an authenticated \<^verbatim>\<open>POST\<close> changes anything. With a service token set, a request that
  does not present it, or whose method is not \<^verbatim>\<open>POST\<close>, goes through the whole chain and leaves the
  stored records, the graph and the correlator as they are.
\<close>

theorem state_changes_need_credential:
  assumes "ro_token opts \<noteq> []" and "\<not> credential opts r \<or> hr_method r \<noteq> ''POST''"
  shows "unchanged w (snd (snd (router opts now r (wr, w))))"
  using assms by (rule router_unchanged)

definition sample_options :: "(memory_store, store_error, unit, nat) router_options" where
  "sample_options =
     \<lparr> ro_service = sample_service, ro_registry = True, ro_max_request_bytes = 0, ro_token = ''t'',
       ro_sha256 = (\<lambda>s. s), ro_split_host = (\<lambda>s. None), ro_bucket = sample_bucket,
       ro_decode_batch = (\<lambda>raw. Some [raw]), ro_decode_request = (\<lambda>raw. None) \<rparr>"

definition sample_server :: "(memory_store, unit, nat) server_state" where
  "sample_server = \<lparr> sr_service = sample_state, sr_limiter = new_rate_limiter (Num 1) 2, sr_log = [],
     sr_panics = [] \<rparr>"

theorem state_changes_need_credential_witness:
  "unchanged sample_server
     (snd (snd (router sample_options 9 (sample_http ''POST'' ''/api/v1/events'' ''x'') (new_writer, sample_server))))"
proof -
  have "\<not> credential sample_options (sample_http ''POST'' ''/api/v1/events'' ''x'')"
    by (simp add: authorized_def header_def sample_http_def)
  moreover have "ro_token sample_options \<noteq> []" by (simp add: sample_options_def)
  ultimately show ?thesis
    using state_changes_need_credential [of sample_options "sample_http ''POST'' ''/api/v1/events'' ''x''" sample_server 9 new_writer]
    by simp
qed

subsection \<open>Who can read the audit trail\<close>

definition no_audit :: "document writer \<Rightarrow> bool" where
  "no_audit wr \<longleftrightarrow> (\<forall>p. Document (AuditDoc p) \<notin> set (wr_body wr))"

lemma no_audit_writer [simp]:
  "no_audit (set_header k v wr) = no_audit wr" "no_audit (write_header n wr) = no_audit wr"
  "no_audit (write_error r n code msg ds wr) = no_audit wr" "no_audit (write_internal r wr) = no_audit wr"
  "no_audit (write_json n b wr) = (no_audit wr \<and> (\<forall>p. b \<noteq> Document (AuditDoc p)))"
  by (auto simp: no_audit_def set_header_def write_header_def write_error_def write_internal_def write_json_def Let_def)

lemma no_audit_stable: "layer_stable opts (\<lambda>st. no_audit (fst st))"
  by (auto simp: layer_stable_def)

lemma no_audit_answers [simp]:
  "\<forall>p q. doc p \<noteq> AuditDoc q \<Longrightarrow> no_audit (fst st) \<Longrightarrow> no_audit (fst (snd (answer_page r doc lo listed st)))"
  "\<forall>p q. doc' p \<noteq> AuditDoc q \<Longrightarrow> no_audit (fst st) \<Longrightarrow> no_audit (fst (snd (answer_found r nf what doc' found st)))"
  by (simp_all add: answer_page_def answer_found_def split: sum.split)

lemma read_body_no_audit: "read_body r wr = Inl wr' \<Longrightarrow> no_audit wr \<Longrightarrow> no_audit wr'"
  by (auto simp: read_body_def split: option.splits if_splits)

lemma evaluation_answer_no_audit: "no_audit wr \<Longrightarrow> no_audit (evaluation_answer r res wr)"
  unfolding evaluation_answer_def by (auto split: prod.split option.split evaluate_error.split)

lemma no_audit_reads:
  assumes "no_audit (fst st)"
  shows "no_audit (fst (snd (handle_health now r st)))" "no_audit (fst (snd (handle_ready d now r st)))"
    "no_audit (fst (snd (handle_system_status d now r st)))" "no_audit (fst (snd (handle_list_events d r st)))"
    "no_audit (fst (snd (handle_list_incidents d r st)))" "no_audit (fst (snd (handle_get_incident d i r st)))"
    "no_audit (fst (snd (handle_get_entity i r st)))" "no_audit (fst (snd (handle_list_actions d r st)))"
    "no_audit (fst (snd (handle_get_action d i r st)))"
  using assms by (simp_all add: handle_health_def handle_ready_def handle_system_status_def handle_list_events_def
      handle_list_incidents_def handle_get_incident_def handle_get_entity_def handle_list_actions_def
      handle_get_action_def Let_def split: option.split)

lemma no_audit_writes:
  assumes "no_audit (fst st)"
  shows "no_audit (fst (snd (handle_ingest_event d now r st)))"
    "no_audit (fst (snd (handle_ingest_batch decode d now r st)))"
    "no_audit (fst (snd (handle_evaluate_action decode_request d now r st)))"
proof -
  show "no_audit (fst (snd (handle_ingest_event d now r st)))"
    using assms read_body_no_audit [of r "fst st"]
    by (auto simp: handle_ingest_event_def write_ingest_error_def Let_def split: sum.split prod.split)
  show "no_audit (fst (snd (handle_ingest_batch decode d now r st)))"
    using assms read_body_no_audit [of r "fst st"]
    by (auto simp: handle_ingest_batch_def Let_def split: sum.split prod.split option.split)
  show "no_audit (fst (snd (handle_evaluate_action decode_request d now r st)))"
    using assms read_body_no_audit [of r "fst st"] evaluation_answer_no_audit
    by (auto simp: handle_evaluate_action_def Let_def split: sum.split prod.split option.split)
qed

lemma on_service_no_audit:
  "no_audit (fst (snd (h r (fst st, sr_service (snd st))))) \<Longrightarrow> no_audit (fst (snd (on_service h r st)))"
  by (auto simp: on_service_def split: prod.split)

lemma write_endpoint_no_audit:
  assumes "\<And>sv. no_audit (fst (snd (h r (fst st, sv))))" and "no_audit (fst st)"
  shows "no_audit (fst (snd (write_endpoint opts now h r st)))"
proof -
  obtain ok w where a: "allow_request opts now (client_ip (ro_split_host opts) r) (snd st) = (ok, w)" by (metis surj_pair)
  show ?thesis
    using assms(2) on_service_no_audit [of h r "(fst st, w)"] assms(1)
    by (simp add: write_endpoint_def chain_def rate_limit_def a require_json_def Let_def)
qed

lemma dispatch_no_audit:
  assumes "no_audit (fst st)"
    and "route (ro_registry opts) (hr_method r) (hr_path r) = EpListAudit \<Longrightarrow>
      \<not> principal_zero (hr_principal r) \<and> pr_role (hr_principal r) \<noteq> role_admin"
  shows "no_audit (fst (snd (dispatch opts now r st)))"
proof (cases "route (ro_registry opts) (hr_method r) (hr_path r)")
  case EpListAudit
  then show ?thesis using assms by (simp add: dispatch_def Let_def require_role_def)
qed (use assms(1) in \<open>simp_all add: dispatch_def Let_def not_found_def on_service_no_audit no_audit_reads
    write_endpoint_no_audit no_audit_writes\<close>)

text \<open>Either no operator is asserted, or a well-formed one in the administrator role.\<close>

definition admin_or_unattributed :: "http_request \<Rightarrow> bool" where
  "admin_or_unattributed r \<longleftrightarrow>
     (let subject = trim_space (header r ''X-Griefer-Actor''); role = trim_space (header r ''X-Griefer-Actor-Role'')
      in subject = [] \<and> role = [] \<or> principal_pattern subject \<and> role = role_admin)"

lemma principal_no_audit:
  assumes "credential opts r \<and> \<not> admin_or_unattributed r \<or> hr_path r \<in> set auth_exempt" and "no_audit a"
  shows "no_audit (fst (snd (principal_middleware (dispatch opts now) r (a, w))))"
proof (cases "hr_path r \<in> set auth_exempt")
  case True
  then have "route (ro_registry opts) (hr_method r) (hr_path r) \<in> {EpHealth, EpReady, EpNotFound}" by (rule exempt_route)
  then have "no_audit (fst (snd (dispatch opts now (r\<lparr>hr_principal := q\<rparr>) (a, w))))" for q
    by (intro dispatch_no_audit) (auto simp: assms(2))
  from this [of "hr_principal r"] this show ?thesis using assms(2) by (simp add: principal_middleware_def Let_def)
next
  case False
  then have "\<not> admin_or_unattributed r" using assms(1) by simp
  moreover have "no_audit (fst (snd (dispatch opts now (r\<lparr>hr_principal := \<lparr> pr_subject = s, pr_role = ro \<rparr>\<rparr>) (a, w))))"
    if "principal_pattern s" and "ro \<noteq> role_admin" for s ro
    using that by (intro dispatch_no_audit) (auto simp: assms(2) principal_zero_def principal_pattern_def)
  ultimately show ?thesis
    using assms(2) by (auto simp: principal_middleware_def Let_def admin_or_unattributed_def)
qed

text \<open>
  C14 (safety): the audit trail goes to administrators only. With a service token set, a response of the
  router carries audit entries only if the request presented the token, and asserted either no operator
  or a well-formed one whose role is \<^verbatim>\<open>admin\<close>.
\<close>

theorem audit_needs_admin:
  assumes "ro_token opts \<noteq> []"
    and "Document (AuditDoc p) \<in> set (wr_body (fst (snd (router opts now r (new_writer, w)))))"
  shows "credential opts r \<and> admin_or_unattributed r"
proof (rule ccontr)
  define P where "P r \<longleftrightarrow> \<not> (credential opts r \<and> admin_or_unattributed r)" for r
  assume "\<not> (credential opts r \<and> admin_or_unattributed r)"
  then have "P r" by (simp add: P_def)
  have "keeps P (\<lambda>st. no_audit (fst st)) (router opts now)"
  proof (rule keeps_router [OF assms(1) no_audit_stable])
    show "client_only P" by (simp add: client_only_def P_def header_def admin_or_unattributed_def)
    show "keeps (\<lambda>r. P r \<and> (credential opts r \<or> hr_path r \<in> set auth_exempt)) (\<lambda>st. no_audit (fst st))
        (principal_middleware (dispatch opts now))"
      by (rule keepsI, simp only: fst_conv, rule principal_no_audit) (auto simp: P_def)
  qed
  moreover have "no_audit (fst (new_writer, w))" by (simp add: no_audit_def new_writer_def)
  ultimately have "no_audit (fst (snd (router opts now r (new_writer, w))))" using \<open>P r\<close> by (blast dest: keepsD_snd)
  then show False using assms(2) by (simp add: no_audit_def)
qed

definition sample_admin_request :: http_request where
  "sample_admin_request = (sample_http ''GET'' ''/api/v1/audit'' [])\<lparr>hr_headers :=
     [(''Authorization'', ''Bearer t''), (''X-Griefer-Actor'', ''alice''), (''X-Griefer-Actor-Role'', ''admin'')]\<rparr>"

lemma audit_served:
  assumes "ro_token opts \<noteq> []" and "credential opts r" and "hr_method r = ''GET''" and "hr_path r = ''/api/v1/audit''"
    and "principal_pattern (trim_space (header r ''X-Griefer-Actor''))"
    and "trim_space (header r ''X-Griefer-Actor-Role'') = role_admin"
    and "\<And>s l k. \<exists>p. so_list_audit (sd_store (ro_service opts)) s l k = Inr p"
  shows "\<exists>p. Document (AuditDoc p) \<in> set (wr_body (fst (snd (router opts now r (new_writer, w)))))"
proof -
  obtain limit where chained: "router opts now = recover_panics log_panic (request_id (draw_request_id opts)
     (access_log (ro_split_host opts) log_request [''/metrics'', ''/health''] (security_headers (max_bytes limit
       (authenticate (ro_sha256 opts) (auth_of opts) (principal_middleware (dispatch opts now)))))))"
    using router_chain [OF assms(1)] by blast
  obtain rid w1 where drawn: "(if sanitize_request_id (header r ''X-Request-Id'') = [] then draw_request_id opts w
      else (sanitize_request_id (header r ''X-Request-Id''), w)) = (rid, w1)" by (metis surj_pair)
  have hdr: "header (r\<lparr>hr_request_id := rid, hr_max_bytes := m, hr_principal := q\<rparr>) = header r" 
    "header (r\<lparr>hr_request_id := rid, hr_max_bytes := m\<rparr>) = header r" for m q by (simp_all add: header_def fun_eq_iff)
  have route: "route reg ''GET'' ''/api/v1/audit'' = EpListAudit" for reg by (simp add: route_def)
  have admin: "principal_pattern role_admin" by code_simp
  have named: "trim_space (header r ''X-Griefer-Actor'') \<noteq> []" using assms(5) by (auto simp: principal_pattern_def)
  obtain q where "so_list_audit (sd_store (ro_service opts)) (sv_store (sr_service w1)) (fst (pagination r)) (snd (pagination r)) = Inr q"
    using assms(7) by blast
  moreover have "pagination (r\<lparr>hr_request_id := x, hr_max_bytes := m, hr_principal := y\<rparr>) = pagination r" for x m y
    by (simp add: pagination_def query_def Let_def)
  ultimately show ?thesis
    unfolding chained recover_panics_def request_id_def Let_def fst_conv snd_conv drawn
    using assms(2-6)
    by (simp add: access_log_def security_headers_def max_bytes_def authenticate_def auth_exempt_def answer_def hdr
        principal_middleware_def admin named Let_def dispatch_def route require_role_def on_service_def
        handle_list_audit_def answer_page_def write_json_def write_header_def) blast
qed

lemma sample_admin_facts:
  "credential sample_options sample_admin_request" "principal_pattern (trim_space (header sample_admin_request ''X-Griefer-Actor''))"
  "trim_space (header sample_admin_request ''X-Griefer-Actor-Role'') = role_admin" "principal_pattern role_admin"
proof -
  have "equal_fold ''Bearer '' ''Bearer ''" and "trim_space ''t'' = ''t''" by code_simp+
  then show "credential sample_options sample_admin_request"
    by (simp add: authorized_def auth_of_def new_service_auth_def sample_options_def sample_admin_request_def header_def
        sample_http_def)
  have "trim_space ''alice'' = ''alice''" and "trim_space ''admin'' = ''admin''" and "principal_pattern ''alice''" by code_simp+
  then show "principal_pattern (trim_space (header sample_admin_request ''X-Griefer-Actor''))"
    and "trim_space (header sample_admin_request ''X-Griefer-Actor-Role'') = role_admin"
    by (simp_all add: sample_admin_request_def header_def)
  show "principal_pattern role_admin" by code_simp
qed

theorem audit_needs_admin_witness:
  "\<exists>p. Document (AuditDoc p) \<in> set (wr_body (fst (snd (router sample_options 9 sample_admin_request (new_writer, sample_server))))) \<and>
     credential sample_options sample_admin_request \<and> admin_or_unattributed sample_admin_request"
proof -
  have "ro_token sample_options \<noteq> []" by (simp add: sample_options_def)
  moreover have "\<exists>p. Document (AuditDoc p) \<in>
      set (wr_body (fst (snd (router sample_options 9 sample_admin_request (new_writer, sample_server)))))"
  proof (rule audit_served)
    show "credential sample_options sample_admin_request" by (rule sample_admin_facts)
    show "principal_pattern (trim_space (header sample_admin_request ''X-Griefer-Actor''))" by (rule sample_admin_facts)
    show "trim_space (header sample_admin_request ''X-Griefer-Actor-Role'') = role_admin" by (rule sample_admin_facts)
  qed (simp_all add: sample_options_def sample_admin_request_def sample_http_def sample_service_def memory_ops_def)
  ultimately show ?thesis
    using audit_needs_admin [of sample_options _ 9 sample_admin_request sample_server]
    by blast
qed

subsection \<open>A refused request\<close>

lemma map_of_set_header: "wr_status w = 0 \<Longrightarrow>
    map_of (wr_headers (set_header k v w)) = (map_of (wr_headers w))(k \<mapsto> v) \<and> wr_status (set_header k v w) = 0 \<and>
    wr_body (set_header k v w) = wr_body w"
  by (simp add: set_header_def update_conv)

lemma map_of_write_json: "wr_status w = 0 \<Longrightarrow>
    map_of (wr_headers (write_json n b w)) = (map_of (wr_headers w))(''Content-Type'' \<mapsto> ''application/json; charset=utf-8'',
      ''X-Content-Type-Options'' \<mapsto> ''nosniff'') \<and> wr_status (write_json n b w) = n \<and> wr_body (write_json n b w) = wr_body w @ [b]"
  by (simp add: write_json_def Let_def write_header_def map_of_set_header)

lemma router_refuses:
  assumes "ro_token opts \<noteq> []" and "\<not> credential opts r" and "hr_path r \<notin> {''/health'', ''/ready'', ''/metrics''}"
  shows "\<exists>wr w' b line. router opts now r (new_writer, w) = (Returned, wr, w') \<and>
    wr_status wr = 401 \<and> wr_body wr = [ErrorResponse b] \<and> eb_code b = CodeUnauthorized \<and> eb_details b = [] \<and>
    map_of (wr_headers wr) ''X-Request-Id'' = Some (eb_request_id b) \<and>
    sr_log w' = sr_log w @ [line] \<and> ll_status line = 401 \<and> ll_request_id line = eb_request_id b \<and>
    ll_path line = hr_path r \<and> ll_level line = LevelWarn"
proof -
  obtain limit where chained: "router opts now = recover_panics log_panic (request_id (draw_request_id opts)
     (access_log (ro_split_host opts) log_request [''/metrics'', ''/health''] (security_headers (max_bytes limit
       (authenticate (ro_sha256 opts) (auth_of opts) (principal_middleware (dispatch opts now)))))))"
    using router_chain [OF assms(1)] by blast
  obtain rid w1 where drawn: "(if sanitize_request_id (header r ''X-Request-Id'') = [] then draw_request_id opts w
      else (sanitize_request_id (header r ''X-Request-Id''), w)) = (rid, w1)" by (metis surj_pair)
  have log: "sr_log w1 = sr_log w" using drawn by (auto simp: draw_request_id_def split: if_splits prod.splits)
  have "header (r\<lparr>hr_request_id := rid, hr_max_bytes := m\<rparr>) = header r" for m by (simp add: header_def fun_eq_iff)
  then show ?thesis
    unfolding chained recover_panics_def request_id_def Let_def fst_conv snd_conv drawn
    using assms(2,3)
    by (simp add: access_log_def security_headers_def max_bytes_def authenticate_def auth_exempt_def answer_def
        write_error_def map_of_write_json map_of_set_header new_writer_def error_response_def log_request_def log Let_def)
qed

text \<open>The refusal on every path but the two probes, the scrape endpoint included, which has no access log.\<close>

lemma router_refuses_all:
  assumes "ro_token opts \<noteq> []" and "\<not> credential opts r" and "hr_path r \<notin> {''/health'', ''/ready''}"
  shows "\<exists>wr w' b. router opts now r (new_writer, w) = (Returned, wr, w') \<and>
    wr_status wr = 401 \<and> wr_body wr = [ErrorResponse b] \<and> eb_code b = CodeUnauthorized \<and> eb_details b = []"
proof -
  obtain limit where chained: "router opts now = recover_panics log_panic (request_id (draw_request_id opts)
     (access_log (ro_split_host opts) log_request [''/metrics'', ''/health''] (security_headers (max_bytes limit
       (authenticate (ro_sha256 opts) (auth_of opts) (principal_middleware (dispatch opts now)))))))"
    using router_chain [OF assms(1)] by blast
  obtain rid w1 where drawn: "(if sanitize_request_id (header r ''X-Request-Id'') = [] then draw_request_id opts w
      else (sanitize_request_id (header r ''X-Request-Id''), w)) = (rid, w1)" by (metis surj_pair)
  have "header (r\<lparr>hr_request_id := rid, hr_max_bytes := m\<rparr>) = header r" for m by (simp add: header_def fun_eq_iff)
  then show ?thesis
    unfolding chained recover_panics_def request_id_def Let_def fst_conv snd_conv drawn
    using assms(2,3)
    by (simp add: access_log_def security_headers_def max_bytes_def authenticate_def auth_exempt_def answer_def
        write_error_def map_of_write_json map_of_set_header new_writer_def error_response_def Let_def)
qed

text \<open>
  A request without the credential is refused, and the refusal can be traced. On every
  path but the two probes and the scrape endpoint it gets a 401 whose body carries no detail, the
  request identifier of the body is that of the response header, and exactly one access-log line is
  written with the same identifier, the path and the status.
\<close>

theorem unauthenticated_requests_rejected:
  assumes "ro_token opts \<noteq> []" and "\<not> credential opts r" and "hr_path r \<notin> {''/health'', ''/ready'', ''/metrics''}"
  shows "\<exists>wr w' b line. router opts now r (new_writer, w) = (Returned, wr, w') \<and>
    wr_status wr = 401 \<and> wr_body wr = [ErrorResponse b] \<and> eb_code b = CodeUnauthorized \<and> eb_details b = [] \<and>
    map_of (wr_headers wr) ''X-Request-Id'' = Some (eb_request_id b) \<and>
    sr_log w' = sr_log w @ [line] \<and> ll_status line = 401 \<and> ll_request_id line = eb_request_id b \<and>
    ll_path line = hr_path r \<and> ll_level line = LevelWarn"
  using assms by (rule router_refuses)

theorem unauthenticated_requests_rejected_witness:
  "\<exists>wr w' b. router sample_options 9 (sample_http ''POST'' ''/api/v1/events'' ''x'') (new_writer, sample_server) = (Returned, wr, w') \<and>
     wr_status wr = 401 \<and> wr_body wr = [ErrorResponse b] \<and> eb_code b = CodeUnauthorized \<and> length (sr_log w') = 1"
proof -
  have "\<not> credential sample_options (sample_http ''POST'' ''/api/v1/events'' ''x'')"
    by (simp add: authorized_def header_def sample_http_def)
  moreover have "ro_token sample_options \<noteq> []" by (simp add: sample_options_def)
  moreover have "hr_path (sample_http ''POST'' ''/api/v1/events'' ''x'') \<notin> {''/health'', ''/ready'', ''/metrics''}"
    by (simp add: sample_http_def)
  moreover have "sr_log sample_server = []" by (simp add: sample_server_def)
  ultimately show ?thesis
    using unauthenticated_requests_rejected [of sample_options "sample_http ''POST'' ''/api/v1/events'' ''x''" 9 sample_server]
    by (metis append_Nil length_Cons list.size(3) One_nat_def)
qed

subsection \<open>A request that panics\<close>

text \<open>
  The requests that the layers in front of the endpoints let through: with a token set, on a probe or
  with the credential, and with an operator in an acceptable form or none.
\<close>

definition principal_acceptable :: "http_request \<Rightarrow> bool" where
  "principal_acceptable r \<longleftrightarrow>
     (let subject = trim_space (header r ''X-Griefer-Actor''); role = trim_space (header r ''X-Griefer-Actor-Role'')
      in subject = [] \<and> role = [] \<or> principal_pattern subject \<and> (role = [] \<or> principal_pattern role))"

definition let_through :: "('s, 'e, 'c, 'b) router_options \<Rightarrow> http_request \<Rightarrow> bool" where
  "let_through opts r \<longleftrightarrow>
     ro_token opts = [] \<or> (hr_path r \<in> set auth_exempt \<or> credential opts r) \<and> principal_acceptable r"

text \<open>An endpoint that panics with a value before it answers, having done anything to the service's state.\<close>

definition panicking ::
  "string \<Rightarrow> (http_request \<Rightarrow> ('s, 'c) service_state \<Rightarrow> ('s, 'c) service_state) \<Rightarrow> (document, ('s, 'c, 'b) server_state) handler" where
  "panicking v effect = on_service (\<lambda>r st. (Panicked v, fst st, effect r (snd st)))"

lemma panicking_eq:
  "panicking v effect r st = (Panicked v, fst st, (snd st)\<lparr>sr_service := effect r (sr_service (snd st))\<rparr>)"
  by (simp add: panicking_def on_service_def)

lemma guarded_panics:
  assumes "let_through opts r"
  shows "\<exists>w1. chain (panicking v effect)
      (if ro_token opts \<noteq> [] then [authenticate (ro_sha256 opts) (auth_of opts), principal_middleware] else [])
      r (wr, w) = (Panicked v, wr, w1) \<and> sr_log w1 = sr_log w \<and> sr_panics w1 = sr_panics w"
proof (cases "ro_token opts = []")
  case True
  then show ?thesis by (simp add: chain_def panicking_eq)
next
  case False
  then have "\<exists>w1. principal_middleware (panicking v effect) r (wr, w) = (Panicked v, wr, w1) \<and>
      sr_log w1 = sr_log w \<and> sr_panics w1 = sr_panics w"
    using assms by (auto simp: let_through_def principal_acceptable_def principal_middleware_def panicking_eq Let_def)
  then show ?thesis
    using False assms by (auto simp: chain_def let_through_def authenticate_def)
qed

lemma let_through_context [simp]:
  "let_through opts (r\<lparr>hr_request_id := x\<rparr>) = let_through opts r"
  "let_through opts (r\<lparr>hr_max_bytes := y\<rparr>) = let_through opts r"
  by (simp_all add: let_through_def principal_acceptable_def header_def)

text \<open>
  C30 (error): what becomes of a panic. Take any endpoint that panics with any value before it answers,
  whatever it did to the state of the service, and a bare request that the authentication layers let
  through. The client gets a 500 whose body does not depend on the value and carries no detail, with
  the security headers and a request identifier in its header. The value goes to the log, in one line
  with the method and the path. But the recovering layer stands outside the one that assigns the
  identifier and outside the access log: the identifier in the body and in the logged line is the empty
  one of the bare request, not the one in the header, and the access log has no line of the request.
\<close>

theorem panic_becomes_opaque_500:
  fixes opts :: "('s, 'e, 'c, 'b) router_options"
  assumes "let_through opts r" and "hr_request_id r = []"
  shows "\<exists>wr w' rid. chain (panicking v effect) (middleware opts) r (new_writer, w) = (Returned, wr, w') \<and>
     wr_status wr = 500 \<and>
     wr_body wr = [ErrorResponse \<lparr> eb_code = CodeInternal,
       eb_message = ''The request could not be completed. Use the request_id when reporting this.'',
       eb_request_id = [], eb_details = [] \<rparr>] \<and>
     map_of (wr_headers wr) ''X-Frame-Options'' = Some ''DENY'' \<and>
     map_of (wr_headers wr) ''X-Request-Id'' = Some rid \<and> rid \<noteq> [] \<and>
     sr_panics w' = sr_panics w @ [\<lparr> pn_request_id = [], pn_method = hr_method r, pn_path = hr_path r, pn_panic = v \<rparr>] \<and>
     sr_log w' = sr_log w"
proof -
  define guards :: "((document, ('s, 'c, 'b) server_state) handler \<Rightarrow> (document, ('s, 'c, 'b) server_state) handler) list"
    where "guards =
    (if ro_token opts \<noteq> [] then [authenticate (ro_sha256 opts) (auth_of opts), principal_middleware] else [])"
  obtain rid w1 where drawn: "(if sanitize_request_id (header r ''X-Request-Id'') = [] then draw_request_id opts w
      else (sanitize_request_id (header r ''X-Request-Id''), w)) = (rid, w1)" by (metis surj_pair)
  have log: "sr_log w1 = sr_log w" "sr_panics w1 = sr_panics w" and rid: "rid \<noteq> []"
    using drawn by (auto simp: draw_request_id_def new_id_def Let_def split: if_splits prod.splits)
  obtain limit where chained: "chain (panicking v effect) (middleware opts) = recover_panics log_panic (request_id (draw_request_id opts)
      (access_log (ro_split_host opts) log_request [''/metrics'', ''/health''] (security_headers (max_bytes limit
        (chain (panicking v effect) guards)))))"
    by (auto simp: chain_def middleware_def guards_def)
  have inner: "\<exists>w2. chain (panicking v effect) guards (r\<lparr>hr_request_id := rid, hr_max_bytes := Some limit\<rparr>) (wr, w1) =
      (Panicked v, wr, w2) \<and> sr_log w2 = sr_log w \<and> sr_panics w2 = sr_panics w" for wr
    using guarded_panics [of opts "r\<lparr>hr_request_id := rid, hr_max_bytes := Some limit\<rparr>" v effect wr w1] assms(1)
    by (simp add: guards_def log)
  show ?thesis
    unfolding chained recover_panics_def request_id_def Let_def fst_conv snd_conv drawn access_log_def security_headers_def
      max_bytes_def
    using inner [of "set_header ''Content-Security-Policy'' (''default-src 'none'; frame-ancestors 'none'' @ [CHR 0x27])
       (set_header ''Cache-Control'' ''no-store'' (set_header ''Referrer-Policy'' ''no-referrer''
       (set_header ''X-Frame-Options'' ''DENY'' (set_header ''X-Content-Type-Options'' ''nosniff''
       (set_header ''X-Request-Id'' rid new_writer)))))"]
    by (auto simp: write_error_def map_of_write_json map_of_set_header new_writer_def error_response_def log_panic_def
        rid assms(2))
qed

theorem panic_becomes_opaque_500_witness:
  "\<exists>wr w'. chain (panicking ''nil map'' (\<lambda>r sv. sv\<lparr>sv_ids := 7\<rparr>)) (middleware sample_options) sample_admin_request
       (new_writer, sample_server) = (Returned, wr, w') \<and> wr_status wr = 500 \<and> sr_log w' = [] \<and>
     sr_panics w' = [\<lparr> pn_request_id = [], pn_method = ''GET'', pn_path = ''/api/v1/audit'', pn_panic = ''nil map'' \<rparr>]"
proof -
  have "let_through sample_options sample_admin_request"
    unfolding let_through_def principal_acceptable_def Let_def using sample_admin_facts by simp
  moreover have "hr_request_id sample_admin_request = []" by (simp add: sample_admin_request_def sample_http_def)
  ultimately obtain wr w' where "chain (panicking ''nil map'' (\<lambda>r sv. sv\<lparr>sv_ids := 7\<rparr>)) (middleware sample_options)
      sample_admin_request (new_writer, sample_server) = (Returned, wr, w')" "wr_status wr = 500"
    "sr_panics w' = sr_panics sample_server @ [\<lparr> pn_request_id = [], pn_method = hr_method sample_admin_request,
        pn_path = hr_path sample_admin_request, pn_panic = ''nil map'' \<rparr>]" "sr_log w' = sr_log sample_server"
    using panic_becomes_opaque_500 [of sample_options sample_admin_request "''nil map''" "\<lambda>r sv. sv\<lparr>sv_ids := 7\<rparr>" sample_server]
    by blast
  then show ?thesis
    by (intro exI [of _ wr] exI [of _ w'] conjI) (simp_all add: sample_server_def sample_admin_request_def sample_http_def)
qed

end
