(* ===== verification/Config.thy ===== *)
theory Config
  imports Router "HOL-Library.Word"
begin

text \<open>
  The configuration of \<^verbatim>\<open>src/internal/config/config.go\<close>: the settings read from the environment, and the
  checks that refuse a configuration before anything starts. The environment is a partial map. The
  parsers of floats, durations and IP addresses and the order in which Go ranges over a map are
  parameters; addresses, Booleans and integers are parsed here.
\<close>

subsection \<open>Settings\<close>

record http_config =
  hc_addr :: string
  hc_read_timeout :: duration
  hc_write_timeout :: duration
  hc_idle_timeout :: duration
  hc_shutdown_timeout :: duration
  hc_max_request_bytes :: int
  hc_max_batch_events :: int
  hc_rate_limit_rps :: gofloat
  hc_rate_limit_burst :: int
  hc_allow_public_bind :: bool

record postgres_config =
  pc_enabled :: bool
  pc_dsn :: string
  pc_max_open_conns :: "32 word"
  pc_max_idle_conns :: "32 word"
  pc_conn_max_lifetime :: duration

record nats_config =
  nc_enabled :: bool
  nc_url :: string
  nc_stream :: string
  nc_subject :: string
  nc_user :: string
  nc_password :: string

record opa_config =
  oc_url :: string
  oc_decision_path :: string
  oc_timeout :: duration
  oc_fail_closed :: bool

record log_config =
  lc_level :: string
  lc_format :: string

record response_config =
  rc_mode :: string
  rc_allow_real_actions :: bool
  rc_synthetic_data_only :: bool
  rc_seed_synthetic_demo :: bool

record config =
  cfg_env :: string
  cfg_http :: http_config
  cfg_postgres :: postgres_config
  cfg_nats :: nats_config
  cfg_opa :: opa_config
  cfg_log :: log_config
  cfg_response :: response_config
  cfg_internal_api_token :: string

record warning =
  wn_setting :: string
  wn_message :: string

text \<open>The parts of the standard library that stay abstract.\<close>

record go_library =
  gl_parse_float :: "string \<Rightarrow> gofloat option"
  gl_parse_duration :: "string \<Rightarrow> duration option"
  gl_ip_is_loopback :: "string \<Rightarrow> bool option"
  gl_range :: "(string \<times> duration) list \<Rightarrow> (string \<times> duration) list"

subsection \<open>Reading the environment\<close>

type_synonym environment = "string \<Rightarrow> string option"

definition env_string :: "environment \<Rightarrow> string \<Rightarrow> string \<Rightarrow> string" where
  "env_string env key fallback =
     (case env key of None \<Rightarrow> fallback | Some v \<Rightarrow> if trim_space v \<noteq> [] then trim_space v else fallback)"

fun env_first :: "environment \<Rightarrow> string \<Rightarrow> string list \<Rightarrow> string" where
  "env_first env fallback [] = fallback"
| "env_first env fallback (name # names) =
     (case env name of
        None \<Rightarrow> env_first env fallback names
      | Some v \<Rightarrow> if trim_space v \<noteq> [] then trim_space v else env_first env fallback names)"

text \<open>The spellings of \<^verbatim>\<open>strconv.ParseBool\<close>.\<close>

definition parse_bool :: "string \<Rightarrow> bool option" where
  "parse_bool s =
     (if s \<in> {''1'', ''t'', ''T'', ''true'', ''TRUE'', ''True''} then Some True
      else if s \<in> {''0'', ''f'', ''F'', ''false'', ''FALSE'', ''False''} then Some False
      else None)"

text \<open>A typed variable: the fallback when it is unset, and also when it does not parse.\<close>

definition env_parsed :: "(string \<Rightarrow> 'a option) \<Rightarrow> environment \<Rightarrow> string \<Rightarrow> 'a \<Rightarrow> 'a" where
  "env_parsed parse env key fallback =
     (case env key of
        None \<Rightarrow> fallback
      | Some v \<Rightarrow> (case parse (trim_space v) of None \<Rightarrow> fallback | Some x \<Rightarrow> x))"

definition env_bool :: "environment \<Rightarrow> string \<Rightarrow> bool \<Rightarrow> bool" where
  "env_bool env key fallback = env_parsed parse_bool env key fallback"

definition env_int :: "environment \<Rightarrow> string \<Rightarrow> int \<Rightarrow> int" where
  "env_int env key fallback = env_parsed atoi env key fallback"

definition env_float :: "go_library \<Rightarrow> environment \<Rightarrow> string \<Rightarrow> gofloat \<Rightarrow> gofloat" where
  "env_float gl env key fallback = env_parsed (gl_parse_float gl) env key fallback"

definition env_duration :: "go_library \<Rightarrow> environment \<Rightarrow> string \<Rightarrow> duration \<Rightarrow> duration" where
  "env_duration gl env key fallback = env_parsed (gl_parse_duration gl) env key fallback"

definition normalize_response_mode :: "string \<Rightarrow> string" where
  "normalize_response_mode mode = (if equal_fold mode ''simulation'' then ''simulate'' else to_lower mode)"

definition listen_addr :: "environment \<Rightarrow> string" where
  "listen_addr env =
     (if env_string env ''GRIEFER_HTTP_ADDR'' [] \<noteq> [] then env_string env ''GRIEFER_HTTP_ADDR'' []
      else if env_string env ''PORT'' [] \<noteq> [] then ''0.0.0.0:'' @ env_string env ''PORT'' []
      else ''127.0.0.1:8080'')"

subsection \<open>Addresses\<close>

text \<open>\<^verbatim>\<open>net.SplitHostPort\<close>: the last colon separates the port, a bracketed host may hold colons.\<close>

definition last_colon :: "string \<Rightarrow> nat option" where
  "last_colon s =
     (if CHR '':'' \<in> set s then Some (length s - 1 - length (takeWhile (\<lambda>c. c \<noteq> CHR '':'') (rev s))) else None)"

definition split_host_port :: "string \<Rightarrow> (string \<times> string) option" where
  "split_host_port s =
     (case last_colon s of
        None \<Rightarrow> None
      | Some i \<Rightarrow>
          if s \<noteq> [] \<and> hd s = CHR ''['' then
            (if CHR '']'' \<notin> set s then None
             else let close = length (takeWhile (\<lambda>c. c \<noteq> CHR '']'') s) in
                  if close + 1 \<noteq> i \<or> CHR ''['' \<in> set (drop 1 s) \<or> CHR '']'' \<in> set (drop (close + 1) s) then None
                  else Some (take (close - 1) (drop 1 s), drop (i + 1) s))
          else if CHR '':'' \<in> set (take i s) \<or> CHR ''['' \<in> set s \<or> CHR '']'' \<in> set s then None
          else Some (take i s, drop (i + 1) s))"

definition trim_brackets :: "string \<Rightarrow> string" where
  "trim_brackets s =
     (let b = (\<lambda>c. c \<in> {CHR ''['', CHR '']''}) in rev (dropWhile b (rev (dropWhile b s))))"

definition is_public_bind :: "go_library \<Rightarrow> string \<Rightarrow> bool" where
  "is_public_bind gl host =
     (if host \<in> {[], ''0.0.0.0'', ''::'', ''[::]''} then True
      else case gl_ip_is_loopback gl (trim_brackets host) of
             None \<Rightarrow> \<not> equal_fold host ''localhost''
           | Some loopback \<Rightarrow> \<not> loopback)"

subsection \<open>Validation\<close>

datatype config_error =
    AddrNotHostPort string | PortNotNumeric string | RefusingPublicBind string | MaxRequestBytesNotPositive
  | MaxBatchEventsNotPositive | RateLimitRpsNotPositive | RateLimitBurstTooSmall | DurationNotPositive string
  | PostgresNeedsDsn | FailClosedDisabled | NatsNeedsUrl | RealActionsRefused | NatsUserWithoutPassword
  | ExecuteNotImplemented | UnknownResponseMode string | UnknownLogFormat string | UnknownLogLevel string

abbreviation warn :: "string \<Rightarrow> string \<Rightarrow> warning" where
  "warn setting message \<equiv> \<lparr> wn_setting = setting, wn_message = message \<rparr>"

definition check_bind :: "go_library \<Rightarrow> config \<Rightarrow> config_error + warning list" where
  "check_bind gl c =
     (let addr = hc_addr (cfg_http c) in
      case split_host_port addr of
        None \<Rightarrow> Inl (AddrNotHostPort addr)
      | Some (host, port) \<Rightarrow>
          if atoi port = None then Inl (PortNotNumeric port)
          else if \<not> is_public_bind gl host then Inr []
          else if cfg_internal_api_token c \<noteq> [] then
            Inr [warn ''GRIEFER_HTTP_ADDR'' (''listening on '' @ quote addr @
              ''; every application endpoint requires INTERNAL_API_TOKEN, but the platform must still keep this service off the public internet'')]
          else if hc_allow_public_bind (cfg_http c) then
            Inr [warn ''GRIEFER_HTTP_ADDR'' (''listening on '' @ quote addr @
              '' with NO authentication; this is acceptable only on an isolated network'')]
          else Inl (RefusingPublicBind addr))"

definition timeouts :: "config \<Rightarrow> (string \<times> duration) list" where
  "timeouts c =
     [(''GRIEFER_READ_TIMEOUT'', hc_read_timeout (cfg_http c)), (''GRIEFER_WRITE_TIMEOUT'', hc_write_timeout (cfg_http c)),
      (''GRIEFER_IDLE_TIMEOUT'', hc_idle_timeout (cfg_http c)),
      (''GRIEFER_SHUTDOWN_TIMEOUT'', hc_shutdown_timeout (cfg_http c)), (''GRIEFER_OPA_TIMEOUT'', oc_timeout (cfg_opa c))]"

definition check_limits :: "go_library \<Rightarrow> config \<Rightarrow> config_error + warning list" where
  "check_limits gl c =
     (let h = cfg_http c in
      if hc_max_request_bytes h \<le> 0 then Inl MaxRequestBytesNotPositive
      else if hc_max_batch_events h \<le> 0 then Inl MaxBatchEventsNotPositive
      else if hc_rate_limit_rps h \<le> Num 0 then Inl RateLimitRpsNotPositive
      else if hc_rate_limit_burst h < 1 then Inl RateLimitBurstTooSmall
      else case find (\<lambda>nd. snd nd \<le> 0) (gl_range gl (timeouts c)) of
             Some nd \<Rightarrow> Inl (DurationNotPositive (fst nd))
           | None \<Rightarrow>
               Inr (if hc_max_request_bytes h > 32 * 2 ^ 20
                    then [warn ''GRIEFER_MAX_REQUEST_BYTES''
                      ''request body limit above 32 MiB; large bodies make memory exhaustion cheap for a caller'']
                    else []))"

definition check_backends :: "config \<Rightarrow> config_error + warning list" where
  "check_backends c =
     (if pc_enabled (cfg_postgres c) \<and> trim_space (pc_dsn (cfg_postgres c)) = [] then Inl PostgresNeedsDsn
      else if \<not> oc_fail_closed (cfg_opa c) then Inl FailClosedDisabled
      else if nc_enabled (cfg_nats c) \<and> trim_space (nc_url (cfg_nats c)) = [] then Inl NatsNeedsUrl
      else if rc_allow_real_actions (cfg_response c) then Inl RealActionsRefused
      else if nc_enabled (cfg_nats c) \<and> nc_user (cfg_nats c) \<noteq> [] \<and> nc_password (cfg_nats c) = [] then
        Inl NatsUserWithoutPassword
      else Inr ((if \<not> pc_enabled (cfg_postgres c)
                 then [warn ''GRIEFER_STORAGE_POSTGRES''
                   ''running on the in-memory store; all events, incidents and audit entries are lost on restart'']
                 else []) @
                (if \<not> rc_synthetic_data_only (cfg_response c)
                 then [warn ''SYNTHETIC_DATA_ONLY''
                   ''set to false; GRIEFER v0.1 is a prototype and has no data-handling guarantees for real telemetry'']
                 else [])))"

definition check_modes :: "config \<Rightarrow> config_error option" where
  "check_modes c =
     (let mode = rc_mode (cfg_response c); l = cfg_log c in
      if mode = ''execute'' then Some ExecuteNotImplemented
      else if mode \<noteq> ''simulate'' then Some (UnknownResponseMode mode)
      else if lc_format l \<notin> {''json'', ''text''} then Some (UnknownLogFormat (lc_format l))
      else if to_lower (lc_level l) \<notin> {''debug'', ''info'', ''warn'', ''error''} then Some (UnknownLogLevel (lc_level l))
      else None)"

definition validate :: "go_library \<Rightarrow> config \<Rightarrow> config_error + warning list" where
  "validate gl c =
     (case check_bind gl c of
        Inl e \<Rightarrow> Inl e
      | Inr w1 \<Rightarrow>
          (case check_limits gl c of
             Inl e \<Rightarrow> Inl e
           | Inr w2 \<Rightarrow>
               (case check_backends c of
                  Inl e \<Rightarrow> Inl e
                | Inr w3 \<Rightarrow> (case check_modes c of Some e \<Rightarrow> Inl e | None \<Rightarrow> Inr (w1 @ w2 @ w3)))))"

text \<open>\<^verbatim>\<open>Redacted\<close>: a copy that may be printed.\<close>

definition redact :: "string \<Rightarrow> string" where
  "redact s = (if s \<noteq> [] then ''[redacted]'' else s)"

definition redacted :: "config \<Rightarrow> config" where
  "redacted c =
     c\<lparr>cfg_postgres := (cfg_postgres c)\<lparr>pc_dsn := redact (pc_dsn (cfg_postgres c))\<rparr>,
       cfg_internal_api_token := redact (cfg_internal_api_token c),
       cfg_nats := (cfg_nats c)\<lparr>nc_password := redact (nc_password (cfg_nats c))\<rparr>\<rparr>"

subsection \<open>Loading\<close>

definition load_http :: "go_library \<Rightarrow> environment \<Rightarrow> http_config" where
  "load_http gl env =
     \<lparr> hc_addr = listen_addr env,
       hc_read_timeout = env_duration gl env ''GRIEFER_READ_TIMEOUT'' (10 * second),
       hc_write_timeout = env_duration gl env ''GRIEFER_WRITE_TIMEOUT'' (30 * second),
       hc_idle_timeout = env_duration gl env ''GRIEFER_IDLE_TIMEOUT'' (120 * second),
       hc_shutdown_timeout = env_duration gl env ''GRIEFER_SHUTDOWN_TIMEOUT'' (15 * second),
       hc_max_request_bytes = env_int env ''GRIEFER_MAX_REQUEST_BYTES'' (2 ^ 20),
       hc_max_batch_events = env_int env ''GRIEFER_MAX_BATCH_EVENTS'' 500,
       hc_rate_limit_rps = env_float gl env ''GRIEFER_RATE_LIMIT_RPS'' (Num 50),
       hc_rate_limit_burst = env_int env ''GRIEFER_RATE_LIMIT_BURST'' 100,
       hc_allow_public_bind = env_bool env ''GRIEFER_ALLOW_PUBLIC_BIND'' False \<rparr>"

text \<open>The conversion to \<^verbatim>\<open>int32\<close> wraps.\<close>

definition load_postgres :: "go_library \<Rightarrow> environment \<Rightarrow> postgres_config" where
  "load_postgres gl env =
     \<lparr> pc_enabled = env_bool env ''GRIEFER_STORAGE_POSTGRES'' False,
       pc_dsn = env_first env [] [''DATABASE_URL'', ''GRIEFER_POSTGRES_DSN''],
       pc_max_open_conns = word_of_int (env_int env ''GRIEFER_DB_MAX_OPEN_CONNS'' 20),
       pc_max_idle_conns = word_of_int (env_int env ''GRIEFER_DB_MAX_IDLE_CONNS'' 5),
       pc_conn_max_lifetime = env_duration gl env ''GRIEFER_DB_CONN_MAX_LIFETIME'' (30 * minute) \<rparr>"

definition load_nats :: "environment \<Rightarrow> nats_config" where
  "load_nats env =
     \<lparr> nc_enabled = env_bool env ''GRIEFER_NATS_ENABLED'' False,
       nc_url = env_first env ''nats://localhost:4222'' [''NATS_URL'', ''GRIEFER_NATS_URL''],
       nc_stream = env_string env ''GRIEFER_NATS_STREAM'' ''GRIEFER_EVENTS'',
       nc_subject = env_string env ''GRIEFER_NATS_SUBJECT'' ''griefer.events.v1'',
       nc_user = env_first env [] [''NATS_USER'', ''GRIEFER_NATS_USER''],
       nc_password = env_first env [] [''NATS_PASSWORD'', ''GRIEFER_NATS_PASSWORD''] \<rparr>"

definition load_opa :: "go_library \<Rightarrow> environment \<Rightarrow> opa_config" where
  "load_opa gl env =
     \<lparr> oc_url = env_first env [] [''OPA_URL'', ''GRIEFER_OPA_URL''],
       oc_decision_path = env_string env ''GRIEFER_OPA_DECISION_PATH'' ''griefer/response/decision'',
       oc_timeout = env_duration gl env ''GRIEFER_OPA_TIMEOUT'' (3 * second),
       oc_fail_closed = env_bool env ''GRIEFER_OPA_FAIL_CLOSED'' True \<rparr>"

definition load_response :: "environment \<Rightarrow> response_config" where
  "load_response env =
     \<lparr> rc_mode = normalize_response_mode (env_first env ''simulate'' [''RESPONSE_MODE'', ''GRIEFER_RESPONSE_MODE'']),
       rc_allow_real_actions = env_bool env ''ALLOW_REAL_ACTIONS'' False,
       rc_synthetic_data_only = env_bool env ''SYNTHETIC_DATA_ONLY'' True,
       rc_seed_synthetic_demo = env_bool env ''SEED_SYNTHETIC_DEMO'' False \<rparr>"

definition read_config :: "go_library \<Rightarrow> environment \<Rightarrow> config" where
  "read_config gl env =
     \<lparr> cfg_env = env_first env ''local'' [''APP_ENV'', ''GRIEFER_ENV''],
       cfg_http = load_http gl env, cfg_postgres = load_postgres gl env, cfg_nats = load_nats env,
       cfg_opa = load_opa gl env,
       cfg_log = \<lparr> lc_level = env_string env ''GRIEFER_LOG_LEVEL'' ''info'',
         lc_format = env_string env ''GRIEFER_LOG_FORMAT'' ''json'' \<rparr>,
       cfg_response = load_response env,
       cfg_internal_api_token = env_first env [] [''INTERNAL_API_TOKEN'', ''GRIEFER_INTERNAL_API_TOKEN''] \<rparr>"

definition load_config :: "go_library \<Rightarrow> environment \<Rightarrow> config \<times> (config_error + warning list)" where
  "load_config gl env = (read_config gl env, validate gl (read_config gl env))"

subsection \<open>What an accepted configuration guarantees\<close>

lemma validate_parts:
  assumes "validate gl c = Inr ws"
  obtains w1 w2 w3 where "check_bind gl c = Inr w1" "check_limits gl c = Inr w2" "check_backends c = Inr w3"
    "check_modes c = None" "ws = w1 @ w2 @ w3"
  using assms by (auto simp: validate_def split: sum.splits option.splits)

lemma check_limits_accepts:
  assumes "check_limits gl c = Inr w" and "\<And>xs. set (gl_range gl xs) = set xs"
  shows "0 < hc_max_request_bytes (cfg_http c) \<and> 0 < hc_max_batch_events (cfg_http c) \<and>
    \<not> hc_rate_limit_rps (cfg_http c) \<le> Num 0 \<and> 1 \<le> hc_rate_limit_burst (cfg_http c) \<and>
    (\<forall>nd \<in> set (timeouts c). 0 < snd nd)"
proof -
  have "find (\<lambda>nd. snd nd \<le> 0) (gl_range gl (timeouts c)) = None" and *: "0 < hc_max_request_bytes (cfg_http c)"
    "0 < hc_max_batch_events (cfg_http c)" "\<not> hc_rate_limit_rps (cfg_http c) \<le> Num 0" "1 \<le> hc_rate_limit_burst (cfg_http c)"
    using assms(1) by (auto simp: check_limits_def Let_def split: if_splits option.splits)
  then have "\<forall>nd \<in> set (timeouts c). 0 < snd nd" using assms(2) by (auto simp: find_None_iff not_le)
  with * show ?thesis by blast
qed

lemma check_bind_accepts:
  assumes "check_bind gl c = Inr w"
  obtains host port where "split_host_port (hc_addr (cfg_http c)) = Some (host, port)" "atoi port \<noteq> None"
    "is_public_bind gl host \<Longrightarrow> cfg_internal_api_token c \<noteq> [] \<or> hc_allow_public_bind (cfg_http c)"
    "is_public_bind gl host \<Longrightarrow> w \<noteq> []"
  using assms by (auto simp: check_bind_def Let_def split: option.splits if_splits)

lemma check_backends_accepts:
  assumes "check_backends c = Inr w"
  shows "oc_fail_closed (cfg_opa c) \<and> \<not> rc_allow_real_actions (cfg_response c) \<and>
    (pc_enabled (cfg_postgres c) \<longrightarrow> trim_space (pc_dsn (cfg_postgres c)) \<noteq> []) \<and>
    (nc_enabled (cfg_nats c) \<and> nc_user (cfg_nats c) \<noteq> [] \<longrightarrow> nc_password (cfg_nats c) \<noteq> [])"
  using assms by (auto simp: check_backends_def split: if_splits)

text \<open>The configurations the platform may run with.\<close>

definition safe_config :: "go_library \<Rightarrow> config \<Rightarrow> bool" where
  "safe_config gl c \<longleftrightarrow>
     rc_mode (cfg_response c) = ModeSimulate \<and> \<not> rc_allow_real_actions (cfg_response c) \<and> oc_fail_closed (cfg_opa c) \<and>
     0 < hc_max_request_bytes (cfg_http c) \<and> 0 < hc_max_batch_events (cfg_http c) \<and> 1 \<le> hc_rate_limit_burst (cfg_http c) \<and>
     (\<forall>nd \<in> set (timeouts c). 0 < snd nd) \<and>
     (nc_enabled (cfg_nats c) \<and> nc_user (cfg_nats c) \<noteq> [] \<longrightarrow> nc_password (cfg_nats c) \<noteq> []) \<and>
     (\<exists>host port. split_host_port (hc_addr (cfg_http c)) = Some (host, port) \<and>
        (is_public_bind gl host \<longrightarrow> cfg_internal_api_token c \<noteq> [] \<or> hc_allow_public_bind (cfg_http c)))"

lemma validate_safe:
  assumes "validate gl c = Inr ws" and "\<And>xs. set (gl_range gl xs) = set xs"
  shows "safe_config gl c"
proof -
  obtain w1 w2 w3 where v: "check_bind gl c = Inr w1" "check_limits gl c = Inr w2" "check_backends c = Inr w3" "check_modes c = None"
    using validate_parts [OF assms(1)] by metis
  have "rc_mode (cfg_response c) = ModeSimulate" using v(4) by (auto simp: check_modes_def Let_def split: if_splits)
  moreover obtain host port where "split_host_port (hc_addr (cfg_http c)) = Some (host, port)"
      "is_public_bind gl host \<Longrightarrow> cfg_internal_api_token c \<noteq> [] \<or> hc_allow_public_bind (cfg_http c)"
    using check_bind_accepts [OF v(1)] by metis
  ultimately show ?thesis
    using check_limits_accepts [OF v(2) assms(2)] check_backends_accepts [OF v(3)] unfolding safe_config_def by blast
qed

subsection \<open>Values that do not parse\<close>

definition bool_keys :: "string list" where
  "bool_keys = [''GRIEFER_ALLOW_PUBLIC_BIND'', ''GRIEFER_STORAGE_POSTGRES'', ''GRIEFER_NATS_ENABLED'',
     ''GRIEFER_OPA_FAIL_CLOSED'', ''ALLOW_REAL_ACTIONS'', ''SYNTHETIC_DATA_ONLY'', ''SEED_SYNTHETIC_DEMO'']"

definition int_keys :: "string list" where
  "int_keys = [''GRIEFER_MAX_REQUEST_BYTES'', ''GRIEFER_MAX_BATCH_EVENTS'', ''GRIEFER_RATE_LIMIT_BURST'',
     ''GRIEFER_DB_MAX_OPEN_CONNS'', ''GRIEFER_DB_MAX_IDLE_CONNS'']"

definition duration_keys :: "string list" where
  "duration_keys = [''GRIEFER_READ_TIMEOUT'', ''GRIEFER_WRITE_TIMEOUT'', ''GRIEFER_IDLE_TIMEOUT'',
     ''GRIEFER_SHUTDOWN_TIMEOUT'', ''GRIEFER_DB_CONN_MAX_LIFETIME'', ''GRIEFER_OPA_TIMEOUT'']"

definition unreadable :: "go_library \<Rightarrow> string \<Rightarrow> string \<Rightarrow> bool" where
  "unreadable gl key v =
     (if key \<in> set bool_keys then parse_bool (trim_space v) = None
      else if key \<in> set int_keys then atoi (trim_space v) = None
      else if key \<in> set duration_keys then gl_parse_duration gl (trim_space v) = None
      else key = ''GRIEFER_RATE_LIMIT_RPS'' \<and> gl_parse_float gl (trim_space v) = None)"

lemma env_parsed_unset:
  "(k = key \<Longrightarrow> env key = Some v \<and> parse (trim_space v) = None) \<Longrightarrow>
     env_parsed parse (env(key := None)) k d = env_parsed parse env k d"
  by (auto simp: env_parsed_def)

lemma env_string_unset:
  "key \<noteq> k \<Longrightarrow> env_string (env(key := None)) k d = env_string env k d"
  "key \<notin> set ks \<Longrightarrow> env_first (env(key := None)) d ks = env_first env d ks"
  by (simp add: env_string_def) (induction ks; auto split: option.split)

lemma unreadable_unset:
  assumes "env key = Some v" and "unreadable gl key v"
  shows "k \<in> set bool_keys \<Longrightarrow> env_bool (env(key := None)) k b = env_bool env k b"
    and "k \<in> set int_keys \<Longrightarrow> env_int (env(key := None)) k i = env_int env k i"
    and "k \<in> set duration_keys \<Longrightarrow> env_duration gl (env(key := None)) k t = env_duration gl env k t"
    and "env_float gl (env(key := None)) ''GRIEFER_RATE_LIMIT_RPS'' x = env_float gl env ''GRIEFER_RATE_LIMIT_RPS'' x"
proof -
  have disjoint: "key \<in> set int_keys \<Longrightarrow> key \<notin> set bool_keys" "key \<in> set duration_keys \<Longrightarrow> key \<notin> set bool_keys \<and> key \<notin> set int_keys"
    "''GRIEFER_RATE_LIMIT_RPS'' \<notin> set bool_keys \<union> set int_keys \<union> set duration_keys"
    by (auto simp: bool_keys_def int_keys_def duration_keys_def)
  show "k \<in> set bool_keys \<Longrightarrow> env_bool (env(key := None)) k b = env_bool env k b"
    unfolding env_bool_def using assms by (intro env_parsed_unset) (auto simp: unreadable_def)
  show "k \<in> set int_keys \<Longrightarrow> env_int (env(key := None)) k i = env_int env k i"
    unfolding env_int_def using assms disjoint(1) by (intro env_parsed_unset) (auto simp: unreadable_def)
  show "k \<in> set duration_keys \<Longrightarrow> env_duration gl (env(key := None)) k t = env_duration gl env k t"
    unfolding env_duration_def using assms disjoint(2) by (intro env_parsed_unset) (auto simp: unreadable_def)
  show "env_float gl (env(key := None)) ''GRIEFER_RATE_LIMIT_RPS'' x = env_float gl env ''GRIEFER_RATE_LIMIT_RPS'' x"
    unfolding env_float_def using assms disjoint(3) by (intro env_parsed_unset) (auto simp: unreadable_def)
qed

lemma unreadable_not_string:
  "unreadable gl key v \<Longrightarrow> key \<notin> {''GRIEFER_HTTP_ADDR'', ''PORT'', ''DATABASE_URL'', ''GRIEFER_POSTGRES_DSN'', ''NATS_URL'',
     ''GRIEFER_NATS_URL'', ''GRIEFER_NATS_STREAM'', ''GRIEFER_NATS_SUBJECT'', ''NATS_USER'', ''GRIEFER_NATS_USER'',
     ''NATS_PASSWORD'', ''GRIEFER_NATS_PASSWORD'', ''OPA_URL'', ''GRIEFER_OPA_URL'', ''GRIEFER_OPA_DECISION_PATH'',
     ''RESPONSE_MODE'', ''GRIEFER_RESPONSE_MODE'', ''APP_ENV'', ''GRIEFER_ENV'', ''GRIEFER_LOG_LEVEL'', ''GRIEFER_LOG_FORMAT'',
     ''INTERNAL_API_TOKEN'', ''GRIEFER_INTERNAL_API_TOKEN''}"
  by (auto simp: unreadable_def bool_keys_def int_keys_def duration_keys_def)

text \<open>
  A value that does not parse is not an error. Setting a Boolean, numeric or duration
  variable to something its parser rejects gives exactly the outcome of leaving it unset, in the
  configuration, in the warnings and in the verdict; so \<^verbatim>\<open>SYNTHETIC_DATA_ONLY=no\<close> means true and a body
  limit of \<^verbatim>\<open>10MB\<close> means one MiB, and nobody is told.
\<close>

theorem unreadable_value_is_ignored:
  assumes "env key = Some v" and "unreadable gl key v"
  shows "load_config gl env = load_config gl (env(key := None))"
proof -
  note unset = unreadable_unset [of env, OF assms] env_string_unset
  note no = unreadable_not_string [OF assms(2)]
  have "listen_addr (env(key := None)) = listen_addr env"
    using no by (simp add: listen_addr_def env_string_unset)
  moreover have "load_http gl (env(key := None)) = load_http gl env"
    using calculation by (simp add: load_http_def unset(1-4) bool_keys_def int_keys_def duration_keys_def del: env_first.simps)
  moreover have "load_postgres gl (env(key := None)) = load_postgres gl env"
    using no by (simp add: load_postgres_def unset bool_keys_def int_keys_def duration_keys_def del: env_first.simps)
  moreover have "load_nats (env(key := None)) = load_nats env"
    using no by (simp add: load_nats_def unset bool_keys_def del: env_first.simps)
  moreover have "load_opa gl (env(key := None)) = load_opa gl env"
    using no by (simp add: load_opa_def unset bool_keys_def duration_keys_def del: env_first.simps)
  moreover have "load_response (env(key := None)) = load_response env"
    using no by (simp add: load_response_def unset bool_keys_def del: env_first.simps)
  ultimately have "read_config gl (env(key := None)) = read_config gl env"
    using no by (simp add: read_config_def env_string_unset del: env_first.simps)
  then show ?thesis by (simp add: load_config_def)
qed

definition sample_library :: go_library where
  "sample_library = \<lparr> gl_parse_float = (\<lambda>s. None), gl_parse_duration = (\<lambda>s. None),
     gl_ip_is_loopback = (\<lambda>s. if s = ''127.0.0.1'' then Some True else None), gl_range = (\<lambda>xs. xs) \<rparr>"

theorem unreadable_value_is_ignored_witness:
  "load_config sample_library [''SYNTHETIC_DATA_ONLY'' \<mapsto> ''no''] = load_config sample_library Map.empty \<and>
   rc_synthetic_data_only (cfg_response (fst (load_config sample_library [''SYNTHETIC_DATA_ONLY'' \<mapsto> ''no''])))"
proof -
  have "unreadable sample_library ''SYNTHETIC_DATA_ONLY'' ''no''"
  proof -
    have "trim_space ''no'' = ''no''" by code_simp
    then show ?thesis by (simp add: unreadable_def bool_keys_def parse_bool_def)
  qed
  then have "load_config sample_library [''SYNTHETIC_DATA_ONLY'' \<mapsto> ''no''] = load_config sample_library Map.empty"
    using unreadable_value_is_ignored [of "[''SYNTHETIC_DATA_ONLY'' \<mapsto> ''no'']" "''SYNTHETIC_DATA_ONLY''" "''no''" sample_library]
    by simp
  then show ?thesis by (simp add: load_config_def read_config_def load_response_def env_bool_def env_parsed_def)
qed

end
