(* ===== verification/Startup.thy ===== *)
theory Startup
  imports Config
begin

text \<open>
  How the platform comes up: the synthetic fixtures of \<^verbatim>\<open>src/internal/demo/demo.go\<close> and the wiring of
  \<^verbatim>\<open>src/cmd/griefer-api/main.go\<close>, from the environment to the router. Connecting to PostgreSQL and NATS,
  the JSON codec, the RFC 3339 layout and the embedded files are parameters. Serving, signals and
  closing are left out.
\<close>

subsection \<open>Synthetic fixtures\<close>

record scenario =
  sc_id :: string
  sc_title :: string
  sc_description :: string
  sc_synthetic :: bool
  sc_events :: "string list"

datatype demo_error =
    FixtureUnreadable string | FixtureUndecodable string | InventoryEmpty | NotSynthetic string | ScenarioEmpty string
  | NothingToRebase | EventNotObject int | EventWithoutTimestamp int | TimestampNotString int
  | TimestampNotRfc3339 int string | EventNotEncodable int

definition load_inventory ::
  "(string \<Rightarrow> string option) \<Rightarrow> (string \<Rightarrow> inventory option) \<Rightarrow> string \<Rightarrow> demo_error + inventory" where
  "load_inventory fetch parse path =
     (case fetch path of
        None \<Rightarrow> Inl (FixtureUnreadable path)
      | Some raw \<Rightarrow>
          (case parse raw of
             None \<Rightarrow> Inl (FixtureUndecodable path)
           | Some i \<Rightarrow> if inv_entities i = [] then Inl InventoryEmpty else Inr i))"

definition load_scenario ::
  "(string \<Rightarrow> string option) \<Rightarrow> (string \<Rightarrow> scenario option) \<Rightarrow> string \<Rightarrow> demo_error + scenario" where
  "load_scenario fetch parse path =
     (case fetch path of
        None \<Rightarrow> Inl (FixtureUnreadable path)
      | Some raw \<Rightarrow>
          (case parse raw of
             None \<Rightarrow> Inl (FixtureUndecodable path)
           | Some sc \<Rightarrow>
               if \<not> sc_synthetic sc then Inl (NotSynthetic path)
               else if sc_events sc = [] then Inl (ScenarioEmpty path)
               else Inr sc))"

text \<open>The codecs \<^verbatim>\<open>Rebase\<close> uses. An object keeps the raw text of its fields.\<close>

record event_codec =
  ec_object :: "string \<Rightarrow> (string \<times> string) list option"
  ec_string :: "string \<Rightarrow> string option"
  ec_parse_time :: "string \<Rightarrow> time option"
  ec_format_time :: "time \<Rightarrow> string"
  ec_encode_string :: "string \<Rightarrow> string"
  ec_encode :: "(string \<times> string) list \<Rightarrow> string option"

text \<open>The fields of an event and the time it carries.\<close>

definition timed_event :: "event_codec \<Rightarrow> int \<Rightarrow> string \<Rightarrow> demo_error + (string \<times> string) list \<times> time" where
  "timed_event ec i raw =
     (case ec_object ec raw of
        None \<Rightarrow> Inl (EventNotObject i)
      | Some doc \<Rightarrow>
          (case map_of doc ''timestamp'' of
             None \<Rightarrow> Inl (EventWithoutTimestamp i)
           | Some raw_ts \<Rightarrow>
               (case ec_string ec raw_ts of
                  None \<Rightarrow> Inl (TimestampNotString i)
                | Some ts \<Rightarrow>
                    (case ec_parse_time ec ts of None \<Rightarrow> Inl (TimestampNotRfc3339 i ts) | Some t \<Rightarrow> Inr (doc, t)))))"

fun timed_events :: "event_codec \<Rightarrow> int \<Rightarrow> string list \<Rightarrow> demo_error + ((string \<times> string) list \<times> time) list" where
  "timed_events ec i [] = Inr []"
| "timed_events ec i (raw # raws) =
     (case timed_event ec i raw of
        Inl e \<Rightarrow> Inl e
      | Inr dt \<Rightarrow> (case timed_events ec (i + 1) raws of Inl e \<Rightarrow> Inl e | Inr dts \<Rightarrow> Inr (dt # dts)))"

definition latest_time :: "time list \<Rightarrow> time" where
  "latest_time ts = fold (\<lambda>t latest. if t > latest then t else latest) ts 0"

fun encode_shifted ::
  "event_codec \<Rightarrow> duration \<Rightarrow> int \<Rightarrow> ((string \<times> string) list \<times> time) list \<Rightarrow> demo_error + string list" where
  "encode_shifted ec delta i [] = Inr []"
| "encode_shifted ec delta i (dt # dts) =
     (case ec_encode ec (AList.update ''timestamp'' (ec_encode_string ec (ec_format_time ec (snd dt + delta))) (fst dt)) of
        None \<Rightarrow> Inl (EventNotEncodable i)
      | Some raw \<Rightarrow> (case encode_shifted ec delta (i + 1) dts of Inl e \<Rightarrow> Inl e | Inr raws \<Rightarrow> Inr (raw # raws)))"

definition rebase :: "event_codec \<Rightarrow> scenario \<Rightarrow> time \<Rightarrow> demo_error + string list" where
  "rebase ec sc ending_at =
     (if sc_events sc = [] then Inl NothingToRebase
      else case timed_events ec 0 (sc_events sc) of
             Inl e \<Rightarrow> Inl e
           | Inr dts \<Rightarrow> encode_shifted ec (time_sub ending_at (latest_time (map snd dts))) 0 dts)"

subsection \<open>Choosing the backends\<close>

text \<open>\<^verbatim>\<open>newLogger\<close> compares the level as it was given.\<close>

datatype slog_level = SlogDebug | SlogInfo | SlogWarn | SlogError

definition logger_level :: "log_config \<Rightarrow> slog_level" where
  "logger_level l =
     (if lc_level l = ''debug'' then SlogDebug else if lc_level l = ''warn'' then SlogWarn
      else if lc_level l = ''error'' then SlogError else SlogInfo)"

record ('s, 'e) opened_store =
  os_ops :: "('s, 'e) store_ops"
  os_save_incident :: "'s \<Rightarrow> incident \<Rightarrow> 'e + 's"
  os_state :: 's

record opened_kernel =
  ok_name :: string
  ok_evaluate :: "time \<Rightarrow> policy_input \<Rightarrow> policy_decision \<times> kernel_error option"
  ok_health :: "time \<Rightarrow> kernel_error option"

record opened_bus =
  ob_kind :: string
  ob_publish_fails :: "security_event \<Rightarrow> bool"
  ob_healthy :: bool

text \<open>What the process finds in its surroundings.\<close>

record ('s, 'e, 'v, 'b) surroundings =
  su_library :: go_library
  su_memory :: "int \<Rightarrow> ('s, 'e) opened_store"
  su_postgres :: "postgres_config \<Rightarrow> string + ('s, 'e) opened_store"
  su_embedded :: "kernel_error + 'v embedded_kernel"
  su_http :: http_client
  su_url_parse :: "string \<Rightarrow> kernel_error + parsed_url"
  su_nats :: "nats_config \<Rightarrow> opened_bus option"
  su_read_file :: "string \<Rightarrow> string option"
  su_decode_inventory :: "string \<Rightarrow> inventory option"
  su_decode_scenario :: "string \<Rightarrow> scenario option"
  su_codec :: event_codec
  su_rules :: "load_error + rule list"
  su_schema :: "(string \<Rightarrow> schema_outcome) option"
  su_unmarshal :: "string \<Rightarrow> security_event option"
  su_uuid :: "nat \<Rightarrow> string"
  su_revision :: string
  su_sha256 :: "string \<Rightarrow> string"
  su_bucket :: "'b token_bucket"
  su_decode_batch :: "string \<Rightarrow> string list option"
  su_decode_request :: "string \<Rightarrow> evaluate_request option"

definition new_store :: "('s, 'e, 'v, 'b) surroundings \<Rightarrow> config \<Rightarrow> string + ('s, 'e) opened_store" where
  "new_store su c =
     (if \<not> pc_enabled (cfg_postgres c) then Inr (su_memory su 0)
      else case su_postgres su (cfg_postgres c) of Inl e \<Rightarrow> Inl (''connect to PostgreSQL: '' @ e) | Inr s \<Rightarrow> Inr s)"

definition new_kernel :: "('s, 'e, 'v, 'b) surroundings \<Rightarrow> config \<Rightarrow> kernel_error + opened_kernel" where
  "new_kernel su c =
     (if oc_url (cfg_opa c) = [] then
        (case su_embedded su of
           Inl e \<Rightarrow> Inl (wrap_error ''build embedded policy kernel: '' e)
         | Inr k \<Rightarrow> Inr \<lparr> ok_name = EngineEmbedded, ok_evaluate = embedded_evaluate k, ok_health = embedded_health k \<rparr>)
      else
        (case new_remote_kernel (su_url_parse su) (oc_url (cfg_opa c)) (oc_decision_path (cfg_opa c)) (oc_timeout (cfg_opa c)) of
           Inl e \<Rightarrow> Inl (wrap_error ''build remote policy kernel: '' e)
         | Inr k \<Rightarrow> Inr \<lparr> ok_name = EngineRemote, ok_evaluate = remote_evaluate (su_http su) k,
             ok_health = (\<lambda>now. remote_health (su_http su) k) \<rparr>))"

text \<open>\<^verbatim>\<open>NoopPublisher\<close> discards every event and is always healthy.\<close>

definition noop_publisher :: opened_bus where
  "noop_publisher = \<lparr> ob_kind = ''disabled'', ob_publish_fails = (\<lambda>ev. False), ob_healthy = True \<rparr>"

definition new_publisher :: "('s, 'e, 'v, 'b) surroundings \<Rightarrow> config \<Rightarrow> opened_bus" where
  "new_publisher su c =
     (if \<not> nc_enabled (cfg_nats c) then noop_publisher
      else case su_nats su (cfg_nats c) of None \<Rightarrow> noop_publisher | Some b \<Rightarrow> b)"

text \<open>The address the health check dials: a wildcard bind is not one.\<close>

definition dial_address :: "config \<Rightarrow> string option" where
  "dial_address c =
     (case split_host_port (hc_addr (cfg_http c)) of
        None \<Rightarrow> None
      | Some (host, port) \<Rightarrow>
          let h = (if host \<in> {[], ''0.0.0.0'', ''::''} then ''127.0.0.1'' else host)
          in Some (''http://'' @ (if CHR '':'' \<in> set h then ''['' @ h @ '']'' else h) @ '':'' @ port @ ''/ready''))"

subsection \<open>Seeding\<close>

abbreviation inventory_path :: string where "inventory_path \<equiv> ''synthetic/asset-inventory.json''"
abbreviation scenario_one :: string where "scenario_one \<equiv> ''synthetic/scenario-01-identity-compromise.json''"

datatype 'e seed_error = SeedCheck 'e | SeedFixture demo_error | SeedIngest int "'e ingest_error"

definition seed_context :: request_context where
  "seed_context = \<lparr> rc_request_id = [], rc_principal = zero_principal \<rparr>"

fun seed_events ::
  "(string, 's, 'e, 'c) service \<Rightarrow> time \<Rightarrow> int \<Rightarrow> string list \<Rightarrow> ('s, 'c) service_state \<Rightarrow>
     'e seed_error option \<times> ('s, 'c) service_state" where
  "seed_events d now i [] st = (None, st)"
| "seed_events d now i (raw # raws) st =
     (case ingest d now seed_context raw st of
        (Inl e, st') \<Rightarrow> (Some (SeedIngest i e), st')
      | (Inr _, st') \<Rightarrow> seed_events d now (i + 1) raws st')"

definition seed_synthetic_demo ::
  "('s, 'e, 'v, 'b) surroundings \<Rightarrow> (string, 's, 'e, 'c) service \<Rightarrow> time \<Rightarrow> ('s, 'c) service_state \<Rightarrow>
     'e seed_error option \<times> ('s, 'c) service_state" where
  "seed_synthetic_demo su d now st =
     (case so_list_incidents (sd_store d) (sv_store st)
             \<lparr> fl_status = [], fl_severity = [], fl_min_risk_score = 0, fl_limit = 1, fl_offset = 0 \<rparr> of
        Inl e \<Rightarrow> (Some (SeedCheck e), st)
      | Inr (existing, _) \<Rightarrow>
          if existing \<noteq> [] then (None, st)
          else
            (case load_scenario (su_read_file su) (su_decode_scenario su) scenario_one of
               Inl e \<Rightarrow> (Some (SeedFixture e), st)
             | Inr sc \<Rightarrow>
                 (case rebase (su_codec su) sc now of
                    Inl e \<Rightarrow> (Some (SeedFixture e), st)
                  | Inr raws \<Rightarrow> seed_events d now 1 raws st)))"

subsection \<open>Starting\<close>

datatype 'e startup_error =
    BadConfig config_error | StoreFailed string | KernelFailed kernel_error | KernelUnusable kernel_error
  | InventoryFailed demo_error | InventoryRejected inventory_error | RulesFailed load_error | EngineFailed engine_error
  | SchemaFailed | StartAuditFailed "audit_error + 'e" | SeedFailed "'e seed_error"

text \<open>A step whose error ends the start.\<close>

definition step :: "('x \<Rightarrow> 'err) \<Rightarrow> 'x + 'a \<Rightarrow> ('a \<Rightarrow> 'err + 'r) \<Rightarrow> 'err + 'r" where
  "step wrap m k = (case m of Inl e \<Rightarrow> Inl (wrap e) | Inr x \<Rightarrow> k x)"

definition correlator_run ::
  "('s, 'e) opened_store \<Rightarrow> (nat \<Rightarrow> string) \<Rightarrow> time \<Rightarrow> sgraph \<Rightarrow> security_event \<Rightarrow> engine \<times> nat \<times> 's \<Rightarrow>
     correlation_outcome \<times> engine \<times> nat \<times> 's" where
  "correlator_run os uuid now g ev st =
     (case process (so_get_incident (os_ops os)) (os_save_incident os) uuid now g ev st of
        (Inl err, st') \<Rightarrow> (CorrelationError, st')
      | (Inr i, st') \<Rightarrow> (CorrelationDone i, st'))"

definition wire_service ::
  "('s, 'e, 'v, 'b) surroundings \<Rightarrow> config \<Rightarrow> ('s, 'e) opened_store \<Rightarrow> opened_kernel \<Rightarrow> opened_bus \<Rightarrow>
     (string \<Rightarrow> schema_outcome) \<Rightarrow> rule list \<Rightarrow> (string, 's, 'e, engine) service" where
  "wire_service su c os k b schema rules =
     new_service \<lparr> sd_schema = schema, sd_unmarshal = su_unmarshal su, sd_store = os_ops os,
       sd_process = Some (correlator_run os (su_uuid su)), sd_evaluate = ok_evaluate k,
       sd_publish_fails = ob_publish_fails b, sd_uuid = su_uuid su, sd_revision = su_revision su,
       sd_max_batch_events = hc_max_batch_events (cfg_http c), sd_kernel_name = ok_name k,
       sd_kernel_healthy = (\<lambda>now. ok_health k now = None), sd_bus_kind = ob_kind b, sd_bus_healthy = ob_healthy b,
       sd_rule_count = int (length rules) \<rparr>"

definition started_entry :: "('s, 'e) store_ops \<Rightarrow> opened_kernel \<Rightarrow> opened_bus \<Rightarrow> rule list \<Rightarrow> string \<Rightarrow> audit_entry" where
  "started_entry ops k b rules mode =
     zero_entry\<lparr>ae_action := ''system.started'', ae_subject_type := ''system'', ae_subject_id := ''griefer-api'',
       ae_outcome := OutcomeSuccess, ae_reason := ''GRIEFER API started in simulation-only mode'',
       ae_details := [(''version'', DString api_version), (''storage'', DString (so_kind ops)),
         (''policy_engine'', DString (ok_name k)), (''event_bus'', DString (ob_kind b)),
         (''rules'', DInt (int (length rules))), (''response_mode'', DString mode)]\<rparr>"

definition wire_router ::
  "('s, 'e, 'v, 'b) surroundings \<Rightarrow> config \<Rightarrow> (string, 's, 'e, engine) service \<Rightarrow> ('s, 'e, engine, 'b) router_options" where
  "wire_router su c d =
     \<lparr> ro_service = d, ro_registry = True, ro_max_request_bytes = hc_max_request_bytes (cfg_http c),
       ro_token = cfg_internal_api_token c, ro_sha256 = su_sha256 su,
       ro_split_host = (\<lambda>a. map_option fst (split_host_port a)), ro_bucket = su_bucket su,
       ro_decode_batch = su_decode_batch su, ro_decode_request = su_decode_request su \<rparr>"

text \<open>The service and its state once everything is open: the start is audited, then the demo is seeded.\<close>

definition bring_up ::
  "('s, 'e, 'v, 'b) surroundings \<Rightarrow> config \<Rightarrow> time \<Rightarrow> ('s, 'e) opened_store \<Rightarrow> opened_kernel \<Rightarrow> opened_bus \<Rightarrow> sgraph \<Rightarrow>
     rule list \<Rightarrow> engine \<Rightarrow> (string \<Rightarrow> schema_outcome) \<Rightarrow>
     'e startup_error + ('s, 'e, engine, 'b) router_options \<times> ('s, engine, 'b) server_state" where
  "bring_up su c now os k b g rules en schema =
     (let d = wire_service su c os k b schema rules in
      case record_entry (so_append (os_ops os)) (su_uuid su) now
             (started_entry (os_ops os) k b rules (rc_mode (cfg_response c))) (0, os_state os) of
        (Some e, _) \<Rightarrow> Inl (StartAuditFailed e)
      | (None, n, s) \<Rightarrow>
          (let st = \<lparr> sv_graph = g, sv_correlator = en, sv_ids = n, sv_store = s \<rparr> in
           case (if rc_seed_synthetic_demo (cfg_response c) then seed_synthetic_demo su d now st else (None, st)) of
             (Some e, _) \<Rightarrow> Inl (SeedFailed e)
           | (None, st') \<Rightarrow>
               Inr (wire_router su c d,
                 \<lparr> sr_service = st',
                   sr_limiter = new_rate_limiter (hc_rate_limit_rps (cfg_http c)) (hc_rate_limit_burst (cfg_http c)),
                   sr_log = [], sr_panics = [] \<rparr>)))"

definition boot ::
  "('s, 'e, 'v, 'b) surroundings \<Rightarrow> environment \<Rightarrow> time \<Rightarrow>
     'e startup_error + ('s, 'e, engine, 'b) router_options \<times> ('s, engine, 'b) server_state" where
  "boot su env now =
     (let c = fst (load_config (su_library su) env) in
      step BadConfig (snd (load_config (su_library su) env)) (\<lambda>warnings.
      step StoreFailed (new_store su c) (\<lambda>os.
      step KernelFailed (new_kernel su c) (\<lambda>k.
      step KernelUnusable (case ok_health k now of Some e \<Rightarrow> Inl e | None \<Rightarrow> Inr ()) (\<lambda>_.
      step InventoryFailed (load_inventory (su_read_file su) (su_decode_inventory su) inventory_path) (\<lambda>i.
      step InventoryRejected (case apply_inventory i now new_graph of (Some e, _) \<Rightarrow> Inl e | (None, g) \<Rightarrow> Inr g) (\<lambda>g.
      step RulesFailed (su_rules su) (\<lambda>rules.
      step EngineFailed (new_engine rules 0) (\<lambda>en.
      step (\<lambda>_. SchemaFailed) (case su_schema su of None \<Rightarrow> Inl () | Some x \<Rightarrow> Inr x) (\<lambda>schema.
      bring_up su c now os k (new_publisher su c) g rules en schema))))))))))"

subsection \<open>Rebased events\<close>

lemma latest_time_ge: "t \<in> set ts \<Longrightarrow> t \<le> latest_time ts"
proof -
  have base: "a \<le> fold (\<lambda>t l. if t > l then t else l) xs a" for xs and a :: time
    by (induction xs arbitrary: a) (auto intro: order_trans less_imp_le)
  have "t \<in> set xs \<Longrightarrow> t \<le> fold (\<lambda>t l. if t > l then t else l) xs a" for xs and a :: time
  proof (induction xs arbitrary: a)
    case (Cons x xs)
    have "x \<le> (if x > a then x else a)" by simp
    also have "\<dots> \<le> fold (\<lambda>t l. if t > l then t else l) xs (if x > a then x else a)" by (rule base)
    finally show ?case using Cons by auto
  qed simp
  then show "t \<in> set ts \<Longrightarrow> t \<le> latest_time ts" by (simp add: latest_time_def)
qed

lemma latest_time_in:
  assumes "\<forall>t \<in> set ts. 0 < t" and "ts \<noteq> []"
  shows "latest_time ts \<in> set ts"
proof -
  have "fold (\<lambda>t l. if t > l then t else l) xs a \<in> insert a (set xs)" for xs and a :: time
    by (induction xs arbitrary: a) auto
  then have "latest_time ts \<in> insert 0 (set ts)" unfolding latest_time_def .
  moreover have "hd ts \<in> set ts" using assms(2) by simp
  then have "0 < latest_time ts" using latest_time_ge [of "hd ts" ts] assms(1) by fastforce
  ultimately show ?thesis by auto
qed

lemma timed_events_length: "timed_events ec i raws = Inr dts \<Longrightarrow> length dts = length raws"
  by (induction ec i raws arbitrary: dts rule: timed_events.induct) (auto split: sum.splits)

lemma encode_shifted_nth:
  "encode_shifted ec delta i dts = Inr raws \<Longrightarrow> length raws = length dts \<and>
     (\<forall>k < length dts. ec_encode ec (AList.update ''timestamp''
        (ec_encode_string ec (ec_format_time ec (snd (dts ! k) + delta))) (fst (dts ! k))) = Some (raws ! k))"
proof (induction ec delta i dts arbitrary: raws rule: encode_shifted.induct)
  case (2 ec delta i dt dts)
  then obtain raw rest where "raws = raw # rest" "encode_shifted ec delta (i + 1) dts = Inr rest"
    "ec_encode ec (AList.update ''timestamp'' (ec_encode_string ec (ec_format_time ec (snd dt + delta))) (fst dt)) = Some raw"
    by (auto split: option.splits sum.splits)
  then show ?case using "2.IH" [of raw rest] by (auto simp: nth_Cons split: nat.split)
qed simp

text \<open>
  What \<^verbatim>\<open>Rebase\<close> relies on: JSON objects and strings survive a round trip, up to the order of the fields,
  and the RFC 3339 layout keeps a time within the calendar down to the second.
\<close>

definition codec_faithful :: "event_codec \<Rightarrow> time \<Rightarrow> bool" where
  "codec_faithful ec latest \<longleftrightarrow>
     (\<forall>s. ec_string ec (ec_encode_string ec s) = Some s) \<and>
     (\<forall>doc raw. ec_encode ec doc = Some raw \<longrightarrow> (\<exists>doc'. ec_object ec raw = Some doc' \<and> map_of doc' = map_of doc)) \<and>
     (\<forall>t. 0 \<le> t \<and> t \<le> latest \<longrightarrow> ec_parse_time ec (ec_format_time ec t) = Some (t - t mod second))"

text \<open>
  A replayed scenario keeps its timeline and lands in the ingest window. Every event
  moves by one and the same amount, up to the second its timestamp is written with; nothing else in it
  changes; the last one carries the second of the requested end; and, when the scenario spans less than
  the ingest window, every one of them passes the timestamp check.
\<close>

theorem rebase_keeps_timeline:
  assumes "codec_faithful ec ending" and "timed_events ec 0 (sc_events sc) = Inr dts" and "rebase ec sc ending = Inr raws"
    and "\<forall>dt \<in> set dts. 0 < snd dt \<and> latest_time (map snd dts) - snd dt \<le> max_event_age - second"
    and "max_event_age < ending" and "\<bar>ending - latest_time (map snd dts)\<bar> \<le> max_duration"
  shows "length raws = length (sc_events sc) \<and>
    (\<forall>k < length raws. \<exists>doc t. timed_event ec i (raws ! k) = Inr (doc, t) \<and>
       t = (let moved = snd (dts ! k) + (ending - latest_time (map snd dts)) in moved - moved mod second) \<and>
       (\<forall>key. key \<noteq> ''timestamp'' \<longrightarrow> map_of doc key = map_of (fst (dts ! k)) key) \<and>
       check_timestamp ending t = None) \<and>
    (\<exists>k < length raws. \<exists>doc. timed_event ec i (raws ! k) = Inr (doc, ending - ending mod second))"
proof -
  let ?latest = "latest_time (map snd dts)" and ?ts = "map snd dts"
  have "sc_events sc \<noteq> []" using assms(3) by (auto simp: rebase_def split: if_splits)
  then have len: "length dts = length (sc_events sc)" "dts \<noteq> []"
    using timed_events_length [OF assms(2)] by auto
  have delta: "time_sub ending ?latest = ending - ?latest"
    using assms(6) by (auto simp: time_sub_def max_duration_def min_duration_def)
  have "encode_shifted ec (ending - ?latest) 0 dts = Inr raws"
    using assms(2,3) \<open>sc_events sc \<noteq> []\<close> by (simp add: rebase_def delta)
  note enc = encode_shifted_nth [OF this]
  have each: "\<exists>doc. timed_event ec i (raws ! k) = Inr (doc, m - m mod second) \<and>
      (\<forall>key. key \<noteq> ''timestamp'' \<longrightarrow> map_of doc key = map_of (fst (dts ! k)) key) \<and> check_timestamp ending (m - m mod second) = None"
    if k: "k < length dts" and m: "m = snd (dts ! k) + (ending - ?latest)" for k m
  proof -
    have mem: "dts ! k \<in> set dts" using k by simp
    then have "snd (dts ! k) \<le> ?latest" by (intro latest_time_ge) simp
    moreover have "?latest - snd (dts ! k) \<le> max_event_age - second" using assms(4) mem by blast
    moreover have "0 \<le> m mod second" "m mod second < second" by (simp_all add: second_def)
    ultimately have m': "0 \<le> m" "m \<le> ending" "ending - max_event_age \<le> m - m mod second"
        "m - m mod second \<le> ending" "0 < m - m mod second"
      using assms(5) m by linarith+
    obtain doc where doc: "ec_object ec (raws ! k) = Some doc"
        "map_of doc = map_of (AList.update ''timestamp'' (ec_encode_string ec (ec_format_time ec m)) (fst (dts ! k)))"
      using enc k assms(1) m unfolding codec_faithful_def by metis
    have "timed_event ec i (raws ! k) = Inr (doc, m - m mod second)"
      using assms(1) m'(1,2) by (simp add: timed_event_def doc update_conv codec_faithful_def)
    moreover have "\<forall>key. key \<noteq> ''timestamp'' \<longrightarrow> map_of doc key = map_of (fst (dts ! k)) key"
      by (simp add: doc(2) update_conv)
    moreover have "check_timestamp ending (m - m mod second) = None"
      using m'(3-5) by (simp add: check_timestamp_def is_zero_time_def max_clock_skew_ahead_def minute_def second_def)
    ultimately show ?thesis by blast
  qed
  have "?latest \<in> set ?ts" using assms(4) len(2) by (intro latest_time_in) auto
  then obtain j where j: "j < length dts" "snd (dts ! j) = ?latest" by (auto simp: in_set_conv_nth)
  show ?thesis
  proof (intro conjI)
    show "length raws = length (sc_events sc)" using enc len(1) by simp
    show "\<forall>k < length raws. \<exists>doc t. timed_event ec i (raws ! k) = Inr (doc, t) \<and>
       t = (let moved = snd (dts ! k) + (ending - ?latest) in moved - moved mod second) \<and>
       (\<forall>key. key \<noteq> ''timestamp'' \<longrightarrow> map_of doc key = map_of (fst (dts ! k)) key) \<and> check_timestamp ending t = None"
      using each enc unfolding Let_def by metis
    show "\<exists>k < length raws. \<exists>doc. timed_event ec i (raws ! k) = Inr (doc, ending - ending mod second)"
      using each [OF j(1) refl] j enc by (intro exI [of _ j]) auto
  qed
qed

text \<open>A codec for events that are nothing but a timestamp, written in whole seconds.\<close>

definition sample_codec :: event_codec where
  "sample_codec = \<lparr> ec_object = (\<lambda>raw. Some [(''timestamp'', raw)]), ec_string = Some,
     ec_parse_time = (\<lambda>s. Some (int (nat_of_digits s) * second)), ec_format_time = (\<lambda>t. show_nat (nat (t div second))),
     ec_encode_string = (\<lambda>s. s),
     ec_encode = (\<lambda>doc. case doc of [kv] \<Rightarrow> if fst kv = ''timestamp'' then Some (snd kv) else None | _ \<Rightarrow> None) \<rparr>"

definition sample_scenario :: scenario where
  "sample_scenario = \<lparr> sc_id = ''s'', sc_title = [], sc_description = [], sc_synthetic = True,
     sc_events = [''100'', ''110''] \<rparr>"

lemma sample_codec_faithful: "codec_faithful sample_codec latest"
  unfolding codec_faithful_def
proof (intro conjI allI impI)
  fix doc raw assume "ec_encode sample_codec doc = Some raw"
  then have "doc = [(''timestamp'', raw)]" by (auto simp: sample_codec_def split: list.splits if_splits)
  then show "\<exists>doc'. ec_object sample_codec raw = Some doc' \<and> map_of doc' = map_of doc" by (simp add: sample_codec_def)
next
  fix t :: time assume "0 \<le> t \<and> t \<le> latest"
  then show "ec_parse_time sample_codec (ec_format_time sample_codec t) = Some (t - t mod second)"
    by (simp add: sample_codec_def minus_mod_eq_div_mult pos_imp_zdiv_nonneg_iff second_def)
qed (simp add: sample_codec_def)

theorem rebase_keeps_timeline_witness:
  "rebase sample_codec sample_scenario (3000000 * second) = Inr [''2999990'', ''3000000''] \<and>
   (\<exists>k < 2. \<exists>doc. timed_event sample_codec 0 ([''2999990'', ''3000000''] ! k) = Inr (doc, 3000000 * second))"
proof -
  let ?dts = "[([(''timestamp'', ''100'')], 100 * second), ([(''timestamp'', ''110'')], 110 * second)]"
  have digits: "nat_of_digits ''100'' = 100" "nat_of_digits ''110'' = 110" by (simp_all add: nat_of_digits_def byte_def)
  have chars: "char_of (48::nat) = CHR ''0''" "char_of (50::nat) = CHR ''2''" "char_of (51::nat) = CHR ''3''"
    "char_of (57::nat) = CHR ''9''" by code_simp+
  have shown: "show_nat 2999990 = ''2999990''" "show_nat 3000000 = ''3000000''"
    by (simp_all add: digit_def chars show_nat.simps [of 2999990] show_nat.simps [of 299999] show_nat.simps [of 29999]
        show_nat.simps [of 2999] show_nat.simps [of 299] show_nat.simps [of 29] show_nat.simps [of 2]
        show_nat.simps [of 3000000] show_nat.simps [of 300000] show_nat.simps [of 30000]
        show_nat.simps [of 3000] show_nat.simps [of 300] show_nat.simps [of 30] show_nat.simps [of 3])
  have run1: "timed_events sample_codec 0 (sc_events sample_scenario) = Inr ?dts"
    by (simp add: sample_codec_def sample_scenario_def timed_event_def digits)
  have "time_sub (3000000 * second) (latest_time (map snd ?dts)) = 2999890 * second"
    by (simp add: latest_time_def time_sub_def second_def max_duration_def min_duration_def)
  then have run2: "rebase sample_codec sample_scenario (3000000 * second) = Inr [''2999990'', ''3000000'']"
    unfolding rebase_def run1 by (simp add: sample_scenario_def sample_codec_def shown second_def)
  have latest: "latest_time (map snd ?dts) = 110 * second" by (simp add: latest_time_def second_def)
  have "\<forall>dt \<in> set ?dts. 0 < snd dt \<and> latest_time (map snd ?dts) - snd dt \<le> max_event_age - second"
    unfolding latest by (simp add: second_def max_event_age_def hour_def minute_def)
  moreover have "max_event_age < 3000000 * second" "\<bar>3000000 * second - latest_time (map snd ?dts)\<bar> \<le> max_duration"
    unfolding latest by (simp_all add: second_def max_event_age_def hour_def minute_def max_duration_def)
  ultimately have "\<exists>k < length [''2999990'', ''3000000'']. \<exists>doc. timed_event sample_codec 0 ([''2999990'', ''3000000''] ! k) =
      Inr (doc, 3000000 * second - 3000000 * second mod second)"
    using rebase_keeps_timeline [OF sample_codec_faithful run1 run2, of 0] by blast
  then show ?thesis using run2 by (simp add: second_def numeral_2_eq_2)
qed

subsection \<open>What a started platform promises\<close>

lemma step_Inr: "step wrap m k = Inr y \<longleftrightarrow> (\<exists>x. m = Inr x \<and> k x = Inr y)"
  by (auto simp: step_def split: sum.split)

lemma boot_router:
  assumes "boot su env now = Inr (opts, w)"
  obtains ws d where "validate (su_library su) (read_config (su_library su) env) = Inr ws"
    "opts = wire_router su (read_config (su_library su) env) d"
proof -
  obtain ws os k g rules en schema where v: "validate (su_library su) (read_config (su_library su) env) = Inr ws"
    and up: "bring_up su (read_config (su_library su) env) now os k (new_publisher su (read_config (su_library su) env))
      g rules en schema = Inr (opts, w)"
    using assms unfolding boot_def Let_def load_config_def step_Inr fst_conv snd_conv by blast
  from up have "opts = wire_router su (read_config (su_library su) env)
      (wire_service su (read_config (su_library su) env) os k (new_publisher su (read_config (su_library su) env)) schema rules)"
    by (auto simp: bring_up_def Let_def split: prod.splits option.splits)
  with v show ?thesis using that by blast
qed

text \<open>
  C12 (safety): a platform that starts on a public address authenticates its callers. If the process came
  up from an environment in which the address is reachable from outside and
  \<^verbatim>\<open>GRIEFER_ALLOW_PUBLIC_BIND\<close> does not say otherwise, then its router answers every request without the
  service token, whatever the method and on every path but exactly the two probes \<^verbatim>\<open>/health\<close> and
  \<^verbatim>\<open>/ready\<close>, with a 401 whose only content is an error envelope without details: \<^verbatim>\<open>/metrics\<close> is not
  exempt. No such request changes a record, on the probes neither.
\<close>

theorem public_listener_authenticates:
  assumes "boot su env now = Inr (opts, w)" and "split_host_port (listen_addr env) = Some (host, port)"
    and "is_public_bind (su_library su) host" and "\<not> env_bool env ''GRIEFER_ALLOW_PUBLIC_BIND'' False"
    and "\<not> credential opts r"
  shows "unchanged st (snd (snd (router opts t r (new_writer, st)))) \<and>
    (hr_path r \<notin> {''/health'', ''/ready''} \<longrightarrow>
       (\<exists>wr w' b. router opts t r (new_writer, st) = (Returned, wr, w') \<and> wr_status wr = 401 \<and>
          wr_body wr = [ErrorResponse b] \<and> eb_code b = CodeUnauthorized \<and> eb_details b = []))"
proof -
  let ?c = "read_config (su_library su) env"
  obtain ws d where v: "validate (su_library su) ?c = Inr ws" and opts: "opts = wire_router su ?c d"
    using boot_router [OF assms(1)] .
  obtain w1 where "check_bind (su_library su) ?c = Inr w1" using validate_parts [OF v] by metis
  moreover have "hc_addr (cfg_http ?c) = listen_addr env"
    and "hc_allow_public_bind (cfg_http ?c) = env_bool env ''GRIEFER_ALLOW_PUBLIC_BIND'' False"
    by (simp_all add: read_config_def load_http_def)
  ultimately have "cfg_internal_api_token ?c \<noteq> []"
    using assms(2-4) by (auto simp: check_bind_def Let_def split: if_splits)
  then have token: "ro_token opts \<noteq> []" by (simp add: opts wire_router_def)
  show ?thesis
    using router_unchanged [OF token, of r st t new_writer] router_refuses_all [OF token assms(5), of t st] assms(5)
    by blast
qed

definition sample_inventory :: inventory where
  "sample_inventory = \<lparr> inv_entities = [\<lparr> inv_type = TypeService, inv_key = ''api'', inv_name = [], inv_criticality = [],
     inv_attributes = [] \<rparr>], inv_edges = [] \<rparr>"

definition sample_surroundings :: "(memory_store, store_error, policy_input, nat) surroundings" where
  "sample_surroundings =
     \<lparr> su_library = sample_library,
       su_memory = (\<lambda>m. \<lparr> os_ops = memory_ops, os_save_incident = save_incident, os_state = new_memory_store 10 \<rparr>),
       su_postgres = (\<lambda>c. Inl []), su_embedded = Inr sample_embedded, su_http = sample_client,
       su_url_parse = (\<lambda>u. Inr \<lparr> pu_scheme = ''http'', pu_string = u \<rparr>), su_nats = (\<lambda>c. None),
       su_read_file = (\<lambda>p. Some p), su_decode_inventory = (\<lambda>raw. Some sample_inventory),
       su_decode_scenario = (\<lambda>raw. Some sample_scenario), su_codec = sample_codec, su_rules = Inr [sample_rule ''r'' ''event_type''],
       su_schema = Some (\<lambda>raw. SchemaValid), su_unmarshal = (\<lambda>raw. None), su_uuid = sample_uuid, su_revision = [],
       su_sha256 = (\<lambda>s. s), su_bucket = sample_bucket, su_decode_batch = (\<lambda>raw. None), su_decode_request = (\<lambda>raw. None) \<rparr>"

definition sample_environment :: environment where
  "sample_environment = [''PORT'' \<mapsto> ''8080'', ''INTERNAL_API_TOKEN'' \<mapsto> ''t'']"

lemma sample_values:
  "trim_space ''8080'' = ''8080''" "trim_space ''t'' = ''t''" "atoi ''8080'' = Some 8080"
  "split_host_port ''0.0.0.0:8080'' = Some (''0.0.0.0'', ''8080'')" "normalize_response_mode ''simulate'' = ''simulate''"
  "to_lower ''info'' = ''info''" "trim_space ''nats://localhost:4222'' \<noteq> []"
  by code_simp+

lemma sample_config:
  "cfg_internal_api_token (read_config sample_library sample_environment) = ''t''"
  "oc_url (cfg_opa (read_config sample_library sample_environment)) = []"
  "pc_enabled (cfg_postgres (read_config sample_library sample_environment)) = False"
  "rc_seed_synthetic_demo (cfg_response (read_config sample_library sample_environment)) = False"
  by (simp_all add: read_config_def load_opa_def load_postgres_def load_response_def sample_environment_def sample_values
      env_bool_def env_parsed_def)

lemma sample_listen: "listen_addr sample_environment = ''0.0.0.0:8080''"
  by (simp add: listen_addr_def env_string_def sample_environment_def sample_values)

lemma sample_valid: "\<exists>ws. validate sample_library (read_config sample_library sample_environment) = Inr ws"
proof -
  let ?c = "read_config sample_library sample_environment"
  have "\<exists>w. check_bind sample_library ?c = Inr w"
    by (simp add: check_bind_def Let_def sample_config) (simp add: read_config_def load_http_def sample_listen sample_values)
  moreover have "\<exists>w. check_limits sample_library ?c = Inr w"
    by (simp add: check_limits_def timeouts_def Let_def read_config_def load_http_def load_opa_def env_int_def env_float_def
        env_duration_def env_parsed_def sample_environment_def sample_library_def second_def)
  moreover have "\<exists>w. check_backends ?c = Inr w"
    by (simp add: check_backends_def read_config_def load_postgres_def load_opa_def load_nats_def load_response_def env_bool_def
        env_parsed_def sample_environment_def)
  moreover have "check_modes ?c = None"
    by (simp add: check_modes_def Let_def read_config_def load_response_def env_string_def sample_environment_def sample_values)
  ultimately show ?thesis unfolding validate_def by (elim exE) simp
qed

lemma sample_boot: "\<exists>opts w. boot sample_surroundings sample_environment 9 = Inr (opts, w)"
proof -
  let ?c = "read_config sample_library sample_environment"
  obtain ws where v: "validate sample_library ?c = Inr ws" using sample_valid by blast
  have health: "embedded_health sample_embedded 9 = None"
    using embedded_serves_evaluate [OF sample_embedded_serves, of 9]
    by (auto simp: embedded_evaluate_def embedded_health_def split: sum.splits)
  have "fst (apply_inventory sample_inventory 9 new_graph) = None" by code_simp
  then obtain g where g: "apply_inventory sample_inventory 9 new_graph = (None, g)" by (metis prod.collapse)
  have "entry_complete (started_entry memory_ops k b rules mode)" for k b rules mode
    by (simp add: started_entry_def entry_complete_def)
  note start = prepare_complete [OF this]
  have append_ops: "so_append memory_ops = append_audit" by (simp add: memory_ops_def)
  have up: "\<exists>opts w. bring_up sample_surroundings ?c 9
      \<lparr> os_ops = memory_ops, os_save_incident = save_incident, os_state = new_memory_store 10 \<rparr> k b g rules en schema = Inr (opts, w)"
    for k b rules en schema
    by (simp add: bring_up_def Let_def sample_config record_entry_def start append_ops append_audit_def)
  show ?thesis
    unfolding boot_def Let_def load_config_def fst_conv snd_conv
    using up by (simp add: sample_surroundings_def v step_def new_store_def new_kernel_def sample_config health load_inventory_def
        g new_engine_def) (simp add: sample_inventory_def flip: sample_surroundings_def)
qed

theorem public_listener_authenticates_witness:
  "\<exists>opts w. boot sample_surroundings sample_environment 9 = Inr (opts, w) \<and>
     wr_status (fst (snd (router opts 9 (sample_http ''GET'' ''/metrics'' []) (new_writer, w)))) = 401"
proof -
  obtain opts w where b: "boot sample_surroundings sample_environment 9 = Inr (opts, w)" using sample_boot by blast
  have "split_host_port (listen_addr sample_environment) = Some (''0.0.0.0'', ''8080'')"
    by (simp add: sample_listen sample_values)
  moreover have "is_public_bind (su_library sample_surroundings) ''0.0.0.0''" by (simp add: is_public_bind_def)
  moreover have "\<not> env_bool sample_environment ''GRIEFER_ALLOW_PUBLIC_BIND'' False"
    by (simp add: env_bool_def env_parsed_def sample_environment_def)
  moreover have "\<not> credential opts (sample_http ''GET'' ''/metrics'' [])"
    by (simp add: authorized_def header_def sample_http_def)
  moreover have "hr_path (sample_http ''GET'' ''/metrics'' []) \<notin> {''/health'', ''/ready''}" by (simp add: sample_http_def)
  ultimately have "wr_status (fst (snd (router opts 9 (sample_http ''GET'' ''/metrics'' []) (new_writer, w)))) = 401"
    using public_listener_authenticates [OF b, of "''0.0.0.0''" "''8080''" "sample_http ''GET'' ''/metrics'' []" w 9]
    by auto
  with b show ?thesis by blast
qed

end
