(* ===== verification/Lifecycle.thy ===== *)
theory Lifecycle
  imports Startup
begin

text \<open>
  The life of the process of \<^verbatim>\<open>src/cmd/griefer-api/main.go\<close> after the start: serving requests, ending,
  and the two short commands. Requests are served one after the other: a handler is one step. The
  listener, signals and the HTTP client are parameters.
\<close>

subsection \<open>Serving and ending\<close>

definition serve_request ::
  "('s, 'e, 'c, 'b) router_options \<Rightarrow> time \<times> http_request \<Rightarrow> ('s, 'c, 'b) server_state \<Rightarrow> ('s, 'c, 'b) server_state" where
  "serve_request opts tr w = snd (snd (router opts (fst tr) (snd tr) (new_writer, w)))"

definition serve ::
  "('s, 'e, 'c, 'b) router_options \<Rightarrow> (time \<times> http_request) list \<Rightarrow> ('s, 'c, 'b) server_state \<Rightarrow> ('s, 'c, 'b) server_state" where
  "serve opts trs w = fold (serve_request opts) trs w"

text \<open>What the process waits for: the listener's end or a signal.\<close>

datatype process_end = ListenerFailed string | ListenerClosed | ShutdownSignal

definition stopped_entry :: audit_entry where
  "stopped_entry = zero_entry\<lparr>ae_action := ''system.stopped'', ae_subject_type := ''system'',
     ae_subject_id := ''griefer-api'', ae_outcome := OutcomeSuccess, ae_reason := ''GRIEFER API stopped''\<rparr>"

text \<open>
  The entry is recorded under the deadline of the shutdown. If open requests used up the grace period, the
  store is called with a deadline that has passed: \<open>late\<close> is what its append does then.
\<close>

definition shut_down ::
  "('s \<Rightarrow> audit_entry \<Rightarrow> 'e + 's) \<Rightarrow> (string, 's, 'e, 'c) service \<Rightarrow> bool \<Rightarrow> time \<Rightarrow> ('s, 'c, 'b) server_state \<Rightarrow>
     ('s, 'c, 'b) server_state" where
  "shut_down late d graceful now w =
     (case record_entry (if graceful then so_append (sd_store d) else late) (sd_uuid d) now stopped_entry
             (sv_ids (sr_service w), sv_store (sr_service w)) of
        (_, n, s) \<Rightarrow> w\<lparr>sr_service := (sr_service w)\<lparr>sv_ids := n, sv_store := s\<rparr>\<rparr>)"

definition end_platform ::
  "('s \<Rightarrow> audit_entry \<Rightarrow> 'e + 's) \<Rightarrow> ('s, 'e, 'c, 'b) router_options \<Rightarrow> process_end \<Rightarrow> bool \<Rightarrow> time \<Rightarrow> ('s, 'c, 'b) server_state \<Rightarrow>
     string option \<times> ('s, 'c, 'b) server_state" where
  "end_platform late opts ending graceful now w =
     (case ending of
        ListenerFailed e \<Rightarrow> (Some (''http server: '' @ e), w)
      | _ \<Rightarrow> (None, shut_down late (ro_service opts) graceful now w))"

datatype 'e run_error = StartFailed "'e startup_error" | ServerFailed string

text \<open>
  What is open is released when the process returns, wherever that is, the last first. The start opens the
  store, then the kernel, then, when the kernel is usable, the bus.
\<close>

datatype resource = StoreResource | KernelResource | BusResource

definition opened_resources :: "('s, 'e, 'v, 'b) surroundings \<Rightarrow> environment \<Rightarrow> time \<Rightarrow> resource list" where
  "opened_resources su env now =
     (case load_config (su_library su) env of
        (c, Inl _) \<Rightarrow> []
      | (c, Inr _) \<Rightarrow>
          (case new_store su c of
             Inl _ \<Rightarrow> []
           | Inr _ \<Rightarrow>
               (case new_kernel su c of
                  Inl _ \<Rightarrow> [StoreResource]
                | Inr k \<Rightarrow>
                    (case ok_health k now of
                       Some _ \<Rightarrow> [StoreResource, KernelResource]
                     | None \<Rightarrow> [StoreResource, KernelResource, BusResource]))))"

text \<open>The whole run: start, serve, end; with what is released, in order.\<close>

definition run_platform ::
  "('s \<Rightarrow> audit_entry \<Rightarrow> 'e + 's) \<Rightarrow> ('s, 'e, 'v, 'b) surroundings \<Rightarrow> environment \<Rightarrow> time \<Rightarrow> (time \<times> http_request) list \<Rightarrow>
     process_end \<Rightarrow> bool \<Rightarrow> time \<Rightarrow> 'e run_error option \<times> resource list \<times> ('s, engine, 'b) server_state option" where
  "run_platform late su env now trs ending graceful t =
     (case boot su env now of
        Inl e \<Rightarrow> (Some (StartFailed e), rev (opened_resources su env now), None)
      | Inr (opts, w) \<Rightarrow>
          (case end_platform late opts ending graceful t (serve opts trs w) of
             (err, w') \<Rightarrow> (map_option ServerFailed err, rev (opened_resources su env now), Some w')))"

text \<open>A run that came up releases all three, the bus before the kernel and the store last.\<close>

lemma started_run_releases:
  assumes "boot su env now = Inr (opts, w)"
  shows "fst (snd (run_platform late su env now trs ending graceful t)) = [BusResource, KernelResource, StoreResource]"
proof -
  let ?c = "read_config (su_library su) env"
  obtain ws os k where "validate (su_library su) ?c = Inr ws" "new_store su ?c = Inr os" "new_kernel su ?c = Inr k"
    "ok_health k now = None"
    using assms unfolding boot_def Let_def load_config_def step_Inr fst_conv snd_conv by (auto split: option.splits)
  then have "opened_resources su env now = [StoreResource, KernelResource, BusResource]"
    by (simp add: opened_resources_def load_config_def Let_def)
  then show ?thesis by (simp add: run_platform_def assms case_prod_unfold)
qed

subsection \<open>The short commands\<close>

datatype healthcheck_error = ConfigInvalid config_error | AddressInvalid string | ProbeFailed string | ProbeStatus string int

text \<open>The health check asks its own readiness endpoint.\<close>

definition run_healthcheck ::
  "(string \<Rightarrow> string + int) \<Rightarrow> go_library \<Rightarrow> environment \<Rightarrow> healthcheck_error option" where
  "run_healthcheck probe lib env =
     (case load_config lib env of
        (c, Inl e) \<Rightarrow> Some (ConfigInvalid e)
      | (c, Inr _) \<Rightarrow>
          (case dial_address c of
             None \<Rightarrow> Some (AddressInvalid (hc_addr (cfg_http c)))
           | Some url \<Rightarrow>
               (case probe url of
                  Inl e \<Rightarrow> Some (ProbeFailed e)
                | Inr status \<Rightarrow> if status \<noteq> 200 then Some (ProbeStatus url status) else None)))"

definition run_print_config :: "go_library \<Rightarrow> environment \<Rightarrow> config_error + config \<times> warning list" where
  "run_print_config lib env =
     (case load_config lib env of (c, Inl e) \<Rightarrow> Inl e | (c, Inr ws) \<Rightarrow> Inr (redacted c, ws))"

text \<open>The code the process exits with.\<close>

definition api_main ::
  "bool \<Rightarrow> bool \<Rightarrow> healthcheck_error option \<Rightarrow> config_error + config \<times> warning list \<Rightarrow> 'e run_error option \<Rightarrow> int" where
  "api_main healthcheck print_config health printed finished =
     (if healthcheck then (case health of None \<Rightarrow> 0 | Some _ \<Rightarrow> 1)
      else if print_config then (case printed of Inl _ \<Rightarrow> 1 | Inr _ \<Rightarrow> 0)
      else (case finished of None \<Rightarrow> 0 | Some _ \<Rightarrow> 1))"

subsection \<open>What a request keeps of the trail\<close>

abbreviation trail_of :: "(memory_store, 'c, 'b) server_state \<Rightarrow> audit_entry list" where
  "trail_of w \<equiv> ms_audit_log (sv_store (sr_service w))"

text \<open>\<open>store_kept l s\<close>: the store is well-formed and its trail still begins with \<open>l\<close>.\<close>

definition store_kept :: "audit_entry list \<Rightarrow> memory_store \<Rightarrow> bool" where
  "store_kept l s \<longleftrightarrow> store_wf s \<and> (\<exists>new. ms_audit_log s = l @ new)"

text \<open>A service on the memory store whose correlator, if any, is the engine.\<close>

definition memory_service :: "(string, memory_store, store_error, engine) service \<Rightarrow> bool" where
  "memory_service d \<longleftrightarrow> sd_store d = memory_ops \<and> sd_process d = Some (engine_run (sd_uuid d))"

lemma store_kept_extends:
  "store_kept l s \<Longrightarrow> store_wf s' \<Longrightarrow> extends_trail (ms_audit_log s) (ms_audit_log s') es \<Longrightarrow> store_kept l s'"
  by (auto simp: store_kept_def extends_trail_def)

lemma record_kept:
  assumes "memory_service d" and "store_kept l (sv_store st)" and "entry_complete e"
  shows "store_kept l (sv_store (record_audit d now e st))"
proof -
  have d: "sd_store d = memory_ops" "store_wf (sv_store st)" using assms by (simp_all add: memory_service_def store_kept_def)
  show ?thesis using memory.record_audit_law(1,2) [OF d assms(3)] store_kept_extends [OF assms(2)] by blast
qed

lemma ingest_kept:
  assumes d: "memory_service d" and st: "store_kept l (sv_store st)"
  shows "store_kept l (sv_store (snd (ingest d now rc raw st)))"
proof (cases "admitted d now raw st")
  case (Inl e)
  note refused = record_kept [OF d st entries_complete(1)]
  have "sv_store (snd (ingest d now rc raw st)) = sv_store st \<or>
      (\<exists>i reason kind. snd (ingest d now rc raw st) = record_audit d now (rejected_entry rc i reason kind) st)"
    using Inl by (auto simp: admitted_def ingest_def split: sum.splits prod.splits)
  then show ?thesis using st refused by metis
next
  case (Inr a)
  then obtain ev s1 where adm: "admitted d now raw st = Inr (ev, s1)" by (metis surj_pair)
  have d': "sd_store d = memory_ops" "sd_process d = None \<or> sd_process d = Some (engine_run (sd_uuid d))"
    using d by (simp_all add: memory_service_def)
  have wf: "store_wf (sv_store st)" using st by (simp add: store_kept_def)
  show ?thesis
    by (rule engine_correlator.ingest_law [OF d' wf adm, of rc]) (use store_kept_extends [OF st] in force)
qed

lemma ingest_items_kept:
  "memory_service d \<Longrightarrow> store_kept l (sv_store st) \<Longrightarrow> store_kept l (sv_store (snd (ingest_items d now r i xs st)))"
proof (induction xs arbitrary: i st)
  case (Cons x xs)
  obtain res st1 where x: "ingest d now (context_of r) x st = (res, st1)" by (metis surj_pair)
  have "store_kept l (sv_store st1)" using ingest_kept [OF Cons.prems, of now "context_of r" x] x by simp
  from Cons.IH [OF Cons.prems(1) this, of "i + 1"] show ?case by (simp add: x Let_def case_prod_unfold)
qed simp

lemma evaluate_kept:
  assumes d: "memory_service d" and st: "store_kept l (sv_store st)"
  shows "store_kept l (sv_store (snd (evaluate_action d now rc req st)))"
proof -
  obtain act err st' where run: "evaluate_action d now rc req st = ((act, err), st')" by (metis surj_pair)
  let ?st = "st\<lparr>sv_ids := Suc (sv_ids st)\<rparr>"
  obtain es where es: "\<forall>e \<in> set es. entry_complete e" and act: "\<And>a. act = Some a \<Longrightarrow> act_id a \<noteq> []"
    and st': "st' = persist_evaluation d now act es ?st"
    by (rule evaluate_shape [OF run]) auto
  have "sd_store d = memory_ops" "store_wf (sv_store ?st)" using d st by (simp_all add: memory_service_def store_kept_def)
  from memory.persist_law [where act = act and now = now, OF this act es] show ?thesis
    using store_kept_extends [of l "sv_store ?st"] st by (auto simp: run st')
qed

subsection \<open>What a request keeps of the trail, through every layer\<close>

abbreviation trail_kept :: "audit_entry list \<Rightarrow> document writer \<times> (memory_store, engine, 'b) server_state \<Rightarrow> bool" where
  "trail_kept l st \<equiv> store_kept l (sv_store (sr_service (snd st)))"

lemma trail_kept_stable: "layer_stable opts (trail_kept l)"
  by (auto simp: layer_stable_def log_request_def log_panic_def draw_request_id_def split: prod.split)

lemma write_handlers_kept:
  assumes d: "memory_service d" and st: "store_kept l (sv_store (snd st))"
  shows "store_kept l (sv_store (snd (snd (handle_ingest_event d now r st))))"
    and "store_kept l (sv_store (snd (snd (handle_ingest_batch dec d now r st))))"
    and "store_kept l (sv_store (snd (snd (handle_evaluate_action dec' d now r st))))"
  using ingest_kept [OF d st] ingest_items_kept [OF d st] evaluate_kept [OF d st] st
  by (auto simp: handle_ingest_event_def handle_ingest_batch_def handle_evaluate_action_def Let_def case_prod_unfold
      split: sum.split option.split)

lemma on_service_kept:
  "store_kept l (sv_store (snd (snd (h r (fst st, sr_service (snd st)))))) \<Longrightarrow> trail_kept l (snd (on_service h r st))"
  by (auto simp: on_service_def split: prod.split)

lemma write_endpoint_kept:
  assumes "\<And>st. store_kept l (sv_store (snd st)) \<Longrightarrow> store_kept l (sv_store (snd (snd (h r st))))" and "trail_kept l st"
  shows "trail_kept l (snd (write_endpoint opts now h r st))"
proof -
  let ?st = "(fst st, snd (allow_request opts now (client_ip (ro_split_host opts) r) (snd st)))"
  have limited: "trail_kept l ?st" using assms(2) by (simp add: allow_request_def split: prod.split)
  have "trail_kept l (snd (on_service h r ?st))" by (intro on_service_kept assms(1)) (use limited in simp)
  then show ?thesis
    using limited by (simp add: write_endpoint_def chain_def rate_limit_def require_json_def Let_def case_prod_unfold)
qed

lemma dispatch_kept:
  assumes d: "memory_service (ro_service opts)" and st: "trail_kept l st"
  shows "trail_kept l (snd (dispatch opts now r st))"
proof (cases "route (ro_registry opts) (hr_method r) (hr_path r) \<in> {EpIngestEvent, EpIngestBatch, EpEvaluate}")
  case True
  then show ?thesis
    using st by (auto simp: dispatch_def Let_def intro!: write_endpoint_kept write_handlers_kept [OF d])
next
  case False
  have "unchanged (snd st) (snd st)" by (simp add: unchanged_def)
  from dispatch_read [OF False this, of now] show ?thesis using st by (simp add: unchanged_def)
qed

lemma keeps_every_layer:
  assumes "layer_stable opts I" and "keeps (\<lambda>r. True) I (dispatch opts now)"
  shows "keeps (\<lambda>r. True) I (router opts now)"
proof -
  have all: "client_only (\<lambda>r. True)" by (simp add: client_only_def)
  have weaker: "keeps P I h" if "keeps (\<lambda>r. True) I h" for P h using that by (simp add: keeps_def)
  have "keeps (\<lambda>r. True) I (chain (dispatch opts now) (if ro_token opts \<noteq> []
      then [authenticate (ro_sha256 opts) (auth_of opts), principal_middleware] else []))"
    using keeps_authenticate [OF assms(1) weaker [OF keeps_principal [OF assms(1) all assms(2)]]] assms(2) by (simp add: chain_def)
  then show ?thesis
    unfolding router_def middleware_def chain_def
    by (simp only: foldr.simps foldr_append comp_apply append.simps)
      (intro keeps_recover [OF assms(1)] keeps_request_id [OF assms(1) all] keeps_access_log [OF assms(1)]
        keeps_security_headers [OF assms(1)] keeps_max_bytes [OF all])
qed

lemma serve_request_kept:
  assumes "memory_service (ro_service opts)" and "store_kept l (sv_store (sr_service w))"
  shows "store_kept l (sv_store (sr_service (serve_request opts tr w)))"
proof -
  have "keeps (\<lambda>r. True) (trail_kept l) (dispatch opts (fst tr))" by (rule keepsI) (simp add: dispatch_kept [OF assms(1)])
  from keeps_every_layer [OF trail_kept_stable this] assms(2)
  show ?thesis unfolding serve_request_def keeps_def by (metis snd_conv)
qed

lemma serve_kept:
  "memory_service (ro_service opts) \<Longrightarrow> store_kept l (sv_store (sr_service w)) \<Longrightarrow>
     store_kept l (sv_store (sr_service (serve opts trs w)))"
  by (induction trs arbitrary: w) (simp_all add: serve_def serve_request_kept)

subsection \<open>The start\<close>

text \<open>The surroundings of a platform on the memory store.\<close>

definition memory_backed :: "(memory_store, store_error, 'v, 'b) surroundings \<Rightarrow> environment \<Rightarrow> bool" where
  "memory_backed su env \<longleftrightarrow>
     (\<exists>m. su_memory su 0 = \<lparr> os_ops = memory_ops, os_save_incident = save_incident, os_state = new_memory_store m \<rparr>) \<and>
     \<not> pc_enabled (cfg_postgres (read_config (su_library su) env))"

lemma wire_service_memory:
  assumes "os_ops os = memory_ops" and "os_save_incident os = save_incident"
  shows "memory_service (wire_service su c os k b schema rules)"
proof -
  have "correlator_run os uuid = engine_run uuid" for uuid
    by (intro ext) (simp add: correlator_run_def engine_run_def assms memory_ops_def)
  then show ?thesis by (simp add: memory_service_def wire_service_def new_service_def assms(1))
qed

lemma seed_kept:
  assumes d: "memory_service d" and st: "store_kept l (sv_store st)"
  shows "store_kept l (sv_store (snd (seed_synthetic_demo su d now st)))"
proof -
  have "store_kept l (sv_store (snd (seed_events d now i raws st)))" for i raws
    using st
  proof (induction raws arbitrary: i st)
    case (Cons raw raws)
    obtain res st1 where x: "ingest d now seed_context raw st = (res, st1)" by (metis surj_pair)
    have "store_kept l (sv_store st1)" using ingest_kept [OF d Cons.prems, of now seed_context raw] x by simp
    then show ?case using Cons.IH by (simp add: x split: sum.split)
  qed simp
  then show ?thesis using st by (simp add: seed_synthetic_demo_def split: sum.split prod.split)
qed

text \<open>A platform that came up has recorded its start first, and what it seeded comes after.\<close>

lemma boot_trail:
  fixes su :: "(memory_store, store_error, 'v, 'b) surroundings"
  assumes b: "boot su env now = Inr (opts, w)" and m: "memory_backed su env"
  shows "memory_service (ro_service opts) \<and>
    (\<exists>e. ae_action e = ''system.started'' \<and> ae_sequence e = 1 \<and> store_kept [e] (sv_store (sr_service w)))"
proof -
  let ?c = "read_config (su_library su) env"
  obtain m0 where os: "su_memory su 0 = \<lparr> os_ops = memory_ops, os_save_incident = save_incident, os_state = new_memory_store m0 \<rparr>"
    using m by (auto simp: memory_backed_def)
  let ?os = "\<lparr> os_ops = memory_ops, os_save_incident = save_incident, os_state = new_memory_store m0 \<rparr>"
  have "new_store su ?c = Inr ?os" using m os by (simp add: new_store_def memory_backed_def)
  then obtain k g rules en schema where
    up: "bring_up su ?c now ?os k (new_publisher su ?c) g rules en schema = Inr (opts, w)"
    using b unfolding boot_def Let_def load_config_def step_Inr fst_conv snd_conv by auto
  define d where "d = wire_service su ?c ?os k (new_publisher su ?c) schema rules"
  have d: "memory_service d" unfolding d_def by (rule wire_service_memory) simp_all
  define e where "e = (stamped (su_uuid su) now 0 (started_entry memory_ops k (new_publisher su ?c) rules (rc_mode (cfg_response ?c))))\<lparr>ae_sequence := 1\<rparr>"
  define st where "st = \<lparr> sv_graph = g, sv_correlator = en, sv_ids = Suc 0, sv_store = append_audit_locked e (new_memory_store m0) \<rparr>"
  have "entry_complete (started_entry memory_ops k (new_publisher su ?c) rules (rc_mode (cfg_response ?c)))"
    by (simp add: started_entry_def entry_complete_def)
  note start = prepare_complete [OF this]
  have noted: "record_entry append_audit (su_uuid su) now (started_entry memory_ops k (new_publisher su ?c) rules (rc_mode (cfg_response ?c)))
      (0, new_memory_store m0) = (None, Suc 0, append_audit_locked e (new_memory_store m0))"
    by (simp add: record_entry_def start append_audit_def append_audit_locked_def new_memory_store_def Let_def e_def)
  have kept: "store_kept [e] (sv_store st)"
    using fold_append_audit_wf [OF new_memory_store_wf, of "[e]" m0]
    by (simp add: store_kept_def st_def append_audit_locked_def new_memory_store_def e_def Let_def)
  have "ro_service opts = d \<and> (sr_service w = st \<or> (\<exists>st'. seed_synthetic_demo su d now st = (None, st') \<and> sr_service w = st'))"
    using up noted by (auto simp: bring_up_def Let_def d_def [symmetric] wire_router_def st_def split: if_splits prod.splits option.splits)
  then have "ro_service opts = d" "store_kept [e] (sv_store (sr_service w))"
    using kept seed_kept [OF d kept, of su now] by auto
  moreover have "ae_action e = ''system.started''" "ae_sequence e = 1" by (simp_all add: e_def started_entry_def stamped_def)
  ultimately show ?thesis using d by blast
qed

subsection \<open>The trail of a session\<close>

lemma shut_down_trail:
  assumes d: "memory_service d" and w: "store_wf (sv_store (sr_service w))"
  shows "\<exists>x. trail_of (shut_down late d True now w) = trail_of w @ [x] \<and> ae_action x = ''system.stopped''"
proof -
  let ?s = "sv_store (sr_service w)" and ?p = "stamped (sd_uuid d) now (sv_ids (sr_service w)) stopped_entry"
  have "entry_complete stopped_entry" by (simp add: stopped_entry_def entry_complete_def)
  then have "record_entry append_audit (sd_uuid d) now stopped_entry (sv_ids (sr_service w), ?s) =
      (None, Suc (sv_ids (sr_service w)), append_audit_locked ?p ?s)"
    by (simp add: record_entry_def prepare_complete append_audit_def)
  then have "trail_of (shut_down late d True now w) = ms_audit_log (append_audit_locked ?p ?s)"
    using d by (simp add: shut_down_def memory_service_def)
  also have "\<dots> = trail_of w @ [?p\<lparr>ae_sequence := int (length (trail_of w)) + 1\<rparr>]"
    using w by (simp add: append_audit_locked_log store_wf_def)
  finally show ?thesis by (simp add: stopped_entry_def)
qed

text \<open>
  C6 (safety): the trail tells the whole session. If the process came up on the memory store, the first
  entry of its trail says that it started. Whatever requests follow, well-formed or not, with or without
  a credential, answered, refused or ended by a panic, every entry stays in its place and the store
  stays well-formed; and when the process is stopped and open requests finish in time, the last entry
  says so.
\<close>

theorem session_is_audited:
  assumes "boot su env now = Inr (opts, w)" and "memory_backed su env"
  shows "(\<exists>e rest. trail_of w = e # rest \<and> ae_action e = ''system.started'') \<and>
    (\<forall>before after. \<exists>more. trail_of (serve opts (before @ after) w) = trail_of (serve opts before w) @ more \<and>
       store_wf (sv_store (sr_service (serve opts (before @ after) w)))) \<and>
    (\<forall>trs late t. \<exists>x. trail_of (snd (end_platform late opts ShutdownSignal True t (serve opts trs w))) =
       trail_of (serve opts trs w) @ [x] \<and> ae_action x = ''system.stopped'')"
proof (intro conjI allI)
  obtain e where d: "memory_service (ro_service opts)" and e: "ae_action e = ''system.started''"
    and w: "store_kept [e] (sv_store (sr_service w))" using boot_trail [OF assms] by blast
  show "\<exists>e rest. trail_of w = e # rest \<and> ae_action e = ''system.started''" using w e by (auto simp: store_kept_def)
  have wf: "store_wf (sv_store (sr_service (serve opts trs w)))" for trs
    using serve_kept [OF d w, of trs] by (simp add: store_kept_def)
  show "\<exists>x. trail_of (snd (end_platform late opts ShutdownSignal True t (serve opts trs w))) =
       trail_of (serve opts trs w) @ [x] \<and> ae_action x = ''system.stopped''" for trs late t
    using shut_down_trail [OF d wf] by (simp add: end_platform_def)
  show "\<exists>more. trail_of (serve opts (before @ after) w) = trail_of (serve opts before w) @ more \<and>
       store_wf (sv_store (sr_service (serve opts (before @ after) w)))" for before after
  proof -
    let ?m = "serve opts before w"
    have "store_kept (trail_of ?m) (sv_store (sr_service ?m))" using wf by (simp add: store_kept_def)
    from serve_kept [OF d this, of after] show ?thesis by (simp add: store_kept_def serve_def)
  qed
qed

theorem session_is_audited_witness:
  "\<exists>opts w more x. boot sample_surroundings sample_environment 9 = Inr (opts, w) \<and>
     trail_of (serve opts ([(9, sample_http ''GET'' ''/api/v1/audit'' [])] @ [(10, sample_http ''POST'' ''/api/v1/events'' ''x'')]) w) =
       trail_of (serve opts [(9, sample_http ''GET'' ''/api/v1/audit'' [])] w) @ more \<and>
     trail_of (snd (end_platform append_audit opts ShutdownSignal True 11 (serve opts [(9, sample_http ''GET'' ''/api/v1/audit'' [])] w))) =
       trail_of (serve opts [(9, sample_http ''GET'' ''/api/v1/audit'' [])] w) @ [x] \<and> ae_action x = ''system.stopped''"
proof -
  obtain opts w where b: "boot sample_surroundings sample_environment 9 = Inr (opts, w)" using sample_boot by blast
  have "memory_backed sample_surroundings sample_environment"
    by (auto simp: memory_backed_def sample_surroundings_def sample_config)
  from session_is_audited [OF b this] b show ?thesis by metis
qed

end
