(* ===== verification/Seeder.thy ===== *)
theory Seeder
  imports Startup
begin

text \<open>
  The command \<^verbatim>\<open>griefer-seed\<close> of \<^verbatim>\<open>src/cmd/griefer-seed/main.go\<close>: it replays a scenario over HTTP. The HTTP
  client, the API behind it, the codecs and the cancelling signal are parameters; a request takes the
  time the client says. Flag parsing is left out; what is printed is a list of lines.
\<close>

subsection \<open>Requests\<close>

record seed_request =
  sq_method :: string
  sq_url :: string
  sq_authorization :: string
  sq_content_type :: string
  sq_body :: string

record seed_reply =
  sp_status :: int
  sp_body :: "string option"

record seeder_result =
  si_event_id :: string
  si_incident_id :: string
  si_risk_score :: int
  si_degraded :: "string list"

datatype seed_line =
    NothingToSeed
  | Replaying string nat string string
  | Accepted nat nat string "(string \<times> int) option" "string list"
  | Finished string string

record 'w seed_world =
  sw_api :: 'w
  sw_clock :: time
  sw_sent :: "seed_request list"
  sw_out :: "seed_line list"

text \<open>A body that is \<open>None\<close> could not be read to its end.\<close>

record 'w seed_client =
  se_do :: "seed_request \<Rightarrow> 'w \<Rightarrow> (string + seed_reply) \<times> nat \<times> 'w"
  se_url_valid :: "string \<Rightarrow> bool"
  se_cancelled :: "time \<Rightarrow> bool"
  se_env :: environment
  se_read_file :: "string \<Rightarrow> string option"
  se_decode_scenario :: "string \<Rightarrow> scenario option"
  se_codec :: event_codec
  se_decode_total :: "string \<Rightarrow> int option"
  se_decode_result :: "string \<Rightarrow> seeder_result option"

datatype seed_failure =
    BadFixture demo_error | BuildReadiness | NotReady string duration string | Cancelled
  | SeedCheckFailed call_failure | EventRefused nat call_failure | NothingCorrelated
and call_failure = BuildRequest | SendRequest string | ReadResponse | ApiReturned int string | DecodeResponse

definition max_response :: nat where
  "max_response = 1048576"

definition env_or :: "environment \<Rightarrow> string \<Rightarrow> string \<Rightarrow> string" where
  "env_or env key fallback = (case env key of None \<Rightarrow> fallback | Some v \<Rightarrow> if v = [] then fallback else v)"

fun first_non_empty :: "string list \<Rightarrow> string" where
  "first_non_empty [] = []"
| "first_non_empty (v # vs) = (if v \<noteq> [] then v else first_non_empty vs)"

text \<open>The three bytes of the ellipsis follow what is kept.\<close>

definition truncate :: "string \<Rightarrow> nat \<Rightarrow> string" where
  "truncate s n = (if length s \<le> n then s else take n s @ map char_of [226 :: nat, 128, 166])"

definition authorize_request :: "'w seed_client \<Rightarrow> seed_request \<Rightarrow> seed_request" where
  "authorize_request se r =
     (let token = env_or (se_env se) ''INTERNAL_API_TOKEN'' [] in
      if token \<noteq> [] then r\<lparr>sq_authorization := ''Bearer '' @ token\<rparr> else r)"

definition get_request :: "'w seed_client \<Rightarrow> string \<Rightarrow> seed_request" where
  "get_request se url =
     authorize_request se \<lparr> sq_method = ''GET'', sq_url = url, sq_authorization = [], sq_content_type = [], sq_body = [] \<rparr>"

definition post_request :: "'w seed_client \<Rightarrow> string \<Rightarrow> string \<Rightarrow> seed_request" where
  "post_request se url body =
     authorize_request se \<lparr> sq_method = ''POST'', sq_url = url, sq_authorization = [], sq_content_type = ''application/json'',
       sq_body = body \<rparr>"

definition send :: "'w seed_client \<Rightarrow> seed_request \<Rightarrow> 'w seed_world \<Rightarrow> (string + seed_reply) \<times> 'w seed_world" where
  "send se r w =
     (case se_do se r (sw_api w) of
        (res, took, api) \<Rightarrow>
          (res, w\<lparr>sw_api := api, sw_clock := sw_clock w + int took, sw_sent := sw_sent w @ [r]\<rparr>))"

subsection \<open>The calls\<close>

definition already_seeded :: "'w seed_client \<Rightarrow> string \<Rightarrow> 'w seed_world \<Rightarrow> (call_failure + bool) \<times> 'w seed_world" where
  "already_seeded se api w =
     (let url = api @ ''/api/v1/incidents?limit=1'' in
      if \<not> se_url_valid se url then (Inl BuildRequest, w)
      else case send se (get_request se url) w of
             (Inl e, w') \<Rightarrow> (Inl (SendRequest e), w')
           | (Inr p, w') \<Rightarrow>
               if sp_status p \<noteq> 200 then (Inl (ApiReturned (sp_status p) []), w')
               else (case Option.bind (sp_body p) (\<lambda>b. se_decode_total se (take max_response b)) of
                       None \<Rightarrow> (Inl DecodeResponse, w')
                     | Some n \<Rightarrow> (Inr (n > 0), w')))"

definition post_event ::
  "'w seed_client \<Rightarrow> string \<Rightarrow> string \<Rightarrow> 'w seed_world \<Rightarrow> (call_failure + seeder_result) \<times> 'w seed_world" where
  "post_event se api body w =
     (let url = api @ ''/api/v1/events'' in
      if \<not> se_url_valid se url then (Inl BuildRequest, w)
      else case send se (post_request se url body) w of
             (Inl e, w') \<Rightarrow> (Inl (SendRequest e), w')
           | (Inr p, w') \<Rightarrow>
               (case sp_body p of
                  None \<Rightarrow> (Inl ReadResponse, w')
                | Some b \<Rightarrow>
                    let payload = take max_response b in
                    if sp_status p \<noteq> 202 then (Inl (ApiReturned (sp_status p) (truncate payload 400)), w')
                    else (case se_decode_result se payload of
                            None \<Rightarrow> (Inl DecodeResponse, w')
                          | Some r \<Rightarrow> (Inr r, w'))))"

definition half_second :: duration where
  "half_second = 500000000"

text \<open>Why the last poll did not succeed; \<open>None\<close> when it did.\<close>

definition poll_failure :: "string + seed_reply \<Rightarrow> string option" where
  "poll_failure res =
     (case res of
        Inl e \<Rightarrow> Some e
      | Inr p \<Rightarrow> if sp_status p = 200 then None else Some (''readiness returned '' @ show_int (sp_status p)))"

lemma send_clock: "send se r w = (res, w') \<Longrightarrow> sw_clock w \<le> sw_clock w'"
  by (auto simp: send_def split: prod.splits)

function poll_ready ::
  "'w seed_client \<Rightarrow> string \<Rightarrow> duration \<Rightarrow> time \<Rightarrow> 'w seed_world \<Rightarrow> seed_failure option \<times> 'w seed_world" where
  "poll_ready se api wait deadline w =
     (if \<not> se_url_valid se (api @ ''/ready'') then (Some BuildReadiness, w)
      else case send se (get_request se (api @ ''/ready'')) w of
             (res, w1) \<Rightarrow>
               (case poll_failure res of
                  None \<Rightarrow> (None, w1)
                | Some e \<Rightarrow>
                    if sw_clock w1 > deadline then (Some (NotReady api wait e), w1)
                    else
                      let w2 = w1\<lparr>sw_clock := sw_clock w1 + half_second\<rparr> in
                      if se_cancelled se (sw_clock w2) then (Some Cancelled, w2)
                      else poll_ready se api wait deadline w2))"
  by pat_completeness auto
termination
  by (relation "measure (\<lambda>(se, api, wait, deadline, w). nat (deadline - sw_clock w + 1))")
    (auto simp: half_second_def dest!: send_clock [OF sym])

declare poll_ready.simps [simp del]

definition wait_for_ready ::
  "'w seed_client \<Rightarrow> string \<Rightarrow> duration \<Rightarrow> 'w seed_world \<Rightarrow> seed_failure option \<times> 'w seed_world" where
  "wait_for_ready se api wait w = poll_ready se api wait (sw_clock w + wait) w"

subsection \<open>The replay\<close>

definition print_line :: "seed_line \<Rightarrow> 'w seed_world \<Rightarrow> 'w seed_world" where
  "print_line l w = w\<lparr>sw_out := sw_out w @ [l]\<rparr>"

text \<open>\<open>n\<close> events in all, \<open>i\<close> of them accepted.\<close>

fun replay_events ::
  "'w seed_client \<Rightarrow> string \<Rightarrow> duration \<Rightarrow> nat \<Rightarrow> nat \<Rightarrow> string \<Rightarrow> string list \<Rightarrow> 'w seed_world \<Rightarrow>
     (seed_failure + string) \<times> 'w seed_world" where
  "replay_events se api pause n i last_incident [] w = (Inr last_incident, w)"
| "replay_events se api pause n i last_incident (raw # raws) w =
     (case post_event se api raw w of
        (Inl e, w1) \<Rightarrow> (Inl (EventRefused (i + 1) e), w1)
      | (Inr r, w1) \<Rightarrow>
          let last' = first_non_empty [si_incident_id r, last_incident];
              w2 = print_line (Accepted (i + 1) n (si_event_id r)
                     (if si_incident_id r \<noteq> [] then Some (si_incident_id r, si_risk_score r) else None) (si_degraded r)) w1
          in if pause > 0 \<and> raws \<noteq> [] then
               let w3 = w2\<lparr>sw_clock := sw_clock w2 + pause\<rparr> in
               if se_cancelled se (sw_clock w3) then (Inl Cancelled, w3)
               else replay_events se api pause n (i + 1) last' raws w3
             else replay_events se api pause n (i + 1) last' raws w2)"

definition replay_scenario ::
  "'w seed_client \<Rightarrow> string \<Rightarrow> duration \<Rightarrow> scenario \<Rightarrow> string list \<Rightarrow> 'w seed_world \<Rightarrow> seed_failure option \<times> 'w seed_world" where
  "replay_scenario se api pause sc raws w =
     (case replay_events se api pause (length raws) 0 [] raws (print_line (Replaying (sc_id sc) (length raws) api (sc_title sc)) w) of
        (Inl e, w') \<Rightarrow> (Some e, w')
      | (Inr incident, w') \<Rightarrow>
          if incident = [] then (Some NothingCorrelated, w') else (None, print_line (Finished api incident) w'))"

definition seed_run ::
  "'w seed_client \<Rightarrow> string \<Rightarrow> string \<Rightarrow> duration \<Rightarrow> duration \<Rightarrow> bool \<Rightarrow> 'w seed_world \<Rightarrow> seed_failure option \<times> 'w seed_world" where
  "seed_run se api path pause wait once w =
     (case load_scenario (se_read_file se) (se_decode_scenario se) path of
        Inl e \<Rightarrow> (Some (BadFixture e), w)
      | Inr sc \<Rightarrow>
          (case rebase (se_codec se) sc (sw_clock w) of
             Inl e \<Rightarrow> (Some (BadFixture e), w)
           | Inr raws \<Rightarrow>
               (case wait_for_ready se api wait w of
                  (Some e, w1) \<Rightarrow> (Some e, w1)
                | (None, w1) \<Rightarrow>
                    if once then
                      (case already_seeded se api w1 of
                         (Inl e, w2) \<Rightarrow> (Some (SeedCheckFailed e), w2)
                       | (Inr True, w2) \<Rightarrow> (None, print_line NothingToSeed w2)
                       | (Inr False, w2) \<Rightarrow> replay_scenario se api pause sc raws w2)
                    else replay_scenario se api pause sc raws w1)))"

text \<open>\<^verbatim>\<open>main\<close>, with the flags as they were parsed: the code the process exits with.\<close>

definition default_api :: string where
  "default_api = ''http://127.0.0.1:8080''"

definition seed_main ::
  "'w seed_client \<Rightarrow> string option \<Rightarrow> string option \<Rightarrow> duration option \<Rightarrow> duration option \<Rightarrow> bool \<Rightarrow> 'w seed_world \<Rightarrow>
     int \<times> 'w seed_world" where
  "seed_main se api path pause wait once w =
     (case seed_run se
             (case api of None \<Rightarrow> env_or (se_env se) ''GRIEFER_API_BASE_URL'' default_api | Some a \<Rightarrow> a)
             (case path of None \<Rightarrow> scenario_one | Some p \<Rightarrow> p)
             (case pause of None \<Rightarrow> 0 | Some d \<Rightarrow> d)
             (case wait of None \<Rightarrow> 30 * second | Some d \<Rightarrow> d) once w of
        (None, w') \<Rightarrow> (0, w')
      | (Some e, w') \<Rightarrow> (1, w'))"

subsection \<open>What is sent\<close>

text \<open>\<open>adds P w w'\<close>: the requests sent between two states satisfy \<open>P\<close>.\<close>

definition adds :: "(seed_request list \<Rightarrow> bool) \<Rightarrow> 'w seed_world \<Rightarrow> 'w seed_world \<Rightarrow> bool" where
  "adds P w w' \<longleftrightarrow> (\<exists>rs. sw_sent w' = sw_sent w @ rs \<and> P rs)"

definition gets :: "'w seed_client \<Rightarrow> seed_request list \<Rightarrow> bool" where
  "gets se rs \<longleftrightarrow> (\<forall>r \<in> set rs. \<exists>url. r = get_request se url)"

lemma send_adds: "send se r w = (res, w') \<Longrightarrow> sw_sent w' = sw_sent w @ [r]"
  by (auto simp: send_def split: prod.splits)

lemma poll_ready_gets: "poll_ready se api wait deadline w = (res, w') \<Longrightarrow> adds (gets se) w w'"
proof (induction se api wait deadline w arbitrary: res w' rule: poll_ready.induct)
  case (1 se api wait deadline w)
  obtain ans w1 where s: "send se (get_request se (api @ ''/ready'')) w = (ans, w1)" by (metis surj_pair)
  note sent = send_adds [OF s]
  show ?case
  proof (cases "se_url_valid se (api @ ''/ready'') \<and> (\<exists>e. poll_failure ans = Some e) \<and> \<not> sw_clock w1 > deadline \<and>
      \<not> se_cancelled se (sw_clock w1 + half_second)")
    case True
    then obtain e where e: "poll_failure ans = Some e" by blast
    let ?w2 = "w1\<lparr>sw_clock := sw_clock w1 + half_second\<rparr>"
    have "poll_ready se api wait deadline ?w2 = (res, w')"
      using "1.prems" True e by (simp add: poll_ready.simps [of se api wait deadline w] s Let_def)
    then have "adds (gets se) ?w2 w'" using "1.IH" s e True by (auto simp: Let_def)
    then show ?thesis by (auto simp: adds_def gets_def sent)
  next
    case False
    then have "w' = w \<or> sw_sent w' = sw_sent w1"
      using "1.prems" by (auto simp: poll_ready.simps [of se api wait deadline w] s Let_def split: if_splits option.splits)
    then show ?thesis by (auto simp: adds_def gets_def sent)
  qed
qed

text \<open>Each poll but the last moves the clock on by half a second.\<close>

lemma poll_ready_bound:
  "poll_ready se api wait deadline w = (res, w') \<Longrightarrow>
     length (sw_sent w') \<le> Suc (length (sw_sent w) + nat ((deadline - sw_clock w) div half_second + 1))"
proof (induction se api wait deadline w arbitrary: res w' rule: poll_ready.induct)
  case (1 se api wait deadline w)
  obtain ans w1 where s: "send se (get_request se (api @ ''/ready'')) w = (ans, w1)" by (metis surj_pair)
  note sent = send_adds [OF s] and clock = send_clock [OF s]
  show ?case
  proof (cases "se_url_valid se (api @ ''/ready'') \<and> (\<exists>e. poll_failure ans = Some e) \<and> \<not> sw_clock w1 > deadline \<and>
      \<not> se_cancelled se (sw_clock w1 + half_second)")
    case True
    then obtain e where e: "poll_failure ans = Some e" by blast
    let ?w2 = "w1\<lparr>sw_clock := sw_clock w1 + half_second\<rparr>"
    have "poll_ready se api wait deadline ?w2 = (res, w')"
      using "1.prems" True e by (simp add: poll_ready.simps [of se api wait deadline w] s Let_def)
    then have IH: "length (sw_sent w') \<le> Suc (length (sw_sent ?w2) + nat ((deadline - sw_clock ?w2) div half_second + 1))"
      using "1.IH" s e True by (auto simp: Let_def)
    have hs: "0 < half_second" by (simp add: half_second_def)
    have "(deadline - sw_clock ?w2) div half_second \<le> (deadline - sw_clock w - half_second) div half_second"
      using clock hs by (intro zdiv_mono1) simp_all
    also have "\<dots> = (deadline - sw_clock w) div half_second - 1"
      using hs by (simp add: half_second_def)
    finally have "(deadline - sw_clock ?w2) div half_second + 1 \<le> (deadline - sw_clock w) div half_second" by simp
    moreover have "0 \<le> (deadline - sw_clock w) div half_second"
      using True clock hs by (intro pos_imp_zdiv_nonneg_iff [THEN iffD2]) simp_all
    ultimately show ?thesis using IH sent by simp
  next
    case False
    then have "w' = w \<or> sw_sent w' = sw_sent w1"
      using "1.prems" by (auto simp: poll_ready.simps [of se api wait deadline w] s Let_def split: if_splits option.splits)
    then show ?thesis by (auto simp: sent)
  qed
qed

lemma poll_ready_success:
  "poll_ready se api wait deadline w = (None, w') \<Longrightarrow>
     \<exists>w0 p. send se (get_request se (api @ ''/ready'')) w0 = (Inr p, w') \<and> sp_status p = 200"
proof (induction se api wait deadline w arbitrary: w' rule: poll_ready.induct)
  case (1 se api wait deadline w)
  obtain ans w1 where s: "send se (get_request se (api @ ''/ready'')) w = (ans, w1)" by (metis surj_pair)
  show ?case
  proof (cases "poll_failure ans")
    case None
    then have "w' = w1" using "1.prems" by (auto simp: poll_ready.simps [of se api wait deadline w] s split: if_splits)
    moreover obtain p where "ans = Inr p" "sp_status p = 200"
      using None by (auto simp: poll_failure_def split: sum.splits if_splits)
    ultimately show ?thesis using s by blast
  next
    case (Some e)
    let ?w2 = "w1\<lparr>sw_clock := sw_clock w1 + half_second\<rparr>"
    have "se_url_valid se (api @ ''/ready'')" "\<not> sw_clock w1 > deadline" "\<not> se_cancelled se (sw_clock ?w2)"
      "poll_ready se api wait deadline ?w2 = (None, w')"
      using "1.prems" Some by (auto simp: poll_ready.simps [of se api wait deadline w] s Let_def split: if_splits)
    then show ?thesis using "1.IH" s Some by (simp add: Let_def)
  qed
qed

text \<open>
  C32 (termination): waiting for the API always ends. Whatever the API answers, or if it never answers with
  anything but errors, the seeder stops polling after the time it was given: it sends at most one
  readiness request per half second of that time and two more, only readiness requests, and either
  the last one succeeded or the reason is reported.
\<close>

theorem seeder_wait_ends:
  assumes "wait_for_ready se api wait w = (res, w')" and "0 \<le> wait"
  shows "\<exists>polls. sw_sent w' = sw_sent w @ polls \<and> int (length polls) \<le> wait div half_second + 2 \<and>
    (\<forall>r \<in> set polls. \<exists>url. r = get_request se url) \<and>
    (res = None \<longrightarrow> (\<exists>w0 p. send se (get_request se (api @ ''/ready'')) w0 = (Inr p, w') \<and> sp_status p = 200))"
proof -
  have run: "poll_ready se api wait (sw_clock w + wait) w = (res, w')" using assms(1) by (simp add: wait_for_ready_def)
  obtain polls where polls: "sw_sent w' = sw_sent w @ polls" "gets se polls"
    using poll_ready_gets [OF run] by (auto simp: adds_def)
  have "0 \<le> wait div half_second" using assms(2) by (simp add: half_second_def pos_imp_zdiv_nonneg_iff)
  then have "int (length polls) \<le> wait div half_second + 2" using poll_ready_bound [OF run] polls(1) by simp
  moreover have "res = None \<longrightarrow> (\<exists>w0 p. send se (get_request se (api @ ''/ready'')) w0 = (Inr p, w') \<and> sp_status p = 200)"
    using run poll_ready_success by blast
  ultimately show ?thesis using polls by (auto simp: gets_def)
qed

text \<open>What one event and a whole replay send.\<close>

lemma post_event_sends:
  "post_event se api raw w = (res, w') \<Longrightarrow>
     sw_sent w' = sw_sent w @ (if se_url_valid se (api @ ''/api/v1/events'') then [post_request se (api @ ''/api/v1/events'') raw] else []) \<and>
     (\<forall>r. res = Inr r \<longrightarrow> se_url_valid se (api @ ''/api/v1/events''))"
  by (auto simp: post_event_def Let_def split: if_splits prod.splits sum.splits option.splits dest!: send_adds)

lemma replay_events_sends:
  "replay_events se api pause n i last_incident raws w = (res, w') \<Longrightarrow>
     \<exists>k \<le> length raws. sw_sent w' = sw_sent w @ map (post_request se (api @ ''/api/v1/events'')) (take k raws) \<and>
       (\<forall>inc. res = Inr inc \<longrightarrow> k = length raws)"
proof (induction raws arbitrary: i last_incident w)
  case (Cons raw raws)
  obtain ans w1 where p: "post_event se api raw w = (ans, w1)" by (metis surj_pair)
  note sends = post_event_sends [OF p]
  show ?case
  proof (cases ans)
    case (Inl e)
    then have "w' = w1" "res = Inl (EventRefused (i + 1) e)" using Cons.prems p by auto
    then show ?thesis
      using sends by (intro exI [of _ "if se_url_valid se (api @ ''/api/v1/events'') then 1 else 0"]) simp
  next
    case (Inr r)
    then have w1: "sw_sent w1 = sw_sent w @ [post_request se (api @ ''/api/v1/events'') raw]" using sends by simp
    define w2 where "w2 = print_line (Accepted (i + 1) n (si_event_id r)
      (if si_incident_id r \<noteq> [] then Some (si_incident_id r, si_risk_score r) else None) (si_degraded r)) w1"
    define w3 where "w3 = (if pause > 0 \<and> raws \<noteq> [] then w2\<lparr>sw_clock := sw_clock w2 + pause\<rparr> else w2)"
    let ?l = "first_non_empty [si_incident_id r, last_incident]"
    have w3: "sw_sent w3 = sw_sent w1" by (simp add: w3_def w2_def print_line_def)
    have "(if pause > 0 \<and> raws \<noteq> [] \<and> se_cancelled se (sw_clock w3) then (Inl Cancelled, w3)
        else replay_events se api pause n (i + 1) ?l raws w3) = (res, w')"
      using Cons.prems unfolding replay_events.simps p Inr w3_def w2_def
      by (cases "raws = []"; cases "0 < pause") (simp_all add: Let_def del: first_non_empty.simps split: if_split_asm)
    then consider (stopped) e where "res = Inl e" "sw_sent w' = sw_sent w1"
      | (on) "sw_sent w3 = sw_sent w1" "replay_events se api pause n (i + 1) ?l raws w3 = (res, w')"
      using w3 by (auto split: if_splits)
    then show ?thesis
    proof cases
      case stopped
      then show ?thesis using w1 by (intro exI [of _ 1]) simp
    next
      case on
      then obtain k where "k \<le> length raws" "sw_sent w' = sw_sent w3 @ map (post_request se (api @ ''/api/v1/events'')) (take k raws)"
        "\<forall>inc. res = Inr inc \<longrightarrow> k = length raws" using Cons.IH [OF on(2)] by blast
      then show ?thesis using w1 on(1) by (intro exI [of _ "Suc k"]) simp
    qed
  qed
qed simp

lemma replay_scenario_sends:
  assumes "replay_scenario se api pause sc raws w = (res, w')"
  shows "\<exists>k \<le> length raws. sw_sent w' = sw_sent w @ map (post_request se (api @ ''/api/v1/events'')) (take k raws) \<and>
    (res = None \<longrightarrow> k = length raws)"
proof -
  let ?w = "print_line (Replaying (sc_id sc) (length raws) api (sc_title sc)) w"
  obtain ans w1 where r: "replay_events se api pause (length raws) 0 [] raws ?w = (ans, w1)" by (metis surj_pair)
  then have "sw_sent w' = sw_sent w1 \<and> (res = None \<longrightarrow> (\<exists>inc. ans = Inr inc))"
    using assms by (auto simp: replay_scenario_def print_line_def split: sum.splits if_splits)
  then show ?thesis using replay_events_sends [OF r] by (auto simp: print_line_def)
qed

lemma already_seeded_sends:
  "already_seeded se api w = (res, w') \<Longrightarrow> \<exists>rs. sw_sent w' = sw_sent w @ rs \<and> gets se rs"
  by (auto simp: already_seeded_def Let_def gets_def split: if_splits prod.splits sum.splits option.splits dest!: send_adds)

lemma requests_authorized:
  assumes "se_env se ''INTERNAL_API_TOKEN'' = Some token" and "token \<noteq> []"
  shows "sq_authorization (get_request se url) = ''Bearer '' @ token"
    and "sq_authorization (post_request se url body) = ''Bearer '' @ token"
  using assms by (simp_all add: get_request_def post_request_def authorize_request_def env_or_def)

text \<open>What a run sends after its polls: the check, if it was asked for, then a prefix of the events.\<close>

definition replayed :: "bool \<Rightarrow> call_failure + bool \<Rightarrow> string list \<Rightarrow> seed_failure option \<Rightarrow> nat \<Rightarrow> bool" where
  "replayed once seeded raws res k \<longleftrightarrow> k \<le> length raws \<and>
     (res = None \<longrightarrow> k = length raws \<or> once \<and> k = 0 \<and> seeded = Inr True) \<and> (once \<and> 0 < k \<longrightarrow> seeded = Inr False)"

lemma seed_run_sends:
  assumes "load_scenario (se_read_file se) (se_decode_scenario se) path = Inr sc"
    and "rebase (se_codec se) sc (sw_clock w) = Inr raws" and "seed_run se api path pause wait once w = (res, w')"
    and r: "wait_for_ready se api wait w = (ready, w1)"
  shows "\<exists>rs k. gets se rs \<and> replayed once (fst (already_seeded se api w1)) raws res k \<and>
    sw_sent w' = sw_sent w1 @ rs @ map (post_request se (api @ ''/api/v1/events'')) (take k raws)"
proof (cases ready)
  case (Some e)
  then have "w' = w1" "res = Some e" using assms by (auto simp: seed_run_def)
  then show ?thesis by (intro exI [of _ "[]"] exI [of _ 0]) (simp add: gets_def replayed_def)
next
  case ready: None
  show ?thesis
  proof (cases once)
    case False
    then have "replay_scenario se api pause sc raws w1 = (res, w')" using assms ready by (simp add: seed_run_def)
    then show ?thesis
      using replay_scenario_sends False by (intro exI [of _ "[]"]) (fastforce simp: gets_def replayed_def)
  next
    case True
    obtain s w2 where s: "already_seeded se api w1 = (s, w2)" by (metis surj_pair)
    obtain rs where rs: "sw_sent w2 = sw_sent w1 @ rs" "gets se rs" using already_seeded_sends [OF s] by blast
    consider (no) e where "s = Inl e" "res = Some (SeedCheckFailed e)" "w' = w2" | (skip) "s = Inr True" "res = None" "sw_sent w' = sw_sent w2"
      | (go) "s = Inr False" "replay_scenario se api pause sc raws w2 = (res, w')"
      using assms ready True s by (auto simp: seed_run_def print_line_def split: sum.splits bool.splits)
    then show ?thesis
    proof cases
      case go
      then show ?thesis using replay_scenario_sends [OF go(2)] rs s by (intro exI [of _ rs]) (auto simp: replayed_def)
    qed (use rs s True in \<open>auto simp: replayed_def intro!: exI [of _ rs] exI [of _ 0]\<close>)
  qed
qed

lemma authorized_sent:
  assumes "se_env se ''INTERNAL_API_TOKEN'' = Some token" and "token \<noteq> []" and "gets se rs"
  shows "\<forall>r \<in> set (rs @ map (post_request se url) raws). sq_authorization r = ''Bearer '' @ token"
  using assms(3) requests_authorized [OF assms(1,2)] by (auto simp: gets_def)

text \<open>
  C31 (functional): the seeder replays the scenario in order, over the same path as every other producer.
  A run sends reads first and then the rebased events, one request each, in the order of the scenario
  and without a gap; it reports success only if it sent them all, or if it was asked to seed once and
  the API said it holds an incident. Asked to seed once, it sends an event only after the API said it
  holds none. If a service token is configured, every request carries it.
\<close>

theorem seeder_replays_in_order:
  assumes "load_scenario (se_read_file se) (se_decode_scenario se) path = Inr sc"
    and "rebase (se_codec se) sc (sw_clock w) = Inr raws" and "seed_run se api path pause wait once w = (res, w')"
  shows "\<exists>reads k. replayed once (fst (already_seeded se api (snd (wait_for_ready se api wait w)))) raws res k \<and>
    sw_sent w' = sw_sent w @ reads @ map (post_request se (api @ ''/api/v1/events'')) (take k raws) \<and>
    (\<forall>r \<in> set reads. sq_method r = ''GET'') \<and>
    (\<forall>token. se_env se ''INTERNAL_API_TOKEN'' = Some token \<and> token \<noteq> [] \<longrightarrow>
       (\<forall>r \<in> set (drop (length (sw_sent w)) (sw_sent w')). sq_authorization r = ''Bearer '' @ token))"
proof -
  obtain ready w1 where r: "wait_for_ready se api wait w = (ready, w1)" by (metis surj_pair)
  obtain polls where polls: "sw_sent w1 = sw_sent w @ polls" "gets se polls"
    using poll_ready_gets r by (fastforce simp: wait_for_ready_def adds_def)
  obtain rs k where k: "gets se rs" "replayed once (fst (already_seeded se api w1)) raws res k"
    "sw_sent w' = sw_sent w1 @ rs @ map (post_request se (api @ ''/api/v1/events'')) (take k raws)"
    using seed_run_sends [OF assms r] by blast
  have reads: "gets se (polls @ rs)" using polls(2) k(1) by (auto simp: gets_def)
  have sent: "sw_sent w' = sw_sent w @ (polls @ rs) @ map (post_request se (api @ ''/api/v1/events'')) (take k raws)"
    by (simp add: k(3) polls(1))
  have "sq_method (get_request se url) = ''GET''" for url by (simp add: get_request_def authorize_request_def Let_def)
  then have "\<forall>r \<in> set (polls @ rs). sq_method r = ''GET''" using reads unfolding gets_def by metis
  moreover have "drop (length (sw_sent w)) (sw_sent w') = (polls @ rs) @ map (post_request se (api @ ''/api/v1/events'')) (take k raws)"
    by (simp add: sent)
  moreover have "w1 = snd (wait_for_ready se api wait w)" by (simp add: r)
  ultimately show ?thesis using k(2) sent authorized_sent [OF _ _ reads] by metis
qed

subsection \<open>At concrete inputs\<close>

definition sample_seed_codec :: event_codec where
  "sample_seed_codec = \<lparr> ec_object = (\<lambda>raw. Some [(''timestamp'', raw)]), ec_string = Some,
     ec_parse_time = (\<lambda>s. Some (int (length s))), ec_format_time = (\<lambda>t. replicate (nat t) (CHR ''1'')),
     ec_encode_string = (\<lambda>s. s), ec_encode = (\<lambda>doc. Some (concat (map snd doc))) \<rparr>"

definition sample_seed_scenario :: scenario where
  "sample_seed_scenario = \<lparr> sc_id = ''s'', sc_title = [], sc_description = [], sc_synthetic = True, sc_events = [''1'', ''11''] \<rparr>"

text \<open>An API that counts the events it accepts, and one that cannot be reached.\<close>

definition sample_seed_client :: "nat seed_client" where
  "sample_seed_client = \<lparr> se_do = (\<lambda>r n. if sq_method r = ''POST'' then (Inr \<lparr> sp_status = 202, sp_body = Some [] \<rparr>, 1, Suc n)
       else (Inr \<lparr> sp_status = 200, sp_body = Some [] \<rparr>, 1, n)), se_url_valid = (\<lambda>url. True), se_cancelled = (\<lambda>t. False),
     se_env = [''INTERNAL_API_TOKEN'' \<mapsto> ''t''], se_read_file = Some, se_decode_scenario = (\<lambda>raw. Some sample_seed_scenario),
     se_codec = sample_seed_codec, se_decode_total = (\<lambda>b. Some 0), se_decode_result = (\<lambda>b. Some
       \<lparr> si_event_id = ''e'', si_incident_id = ''inc-1'', si_risk_score = 7, si_degraded = [] \<rparr>) \<rparr>"

definition sample_unreachable :: "nat seed_client" where
  "sample_unreachable = sample_seed_client\<lparr>se_do := \<lambda>r n. (Inl ''connection refused'', 0, n)\<rparr>"

definition sample_seed_world :: "nat seed_world" where
  "sample_seed_world = \<lparr> sw_api = 0, sw_clock = 5, sw_sent = [], sw_out = [] \<rparr>"

theorem seeder_wait_ends_witness:
  "\<exists>polls. sw_sent (snd (wait_for_ready sample_unreachable default_api (2 * second) sample_seed_world)) = polls \<and>
     int (length polls) \<le> 6"
  using seeder_wait_ends [where se = sample_unreachable and api = default_api and wait = "2 * second" and w = sample_seed_world,
      OF prod.collapse [symmetric]] by (auto simp: sample_seed_world_def half_second_def second_def)

theorem seeder_replays_in_order_witness:
  "\<exists>reads k. sw_sent (snd (seed_run sample_seed_client default_api scenario_one 0 second True sample_seed_world)) =
     reads @ map (post_request sample_seed_client (default_api @ ''/api/v1/events'')) (take k [''1111'', ''11111'']) \<and>
     (\<forall>r \<in> set reads. sq_method r = ''GET'')"
proof -
  have "load_scenario (se_read_file sample_seed_client) (se_decode_scenario sample_seed_client) scenario_one = Inr sample_seed_scenario"
    by (simp add: load_scenario_def sample_seed_client_def sample_seed_scenario_def)
  moreover have "rebase (se_codec sample_seed_client) sample_seed_scenario (sw_clock sample_seed_world) = Inr [''1111'', ''11111'']"
    by code_simp
  ultimately have "\<exists>reads k. replayed True (fst (already_seeded sample_seed_client default_api
      (snd (wait_for_ready sample_seed_client default_api second sample_seed_world)))) [''1111'', ''11111'']
      (fst (seed_run sample_seed_client default_api scenario_one 0 second True sample_seed_world)) k \<and>
    sw_sent (snd (seed_run sample_seed_client default_api scenario_one 0 second True sample_seed_world)) = sw_sent sample_seed_world @ reads @
      map (post_request sample_seed_client (default_api @ ''/api/v1/events'')) (take k [''1111'', ''11111'']) \<and>
    (\<forall>r \<in> set reads. sq_method r = ''GET'')"
    using seeder_replays_in_order [OF _ _ prod.collapse [symmetric]] by blast
  then show ?thesis by (auto simp: sample_seed_world_def)
qed

end
