(* ===== verification/Postgres.thy ===== *)
theory Postgres
  imports Service "HOL-Library.Word"
begin

text \<open>
  The PostgreSQL store of \<^verbatim>\<open>src/internal/storage/postgres.go\<close> over the tables of \<^verbatim>\<open>schema.sql\<close>. A table is a
  list of rows; the statements of the code are functions on the tables. The server is outside the
  program: for each statement it decides whether the statement is done, refused, or done with the
  answer lost on the way. The JSON codec and the collation of text are parameters. A time column
  keeps microseconds. Closing the pool and the deadlines of contexts are left out.
\<close>

subsection \<open>Tables\<close>

record 'j event_row =
  ew_schema_version :: string
  ew_occurred_at :: time
  ew_received_at :: time
  ew_source_type :: string
  ew_source_name :: string
  ew_event_type :: string
  ew_category :: category
  ew_severity :: severity
  ew_actor_key :: "string option"
  ew_correlation_id :: "string option"
  ew_document :: 'j

record 'j incident_row =
  iw_schema_version :: string
  iw_title :: string
  iw_status :: status
  iw_severity :: severity
  iw_risk_score :: int
  iw_confidence :: real
  iw_first_seen :: time
  iw_last_seen :: time
  iw_updated_at :: time
  iw_primary_identity :: "string option"
  iw_document :: 'j

record 'j action_row =
  aw_incident_id :: string
  aw_action_type :: string
  aw_mode :: mode
  aw_status :: action_status
  aw_requested_by :: string
  aw_created_at :: time
  aw_document :: 'j

record 'j audit_row =
  uw_sequence :: int
  uw_id :: string
  uw_occurred_at :: time
  uw_actor :: string
  uw_actor_role :: "string option"
  uw_action :: string
  uw_subject_type :: string
  uw_subject_id :: string
  uw_outcome :: string
  uw_reason :: string
  uw_request_id :: "string option"
  uw_details :: "'j option"

text \<open>
  The database. A table with a primary key is an association list; the audit log's key is the sequence
  that \<^verbatim>\<open>BIGSERIAL\<close> hands out and never takes back. \<open>db_statements\<close> counts what the server was asked.
\<close>

record 'j database =
  db_events :: "(string \<times> 'j event_row) list"
  db_incidents :: "(string \<times> 'j incident_row) list"
  db_actions :: "(string \<times> 'j action_row) list"
  db_audit :: "'j audit_row list"
  db_sequence :: int
  db_statements :: nat

text \<open>The tables \<^verbatim>\<open>Migrate\<close> creates in an empty database.\<close>

definition empty_database :: "'j database" where
  "empty_database = \<lparr> db_events = [], db_incidents = [], db_actions = [], db_audit = [], db_sequence = 0, db_statements = 0 \<rparr>"

record 'j json_codec =
  jc_event :: "security_event \<Rightarrow> 'j option"
  jc_event_of :: "'j \<Rightarrow> security_event option"
  jc_incident :: "incident \<Rightarrow> 'j option"
  jc_incident_of :: "'j \<Rightarrow> incident option"
  jc_action :: "response_action \<Rightarrow> 'j option"
  jc_action_of :: "'j \<Rightarrow> response_action option"
  jc_details :: "(string \<times> detail) list \<Rightarrow> 'j option"
  jc_details_of :: "'j \<Rightarrow> (string \<times> detail) list option"
  jc_collate :: "string \<Rightarrow> string"

definition microseconds :: "time \<Rightarrow> time" where
  "microseconds t = t - t mod 1000"

definition nullable :: "string \<Rightarrow> string option" where
  "nullable s = (if s = [] then None else Some s)"

definition coalesce :: "string option \<Rightarrow> string" where
  "coalesce v = (case v of None \<Rightarrow> [] | Some s \<Rightarrow> s)"

lemma coalesce_nullable [simp]: "coalesce (nullable s) = s"
  by (simp add: coalesce_def nullable_def)

subsection \<open>Statements and transactions\<close>

datatype pg_error = PgNotFound | PgNeedsId string | PgEncode string | PgDecode string | PgServer string

datatype outcome = Done | Refused | Lost

type_synonym server = "nat \<Rightarrow> outcome"

text \<open>A statement on the pool: its own transaction. A statement may fail on the tables by itself.\<close>

definition run_statement ::
  "server \<Rightarrow> string \<Rightarrow> ('j database \<Rightarrow> (unit + 'a) \<times> 'j database) \<Rightarrow> 'j database \<Rightarrow> (pg_error + 'a) \<times> 'j database" where
  "run_statement net what stmt db =
     (let asked = db\<lparr>db_statements := Suc (db_statements db)\<rparr> in
      case net (db_statements db) of
        Refused \<Rightarrow> (Inl (PgServer what), asked)
      | Done \<Rightarrow> (case stmt asked of (Inl _, db') \<Rightarrow> (Inl (PgServer what), db') | (Inr x, db') \<Rightarrow> (Inr x, db'))
      | Lost \<Rightarrow> (Inl (PgServer what), snd (stmt asked)))"

text \<open>A rollback restores the tables; the sequence keeps what it has handed out.\<close>

definition rolled_back :: "'j database \<Rightarrow> 'j database \<Rightarrow> 'j database" where
  "rolled_back before db = before\<lparr>db_sequence := db_sequence db, db_statements := Suc (db_statements db)\<rparr>"

definition in_tx ::
  "server \<Rightarrow> ('j database \<Rightarrow> (pg_error + 'a) \<times> 'j database) \<Rightarrow> 'j database \<Rightarrow> (pg_error + 'a) \<times> 'j database" where
  "in_tx net fn db =
     (case run_statement net ''begin transaction'' (\<lambda>d. (Inr (), d)) db of
        (Inl e, db1) \<Rightarrow> (Inl e, db1)
      | (Inr _, db1) \<Rightarrow>
          (case fn db1 of
             (Inl e, db2) \<Rightarrow> (Inl e, rolled_back db1 db2)
           | (Inr x, db2) \<Rightarrow>
               (case net (db_statements db2) of
                  Done \<Rightarrow> (Inr x, db2\<lparr>db_statements := Suc (db_statements db2)\<rparr>)
                | Refused \<Rightarrow> (Inl (PgServer ''commit transaction''), rolled_back db1 db2)
                | Lost \<Rightarrow> (Inl (PgServer ''commit transaction''), db2\<lparr>db_statements := Suc (db_statements db2)\<rparr>))))"

subsection \<open>Writing\<close>

definition insert_event :: "string \<Rightarrow> 'j event_row \<Rightarrow> 'j database \<Rightarrow> (unit + unit) \<times> 'j database" where
  "insert_event eid row db =
     (Inr (), if map_of (db_events db) eid \<noteq> None then db else db\<lparr>db_events := db_events db @ [(eid, row)]\<rparr>)"

definition event_row_of :: "security_event \<Rightarrow> 'j \<Rightarrow> 'j event_row" where
  "event_row_of ev doc =
     \<lparr> ew_schema_version = ev_schema_version ev, ew_occurred_at = microseconds (ev_timestamp ev),
     ew_received_at = microseconds (ev_received_at ev), ew_source_type = ev_source_type ev,
     ew_source_name = ev_source_name ev, ew_event_type = ev_event_type ev, ew_category = ev_category ev,
     ew_severity = ev_severity ev, ew_actor_key = nullable (actor_key ev),
     ew_correlation_id = nullable (ev_correlation_id ev), ew_document = doc \<rparr>"

definition pg_save_event ::
  "server \<Rightarrow> 'j json_codec \<Rightarrow> security_event \<Rightarrow> 'j database \<Rightarrow> (pg_error + unit) \<times> 'j database" where
  "pg_save_event net jc ev db =
     (if ev_id ev = [] then (Inl (PgNeedsId ''event''), db)
      else case jc_event jc ev of
             None \<Rightarrow> (Inl (PgEncode ''event''), db)
           | Some doc \<Rightarrow>
               run_statement net ''insert event'' (insert_event (ev_id ev) (event_row_of ev doc)) db)"

text \<open>\<^verbatim>\<open>ON CONFLICT DO UPDATE\<close> keeps the schema version of the row that is there.\<close>

definition upsert_incident :: "string \<Rightarrow> 'j incident_row \<Rightarrow> 'j database \<Rightarrow> (unit + unit) \<times> 'j database" where
  "upsert_incident iid row db =
     (let new = (case map_of (db_incidents db) iid of
                   None \<Rightarrow> row | Some old \<Rightarrow> row\<lparr>iw_schema_version := iw_schema_version old\<rparr>)
      in (Inr (), db\<lparr>db_incidents := AList.update iid new (db_incidents db)\<rparr>))"

definition incident_row_of :: "incident \<Rightarrow> 'j \<Rightarrow> 'j incident_row" where
  "incident_row_of i doc =
     \<lparr> iw_schema_version = inc_schema_version i, iw_title = inc_title i, iw_status = inc_status i,
     iw_severity = inc_severity i, iw_risk_score = inc_risk_score i, iw_confidence = inc_confidence i,
     iw_first_seen = microseconds (inc_first_seen i), iw_last_seen = microseconds (inc_last_seen i),
     iw_updated_at = microseconds (inc_updated_at i), iw_primary_identity = nullable (inc_primary_identity i),
     iw_document = doc \<rparr>"

definition pg_save_incident ::
  "server \<Rightarrow> 'j json_codec \<Rightarrow> incident \<Rightarrow> 'j database \<Rightarrow> (pg_error + unit) \<times> 'j database" where
  "pg_save_incident net jc i db =
     (if inc_id i = [] then (Inl (PgNeedsId ''incident''), db)
      else case jc_incident jc i of
             None \<Rightarrow> (Inl (PgEncode ''incident''), db)
           | Some doc \<Rightarrow>
               run_statement net ''upsert incident'' (upsert_incident (inc_id i) (incident_row_of i doc)) db)"

text \<open>An action that is there keeps every column but its status and its document.\<close>

definition upsert_action :: "string \<Rightarrow> 'j action_row \<Rightarrow> 'j database \<Rightarrow> (unit + unit) \<times> 'j database" where
  "upsert_action aid row db =
     (let new = (case map_of (db_actions db) aid of
                   None \<Rightarrow> row | Some old \<Rightarrow> old\<lparr>aw_status := aw_status row, aw_document := aw_document row\<rparr>)
      in (Inr (), db\<lparr>db_actions := AList.update aid new (db_actions db)\<rparr>))"

definition action_row_of :: "response_action \<Rightarrow> 'j \<Rightarrow> 'j action_row" where
  "action_row_of a doc =
     \<lparr> aw_incident_id = act_incident_id a, aw_action_type = act_action_type a, aw_mode = act_mode a,
     aw_status = act_status a, aw_requested_by = act_requested_by a,
     aw_created_at = microseconds (act_created_at a), aw_document = doc \<rparr>"

definition pg_save_action ::
  "server \<Rightarrow> 'j json_codec \<Rightarrow> response_action \<Rightarrow> 'j database \<Rightarrow> (pg_error + unit) \<times> 'j database" where
  "pg_save_action net jc a db =
     (if act_id a = [] then (Inl (PgNeedsId ''response action''), db)
      else case jc_action jc a of
             None \<Rightarrow> (Inl (PgEncode ''response action''), db)
           | Some doc \<Rightarrow>
               run_statement net ''upsert response action'' (upsert_action (act_id a) (action_row_of a doc)) db)"

text \<open>The sequence is drawn first; an identifier that is there violates the \<^verbatim>\<open>UNIQUE\<close> constraint.\<close>

definition insert_audit :: "'j audit_row \<Rightarrow> 'j database \<Rightarrow> (unit + int) \<times> 'j database" where
  "insert_audit row db =
     (let q = db_sequence db + 1; db1 = db\<lparr>db_sequence := q\<rparr> in
      if \<exists>r \<in> set (db_audit db). uw_id r = uw_id row then (Inl (), db1)
      else (Inr q, db1\<lparr>db_audit := db_audit db @ [row\<lparr>uw_sequence := q\<rparr>]\<rparr>))"

definition audit_row_of :: "audit_entry \<Rightarrow> 'j option \<Rightarrow> 'j audit_row" where
  "audit_row_of e details =
     \<lparr> uw_sequence = 0, uw_id = ae_id e, uw_occurred_at = microseconds (ae_timestamp e), uw_actor = ae_actor e,
       uw_actor_role = nullable (ae_actor_role e), uw_action = ae_action e, uw_subject_type = ae_subject_type e,
       uw_subject_id = ae_subject_id e, uw_outcome = ae_outcome e, uw_reason = ae_reason e,
       uw_request_id = nullable (ae_request_id e), uw_details = details \<rparr>"

text \<open>A missing map of details stays missing.\<close>

definition encode_details :: "'j json_codec \<Rightarrow> (string \<times> detail) list \<Rightarrow> 'j option option" where
  "encode_details jc ds = (if ds = [] then Some None else case jc_details jc ds of None \<Rightarrow> None | Some j \<Rightarrow> Some (Some j))"

definition pg_append ::
  "server \<Rightarrow> 'j json_codec \<Rightarrow> audit_entry \<Rightarrow> 'j database \<Rightarrow> (pg_error + int) \<times> 'j database" where
  "pg_append net jc e db =
     (if ae_id e = [] then (Inl (PgNeedsId ''audit entry''), db)
      else case encode_details jc (ae_details e) of
             None \<Rightarrow> (Inl (PgEncode ''audit details''), db)
           | Some details \<Rightarrow> run_statement net ''append audit entry'' (insert_audit (audit_row_of e details)) db)"

fun pg_append_all ::
  "server \<Rightarrow> 'j json_codec \<Rightarrow> audit_entry list \<Rightarrow> 'j database \<Rightarrow> (pg_error + unit) \<times> 'j database" where
  "pg_append_all net jc [] db = (Inr (), db)"
| "pg_append_all net jc (e # es) db =
     (case pg_append net jc e db of
        (Inl err, db') \<Rightarrow> (Inl err, db')
      | (Inr _, db') \<Rightarrow> pg_append_all net jc es db')"

definition pg_write_evaluation ::
  "server \<Rightarrow> 'j json_codec \<Rightarrow> response_action option \<Rightarrow> audit_entry list \<Rightarrow> 'j database \<Rightarrow>
     (pg_error + unit) \<times> 'j database" where
  "pg_write_evaluation net jc act entries db =
     (case act of
        None \<Rightarrow> pg_append_all net jc entries db
      | Some a \<Rightarrow>
          (case pg_save_action net jc a db of
             (Inl err, db') \<Rightarrow> (Inl err, db')
           | (Inr _, db') \<Rightarrow> pg_append_all net jc entries db'))"

definition pg_save_action_with_audit ::
  "server \<Rightarrow> 'j json_codec \<Rightarrow> response_action option \<Rightarrow> audit_entry list \<Rightarrow> 'j database \<Rightarrow>
     (pg_error + unit) \<times> 'j database" where
  "pg_save_action_with_audit net jc act entries db = in_tx net (pg_write_evaluation net jc act entries) db"

subsection \<open>Reading\<close>

text \<open>A query answers from the tables and leaves them alone.\<close>

definition run_query :: "server \<Rightarrow> string \<Rightarrow> ('j database \<Rightarrow> 'a) \<Rightarrow> 'j database \<Rightarrow> (pg_error + 'a) \<times> 'j database" where
  "run_query net what q db = run_statement net what (\<lambda>d. (Inr (q d), d)) db"

text \<open>\<^verbatim>\<open>ORDER BY t DESC, id DESC\<close>.\<close>

definition newest_first :: "('j json_codec) \<Rightarrow> ('r \<Rightarrow> time) \<Rightarrow> (string \<times> 'r) list \<Rightarrow> (string \<times> 'r) list" where
  "newest_first jc at_time rows = rev (sort_key (\<lambda>kr. (at_time (snd kr), jc_collate jc (fst kr))) rows)"

definition limit_offset :: "int \<Rightarrow> int \<Rightarrow> 'a list \<Rightarrow> 'a list" where
  "limit_offset limit offset xs = take (nat limit) (drop (nat offset) xs)"

fun decode_all :: "string \<Rightarrow> ('j \<Rightarrow> 'a option) \<Rightarrow> 'j list \<Rightarrow> pg_error + 'a list" where
  "decode_all what dec [] = Inr []"
| "decode_all what dec (j # js) =
     (case dec j of
        None \<Rightarrow> Inl (PgDecode what)
      | Some x \<Rightarrow> (case decode_all what dec js of Inl e \<Rightarrow> Inl e | Inr xs \<Rightarrow> Inr (x # xs)))"

text \<open>A count and then a page, two statements.\<close>

definition pg_page ::
  "server \<Rightarrow> string \<Rightarrow> ('j database \<Rightarrow> 'r list) \<Rightarrow> ('r \<Rightarrow> 'j) \<Rightarrow> ('j \<Rightarrow> 'a option) \<Rightarrow> int \<Rightarrow> int \<Rightarrow> 'j database \<Rightarrow>
     (pg_error + 'a list \<times> int) \<times> 'j database" where
  "pg_page net what rows doc dec limit offset db =
     (case run_query net (''count '' @ what) (\<lambda>d. int (length (rows d))) db of
        (Inl e, db1) \<Rightarrow> (Inl e, db1)
      | (Inr n, db1) \<Rightarrow>
          (case run_query net (''query '' @ what) (\<lambda>d. map doc (limit_offset limit offset (rows d))) db1 of
             (Inl e, db2) \<Rightarrow> (Inl e, db2)
           | (Inr docs, db2) \<Rightarrow>
               (case decode_all what dec docs of Inl e \<Rightarrow> (Inl e, db2) | Inr xs \<Rightarrow> (Inr (xs, n), db2))))"

definition pg_list_events ::
  "server \<Rightarrow> 'j json_codec \<Rightarrow> int \<Rightarrow> int \<Rightarrow> 'j database \<Rightarrow> (pg_error + security_event list \<times> int) \<times> 'j database" where
  "pg_list_events net jc limit offset db =
     pg_page net ''events'' (\<lambda>d. newest_first jc ew_received_at (db_events d)) (\<lambda>kr. ew_document (snd kr)) (jc_event_of jc)
       (clamp_limit limit) (if offset < 0 then 0 else offset) db"

definition pg_count_events :: "server \<Rightarrow> 'j database \<Rightarrow> (pg_error + int) \<times> 'j database" where
  "pg_count_events net db = run_query net ''count events'' (\<lambda>d. int (length (db_events d))) db"

text \<open>One record by its identifier.\<close>

definition pg_get ::
  "server \<Rightarrow> string \<Rightarrow> ('j database \<Rightarrow> 'j option) \<Rightarrow> ('j \<Rightarrow> 'a option) \<Rightarrow> 'j database \<Rightarrow> (pg_error + 'a) \<times> 'j database" where
  "pg_get net what doc dec db =
     (case run_query net (''query '' @ what) doc db of
        (Inl e, db1) \<Rightarrow> (Inl e, db1)
      | (Inr None, db1) \<Rightarrow> (Inl PgNotFound, db1)
      | (Inr (Some j), db1) \<Rightarrow> (case dec j of None \<Rightarrow> (Inl (PgDecode what), db1) | Some x \<Rightarrow> (Inr x, db1)))"

definition pg_get_incident ::
  "server \<Rightarrow> 'j json_codec \<Rightarrow> string \<Rightarrow> 'j database \<Rightarrow> (pg_error + incident) \<times> 'j database" where
  "pg_get_incident net jc iid db =
     pg_get net ''incident'' (\<lambda>d. map_option iw_document (map_of (db_incidents d) iid)) (jc_incident_of jc) db"

definition pg_get_action ::
  "server \<Rightarrow> 'j json_codec \<Rightarrow> string \<Rightarrow> 'j database \<Rightarrow> (pg_error + response_action) \<times> 'j database" where
  "pg_get_action net jc aid db =
     pg_get net ''response action'' (\<lambda>d. map_option aw_document (map_of (db_actions d) aid)) (jc_action_of jc) db"

text \<open>The clauses of a listing: those the filter does not set are left out.\<close>

definition incident_clauses :: "incident_filter \<Rightarrow> 'j incident_row \<Rightarrow> bool" where
  "incident_clauses f r \<longleftrightarrow>
     (fl_status f \<noteq> [] \<longrightarrow> iw_status r = fl_status f) \<and> (fl_severity f \<noteq> [] \<longrightarrow> iw_severity r = fl_severity f) \<and>
     (fl_min_risk_score f > 0 \<longrightarrow> iw_risk_score r \<ge> fl_min_risk_score f)"

definition pg_list_incidents ::
  "server \<Rightarrow> 'j json_codec \<Rightarrow> incident_filter \<Rightarrow> 'j database \<Rightarrow> (pg_error + incident list \<times> int) \<times> 'j database" where
  "pg_list_incidents net jc f0 db =
     (let f = normalize_filter f0 in
      pg_page net ''incidents''
        (\<lambda>d. newest_first jc iw_last_seen (filter (\<lambda>kr. incident_clauses f (snd kr)) (db_incidents d)))
        (\<lambda>kr. iw_document (snd kr)) (jc_incident_of jc) (fl_limit f) (fl_offset f) db)"

definition pg_list_actions ::
  "server \<Rightarrow> 'j json_codec \<Rightarrow> string \<Rightarrow> int \<Rightarrow> int \<Rightarrow> 'j database \<Rightarrow>
     (pg_error + response_action list \<times> int) \<times> 'j database" where
  "pg_list_actions net jc incident_id limit offset db =
     pg_page net ''response actions''
       (\<lambda>d. newest_first jc aw_created_at
          (filter (\<lambda>kr. incident_id \<noteq> [] \<longrightarrow> aw_incident_id (snd kr) = incident_id) (db_actions d)))
       (\<lambda>kr. aw_document (snd kr)) (jc_action_of jc) (clamp_limit limit) (if offset < 0 then 0 else offset) db"

text \<open>A row of the audit log as an entry again.\<close>

definition decode_row :: "'j json_codec \<Rightarrow> 'j audit_row \<Rightarrow> audit_entry option" where
  "decode_row jc r =
     (case (case uw_details r of None \<Rightarrow> Some [] | Some j \<Rightarrow> jc_details_of jc j) of
        None \<Rightarrow> None
      | Some ds \<Rightarrow> Some
          \<lparr> ae_id = uw_id r, ae_sequence = uw_sequence r, ae_timestamp = uw_occurred_at r, ae_actor = uw_actor r,
            ae_actor_role = coalesce (uw_actor_role r), ae_action = uw_action r, ae_subject_type = uw_subject_type r,
            ae_subject_id = uw_subject_id r, ae_outcome = uw_outcome r, ae_reason = uw_reason r,
            ae_request_id = coalesce (uw_request_id r), ae_details = ds \<rparr>)"

definition pg_list_audit ::
  "server \<Rightarrow> 'j json_codec \<Rightarrow> int \<Rightarrow> int \<Rightarrow> 'j database \<Rightarrow> (pg_error + audit_entry list \<times> int) \<times> 'j database" where
  "pg_list_audit net jc limit offset db =
     (case run_query net ''count audit entries'' (\<lambda>d. int (length (db_audit d))) db of
        (Inl e, db1) \<Rightarrow> (Inl e, db1)
      | (Inr n, db1) \<Rightarrow>
          (case run_query net ''query audit entries''
                  (\<lambda>d. limit_offset (clamp_limit limit) (if offset < 0 then 0 else offset) (sort_key uw_sequence (db_audit d))) db1 of
             (Inl e, db2) \<Rightarrow> (Inl e, db2)
           | (Inr rows, db2) \<Rightarrow>
               (case decode_all ''audit details'' (decode_row jc) rows of Inl e \<Rightarrow> (Inl e, db2) | Inr es \<Rightarrow> (Inr (es, n), db2))))"

definition pg_ping :: "server \<Rightarrow> 'j database \<Rightarrow> pg_error option \<times> 'j database" where
  "pg_ping net db =
     (case run_query net ''ping'' (\<lambda>d. ()) db of (Inl e, db') \<Rightarrow> (Some e, db') | (Inr _, db') \<Rightarrow> (None, db'))"

subsection \<open>Opening the store\<close>

record postgres_options =
  po_dsn :: string
  po_max_open_conns :: "32 word"
  po_max_idle_conns :: "32 word"
  po_conn_max_lifetime :: duration
  po_connect_timeout :: duration

record pool_config =
  pl_max_conns :: "32 word"
  pl_min_conns :: "32 word"
  pl_max_conn_lifetime :: duration

datatype open_error = DsnRequired | DsnNotParseable | PoolNotCreated | Unreachable pg_error | SchemaNotApplied pg_error

text \<open>An option that is not positive leaves what the DSN says.\<close>

definition pool_config_of :: "postgres_options \<Rightarrow> pool_config \<Rightarrow> pool_config" where
  "pool_config_of opts cfg =
     \<lparr> pl_max_conns = (if sint (po_max_open_conns opts) > 0 then po_max_open_conns opts else pl_max_conns cfg),
       pl_min_conns = (if sint (po_max_idle_conns opts) > 0 then po_max_idle_conns opts else pl_min_conns cfg),
       pl_max_conn_lifetime = (if po_conn_max_lifetime opts > 0 then po_conn_max_lifetime opts else pl_max_conn_lifetime cfg) \<rparr>"

definition connect_timeout_of :: "postgres_options \<Rightarrow> duration" where
  "connect_timeout_of opts = (if po_connect_timeout opts \<le> 0 then 10 * second else po_connect_timeout opts)"

text \<open>The schema creates what is missing and leaves what is there.\<close>

definition pg_migrate :: "server \<Rightarrow> 'j database \<Rightarrow> (pg_error + unit) \<times> 'j database" where
  "pg_migrate net db = run_statement net ''apply schema'' (\<lambda>d. (Inr (), d)) db"

text \<open>Parsing the DSN and making a pool belong to the driver.\<close>

definition new_postgres_store ::
  "(string \<Rightarrow> pool_config option) \<Rightarrow> (pool_config \<Rightarrow> duration \<Rightarrow> bool) \<Rightarrow> postgres_options \<Rightarrow> server \<Rightarrow> 'j database \<Rightarrow>
     (open_error + pool_config) \<times> 'j database" where
  "new_postgres_store parse_dsn make_pool opts net db =
     (if trim_space (po_dsn opts) = [] then (Inl DsnRequired, db)
      else case parse_dsn (po_dsn opts) of
             None \<Rightarrow> (Inl DsnNotParseable, db)
           | Some cfg \<Rightarrow>
               (let pool = pool_config_of opts cfg in
                if \<not> make_pool pool (connect_timeout_of opts) then (Inl PoolNotCreated, db)
                else case pg_ping net db of
                       (Some e, db1) \<Rightarrow> (Inl (Unreachable e), db1)
                     | (None, db1) \<Rightarrow>
                         (case pg_migrate net db1 of
                            (Inl e, db2) \<Rightarrow> (Inl (SchemaNotApplied e), db2)
                          | (Inr _, db2) \<Rightarrow> (Inr pool, db2))))"

subsection \<open>What every statement keeps\<close>

text \<open>The audit log holds each identifier once, in the strict order of a sequence that is ahead of it.\<close>

definition audit_sound :: "'j database \<Rightarrow> bool" where
  "audit_sound db \<longleftrightarrow>
     distinct (map uw_id (db_audit db)) \<and> sorted_wrt (<) (map uw_sequence (db_audit db)) \<and>
     (\<forall>r \<in> set (db_audit db). uw_sequence r \<le> db_sequence db)"

text \<open>\<open>grown db db'\<close>: the log only gained rows, and stays sound if it was.\<close>

definition log_grown :: "'j database \<Rightarrow> 'j database \<Rightarrow> bool" where
  "log_grown db db' \<longleftrightarrow>
     (\<exists>rows. db_audit db' = db_audit db @ rows) \<and> db_sequence db \<le> db_sequence db' \<and> (audit_sound db \<longrightarrow> audit_sound db')"

lemma log_grown_refl: "db_audit db' = db_audit db \<Longrightarrow> db_sequence db \<le> db_sequence db' \<Longrightarrow> log_grown db db'"
  by (auto simp: log_grown_def audit_sound_def)

lemma log_grown_trans: "log_grown a b \<Longrightarrow> log_grown b c \<Longrightarrow> log_grown a c"
  by (auto simp: log_grown_def)

lemma rolled_back_grown: "db_sequence before \<le> db_sequence db \<Longrightarrow> log_grown before (rolled_back before db)"
  by (rule log_grown_refl) (simp_all add: rolled_back_def)

lemma insert_audit_grown: "log_grown db (snd (insert_audit row db))"
proof -
  have "audit_sound db \<Longrightarrow> (\<forall>r \<in> set (db_audit db). uw_id r \<noteq> uw_id row) \<Longrightarrow>
      audit_sound (db\<lparr>db_sequence := db_sequence db + 1, db_audit := db_audit db @ [row\<lparr>uw_sequence := db_sequence db + 1\<rparr>]\<rparr>)"
    by (force simp: audit_sound_def sorted_wrt_append)
  then show ?thesis
    by (auto simp: insert_audit_def Let_def log_grown_def) (auto simp: audit_sound_def)
qed

text \<open>A statement keeps what its effect on the tables keeps, whatever the server does.\<close>

lemma run_statement_grown:
  assumes "\<And>d. log_grown d (snd (stmt d))"
  shows "log_grown db (snd (run_statement net what stmt db))"
proof -
  let ?asked = "db\<lparr>db_statements := Suc (db_statements db)\<rparr>"
  have "log_grown db ?asked" by (rule log_grown_refl) simp_all
  then have "log_grown db (snd (stmt ?asked))" using assms log_grown_trans by blast
  with \<open>log_grown db ?asked\<close> show ?thesis
    by (auto simp: run_statement_def Let_def split: outcome.split prod.split sum.split)
qed

lemma pg_writes_grown:
  "log_grown db (snd (pg_save_event net jc ev db))" "log_grown db (snd (pg_save_incident net jc i db))"
  "log_grown db (snd (pg_save_action net jc a db))" "log_grown db (snd (pg_append net jc e db))"
proof -
  have "log_grown d (snd (insert_event k row d))" "log_grown d (snd (upsert_incident k row' d))"
    "log_grown d (snd (upsert_action k row'' d))" for d :: "'a database" and k row row' row''
    by (rule log_grown_refl; simp add: insert_event_def upsert_incident_def upsert_action_def Let_def)+
  then show "log_grown db (snd (pg_save_event net jc ev db))" "log_grown db (snd (pg_save_incident net jc i db))"
    "log_grown db (snd (pg_save_action net jc a db))"
    by (simp_all add: pg_save_event_def pg_save_incident_def pg_save_action_def run_statement_grown log_grown_refl
        split: option.split)
  show "log_grown db (snd (pg_append net jc e db))"
    by (simp add: pg_append_def insert_audit_grown run_statement_grown log_grown_refl split: option.split)
qed

lemma pg_append_all_grown: "log_grown db (snd (pg_append_all net jc es db))"
proof (induction es arbitrary: db)
  case (Cons e es)
  obtain r db' where a: "pg_append net jc e db = (r, db')" by (metis surj_pair)
  have "log_grown db db'" using pg_writes_grown(4) [of db net jc e] a by simp
  then show ?case using Cons [of db'] log_grown_trans by (auto simp: a split: sum.split)
qed (simp add: log_grown_refl)

lemma pg_write_evaluation_grown: "log_grown db (snd (pg_write_evaluation net jc act es db))"
proof (cases act)
  case None
  then show ?thesis by (simp add: pg_write_evaluation_def pg_append_all_grown)
next
  case (Some a)
  obtain r db' where r: "pg_save_action net jc a db = (r, db')" by (metis surj_pair)
  have "log_grown db db'" using pg_writes_grown(3) [of db net jc a] r by simp
  then show ?thesis
    using pg_append_all_grown [of db' net jc es] log_grown_trans by (auto simp: pg_write_evaluation_def Some r split: sum.split)
qed

text \<open>A transaction: its body's effect as a whole, or none of it.\<close>

lemma in_tx_cases:
  assumes "in_tx net fn db = (res, db')"
  obtains (begin_failed) e where "res = Inl e" "db' = db\<lparr>db_statements := Suc (db_statements db)\<rparr>"
  | (undone) e before db2 where "res = Inl e" "before = db\<lparr>db_statements := Suc (db_statements db)\<rparr>"
      "db2 = snd (fn before)" "db' = rolled_back before db2"
  | (committed) x before db2 where "before = db\<lparr>db_statements := Suc (db_statements db)\<rparr>" "fn before = (Inr x, db2)"
      "db' = db2\<lparr>db_statements := Suc (db_statements db2)\<rparr>" "res = Inr x \<or> (\<exists>e. res = Inl e)"
proof -
  let ?before = "db\<lparr>db_statements := Suc (db_statements db)\<rparr>"
  obtain r db2 where fn: "fn ?before = (r, db2)" by (metis surj_pair)
  show thesis
  proof (cases "net (db_statements db)")
    case Done
    show thesis
    proof (cases r)
      case (Inl e)
      then show thesis using assms Done fn undone [OF _ refl, of e db2] by (simp add: in_tx_def run_statement_def)
    next
      case (Inr x)
      then show thesis
        using assms Done fn undone [OF _ refl, of "PgServer ''commit transaction''" db2] committed [OF refl, of x db2]
        by (auto simp: in_tx_def run_statement_def split: outcome.splits)
    qed
  qed (use assms begin_failed in \<open>auto simp: in_tx_def run_statement_def\<close>)
qed

lemma in_tx_grown:
  assumes "\<And>d. log_grown d (snd (fn d))"
  shows "log_grown db (snd (in_tx net fn db))"
proof -
  obtain res db' where tx: "in_tx net fn db = (res, db')" by (metis surj_pair)
  let ?before = "db\<lparr>db_statements := Suc (db_statements db)\<rparr>"
  have asked: "log_grown db ?before" by (rule log_grown_refl) simp_all
  from tx show ?thesis
  proof (cases rule: in_tx_cases)
    case (undone e before db2)
    have "log_grown before (rolled_back before db2)"
      by (rule rolled_back_grown) (use assms [of before] undone(3) in \<open>simp add: log_grown_def\<close>)
    then have "log_grown ?before db'" by (simp add: undone(2,4))
    with asked have "log_grown db db'" by (rule log_grown_trans)
    then show ?thesis by (simp add: tx)
  next
    case (committed x before db2)
    have "log_grown before db2" using assms [of before] committed(2) by simp
    moreover have "log_grown db2 db'" by (rule log_grown_refl) (simp_all add: committed(3))
    ultimately have "log_grown ?before db'" unfolding committed(1) by (rule log_grown_trans)
    with asked have "log_grown db db'" by (rule log_grown_trans)
    then show ?thesis by (simp add: tx)
  qed (use asked tx in simp)
qed

subsection \<open>Commands\<close>

text \<open>The writing operations of a store, as data; the reads leave the tables alone.\<close>

datatype store_command =
    SaveEvent security_event | SaveIncident incident | SaveAction response_action | AppendEntry audit_entry
  | SaveActionWithAudit "response_action option" "audit_entry list"

definition pg_step :: "server \<Rightarrow> 'j json_codec \<Rightarrow> store_command \<Rightarrow> 'j database \<Rightarrow> 'j database" where
  "pg_step net jc c db =
     (case c of
        SaveEvent ev \<Rightarrow> snd (pg_save_event net jc ev db)
      | SaveIncident i \<Rightarrow> snd (pg_save_incident net jc i db)
      | SaveAction a \<Rightarrow> snd (pg_save_action net jc a db)
      | AppendEntry e \<Rightarrow> snd (pg_append net jc e db)
      | SaveActionWithAudit act es \<Rightarrow> snd (pg_save_action_with_audit net jc act es db))"

definition pg_run :: "server \<Rightarrow> 'j json_codec \<Rightarrow> store_command list \<Rightarrow> 'j database \<Rightarrow> 'j database" where
  "pg_run net jc cs db = fold (pg_step net jc) cs db"

lemma pg_step_grown: "log_grown db (pg_step net jc c db)"
  by (cases c) (simp_all add: pg_step_def pg_writes_grown pg_save_action_with_audit_def in_tx_grown pg_write_evaluation_grown)

lemma pg_run_grown: "log_grown db (pg_run net jc cs db)"
proof (induction cs arbitrary: db)
  case (Cons c cs)
  have "log_grown db (pg_run net jc cs (pg_step net jc c db))" by (rule log_grown_trans [OF pg_step_grown Cons.IH])
  then show ?case by (simp add: pg_run_def)
qed (simp add: pg_run_def log_grown_refl)

text \<open>
  C33 (invariant): the audit log in PostgreSQL only grows. Whatever commands are sent and whatever the
  server does with each statement, refusing it, losing the answer, or failing in the middle of a
  transaction, the rows that were there stay in place and in order, identifiers stay unique and the
  sequence stays strictly increasing, though it may have gaps.
\<close>

theorem postgres_trail_grows:
  assumes "audit_sound db"
  shows "\<exists>rows. db_audit (pg_run net jc cs db) = db_audit db @ rows \<and> audit_sound (pg_run net jc cs db)"
  using pg_run_grown [of db net jc cs] assms by (auto simp: log_grown_def)

subsection \<open>The evaluation is written as a whole\<close>

lemma run_statement_Inr:
  assumes "run_statement net what stmt db = (Inr x, db')"
  shows "stmt (db\<lparr>db_statements := Suc (db_statements db)\<rparr>) = (Inr x, db')"
  using assms by (auto simp: run_statement_def Let_def split: outcome.splits prod.splits sum.splits)

lemma insert_audit_Inr:
  "insert_audit row db = (Inr q, db') \<longleftrightarrow> q = db_sequence db + 1 \<and> (\<forall>r \<in> set (db_audit db). uw_id r \<noteq> uw_id row) \<and>
     db' = db\<lparr>db_sequence := q, db_audit := db_audit db @ [row\<lparr>uw_sequence := q\<rparr>]\<rparr>"
  by (auto simp: insert_audit_def Let_def)

text \<open>What a successful append leaves: one row, of the entry, at the end; the other tables untouched.\<close>

definition row_matches :: "'j json_codec \<Rightarrow> 'j audit_row \<Rightarrow> audit_entry \<Rightarrow> bool" where
  "row_matches jc r e \<longleftrightarrow>
     (\<exists>details. encode_details jc (ae_details e) = Some details \<and> r = (audit_row_of e details)\<lparr>uw_sequence := uw_sequence r\<rparr>)"

definition other_tables :: "'j database \<Rightarrow> (string \<times> 'j event_row) list \<times> (string \<times> 'j incident_row) list" where
  "other_tables db = (db_events db, db_incidents db)"

lemma pg_append_Inr:
  assumes "pg_append net jc e db = (Inr q, db')"
  shows "\<exists>r. db_audit db' = db_audit db @ [r] \<and> row_matches jc r e \<and> db_actions db' = db_actions db \<and>
    other_tables db' = other_tables db"
proof -
  obtain details where d: "encode_details jc (ae_details e) = Some details"
    and run: "run_statement net ''append audit entry'' (insert_audit (audit_row_of e details)) db = (Inr q, db')"
    using assms by (auto simp: pg_append_def split: if_splits option.splits)
  from run_statement_Inr [OF run] show ?thesis
    by (auto simp: insert_audit_Inr row_matches_def d other_tables_def)
qed

lemma pg_append_all_Inr:
  "pg_append_all net jc es db = (Inr x, db') \<Longrightarrow>
     \<exists>rows. db_audit db' = db_audit db @ rows \<and> list_all2 (row_matches jc) rows es \<and> db_actions db' = db_actions db \<and>
       other_tables db' = other_tables db"
proof (induction es arbitrary: db)
  case (Cons e es)
  then obtain q db1 where e: "pg_append net jc e db = (Inr q, db1)" and es: "pg_append_all net jc es db1 = (Inr x, db')"
    by (auto split: prod.splits sum.splits)
  obtain r where r: "db_audit db1 = db_audit db @ [r]" "row_matches jc r e" "db_actions db1 = db_actions db"
      "other_tables db1 = other_tables db" using pg_append_Inr [OF e] by blast
  obtain rows where "db_audit db' = db_audit db1 @ rows" "list_all2 (row_matches jc) rows es" "db_actions db' = db_actions db1"
      "other_tables db' = other_tables db1" using Cons.IH [OF es] by blast
  then show ?case using r by (intro exI [of _ "r # rows"]) simp
qed simp

text \<open>What a written evaluation means for the tables.\<close>

definition action_filed :: "'j json_codec \<Rightarrow> response_action option \<Rightarrow> 'j database \<Rightarrow> 'j database \<Rightarrow> bool" where
  "action_filed jc act db db' \<longleftrightarrow>
     (case act of
        None \<Rightarrow> db_actions db' = db_actions db
      | Some a \<Rightarrow>
          act_id a \<noteq> [] \<and> jc_action jc a \<noteq> None \<and>
          map_option aw_document (map_of (db_actions db') (act_id a)) = jc_action jc a \<and>
          (\<forall>k. k \<noteq> act_id a \<longrightarrow> map_of (db_actions db') k = map_of (db_actions db) k))"

definition evaluation_written ::
  "'j json_codec \<Rightarrow> response_action option \<Rightarrow> audit_entry list \<Rightarrow> 'j database \<Rightarrow> 'j database \<Rightarrow> bool" where
  "evaluation_written jc act es db db' \<longleftrightarrow>
     action_filed jc act db db' \<and> other_tables db' = other_tables db \<and>
     (\<exists>rows. db_audit db' = db_audit db @ rows \<and> list_all2 (row_matches jc) rows es)"

definition tables_kept :: "'j database \<Rightarrow> 'j database \<Rightarrow> bool" where
  "tables_kept db db' \<longleftrightarrow>
     other_tables db' = other_tables db \<and> db_actions db' = db_actions db \<and> db_audit db' = db_audit db"

text \<open>Opening the store, a restart included, leaves the tables as they are, whatever fails on the way.\<close>

lemma opening_keeps_tables: "tables_kept db (snd (new_postgres_store parse_dsn make_pool opts net db))"
proof -
  have "tables_kept db (snd (pg_ping net db))" "tables_kept db (snd (pg_migrate net db))" for db :: "'a database"
    by (simp_all add: pg_ping_def run_query_def pg_migrate_def run_statement_def Let_def tables_kept_def other_tables_def
        split: outcome.split)
  then show ?thesis
    unfolding new_postgres_store_def Let_def
    by (auto simp: tables_kept_def other_tables_def split: option.split prod.split sum.split) (metis snd_conv)+
qed

lemma pg_save_action_Inr:
  assumes "pg_save_action net jc a db = (Inr x, db')"
  shows "action_filed jc (Some a) db db' \<and> db_audit db' = db_audit db \<and> other_tables db' = other_tables db"
proof -
  obtain doc where "jc_action jc a = Some doc" "act_id a \<noteq> []"
    and run: "run_statement net ''upsert response action'' (upsert_action (act_id a) (action_row_of a doc)) db = (Inr x, db')"
    using assms by (auto simp: pg_save_action_def split: if_splits option.splits)
  with run_statement_Inr [OF run] show ?thesis
    by (auto simp: upsert_action_def Let_def action_filed_def action_row_of_def other_tables_def update_conv split: option.splits)
qed

lemma pg_write_evaluation_Inr:
  assumes "pg_write_evaluation net jc act es db = (Inr x, db')"
  shows "evaluation_written jc act es db db'"
proof (cases act)
  case None
  then show ?thesis
    using assms pg_append_all_Inr [of net jc es db x db']
    by (auto simp: pg_write_evaluation_def evaluation_written_def action_filed_def)
next
  case (Some a)
  then obtain y db1 where a: "pg_save_action net jc a db = (Inr y, db1)" and es: "pg_append_all net jc es db1 = (Inr x, db')"
    using assms by (auto simp: pg_write_evaluation_def split: prod.splits sum.splits)
  obtain rows where "db_audit db' = db_audit db1 @ rows" "list_all2 (row_matches jc) rows es" "db_actions db' = db_actions db1"
      "other_tables db' = other_tables db1" using pg_append_all_Inr [OF es] by blast
  then show ?thesis
    using pg_save_action_Inr [OF a] by (auto simp: evaluation_written_def action_filed_def Some)
qed

text \<open>
  C11 (safety): in PostgreSQL an action and the entries of its evaluation are written together or not at
  all. Whatever the server does with each statement and with the commit, the tables afterwards are
  either the ones before, or hold the action's document and one row per entry, in order, behind the old
  rows. A reported success always means the latter; after an error, which a lost answer to the commit
  may cause, it can be either.
\<close>

theorem postgres_evaluation_atomic:
  assumes "pg_save_action_with_audit net jc act es db = (res, db')"
  shows "(tables_kept db db' \<or> evaluation_written jc act es db db') \<and>
    (res = Inr () \<longrightarrow> evaluation_written jc act es db db')"
  using assms unfolding pg_save_action_with_audit_def
proof (cases rule: in_tx_cases)
  case (committed x before db2)
  have "evaluation_written jc act es before db2" by (rule pg_write_evaluation_Inr [OF committed(2)])
  then have "evaluation_written jc act es db db'"
    by (auto simp: committed(1,3) evaluation_written_def action_filed_def other_tables_def split: option.splits)
  then show ?thesis by blast
qed (auto simp: tables_kept_def other_tables_def rolled_back_def)

subsection \<open>The two stores\<close>

definition memory_step :: "store_command \<Rightarrow> memory_store \<Rightarrow> memory_store" where
  "memory_step c m =
     (case (case c of
              SaveEvent ev \<Rightarrow> save_event m ev
            | SaveIncident i \<Rightarrow> save_incident m i
            | SaveAction a \<Rightarrow> save_action m a
            | AppendEntry e \<Rightarrow> append_audit m e
            | SaveActionWithAudit act es \<Rightarrow> save_action_with_audit m act es) of
        Inl _ \<Rightarrow> m
      | Inr m' \<Rightarrow> m')"

text \<open>An entry as PostgreSQL keeps it, and the codec on the values of a command.\<close>

definition stored_entry :: "audit_entry \<Rightarrow> int \<Rightarrow> audit_entry" where
  "stored_entry e q = e\<lparr>ae_sequence := q, ae_timestamp := microseconds (ae_timestamp e)\<rparr>"

definition details_kept :: "'j json_codec \<Rightarrow> audit_entry \<Rightarrow> bool" where
  "details_kept jc e \<longleftrightarrow>
     (ae_details e \<noteq> [] \<longrightarrow> (\<exists>j. jc_details jc (ae_details e) = Some j \<and> jc_details_of jc j = Some (ae_details e)))"

definition action_kept :: "'j json_codec \<Rightarrow> response_action \<Rightarrow> bool" where
  "action_kept jc a \<longleftrightarrow> (\<exists>j. jc_action jc a = Some j \<and> jc_action_of jc j = Some a)"

definition codec_keeps :: "'j json_codec \<Rightarrow> store_command \<Rightarrow> bool" where
  "codec_keeps jc c \<longleftrightarrow>
     (case c of
        SaveEvent ev \<Rightarrow> \<exists>j. jc_event jc ev = Some j \<and> jc_event_of jc j = Some ev
      | SaveIncident i \<Rightarrow> \<exists>j. jc_incident jc i = Some j \<and> jc_incident_of jc j = Some i
      | SaveAction a \<Rightarrow> action_kept jc a
      | AppendEntry e \<Rightarrow> details_kept jc e
      | SaveActionWithAudit act es \<Rightarrow> (\<forall>a. act = Some a \<longrightarrow> action_kept jc a) \<and> (\<forall>e \<in> set es. details_kept jc e))"

definition entries_of :: "store_command \<Rightarrow> audit_entry list" where
  "entries_of c = (case c of AppendEntry e \<Rightarrow> [e] | SaveActionWithAudit act es \<Rightarrow> es | _ \<Rightarrow> [])"

text \<open>The simulation relation: the same records, the same trail in the same order.\<close>

definition same_records :: "'j json_codec \<Rightarrow> memory_store \<Rightarrow> 'j database \<Rightarrow> bool" where
  "same_records jc m db \<longleftrightarrow>
     map (\<lambda>kr. (fst kr, jc_event_of jc (ew_document (snd kr)))) (db_events db) = map (\<lambda>ev. (ev_id ev, Some ev)) (ms_events m) \<and>
     (\<forall>k. map_option (\<lambda>r. jc_incident_of jc (iw_document r)) (map_of (db_incidents db) k) = map_option Some (map_of (ms_incidents m) k)) \<and>
     (\<forall>k. map_option (\<lambda>r. jc_action_of jc (aw_document r)) (map_of (db_actions db) k) = map_option Some (map_of (ms_actions m) k)) \<and>
     list_all2 (\<lambda>r e. decode_row jc r = Some (stored_entry e (uw_sequence r))) (db_audit db) (ms_audit_log m)"

lemma decode_row_id: "decode_row jc r = Some (stored_entry e q) \<Longrightarrow> uw_id r = ae_id e"
  by (cases e) (auto simp: decode_row_def stored_entry_def split: option.splits)

lemma same_recordsD:
  assumes "same_records jc m db"
  shows "map fst (db_events db) = map ev_id (ms_events m)"
    and "map uw_id (db_audit db) = map ae_id (ms_audit_log m)"
proof -
  have "map fst (map (\<lambda>kr. (fst kr, jc_event_of jc (ew_document (snd kr)))) (db_events db)) =
      map fst (map (\<lambda>ev. (ev_id ev, Some ev)) (ms_events m))"
    using assms by (simp only: same_records_def)
  then show "map fst (db_events db) = map ev_id (ms_events m)" by (simp add: comp_def)
  have "list_all2 (\<lambda>r e. decode_row jc r = Some (stored_entry e (uw_sequence r))) (db_audit db) (ms_audit_log m)"
    using assms by (simp add: same_records_def)
  then show "map uw_id (db_audit db) = map ae_id (ms_audit_log m)"
    by (induction rule: list_all2_induct) (auto dest: decode_row_id)
qed

text \<open>A row that matches an entry whose details the codec keeps reads back as that entry.\<close>

lemma row_matches_decode:
  assumes "row_matches jc r e" and "details_kept jc e"
  shows "decode_row jc r = Some (stored_entry e (uw_sequence r))"
proof -
  obtain details q where enc: "encode_details jc (ae_details e) = Some details"
    and r: "r = (audit_row_of e details)\<lparr>uw_sequence := q\<rparr>"
    using assms(1) by (auto simp: row_matches_def)
  have "(case details of None \<Rightarrow> Some [] | Some j \<Rightarrow> jc_details_of jc j) = Some (ae_details e)"
    using enc assms(2) by (cases "ae_details e = []") (auto simp: encode_details_def details_kept_def)
  then show ?thesis by (cases e) (simp add: r decode_row_def audit_row_of_def stored_entry_def)
qed

text \<open>
  A server that does what it is asked: it is reachable, and refuses nothing but a repeated audit
  identifier. A server that also refuses, say, a text with a zero byte is not one.
\<close>

abbreviation willing :: server where "willing \<equiv> \<lambda>n. Done"

lemma run_statement_willing:
  "stmt (db\<lparr>db_statements := Suc (db_statements db)\<rparr>) = (Inr x, db') \<Longrightarrow> run_statement willing what stmt db = (Inr x, db')"
  by (simp add: run_statement_def Let_def)

lemma pg_append_willing:
  assumes "ae_id e \<noteq> []" and "details_kept jc e" and "ae_id e \<notin> uw_id ` set (db_audit db)"
  shows "\<exists>q db'. pg_append willing jc e db = (Inr q, db')"
proof -
  obtain details where d: "encode_details jc (ae_details e) = Some details"
    using assms(2) by (cases "ae_details e = []") (auto simp: encode_details_def details_kept_def)
  have "\<exists>q db'. insert_audit (audit_row_of e details) (db\<lparr>db_statements := Suc (db_statements db)\<rparr>) = (Inr q, db')"
    using assms(3) by (force simp: insert_audit_Inr audit_row_of_def)
  then show ?thesis using assms(1) run_statement_willing by (fastforce simp: pg_append_def d)
qed

lemma row_matches_id: "row_matches jc r e \<Longrightarrow> uw_id r = ae_id e"
  by (auto simp: row_matches_def audit_row_of_def) (metis audit_row.select_convs(2))

lemma pg_append_all_willing:
  assumes "\<forall>e \<in> set es. ae_id e \<noteq> [] \<and> details_kept jc e" and "distinct (map ae_id es)"
    and "ae_id ` set es \<inter> uw_id ` set (db_audit db) = {}"
  shows "\<exists>db'. pg_append_all willing jc es db = (Inr (), db')"
  using assms
proof (induction es arbitrary: db)
  case (Cons e es)
  obtain q db1 where e: "pg_append willing jc e db = (Inr q, db1)"
    using pg_append_willing [of e jc db] Cons.prems by auto
  obtain r where "db_audit db1 = db_audit db @ [r]" "uw_id r = ae_id e"
    using pg_append_Inr [OF e] row_matches_id by blast
  then have "ae_id ` set es \<inter> uw_id ` set (db_audit db1) = {}" using Cons.prems(2,3) by auto
  then show ?case using Cons.IH [of db1] Cons.prems by (simp add: e)
qed simp

lemma pg_append_all_refuses: "\<exists>e \<in> set es. ae_id e = [] \<Longrightarrow> isl (fst (pg_append_all net jc es db))"
proof (induction es arbitrary: db)
  case (Cons e es)
  obtain r db1 where e: "pg_append net jc e db = (r, db1)" by (metis surj_pair)
  show ?case
  proof (cases "ae_id e = []")
    case True
    then show ?thesis by (simp add: pg_append_def)
  next
    case False
    then show ?thesis using Cons by (simp add: e split: sum.split)
  qed
qed simp

text \<open>A record the two stores keep under the same identifier.\<close>

lemma same_update:
  assumes "\<forall>k. map_option f (map_of rows k) = map_option Some (map_of m k)" and "f row = Some v"
  shows "\<forall>k. map_option f (map_of (AList.update i row rows) k) = map_option Some (map_of (AList.update i v m) k)"
  using assms by (simp add: update_conv)

lemma same_records_frame:
  assumes "same_records jc m db" and "tables_kept db db'"
  shows "same_records jc m db'"
  using assms by (simp add: same_records_def tables_kept_def other_tables_def)

text \<open>What an append of the memory store leaves, entry by entry, beside the rows of the same entries.\<close>

lemma list_all2_numbered:
  "list_all2 (row_matches jc) rows es \<Longrightarrow> \<forall>e \<in> set es. details_kept jc e \<Longrightarrow>
     list_all2 (\<lambda>r e. decode_row jc r = Some (stored_entry e (uw_sequence r))) rows (numbered n es)"
proof (induction rows es arbitrary: n rule: list_all2_induct)
  case (Cons r rows e es)
  have "stored_entry (e\<lparr>ae_sequence := k\<rparr>) q = stored_entry e q" for k q by (simp add: stored_entry_def)
  then show ?case using Cons row_matches_decode [of jc r e] by (simp add: numbered_Cons)
qed simp

lemma map_id_numbered [simp]: "map ae_id (numbered n es) = map ae_id es"
  by (induction es arbitrary: n) (simp_all add: numbered_Cons)

text \<open>One audited evaluation, which an append alone and a saved action alone are cases of.\<close>

lemma evaluation_same:
  assumes same: "same_records jc m db" and wf: "audit_wf m" and written: "evaluation_written jc act es db db'"
    and ids: "\<forall>e \<in> set es. ae_id e \<noteq> []" and kept: "\<forall>a. act = Some a \<longrightarrow> action_kept jc a" "\<forall>e \<in> set es. details_kept jc e"
  shows "same_records jc (fold append_audit_locked es (case act of None \<Rightarrow> m | Some a \<Rightarrow> save_action_locked a m)) db'"
proof -
  let ?m1 = "case act of None \<Rightarrow> m | Some a \<Rightarrow> save_action_locked a m"
  have m1: "audit_wf ?m1" "ms_audit_log ?m1 = ms_audit_log m" "ms_events ?m1 = ms_events m" "ms_incidents ?m1 = ms_incidents m"
    using wf by (auto simp: audit_wf_def split: option.split)
  obtain rows where rows: "db_audit db' = db_audit db @ rows" "list_all2 (row_matches jc) rows es"
    and filed: "action_filed jc act db db'" and other: "db_events db' = db_events db" "db_incidents db' = db_incidents db"
    using written by (auto simp: evaluation_written_def other_tables_def)
  have "ms_audit_log (fold append_audit_locked es ?m1) = ms_audit_log m @ numbered (length (ms_audit_log m)) es"
    using fold_append_audit [OF m1(1) ids] m1(2) by simp
  then have trail: "list_all2 (\<lambda>r e. decode_row jc r = Some (stored_entry e (uw_sequence r))) (db_audit db')
      (ms_audit_log (fold append_audit_locked es ?m1))"
    using same list_all2_numbered [OF rows(2) kept(2)] by (auto simp: same_records_def rows(1) intro: list_all2_appendI)
  have "map_option (\<lambda>r. jc_action_of jc (aw_document r)) (map_of (db_actions db') k) = map_option Some (map_of (ms_actions ?m1) k)"
    for k
  proof (cases act)
    case None
    then show ?thesis using same filed by (simp add: same_records_def action_filed_def)
  next
    case (Some a)
    obtain j where j: "jc_action jc a = Some j" "jc_action_of jc j = Some a" using kept(1) Some by (auto simp: action_kept_def)
    have "map_of (ms_actions ?m1) k = (if k = act_id a then Some a else map_of (ms_actions m) k)"
      by (simp add: Some save_action_locked_def Let_def update_conv)
    then show ?thesis using same filed j by (auto simp: same_records_def action_filed_def Some)
  qed
  then show ?thesis using same trail m1 other by (simp add: same_records_def)
qed

lemma evaluation_ids:
  assumes "audit_wf m" and "\<forall>e \<in> set es. ae_id e \<noteq> []"
  shows "map ae_id (ms_audit_log (fold append_audit_locked es (case act of None \<Rightarrow> m | Some a \<Rightarrow> save_action_locked a m))) =
    map ae_id (ms_audit_log m) @ map ae_id es"
proof -
  let ?m1 = "case act of None \<Rightarrow> m | Some a \<Rightarrow> save_action_locked a m"
  have "audit_wf ?m1" "ms_audit_log ?m1 = ms_audit_log m" using assms(1) by (auto simp: audit_wf_def split: option.split)
  then show ?thesis using fold_append_audit [OF _ assms(2), of ?m1] by simp
qed

text \<open>The commands one by one, on a server that does what it is asked.\<close>

lemma event_same:
  assumes same: "same_records jc m db" and wf: "events_wf m" and room: "length (ms_events m) < ms_max_events m"
    and kept: "codec_keeps jc (SaveEvent ev)"
  shows "same_records jc (memory_step (SaveEvent ev) m) (pg_step willing jc (SaveEvent ev) db)"
proof (cases "ev_id ev = []")
  case True
  then show ?thesis using same by (simp add: memory_step_def save_event_def pg_step_def pg_save_event_def)
next
  case False
  obtain j where j: "jc_event jc ev = Some j" "jc_event_of jc j = Some ev" using kept by (auto simp: codec_keeps_def)
  have known: "map_of (db_events db) (ev_id ev) \<noteq> None \<longleftrightarrow> ev_id ev \<in> set (map ev_id (ms_events m))"
    using same_recordsD(1) [OF same] by (metis map_of_eq_None_iff set_map)
  have pg: "pg_step willing jc (SaveEvent ev) db =
      snd (insert_event (ev_id ev) (event_row_of ev j) (db\<lparr>db_statements := Suc (db_statements db)\<rparr>))"
    using False j by (simp add: pg_step_def pg_save_event_def run_statement_def Let_def insert_event_def)
  show ?thesis
  proof (cases "ev_id ev \<in> set (map ev_id (ms_events m))")
    case True
    then have "memory_step (SaveEvent ev) m = m" by (simp add: memory_step_def save_event_known [OF wf])
    moreover have "tables_kept db (pg_step willing jc (SaveEvent ev) db)"
      using True known unfolding pg by (simp add: insert_event_def tables_kept_def other_tables_def)
    ultimately show ?thesis using same_records_frame [OF same] by simp
  next
    case new: False
    have "Suc (length (ms_events m)) - ms_max_events m = 0" using room by simp
    then have "memory_step (SaveEvent ev) m =
        m\<lparr>ms_events := ms_events m @ [ev], ms_event_ids := map ev_id (ms_events m @ [ev])\<rparr>"
      using save_event_new [OF wf False new] by (simp add: memory_step_def)
    moreover have "map_of (db_events db) (ev_id ev) = None" using new known by auto
    ultimately show ?thesis
      using same j unfolding pg by (simp add: insert_event_def same_records_def event_row_of_def)
  qed
qed

lemma incident_same:
  assumes same: "same_records jc m db" and kept: "codec_keeps jc (SaveIncident i)"
  shows "same_records jc (memory_step (SaveIncident i) m) (pg_step willing jc (SaveIncident i) db)"
proof (cases "inc_id i = []")
  case True
  then show ?thesis using same by (simp add: memory_step_def save_incident_def pg_step_def pg_save_incident_def)
next
  case False
  obtain j where j: "jc_incident jc i = Some j" "jc_incident_of jc j = Some i" using kept by (auto simp: codec_keeps_def)
  then show ?thesis
    using same False
    by (auto simp: memory_step_def save_incident_def pg_step_def pg_save_incident_def run_statement_def upsert_incident_def Let_def
        incident_row_of_def same_records_def update_conv split: option.splits)
qed

lemma action_same:
  assumes same: "same_records jc m db" and wf: "audit_wf m" and kept: "codec_keeps jc (SaveAction a)"
  shows "same_records jc (memory_step (SaveAction a) m) (pg_step willing jc (SaveAction a) db)"
proof (cases "act_id a = []")
  case True
  then show ?thesis using same by (simp add: memory_step_def save_action_def pg_step_def pg_save_action_def)
next
  case False
  have a: "action_kept jc a" using kept by (simp add: codec_keeps_def)
  then obtain j where "jc_action jc a = Some j" by (auto simp: action_kept_def)
  then have saved: "pg_save_action willing jc a db = (Inr (), pg_step willing jc (SaveAction a) db)"
    using False by (simp add: pg_step_def pg_save_action_def run_statement_def upsert_action_def Let_def)
  have "evaluation_written jc (Some a) [] db (pg_step willing jc (SaveAction a) db)"
    using pg_save_action_Inr [OF saved] by (simp add: evaluation_written_def)
  then show ?thesis
    using evaluation_same [OF same wf, of "Some a" "[]"] False a by (simp add: memory_step_def save_action_def)
qed

lemma append_same:
  assumes same: "same_records jc m db" and wf: "audit_wf m" and kept: "codec_keeps jc (AppendEntry e)"
    and new: "ae_id e \<notin> set (map ae_id (ms_audit_log m))"
  shows "same_records jc (memory_step (AppendEntry e) m) (pg_step willing jc (AppendEntry e) db)"
proof (cases "ae_id e = []")
  case True
  then show ?thesis using same by (simp add: memory_step_def append_audit_def pg_step_def pg_append_def)
next
  case False
  have k: "details_kept jc e" using kept by (simp add: codec_keeps_def)
  have "ae_id e \<notin> uw_id ` set (db_audit db)" using new same_recordsD(2) [OF same] by (metis set_map)
  then obtain q db' where app: "pg_append willing jc e db = (Inr q, db')" using pg_append_willing [OF False k] by blast
  from pg_append_Inr [OF app] have "evaluation_written jc None [e] db db'"
    by (auto simp: evaluation_written_def action_filed_def)
  then show ?thesis
    using evaluation_same [OF same wf, of None "[e]"] False k app by (simp add: memory_step_def append_audit_def pg_step_def)
qed

text \<open>A batch the memory store refuses is rolled back; one it accepts is written.\<close>

lemma pg_write_evaluation_refuses:
  assumes "(\<exists>a. act = Some a \<and> act_id a = []) \<or> (\<exists>e \<in> set es. ae_id e = [])"
  shows "isl (fst (pg_write_evaluation net jc act es db))"
proof (cases act)
  case None
  then show ?thesis using assms pg_append_all_refuses [of es net jc db] by (simp add: pg_write_evaluation_def)
next
  case (Some a)
  obtain r db1 where a: "pg_save_action net jc a db = (r, db1)" by (metis surj_pair)
  show ?thesis
  proof (cases "act_id a = []")
    case True
    then show ?thesis by (simp add: pg_write_evaluation_def pg_save_action_def Some)
  next
    case False
    then show ?thesis
      using assms pg_append_all_refuses [of es net jc db1] by (auto simp: pg_write_evaluation_def Some a split: sum.split)
  qed
qed

lemma pg_write_evaluation_willing:
  assumes "\<forall>a. act = Some a \<longrightarrow> act_id a \<noteq> [] \<and> action_kept jc a"
    and "\<forall>e \<in> set es. ae_id e \<noteq> [] \<and> details_kept jc e" and "distinct (map ae_id es)"
    and "ae_id ` set es \<inter> uw_id ` set (db_audit db) = {}"
  shows "\<exists>db'. pg_write_evaluation willing jc act es db = (Inr (), db')"
proof (cases act)
  case None
  then show ?thesis using pg_append_all_willing [OF assms(2-4)] by (simp add: pg_write_evaluation_def)
next
  case (Some a)
  obtain j where "jc_action jc a = Some j" "act_id a \<noteq> []" using assms(1) Some by (auto simp: action_kept_def)
  then obtain db1 where a: "pg_save_action willing jc a db = (Inr (), db1)"
    by (simp add: pg_save_action_def run_statement_def upsert_action_def Let_def)
  then have "db_audit db1 = db_audit db" using pg_save_action_Inr [OF a] by simp
  then show ?thesis using pg_append_all_willing [OF assms(2,3), of db1] assms(4) by (simp add: pg_write_evaluation_def Some a)
qed

lemma evaluation_command_same:
  assumes same: "same_records jc m db" and wf: "audit_wf m" and kept: "codec_keeps jc (SaveActionWithAudit act es)"
    and new: "distinct (map ae_id (ms_audit_log m) @ map ae_id es)"
  shows "same_records jc (memory_step (SaveActionWithAudit act es) m) (pg_step willing jc (SaveActionWithAudit act es) db)"
proof -
  let ?asked = "db\<lparr>db_statements := Suc (db_statements db)\<rparr>"
  obtain r db2 where w: "pg_write_evaluation willing jc act es ?asked = (r, db2)" by (metis surj_pair)
  have ids: "ae_id ` set es \<inter> uw_id ` set (db_audit ?asked) = {}"
    using new arg_cong [OF same_recordsD(2) [OF same], of set] by auto
  have k: "\<forall>a. act = Some a \<longrightarrow> action_kept jc a" "\<forall>e \<in> set es. details_kept jc e"
    using kept by (simp_all add: codec_keeps_def)
  show ?thesis
  proof (cases "(\<exists>a. act = Some a \<and> act_id a = []) \<or> (\<exists>e \<in> set es. ae_id e = [])")
    case True
    then obtain e where "r = Inl e"
      using pg_write_evaluation_refuses [of act es willing jc ?asked] w by (auto elim: isl_def [THEN iffD1, THEN exE])
    then have "tables_kept db (pg_step willing jc (SaveActionWithAudit act es) db)"
      using w by (simp add: pg_step_def pg_save_action_with_audit_def in_tx_def run_statement_def tables_kept_def
          other_tables_def rolled_back_def)
    moreover have "memory_step (SaveActionWithAudit act es) m = m"
      using True by (auto simp: memory_step_def save_action_with_audit_def split: option.split)
    ultimately show ?thesis using same_records_frame [OF same] by simp
  next
    case False
    then have act: "\<forall>a. act = Some a \<longrightarrow> act_id a \<noteq> [] \<and> action_kept jc a" and es: "\<forall>e \<in> set es. ae_id e \<noteq> [] \<and> details_kept jc e"
      using k by auto
    have r: "r = Inr ()" using pg_write_evaluation_willing [OF act es _ ids] new w by simp
    then have step: "pg_step willing jc (SaveActionWithAudit act es) db = db2\<lparr>db_statements := Suc (db_statements db2)\<rparr>"
      using w by (simp add: pg_step_def pg_save_action_with_audit_def in_tx_def run_statement_def)
    have "evaluation_written jc act es ?asked db2" using pg_write_evaluation_Inr w r by blast
    then have "evaluation_written jc act es db (pg_step willing jc (SaveActionWithAudit act es) db)"
      unfolding step by (auto simp: evaluation_written_def action_filed_def other_tables_def split: option.splits)
    moreover have "memory_step (SaveActionWithAudit act es) m =
        fold append_audit_locked es (case act of None \<Rightarrow> m | Some a \<Rightarrow> save_action_locked a m)"
      using False by (auto simp: memory_step_def save_action_with_audit_def Let_def split: option.split)
    ultimately show ?thesis using evaluation_same [OF same wf _ _ k] es by simp
  qed
qed

definition memory_run :: "store_command list \<Rightarrow> memory_store \<Rightarrow> memory_store" where
  "memory_run cs m = fold memory_step cs m"

text \<open>What a command does to the memory store, as far as the next one depends on it.\<close>

lemma memory_step_wf: "store_wf m \<Longrightarrow> store_wf (memory_step c m)"
  by (auto simp: memory_step_def split: store_command.split sum.split intro: store_step_wf store_step.intros)

lemma memory_step_ids:
  assumes "audit_wf m"
  shows "map ae_id (ms_audit_log (memory_step c m)) = map ae_id (ms_audit_log m) \<or>
    map ae_id (ms_audit_log (memory_step c m)) = map ae_id (ms_audit_log m) @ map ae_id (entries_of c)"
proof (cases c)
  case (SaveActionWithAudit act es)
  then show ?thesis
    using evaluation_ids [OF assms, of es act] save_action_with_audit_eq [of m act es "projr (save_action_with_audit m act es)"]
    by (cases "save_action_with_audit m act es") (auto simp: memory_step_def entries_of_def)
next
  case (SaveEvent ev)
  then show ?thesis by (auto simp: memory_step_def save_event_def Let_def)
qed (auto simp: memory_step_def entries_of_def append_audit_def append_audit_locked_def save_incident_def save_action_def Let_def)

lemma memory_step_room:
  assumes "events_wf m"
  shows "ms_max_events (memory_step c m) = ms_max_events m" and "length (ms_events (memory_step c m)) \<le> Suc (length (ms_events m))"
  by (cases c; auto simp: memory_step_def save_event_def append_audit_def append_audit_locked_def save_incident_def save_action_def
      save_action_with_audit_def Let_def split: option.split)+

lemma step_same:
  assumes same: "same_records jc m db" and wf: "store_wf m" and room: "length (ms_events m) < ms_max_events m"
    and kept: "codec_keeps jc c" and new: "distinct (map ae_id (ms_audit_log m) @ map ae_id (entries_of c))"
  shows "same_records jc (memory_step c m) (pg_step willing jc c db)"
proof (cases c)
  case (SaveEvent ev)
  then show ?thesis using event_same [OF same _ room] wf kept by (simp add: store_wf_def)
next
  case (SaveIncident i)
  then show ?thesis using incident_same [OF same] kept by simp
next
  case (SaveAction a)
  then show ?thesis using action_same [OF same] wf kept by (simp add: store_wf_def)
next
  case (AppendEntry e)
  then show ?thesis using append_same [OF same] wf kept new by (simp add: store_wf_def entries_of_def)
next
  case (SaveActionWithAudit act es)
  then show ?thesis using evaluation_command_same [OF same] wf kept new by (simp add: store_wf_def entries_of_def)
qed

text \<open>The entries of a list of commands, and the commands that two stores can be compared on.\<close>

definition comparable :: "'j json_codec \<Rightarrow> nat \<Rightarrow> store_command list \<Rightarrow> bool" where
  "comparable jc n cs \<longleftrightarrow>
     list_all (codec_keeps jc) cs \<and> distinct (map ae_id (concat (map entries_of cs))) \<and> length cs \<le> n"

lemma run_same:
  assumes "same_records jc m db" and "store_wf m" and "length cs + length (ms_events m) \<le> ms_max_events m"
    and "list_all (codec_keeps jc) cs" and "distinct (map ae_id (ms_audit_log m) @ map ae_id (concat (map entries_of cs)))"
  shows "same_records jc (memory_run cs m) (pg_run willing jc cs db) \<and> store_wf (memory_run cs m)"
  using assms
proof (induction cs arbitrary: m db)
  case (Cons c cs)
  have wf: "events_wf m" "audit_wf m" using Cons.prems(2) by (simp_all add: store_wf_def)
  have same: "same_records jc (memory_step c m) (pg_step willing jc c db)"
    by (rule step_same) (use Cons.prems in auto)
  have "distinct (xs @ ys @ zs) \<Longrightarrow> l = xs \<or> l = xs @ ys \<Longrightarrow> distinct (l @ zs)" for l xs ys zs :: "string list" by auto
  note longer = this [OF _ memory_step_ids [OF wf(2), of c]]
  have "distinct (map ae_id (ms_audit_log (memory_step c m)) @ map ae_id (concat (map entries_of cs)))"
    by (rule longer) (use Cons.prems(5) in simp)
  moreover have "length cs + length (ms_events (memory_step c m)) \<le> ms_max_events (memory_step c m)"
    using memory_step_room [OF wf(1), of c] Cons.prems(3) by simp
  ultimately have "same_records jc (memory_run cs (memory_step c m)) (pg_run willing jc cs (pg_step willing jc c db)) \<and>
      store_wf (memory_run cs (memory_step c m))"
    using Cons.IH [OF same memory_step_wf [OF Cons.prems(2)]] Cons.prems(4) by simp
  then show ?case by (simp add: memory_run_def pg_run_def)
qed (simp add: memory_run_def pg_run_def)

text \<open>Reading the two stores.\<close>

definition from_store :: "store_error + 'a \<Rightarrow> pg_error + 'a" where
  "from_store r = map_sum (\<lambda>e. PgNotFound) id r"

definition without_sequence :: "audit_entry list \<times> int \<Rightarrow> audit_entry list \<times> int" where
  "without_sequence p = (map (\<lambda>e. stored_entry e 0) (fst p), snd p)"

definition same_answers :: "'j json_codec \<Rightarrow> memory_store \<Rightarrow> 'j database \<Rightarrow> bool" where
  "same_answers jc m db \<longleftrightarrow>
     (\<forall>k. fst (pg_get_incident willing jc k db) = from_store (get_incident m k)) \<and>
     (\<forall>k. fst (pg_get_action willing jc k db) = from_store (get_action m k)) \<and>
     fst (pg_count_events willing db) = Inr (count_events m) \<and>
     (\<forall>l k. map_sum id without_sequence (fst (pg_list_audit willing jc l k db)) = Inr (without_sequence (list_audit m l k)))"

lemma run_query_willing [simp]: "run_query willing what q db = (Inr (q (db\<lparr>db_statements := Suc (db_statements db)\<rparr>)),
    db\<lparr>db_statements := Suc (db_statements db)\<rparr>)"
  by (simp add: run_query_def run_statement_def Let_def)

lemma decode_all_Inr: "list_all2 (\<lambda>j x. dec j = Some x) js xs \<Longrightarrow> decode_all what dec js = Inr xs"
  by (induction rule: list_all2_induct) simp_all

lemma microseconds_twice [simp]: "microseconds (microseconds t) = microseconds t"
  by (simp add: microseconds_def mod_diff_left_eq [symmetric])

lemma stored_entry_twice [simp]: "stored_entry (stored_entry e q) q' = stored_entry e q'"
  by (simp add: stored_entry_def)

lemma list_audit_same:
  assumes same: "same_records jc m db" and sound: "audit_sound db"
  shows "map_sum id without_sequence (fst (pg_list_audit willing jc l k db)) = Inr (without_sequence (list_audit m l k))"
proof -
  let ?k = "if k < 0 then 0 else k"
  let ?rows = "limit_offset (clamp_limit l) ?k (db_audit db)" and ?es = "limit_offset (clamp_limit l) ?k (ms_audit_log m)"
  have sorted: "sort_key uw_sequence (db_audit db) = db_audit db"
    using sound by (auto simp: audit_sound_def strict_sorted_iff intro: sort_key_id_if_sorted)
  have all: "list_all2 (\<lambda>r e. decode_row jc r = Some (stored_entry e (uw_sequence r))) (db_audit db) (ms_audit_log m)"
    using same by (simp add: same_records_def)
  then have len: "length (db_audit db) = length (ms_audit_log m)" by (rule list_all2_lengthD)
  have "list_all2 (\<lambda>r e. decode_row jc r = Some (stored_entry e (uw_sequence r))) ?rows ?es"
    using all by (simp add: limit_offset_def list_all2_takeI list_all2_dropI)
  then have "\<exists>xs. list_all2 (\<lambda>r x. decode_row jc r = Some x) ?rows xs \<and> map (\<lambda>x. stored_entry x 0) xs = map (\<lambda>e. stored_entry e 0) ?es"
  proof (induction rule: list_all2_induct)
    case (Cons r rs e es)
    then obtain xs where "list_all2 (\<lambda>r x. decode_row jc r = Some x) rs xs" "map (\<lambda>x. stored_entry x 0) xs = map (\<lambda>e. stored_entry e 0) es"
      by blast
    then show ?case using Cons.hyps(1) by (intro exI [of _ "stored_entry e (uw_sequence r) # xs"]) simp
  qed simp
  then obtain xs where xs: "decode_all ''audit details'' (decode_row jc) ?rows = Inr xs"
    "map (\<lambda>x. stored_entry x 0) xs = map (\<lambda>e. stored_entry e 0) ?es" using decode_all_Inr by blast
  have "0 \<le> clamp_limit l" using clamp_limit_bounds [of l] by simp
  then have "list_audit m l k = (?es, int (length (ms_audit_log m)))"
    by (simp add: list_audit_def Let_def page_of_eq limit_offset_def)
  then show ?thesis using xs by (simp add: pg_list_audit_def sorted without_sequence_def len)
qed

lemma same_records_answers:
  assumes same: "same_records jc m db" and sound: "audit_sound db"
  shows "same_answers jc m db"
proof -
  have inc: "map_option (\<lambda>r. jc_incident_of jc (iw_document r)) (map_of (db_incidents db) k) = map_option Some (map_of (ms_incidents m) k)"
    and act: "map_option (\<lambda>r. jc_action_of jc (aw_document r)) (map_of (db_actions db) k) = map_option Some (map_of (ms_actions m) k)"
    for k using same by (simp_all add: same_records_def)
  have "fst (pg_get_incident willing jc k db) = from_store (get_incident m k)" for k
    using inc [of k]
    by (cases "map_of (db_incidents db) k"; cases "map_of (ms_incidents m) k")
      (auto simp: pg_get_incident_def pg_get_def get_incident_def from_store_def)
  moreover have "fst (pg_get_action willing jc k db) = from_store (get_action m k)" for k
    using act [of k]
    by (cases "map_of (db_actions db) k"; cases "map_of (ms_actions m) k")
      (auto simp: pg_get_action_def pg_get_def get_action_def from_store_def)
  moreover have "fst (pg_count_events willing db) = Inr (count_events m)"
    using arg_cong [OF same_recordsD(1) [OF same], of length] by (simp add: pg_count_events_def count_events_def)
  ultimately show ?thesis using list_audit_same [OF same sound] by (simp add: same_answers_def)
qed

lemma empty_database_sound: "audit_sound empty_database"
  by (simp add: audit_sound_def empty_database_def)

lemma empty_same: "same_records jc (new_memory_store n) empty_database"
  by (simp add: same_records_def new_memory_store_def empty_database_def)

text \<open>
  C9 (refinement): on a run of writes that uses no audit identifier twice and is no longer than the
  memory store's bound on events, with a server that does what it is asked, the two stores cannot be
  told apart by the operations of a handler. The writes are applied to both, those of records without
  an identifier, which both refuse, included; then looking up any incident or action gives the same record or the same "not
  found", the number of events is the same, and every page of the trail has the same entries in the
  same order and the same count, but for the numbering, which may have gaps in PostgreSQL after a
  rollback, and for the time of an entry, which PostgreSQL keeps to the microsecond. The codec must
  give back what it was given. Without the two bounds on the run the claim is false: PostgreSQL refuses a
  repeated audit identifier, which the memory store accepts, and the memory store evicts old events.
\<close>

theorem postgres_refines_memory:
  assumes "comparable jc (ms_max_events (new_memory_store n)) cs"
  shows "same_answers jc (memory_run cs (new_memory_store n)) (pg_run willing jc cs empty_database)"
proof (rule same_records_answers)
  have "ms_events (new_memory_store n) = []" "ms_audit_log (new_memory_store n) = []" by (simp_all add: new_memory_store_def)
  then show "same_records jc (memory_run cs (new_memory_store n)) (pg_run willing jc cs empty_database)"
    using run_same [OF empty_same new_memory_store_wf, of cs n jc] assms by (simp add: comparable_def)
  show "audit_sound (pg_run willing jc cs empty_database)"
    using pg_run_grown [of empty_database willing jc cs] by (simp add: log_grown_def empty_database_sound)
qed

subsection \<open>Correlation on either store\<close>

text \<open>
  PostgreSQL as the incident store the correlation engine is given, on a server that does what it is
  asked; and the engine over a stream of events, each with the clock and the graph at its turn.
\<close>

definition pg_lookup :: "'j json_codec \<Rightarrow> 'j database \<Rightarrow> string \<Rightarrow> pg_error + incident" where
  "pg_lookup jc db k = fst (pg_get_incident willing jc k db)"

definition pg_put :: "'j json_codec \<Rightarrow> 'j database \<Rightarrow> incident \<Rightarrow> pg_error + 'j database" where
  "pg_put jc db i = (case pg_save_incident willing jc i db of (Inl e, _) \<Rightarrow> Inl e | (Inr _, db') \<Rightarrow> Inr db')"

fun process_all ::
  "('s \<Rightarrow> string \<Rightarrow> 'e + incident) \<Rightarrow> ('s \<Rightarrow> incident \<Rightarrow> 'e + 's) \<Rightarrow> (nat \<Rightarrow> string) \<Rightarrow>
     (time \<times> sgraph \<times> security_event) list \<Rightarrow> engine \<times> nat \<times> 's \<Rightarrow>
     (engine_error + incident option) list \<times> engine \<times> nat \<times> 's" where
  "process_all get save uuid [] st = ([], st)"
| "process_all get save uuid ((now, g, ev) # turns) st =
     (case process get save uuid now g ev st of
        (r, st1) \<Rightarrow> (case process_all get save uuid turns st1 of (rs, st2) \<Rightarrow> (r # rs, st2)))"

definition incident_kept :: "'j json_codec \<Rightarrow> incident \<Rightarrow> bool" where
  "incident_kept jc i \<longleftrightarrow> (\<exists>j. jc_incident jc i = Some j \<and> jc_incident_of jc j = Some i)"

lemma lookup_same: "same_records jc m db \<Longrightarrow> pg_lookup jc db k = from_store (get_incident m k)"
  unfolding same_records_def pg_lookup_def
  by (cases "map_of (db_incidents db) k"; cases "map_of (ms_incidents m) k")
    (force simp: pg_get_incident_def pg_get_def get_incident_def from_store_def dest!: conjunct1 [OF conjunct2] spec [of _ k])+

lemma put_same:
  assumes "same_records jc m db" and "save_incident m i = Inr m'" and "incident_kept jc i"
  shows "\<exists>db'. pg_put jc db i = Inr db' \<and> same_records jc m' db'"
proof -
  have id: "inc_id i \<noteq> []" using assms(2) by (auto simp: save_incident_def)
  obtain j where j: "jc_incident jc i = Some j" using assms(3) by (auto simp: incident_kept_def)
  have "same_records jc (memory_step (SaveIncident i) m) (pg_step willing jc (SaveIncident i) db)"
    by (rule incident_same) (use assms(1,3) in \<open>simp_all add: codec_keeps_def incident_kept_def\<close>)
  moreover have "pg_put jc db i = Inr (pg_step willing jc (SaveIncident i) db)"
    using id j by (simp add: pg_put_def pg_step_def pg_save_incident_def run_statement_def upsert_incident_def Let_def)
  ultimately show ?thesis using assms(2) by (simp add: memory_step_def)
qed

lemma put_refused: "save_incident m i = Inl e \<Longrightarrow> \<exists>e'. pg_put jc db i = Inl e'"
  by (simp add: save_incident_def pg_put_def pg_save_incident_def Let_def split: if_splits)

lemma open_incident_same: "same_records jc m db \<Longrightarrow> open_incident (pg_lookup jc) en db = open_incident get_incident en m"
  by (intro ext) (auto simp: open_incident_def lookup_same from_store_def split: option.split sum.split)

lemma merge_same:
  assumes same: "same_records jc m db"
    and run: "merge_into_incident get_incident save_incident uuid now g ev subject fs (en, n, m) = (r, en', n', m')"
    and kept: "\<forall>i. r = Inr i \<longrightarrow> incident_kept jc i"
  shows "\<exists>db'. merge_into_incident (pg_lookup jc) (pg_put jc) uuid now g ev subject fs (en, n, db) = (r, en', n', db') \<and>
    same_records jc m' db'"
proof -
  obtain i0 n1 where start: "(case open_incident get_incident en m subject ev of Some i \<Rightarrow> (i, n)
      | None \<Rightarrow> let (iid, n1) = new_id uuid PrefixIncident n in (new_incident iid subject ev, n1)) = (i0, n1)"
    by (metis surj_pair)
  let ?i = "update_incident g now ev fs i0"
  note unfolded = merge_into_incident_def Let_def prod.case start open_incident_same [OF same]
  show ?thesis
  proof (cases "save_incident m ?i")
    case (Inl e)
    obtain e' where "pg_put jc db ?i = Inl e'" using put_refused [OF Inl] by blast
    moreover have "r = Inl PersistFailed" "en' = en" "n' = n1" "m' = m"
      using run start Inl by (simp_all add: merge_into_incident_def Let_def)
    ultimately show ?thesis using same start by (simp add: merge_into_incident_def Let_def open_incident_same [OF same])
  next
    case (Inr m1)
    have r: "r = Inr ?i" "m' = m1" using run start Inr by (auto simp: merge_into_incident_def Let_def)
    obtain db' where "pg_put jc db ?i = Inr db'" "same_records jc m1 db'" using put_same [OF same Inr] kept r by blast
    then show ?thesis using run start Inr r by (auto simp: merge_into_incident_def Let_def open_incident_same [OF same])
  qed
qed

lemma process_same:
  assumes same: "same_records jc m db"
    and run: "process get_incident save_incident uuid now g ev (en, n, m) = (r, en', n', m')"
    and kept: "\<forall>i. r = Inr (Some i) \<longrightarrow> incident_kept jc i"
  shows "\<exists>db'. process (pg_lookup jc) (pg_put jc) uuid now g ev (en, n, db) = (r, en', n', db') \<and> same_records jc m' db'"
proof -
  let ?subject = "subject_key ev"
  obtain fs hits n1 where e: "evaluate_rules uuid ev ?subject (en_rules en) (en_threshold_hits en) n = (fs, hits, n1)"
    by (metis prod_cases3)
  let ?en = "en\<lparr>en_threshold_hits := hits\<rparr>"
  show ?thesis
  proof (cases "fs = []")
    case True
    then show ?thesis using same run e by (simp add: process_def Let_def)
  next
    case False
    obtain q en1 n2 m1 where q: "merge_into_incident get_incident save_incident uuid now g ev ?subject fs (?en, n1, m) = (q, en1, n2, m1)"
      by (metis prod_cases4)
    have r: "r = map_sum id Some q" "en' = en1" "n' = n2" "m' = m1"
      using run e False q by (auto simp: process_def Let_def split: sum.splits)
    have "\<forall>i. q = Inr i \<longrightarrow> incident_kept jc i" using kept r by auto
    from merge_same [OF same q this] show ?thesis
      using e False r by (auto simp: process_def Let_def split: sum.splits)
  qed
qed

text \<open>
  C10 (equivalence): correlation does not depend on the store. Given the same rules and the same stream of
  events, the engine on PostgreSQL produces, event by event, the same incidents and the same failures as
  on the memory store, ends in the same state, and leaves the same records. The codec must give back the
  incidents that are saved.
\<close>

theorem correlation_same_on_both_stores:
  assumes "same_records jc m db"
    and "process_all get_incident save_incident uuid turns (en, n, m) = (rs, en', n', m')"
    and "\<forall>i. Inr (Some i) \<in> set rs \<longrightarrow> incident_kept jc i"
  shows "\<exists>db'. process_all (pg_lookup jc) (pg_put jc) uuid turns (en, n, db) = (rs, en', n', db') \<and> same_records jc m' db'"
  using assms
proof (induction turns arbitrary: m db en n rs)
  case (Cons turn turns)
  obtain now g ev where turn: "turn = (now, g, ev)" by (metis prod_cases3)
  obtain r en1 n1 m1 where r: "process get_incident save_incident uuid now g ev (en, n, m) = (r, en1, n1, m1)"
    by (metis prod_cases4)
  obtain rs1 where rs1: "process_all get_incident save_incident uuid turns (en1, n1, m1) = (rs1, en', n', m')" "rs = r # rs1"
    using Cons.prems(2) by (auto simp: turn r split: prod.splits)
  obtain db1 where db1: "process (pg_lookup jc) (pg_put jc) uuid now g ev (en, n, db) = (r, en1, n1, db1)" "same_records jc m1 db1"
    using process_same [OF Cons.prems(1) r] Cons.prems(3) rs1(2) by auto
  obtain db' where "process_all (pg_lookup jc) (pg_put jc) uuid turns (en1, n1, db1) = (rs1, en', n', db')" "same_records jc m' db'"
    using Cons.IH [OF db1(2) rs1(1)] Cons.prems(3) rs1(2) by auto
  then show ?case by (simp add: turn db1(1) rs1(2))
qed auto

subsection \<open>At concrete inputs\<close>

datatype sample_json =
    JEvent security_event | JIncident incident | JAction response_action | JDetails "(string \<times> detail) list"

definition sample_json_codec :: "sample_json json_codec" where
  "sample_json_codec =
     \<lparr> jc_event = \<lambda>x. Some (JEvent x), jc_event_of = \<lambda>j. case j of JEvent x \<Rightarrow> Some x | _ \<Rightarrow> None,
       jc_incident = \<lambda>x. Some (JIncident x), jc_incident_of = \<lambda>j. case j of JIncident x \<Rightarrow> Some x | _ \<Rightarrow> None,
       jc_action = \<lambda>x. Some (JAction x), jc_action_of = \<lambda>j. case j of JAction x \<Rightarrow> Some x | _ \<Rightarrow> None,
       jc_details = \<lambda>x. Some (JDetails x), jc_details_of = \<lambda>j. case j of JDetails x \<Rightarrow> Some x | _ \<Rightarrow> None,
       jc_collate = id \<rparr>"

definition sample_entry :: "string \<Rightarrow> audit_entry" where
  "sample_entry k = zero_entry\<lparr>ae_id := k, ae_timestamp := 1234567\<rparr>"

lemma sample_json_codec_keeps: "codec_keeps sample_json_codec c"
  by (cases c) (simp_all add: codec_keeps_def sample_json_codec_def action_kept_def details_kept_def)

definition sample_database :: "sample_json database" where
  "sample_database = pg_step willing sample_json_codec (AppendEntry (sample_entry ''aud-1'')) empty_database"

lemma sample_database_sound: "audit_sound sample_database"
  using pg_step_grown [of empty_database willing sample_json_codec] by (simp add: sample_database_def log_grown_def empty_database_sound)

text \<open>Three more appends, the first a repeated identifier, the second refused, the last one's answer lost.\<close>

theorem postgres_trail_grows_witness:
  "\<exists>rows. db_audit (pg_run (\<lambda>n. if n = 2 then Refused else if n = 3 then Lost else Done) sample_json_codec
       [AppendEntry (sample_entry ''aud-1''), AppendEntry (sample_entry ''aud-2''), AppendEntry (sample_entry ''aud-3'')]
       sample_database) = db_audit sample_database @ rows"
  using postgres_trail_grows [OF sample_database_sound] by blast

lemma sample_saved:
  "fst (pg_save_action_with_audit willing sample_json_codec (Some sample_action) [sample_entry ''aud-2''] sample_database) = Inr ()"
  by code_simp

theorem postgres_evaluation_atomic_witness:
  "evaluation_written sample_json_codec (Some sample_action) [sample_entry ''aud-2''] sample_database
     (snd (pg_save_action_with_audit willing sample_json_codec (Some sample_action) [sample_entry ''aud-2''] sample_database))"
  using postgres_evaluation_atomic [where net = willing and jc = sample_json_codec and act = "Some sample_action" and
      es = "[sample_entry ''aud-2'']" and db = sample_database, OF prod.collapse [symmetric]] sample_saved by blast

text \<open>An evaluation, a batch that names no identifier, and a repeated evaluation of the action.\<close>

theorem postgres_refines_memory_witness:
  "same_answers sample_json_codec
     (memory_run [SaveActionWithAudit (Some sample_action) [sample_entry ''aud-1''], SaveActionWithAudit None [sample_entry []],
        SaveActionWithAudit (Some sample_action) [sample_entry ''aud-2'', sample_entry ''aud-3'']] (new_memory_store 10))
     (pg_run willing sample_json_codec [SaveActionWithAudit (Some sample_action) [sample_entry ''aud-1''],
        SaveActionWithAudit None [sample_entry []],
        SaveActionWithAudit (Some sample_action) [sample_entry ''aud-2'', sample_entry ''aud-3'']] empty_database)"
  by (rule postgres_refines_memory)
    (simp add: comparable_def sample_json_codec_keeps new_memory_store_def entries_of_def sample_entry_def)

theorem correlation_same_on_both_stores_witness:
  "\<exists>rs st m db. process_all get_incident save_incident sample_uuid
       [(5, project (login ''e1'' 1) new_graph, login ''e1'' 1), (7, project (login ''e1'' 1) new_graph, login ''e2'' 2)]
       (sample_engine, 0, new_memory_store 9) = (rs, fst st, snd st, m) \<and> length rs = 2 \<and>
     process_all (pg_lookup sample_json_codec) (pg_put sample_json_codec) sample_uuid
       [(5, project (login ''e1'' 1) new_graph, login ''e1'' 1), (7, project (login ''e1'' 1) new_graph, login ''e2'' 2)]
       (sample_engine, 0, empty_database) = (rs, fst st, snd st, db)"
proof -
  let ?turns = "[(5, project (login ''e1'' 1) new_graph, login ''e1'' 1), (7, project (login ''e1'' 1) new_graph, login ''e2'' 2)]"
  obtain rs en n m where run: "process_all get_incident save_incident sample_uuid ?turns (sample_engine, 0, new_memory_store 9) = (rs, en, n, m)"
    by (metis prod_cases4)
  then have len: "length rs = 2" by (auto split: prod.splits)
  have "incident_kept sample_json_codec i" for i by (simp add: incident_kept_def sample_json_codec_def)
  then obtain db where "process_all (pg_lookup sample_json_codec) (pg_put sample_json_codec) sample_uuid ?turns
      (sample_engine, 0, empty_database) = (rs, en, n, db)"
    using correlation_same_on_both_stores [OF empty_same run] by blast
  with run len show ?thesis by (intro exI [of _ rs] exI [of _ "(en, n)"] exI [of _ m] exI [of _ db]) simp
qed

end
