(* ===== verification/Bus.thy ===== *)
theory Bus
  imports Events
begin

text \<open>
  The event bus of \<^verbatim>\<open>src/internal/bus\<close>: the publisher on NATS JetStream and the one that drops events.
  The NATS client library and the JSON codec are parameters: the client is a record of functions on a
  state \<open>'w\<close> of the server and the connection, whose answers the model leaves open.
\<close>

subsection \<open>The client library\<close>

datatype retention_policy = LimitsPolicy | InterestPolicy | WorkQueuePolicy
datatype storage_type = FileStorage | MemoryStorage
datatype discard_policy = DiscardOld | DiscardNew

record connect_options =
  co_name :: string
  co_timeout :: duration
  co_max_reconnects :: int
  co_reconnect_wait :: duration
  co_user_info :: "(string \<times> string) option"

record stream_config =
  sm_name :: string
  sm_description :: string
  sm_subjects :: "string list"
  sm_retention :: retention_policy
  sm_storage :: storage_type
  sm_max_age :: duration
  sm_max_bytes :: int
  sm_discard :: discard_policy

record message =
  mg_subject :: string
  mg_payload :: string
  mg_msg_id :: string

record 'w nats_client =
  nx_connect :: "string \<Rightarrow> connect_options \<Rightarrow> 'w \<Rightarrow> bool \<times> 'w"
  nx_jetstream :: "'w \<Rightarrow> bool"
  nx_create_or_update_stream :: "stream_config \<Rightarrow> duration \<Rightarrow> 'w \<Rightarrow> bool \<times> 'w"
  nx_publish :: "message \<Rightarrow> duration \<Rightarrow> 'w \<Rightarrow> bool \<times> 'w"
  nx_is_connected :: "'w \<Rightarrow> bool"
  nx_stream :: "string \<Rightarrow> duration \<Rightarrow> 'w \<Rightarrow> bool"
  nx_drain :: "'w \<Rightarrow> bool \<times> 'w"
  nx_close :: "'w \<Rightarrow> 'w"

subsection \<open>Connecting\<close>

record nats_options =
  no_url :: string
  no_stream :: string
  no_subject :: string
  no_connect_timeout :: duration
  no_max_age :: duration
  no_max_bytes :: int
  no_user :: string
  no_password :: string

datatype bus_error =
    UrlRequired | SubjectRequired | StreamRequired | NotConnected | NoJetStream | StreamNotEnsured string
  | EventNotEncoded | NotPublished | NotEstablished | StreamUnavailable string | NotDrained

record nats_publisher =
  np_subject :: string
  np_stream :: string

definition default_stream_max_bytes :: int where
  "default_stream_max_bytes = push_bit 20 256"

definition publish_timeout :: duration where
  "publish_timeout = 2 * second"

definition subject_wildcard :: "string \<Rightarrow> string" where
  "subject_wildcard subject = subject @ ''.>''"

definition nats_connect_timeout :: "nats_options \<Rightarrow> duration" where
  "nats_connect_timeout opts = (if no_connect_timeout opts \<le> 0 then 5 * second else no_connect_timeout opts)"

definition nats_connect_options :: "nats_options \<Rightarrow> connect_options" where
  "nats_connect_options opts =
     \<lparr> co_name = ''griefer-api'', co_timeout = nats_connect_timeout opts, co_max_reconnects = -1,
       co_reconnect_wait = 2 * second,
       co_user_info = (if no_user opts \<noteq> [] then Some (no_user opts, no_password opts) else None) \<rparr>"

definition nats_max_age :: "nats_options \<Rightarrow> duration" where
  "nats_max_age opts = (if no_max_age opts \<le> 0 then 72 * hour else no_max_age opts)"

definition nats_max_bytes :: "nats_options \<Rightarrow> int" where
  "nats_max_bytes opts = (if no_max_bytes opts \<le> 0 then default_stream_max_bytes else no_max_bytes opts)"

definition nats_stream_config :: "nats_options \<Rightarrow> stream_config" where
  "nats_stream_config opts =
     \<lparr> sm_name = no_stream opts, sm_description = ''GRIEFER normalized security events'',
       sm_subjects = [subject_wildcard (no_subject opts)], sm_retention = LimitsPolicy, sm_storage = FileStorage,
       sm_max_age = nats_max_age opts,
       sm_max_bytes = nats_max_bytes opts,
       sm_discard = DiscardOld \<rparr>"

definition new_nats_publisher ::
  "'w nats_client \<Rightarrow> nats_options \<Rightarrow> 'w \<Rightarrow> (bus_error + nats_publisher) \<times> 'w" where
  "new_nats_publisher cl opts w =
     (if no_url opts = [] then (Inl UrlRequired, w)
      else if no_subject opts = [] then (Inl SubjectRequired, w)
      else if no_stream opts = [] then (Inl StreamRequired, w)
      else case nx_connect cl (no_url opts) (nats_connect_options opts) w of
             (False, w1) \<Rightarrow> (Inl NotConnected, w1)
           | (True, w1) \<Rightarrow>
               if \<not> nx_jetstream cl w1 then (Inl NoJetStream, nx_close cl w1)
               else (case nx_create_or_update_stream cl (nats_stream_config opts) (nats_connect_timeout opts) w1 of
                       (False, w2) \<Rightarrow> (Inl (StreamNotEnsured (no_stream opts)), nx_close cl w2)
                     | (True, w2) \<Rightarrow> (Inr \<lparr> np_subject = no_subject opts, np_stream = no_stream opts \<rparr>, w2)))"

subsection \<open>Publishing\<close>

text \<open>The message an event becomes: its category ends the subject, its identifier is the key for duplicates.\<close>

definition event_message :: "nats_publisher \<Rightarrow> security_event \<Rightarrow> string \<Rightarrow> message" where
  "event_message p ev payload =
     \<lparr> mg_subject = np_subject p @ ''.'' @ ev_category ev, mg_payload = payload, mg_msg_id = ev_id ev \<rparr>"

definition nats_publish ::
  "'w nats_client \<Rightarrow> (security_event \<Rightarrow> string option) \<Rightarrow> nats_publisher \<Rightarrow> security_event \<Rightarrow> 'w \<Rightarrow> (bus_error + unit) \<times> 'w" where
  "nats_publish cl marshal p ev w =
     (case marshal ev of
        None \<Rightarrow> (Inl EventNotEncoded, w)
      | Some payload \<Rightarrow>
          (case nx_publish cl (event_message p ev payload) publish_timeout w of
             (False, w') \<Rightarrow> (Inl NotPublished, w')
           | (True, w') \<Rightarrow> (Inr (), w')))"

definition nats_health :: "'w nats_client \<Rightarrow> nats_publisher \<Rightarrow> 'w \<Rightarrow> bus_error option" where
  "nats_health cl p w =
     (if \<not> nx_is_connected cl w then Some NotEstablished
      else if \<not> nx_stream cl (np_stream p) publish_timeout w then Some (StreamUnavailable (np_stream p))
      else None)"

definition nats_shutdown :: "'w nats_client \<Rightarrow> 'w \<Rightarrow> bus_error option \<times> 'w" where
  "nats_shutdown cl w =
     (case nx_drain cl w of
        (True, w') \<Rightarrow> (None, w')
      | (False, w') \<Rightarrow> (Some NotDrained, nx_close cl w'))"

definition nats_kind :: string where
  "nats_kind = ''nats-jetstream''"

text \<open>The publisher that drops events counts them, never fails and is always healthy.\<close>

definition noop_publish :: "security_event \<Rightarrow> nat \<Rightarrow> (bus_error + unit) \<times> nat" where
  "noop_publish ev published = (Inr (), Suc published)"

subsection \<open>Subjects\<close>

text \<open>
  How the server matches a subject against a stream's: token by token, where \<open>*\<close> stands for any one token
  and a last \<open>>\<close> for one or more.
\<close>

fun tokens :: "string \<Rightarrow> string list" where
  "tokens [] = [[]]"
| "tokens (c # cs) =
     (if c = CHR ''.'' then [] # tokens cs
      else case tokens cs of [] \<Rightarrow> [[c]] | t # ts \<Rightarrow> (c # t) # ts)"

fun covers :: "string list \<Rightarrow> string list \<Rightarrow> bool" where
  "covers [] ts = (ts = [])"
| "covers (p # ps) [] = False"
| "covers (p # ps) (t # ts) = (if p = ''>'' \<and> ps = [] then True else (p = ''*'' \<or> p = t) \<and> covers ps ts)"

lemma tokens_not_Nil [simp]: "tokens s \<noteq> []"
  by (cases s) (auto split: list.split)

lemma tokens_dot: "tokens (s @ ''.'' @ t) = tokens s @ tokens t"
proof (induction s)
  case (Cons c cs)
  then show ?case by (cases "tokens cs") auto
qed simp

lemma covers_prefix: "covers ps ts \<Longrightarrow> covers (qs @ ps) (qs @ ts)"
  by (induction qs) auto

lemma wildcard_covers: "covers (tokens (subject_wildcard s)) (tokens (s @ ''.'' @ t))"
proof -
  have "subject_wildcard s = s @ ''.'' @ ''>''" by (simp add: subject_wildcard_def)
  then have "tokens (subject_wildcard s) = tokens s @ [''>'']" by (simp only: tokens_dot) simp
  moreover have "covers [''>''] (tokens t)" by (cases "tokens t") simp_all
  ultimately show ?thesis by (simp only: tokens_dot covers_prefix)
qed

text \<open>
  No event is published past the stream. If the publisher came up, the stream it made sure
  of has a subject that covers the subject of every message the publisher sends, whatever the category
  of the event; the stream drops its oldest messages at a positive size and a positive age; and the
  message carries the identifier of its event, by which the server recognises a retry.
\<close>

theorem published_events_land_in_stream:
  assumes "new_nats_publisher cl opts w = (Inr p, w')" and "sc = nats_stream_config opts"
  shows "(\<exists>w1. nx_create_or_update_stream cl sc (nats_connect_timeout opts) w1 = (True, w')) \<and>
    sm_name sc = np_stream p \<and> sm_discard sc = DiscardOld \<and> 0 < sm_max_bytes sc \<and> 0 < sm_max_age sc \<and>
    (\<forall>ev payload. list_ex (\<lambda>s. covers (tokens s) (tokens (mg_subject (event_message p ev payload)))) (sm_subjects sc) \<and>
       mg_msg_id (event_message p ev payload) = ev_id ev)"
proof -
  obtain w1 where "nx_create_or_update_stream cl sc (nats_connect_timeout opts) w1 = (True, w')"
    and p: "p = \<lparr> np_subject = no_subject opts, np_stream = no_stream opts \<rparr>"
    using assms by (auto simp: new_nats_publisher_def split: if_splits prod.splits bool.splits)
  moreover have "0 < sm_max_bytes sc" "0 < sm_max_age sc"
    by (simp_all add: assms(2) nats_stream_config_def nats_max_age_def nats_max_bytes_def default_stream_max_bytes_def hour_def minute_def second_def)
  ultimately show ?thesis
    by (auto simp: assms(2) nats_stream_config_def event_message_def wildcard_covers [simplified])
qed

text \<open>A connection that is not used is closed: every failure after connecting ends with the close.\<close>

lemma failed_publisher_closes:
  assumes "nx_connect cl (no_url opts) (nats_connect_options opts) w = (True, w1)" and "new_nats_publisher cl opts w = (Inl e, w')"
  shows "w' = w \<and> e \<in> {UrlRequired, SubjectRequired, StreamRequired} \<or> (\<exists>w2. w' = nx_close cl w2)"
  using assms by (auto simp: new_nats_publisher_def split: if_splits prod.splits bool.splits)

subsection \<open>At a concrete input\<close>

text \<open>A client on a server that accepts everything and keeps what it is sent.\<close>

definition sample_nats :: "message list nats_client" where
  "sample_nats = \<lparr> nx_connect = (\<lambda>url co w. (True, w)), nx_jetstream = (\<lambda>w. True),
     nx_create_or_update_stream = (\<lambda>sc t w. (True, w)), nx_publish = (\<lambda>m t w. (True, w @ [m])),
     nx_is_connected = (\<lambda>w. True), nx_stream = (\<lambda>s t w. True), nx_drain = (\<lambda>w. (True, w)), nx_close = (\<lambda>w. w) \<rparr>"

definition sample_nats_options :: nats_options where
  "sample_nats_options = \<lparr> no_url = ''nats://localhost:4222'', no_stream = ''GRIEFER_EVENTS'', no_subject = ''griefer.events'',
     no_connect_timeout = 0, no_max_age = 0, no_max_bytes = 0, no_user = [], no_password = [] \<rparr>"

definition sample_publisher :: nats_publisher where
  "sample_publisher = \<lparr> np_subject = ''griefer.events'', np_stream = ''GRIEFER_EVENTS'' \<rparr>"

theorem published_events_land_in_stream_witness:
  "new_nats_publisher sample_nats sample_nats_options [] = (Inr sample_publisher, []) \<and>
   list_ex (\<lambda>s. covers (tokens s) (tokens (mg_subject (event_message sample_publisher
      (zero_event\<lparr>ev_category := CategoryCloudAccess\<rparr>) [])))) (sm_subjects (nats_stream_config sample_nats_options))"
proof -
  have up: "new_nats_publisher sample_nats sample_nats_options [] = (Inr sample_publisher, [])"
    by (simp add: new_nats_publisher_def sample_nats_def sample_nats_options_def sample_publisher_def)
  from published_events_land_in_stream [OF up refl] up show ?thesis by blast
qed

end
