(* ===== verification/GoHeap.thy ===== *)
theory GoHeap
  imports Storage
begin

text \<open>
  Go's memory, as far as the copies of \<^verbatim>\<open>src/internal/storage/memory.go\<close> depend on it. Everywhere
  else a record is a value; here a slice is a header that points to a backing array, a map and a
  \<^verbatim>\<open>*T\<close> are addresses, and an assignment through one of them is seen by everybody who
  holds it. The structs are those of \<^verbatim>\<open>events/event.go\<close>, \<^verbatim>\<open>incidents/model.go\<close> and \<^verbatim>\<open>audit/audit.go\<close> with their
  references kept as references; the functions ending in \<open>_value\<close> read the value of such a
  struct, as the record the rest of the development uses.
\<close>

subsection \<open>References and structs\<close>

type_synonym addr = nat
type_synonym ptr = "addr option"

text \<open>A slice header: the backing array (none for a nil slice), where it starts, its length.\<close>

datatype slice = Slice (sl_array: ptr) (sl_from: nat) (sl_len: nat)

abbreviation nil_slice :: slice where "nil_slice \<equiv> Slice None 0 0"

record go_finding =
  gf_id :: string
  gf_rule_id :: string
  gf_title :: string
  gf_description :: string
  gf_category :: category
  gf_severity :: severity
  gf_confidence :: gofloat
  gf_techniques :: slice
  gf_entity_ids :: slice
  gf_event_ids :: slice
  gf_first_seen :: time
  gf_last_seen :: time

record go_blast_radius =
  gb_score :: int
  gb_max_hops :: nat
  gb_critical_assets :: nat
  gb_summary :: string
  gb_reachable :: slice

record go_incident =
  gi_id :: string
  gi_schema_version :: string
  gi_title :: string
  gi_status :: status
  gi_severity :: severity
  gi_risk_score :: int
  gi_confidence :: real
  gi_first_seen :: time
  gi_last_seen :: time
  gi_updated_at :: time
  gi_primary_identity :: string
  gi_entities :: slice
  gi_findings :: slice
  gi_attack_techniques :: slice
  gi_blast_radius :: go_blast_radius
  gi_recommended_actions :: slice
  gi_evidence :: slice

record go_decision =
  gd_effect :: string
  gd_allow :: bool
  gd_reasons :: slice
  gd_policy_package :: string
  gd_policy_version :: string
  gd_evaluated_at :: time
  gd_fail_closed :: bool
  gd_engine :: string

record go_effect =
  ge_description :: string
  ge_affected_entities :: slice
  ge_rollback_plan :: string

record go_action =
  ga_id :: string
  ga_incident_id :: string
  ga_action_type :: string
  ga_mode :: mode
  ga_status :: action_status
  ga_requested_by :: string
  ga_policy_decision :: ptr
  ga_reason :: string
  ga_reversible :: bool
  ga_destructive :: bool
  ga_rollback_action :: string
  ga_target_entity_id :: string
  ga_simulated :: ptr
  ga_created_at :: time
  ga_executed_at :: ptr

text \<open>What an entry's details hold under \<^verbatim>\<open>any\<close>; a list of strings is a slice there too.\<close>

datatype go_detail = GString string | GInt int | GBool bool | GStrings slice

record go_entry =
  gn_id :: string
  gn_sequence :: int
  gn_timestamp :: time
  gn_actor :: string
  gn_actor_role :: string
  gn_action :: string
  gn_subject_type :: string
  gn_subject_id :: string
  gn_outcome :: string
  gn_reason :: string
  gn_request_id :: string
  gn_details :: ptr

record go_device =
  gdv_id :: string
  gdv_hostname :: string
  gdv_os :: string
  gdv_managed :: ptr
  gdv_compliant :: ptr

record go_event =
  gv_id :: string
  gv_schema_version :: string
  gv_timestamp :: time
  gv_received_at :: time
  gv_source_type :: string
  gv_source_name :: string
  gv_event_type :: string
  gv_category :: category
  gv_severity :: severity
  gv_actor :: ptr
  gv_target :: ptr
  gv_device :: ptr
  gv_network :: ptr
  gv_cloud :: ptr
  gv_raw_reference :: ptr
  gv_labels :: ptr
  gv_correlation_id :: string
  gv_quarantined :: slice

subsection \<open>The heap\<close>

text \<open>What an address can hold: a backing array, a map, or a struct behind a pointer.\<close>

datatype cell =
    Unused
  | StringArray "string list"
  | TechniqueArray "technique list"
  | FindingArray "go_finding list"
  | EntityRefArray "entity_ref list"
  | RecommendedArray "recommended_action list"
  | EvidenceArray "evidence list"
  | ReachableArray "reachable_entity list"
  | IncidentCell go_incident
  | DecisionCell go_decision
  | EffectCell go_effect
  | TimeCell time
  | ActionCell go_action
  | DetailsMap "(string \<times> go_detail) list"
  | EntryCell go_entry
  | ActorCell actor
  | TargetCell target
  | BoolCell bool
  | DeviceCell go_device
  | NetworkCell network
  | CloudCell cloud
  | RawReferenceCell raw_reference
  | LabelsMap "(string \<times> string) list"
  | EventCell go_event

text \<open>Addresses below \<open>hp_next\<close> are allocated; an allocation takes that one.\<close>

record heap =
  hp_next :: addr
  hp_cell :: "addr \<Rightarrow> cell"

definition allocate :: "cell \<Rightarrow> heap \<Rightarrow> addr \<times> heap" where
  "allocate c h = (hp_next h, \<lparr> hp_next = Suc (hp_next h), hp_cell = (hp_cell h)(hp_next h := c) \<rparr>)"

definition assign :: "addr \<Rightarrow> cell \<Rightarrow> heap \<Rightarrow> heap" where
  "assign a c h = h\<lparr>hp_cell := (hp_cell h)(a := c)\<rparr>"

text \<open>
  Reading an address at a type. Go's types rule the other cases out; the model gives them a
  neutral result, and no statement rests on which.
\<close>

fun strings_in :: "cell \<Rightarrow> string list" where
  "strings_in (StringArray xs) = xs"
| "strings_in _ = []"

fun techniques_in :: "cell \<Rightarrow> technique list" where
  "techniques_in (TechniqueArray xs) = xs"
| "techniques_in _ = []"

fun findings_in :: "cell \<Rightarrow> go_finding list" where
  "findings_in (FindingArray xs) = xs"
| "findings_in _ = []"

fun entity_refs_in :: "cell \<Rightarrow> entity_ref list" where
  "entity_refs_in (EntityRefArray xs) = xs"
| "entity_refs_in _ = []"

fun recommended_in :: "cell \<Rightarrow> recommended_action list" where
  "recommended_in (RecommendedArray xs) = xs"
| "recommended_in _ = []"

fun evidence_in :: "cell \<Rightarrow> evidence list" where
  "evidence_in (EvidenceArray xs) = xs"
| "evidence_in _ = []"

fun reachable_in :: "cell \<Rightarrow> reachable_entity list" where
  "reachable_in (ReachableArray xs) = xs"
| "reachable_in _ = []"

fun incident_in :: "cell \<Rightarrow> go_incident option" where
  "incident_in (IncidentCell i) = Some i"
| "incident_in _ = None"

fun decision_in :: "cell \<Rightarrow> go_decision option" where
  "decision_in (DecisionCell d) = Some d"
| "decision_in _ = None"

fun effect_in :: "cell \<Rightarrow> go_effect option" where
  "effect_in (EffectCell e) = Some e"
| "effect_in _ = None"

fun time_in :: "cell \<Rightarrow> time option" where
  "time_in (TimeCell t) = Some t"
| "time_in _ = None"

fun action_in :: "cell \<Rightarrow> go_action option" where
  "action_in (ActionCell a) = Some a"
| "action_in _ = None"

fun details_in :: "cell \<Rightarrow> (string \<times> go_detail) list option" where
  "details_in (DetailsMap m) = Some m"
| "details_in _ = None"

fun entry_in :: "cell \<Rightarrow> go_entry option" where
  "entry_in (EntryCell e) = Some e"
| "entry_in _ = None"

fun actor_in :: "cell \<Rightarrow> actor option" where
  "actor_in (ActorCell x) = Some x"
| "actor_in _ = None"

fun target_in :: "cell \<Rightarrow> target option" where
  "target_in (TargetCell x) = Some x"
| "target_in _ = None"

fun bool_in :: "cell \<Rightarrow> bool option" where
  "bool_in (BoolCell x) = Some x"
| "bool_in _ = None"

fun device_in :: "cell \<Rightarrow> go_device option" where
  "device_in (DeviceCell x) = Some x"
| "device_in _ = None"

fun network_in :: "cell \<Rightarrow> network option" where
  "network_in (NetworkCell x) = Some x"
| "network_in _ = None"

fun cloud_in :: "cell \<Rightarrow> cloud option" where
  "cloud_in (CloudCell x) = Some x"
| "cloud_in _ = None"

fun raw_reference_in :: "cell \<Rightarrow> raw_reference option" where
  "raw_reference_in (RawReferenceCell x) = Some x"
| "raw_reference_in _ = None"

fun labels_in :: "cell \<Rightarrow> (string \<times> string) list option" where
  "labels_in (LabelsMap x) = Some x"
| "labels_in _ = None"

fun event_in :: "cell \<Rightarrow> go_event option" where
  "event_in (EventCell x) = Some x"
| "event_in _ = None"

definition deref :: "(cell \<Rightarrow> 'a option) \<Rightarrow> heap \<Rightarrow> ptr \<Rightarrow> 'a option" where
  "deref sel h p = Option.bind p (\<lambda>a. sel (hp_cell h a))"

definition elements :: "(cell \<Rightarrow> 'a list) \<Rightarrow> heap \<Rightarrow> slice \<Rightarrow> 'a list" where
  "elements sel h s =
     (case sl_array s of None \<Rightarrow> [] | Some a \<Rightarrow> take (sl_len s) (drop (sl_from s) (sel (hp_cell h a))))"

text \<open>
  \<^verbatim>\<open>append([]T(nil), xs...)\<close>: a new backing array with the elements, or the nil slice when
  there are none.
\<close>

definition append_to_nil :: "('a list \<Rightarrow> cell) \<Rightarrow> 'a list \<Rightarrow> heap \<Rightarrow> slice \<times> heap" where
  "append_to_nil mk xs h =
     (if xs = [] then (nil_slice, h)
      else let (a, h') = allocate (mk xs) h in (Slice (Some a) 0 (length xs), h'))"

subsection \<open>The addresses a cell leads to\<close>

definition slice_refs :: "slice \<Rightarrow> addr set" where
  "slice_refs s = set_option (sl_array s)"

definition finding_refs :: "go_finding \<Rightarrow> addr set" where
  "finding_refs f = slice_refs (gf_event_ids f) \<union> slice_refs (gf_entity_ids f) \<union> slice_refs (gf_techniques f)"

definition incident_refs :: "go_incident \<Rightarrow> addr set" where
  "incident_refs i =
     slice_refs (gi_findings i) \<union> slice_refs (gi_entities i) \<union> slice_refs (gi_attack_techniques i) \<union>
     slice_refs (gi_recommended_actions i) \<union> slice_refs (gi_evidence i) \<union>
     slice_refs (gb_reachable (gi_blast_radius i))"

definition action_refs :: "go_action \<Rightarrow> addr set" where
  "action_refs a = set_option (ga_policy_decision a) \<union> set_option (ga_simulated a) \<union> set_option (ga_executed_at a)"

definition device_refs :: "go_device \<Rightarrow> addr set" where
  "device_refs d = set_option (gdv_managed d) \<union> set_option (gdv_compliant d)"

definition event_refs :: "go_event \<Rightarrow> addr set" where
  "event_refs e =
     set_option (gv_actor e) \<union> set_option (gv_target e) \<union> set_option (gv_device e) \<union>
     set_option (gv_network e) \<union> set_option (gv_cloud e) \<union> set_option (gv_raw_reference e) \<union>
     set_option (gv_labels e) \<union> slice_refs (gv_quarantined e)"

fun detail_refs :: "go_detail \<Rightarrow> addr set" where
  "detail_refs (GStrings s) = slice_refs s"
| "detail_refs _ = {}"

fun cell_refs :: "cell \<Rightarrow> addr set" where
  "cell_refs (FindingArray fs) = \<Union> (finding_refs ` set fs)"
| "cell_refs (IncidentCell i) = incident_refs i"
| "cell_refs (DecisionCell d) = slice_refs (gd_reasons d)"
| "cell_refs (EffectCell e) = slice_refs (ge_affected_entities e)"
| "cell_refs (ActionCell a) = action_refs a"
| "cell_refs (DetailsMap m) = \<Union> ((detail_refs \<circ> snd) ` set m)"
| "cell_refs (EntryCell e) = set_option (gn_details e)"
| "cell_refs (DeviceCell d) = device_refs d"
| "cell_refs (EventCell e) = event_refs e"
| "cell_refs _ = {}"

subsection \<open>The value a struct stands for\<close>

definition finding_value :: "heap \<Rightarrow> go_finding \<Rightarrow> finding" where
  "finding_value h f =
     \<lparr> f_id = gf_id f, f_rule_id = gf_rule_id f, f_title = gf_title f, f_description = gf_description f,
       f_category = gf_category f, f_severity = gf_severity f, f_confidence = gf_confidence f,
       f_techniques = elements techniques_in h (gf_techniques f),
       f_entity_ids = elements strings_in h (gf_entity_ids f),
       f_event_ids = elements strings_in h (gf_event_ids f),
       f_first_seen = gf_first_seen f, f_last_seen = gf_last_seen f \<rparr>"

definition struct_of_incident :: "heap \<Rightarrow> go_incident \<Rightarrow> incident" where
  "struct_of_incident h i =
     \<lparr> inc_id = gi_id i, inc_schema_version = gi_schema_version i, inc_title = gi_title i,
       inc_status = gi_status i, inc_severity = gi_severity i, inc_risk_score = gi_risk_score i,
       inc_confidence = gi_confidence i, inc_first_seen = gi_first_seen i,
       inc_last_seen = gi_last_seen i, inc_updated_at = gi_updated_at i,
       inc_primary_identity = gi_primary_identity i,
       inc_entities = elements entity_refs_in h (gi_entities i),
       inc_findings = map (finding_value h) (elements findings_in h (gi_findings i)),
       inc_attack_techniques = elements techniques_in h (gi_attack_techniques i),
       inc_blast_radius =
         \<lparr> br_score = gb_score (gi_blast_radius i), br_max_hops = gb_max_hops (gi_blast_radius i),
           br_critical_assets = gb_critical_assets (gi_blast_radius i),
           br_summary = gb_summary (gi_blast_radius i),
           br_reachable = elements reachable_in h (gb_reachable (gi_blast_radius i)) \<rparr>,
       inc_recommended_actions = elements recommended_in h (gi_recommended_actions i),
       inc_evidence = elements evidence_in h (gi_evidence i) \<rparr>"

definition incident_value :: "heap \<Rightarrow> ptr \<Rightarrow> incident option" where
  "incident_value h p = map_option (struct_of_incident h) (deref incident_in h p)"

definition decision_value :: "heap \<Rightarrow> go_decision \<Rightarrow> policy_decision" where
  "decision_value h d =
     \<lparr> pd_effect = gd_effect d, pd_allow = gd_allow d, pd_reasons = elements strings_in h (gd_reasons d),
       pd_policy_package = gd_policy_package d, pd_policy_version = gd_policy_version d,
       pd_evaluated_at = gd_evaluated_at d, pd_fail_closed = gd_fail_closed d, pd_engine = gd_engine d \<rparr>"

definition effect_value :: "heap \<Rightarrow> go_effect \<Rightarrow> simulated_effect" where
  "effect_value h e =
     \<lparr> sim_description = ge_description e,
       sim_affected_entities = elements strings_in h (ge_affected_entities e),
       sim_rollback_plan = ge_rollback_plan e \<rparr>"

definition struct_of_action :: "heap \<Rightarrow> go_action \<Rightarrow> response_action" where
  "struct_of_action h a =
     \<lparr> act_id = ga_id a, act_incident_id = ga_incident_id a, act_action_type = ga_action_type a,
       act_mode = ga_mode a, act_status = ga_status a, act_requested_by = ga_requested_by a,
       act_policy_decision = map_option (decision_value h) (deref decision_in h (ga_policy_decision a)),
       act_reason = ga_reason a, act_reversible = ga_reversible a, act_destructive = ga_destructive a,
       act_rollback_action = ga_rollback_action a, act_target_entity_id = ga_target_entity_id a,
       act_simulated = map_option (effect_value h) (deref effect_in h (ga_simulated a)),
       act_created_at = ga_created_at a, act_executed_at = deref time_in h (ga_executed_at a) \<rparr>"

definition action_value :: "heap \<Rightarrow> ptr \<Rightarrow> response_action option" where
  "action_value h p = map_option (struct_of_action h) (deref action_in h p)"

fun detail_value :: "heap \<Rightarrow> go_detail \<Rightarrow> detail" where
  "detail_value h (GString s) = DString s"
| "detail_value h (GInt i) = DInt i"
| "detail_value h (GBool b) = DBool b"
| "detail_value h (GStrings s) = DStrings (elements strings_in h s)"

definition details_value :: "heap \<Rightarrow> ptr \<Rightarrow> (string \<times> detail) list" where
  "details_value h p =
     (case deref details_in h p of None \<Rightarrow> [] | Some m \<Rightarrow> map (\<lambda>(k, d). (k, detail_value h d)) m)"

definition struct_of_entry :: "heap \<Rightarrow> go_entry \<Rightarrow> audit_entry" where
  "struct_of_entry h e =
     \<lparr> ae_id = gn_id e, ae_sequence = gn_sequence e, ae_timestamp = gn_timestamp e,
       ae_actor = gn_actor e, ae_actor_role = gn_actor_role e, ae_action = gn_action e,
       ae_subject_type = gn_subject_type e, ae_subject_id = gn_subject_id e,
       ae_outcome = gn_outcome e, ae_reason = gn_reason e, ae_request_id = gn_request_id e,
       ae_details = details_value h (gn_details e) \<rparr>"

definition entry_value :: "heap \<Rightarrow> ptr \<Rightarrow> audit_entry option" where
  "entry_value h p = map_option (struct_of_entry h) (deref entry_in h p)"

definition device_value :: "heap \<Rightarrow> go_device \<Rightarrow> device" where
  "device_value h d =
     \<lparr> device_id = gdv_id d, device_hostname = gdv_hostname d, device_os = gdv_os d,
       device_managed = deref bool_in h (gdv_managed d), device_compliant = deref bool_in h (gdv_compliant d) \<rparr>"

definition struct_of_event :: "heap \<Rightarrow> go_event \<Rightarrow> security_event" where
  "struct_of_event h e =
     \<lparr> ev_id = gv_id e, ev_schema_version = gv_schema_version e, ev_timestamp = gv_timestamp e,
       ev_received_at = gv_received_at e, ev_source_type = gv_source_type e,
       ev_source_name = gv_source_name e, ev_event_type = gv_event_type e,
       ev_category = gv_category e, ev_severity = gv_severity e,
       ev_actor = deref actor_in h (gv_actor e), ev_target = deref target_in h (gv_target e),
       ev_device = map_option (device_value h) (deref device_in h (gv_device e)),
       ev_network = deref network_in h (gv_network e), ev_cloud = deref cloud_in h (gv_cloud e),
       ev_raw_reference = deref raw_reference_in h (gv_raw_reference e),
       ev_labels = (case deref labels_in h (gv_labels e) of None \<Rightarrow> [] | Some m \<Rightarrow> m),
       ev_correlation_id = gv_correlation_id e,
       ev_quarantined = elements strings_in h (gv_quarantined e) \<rparr>"

definition event_value :: "heap \<Rightarrow> ptr \<Rightarrow> security_event option" where
  "event_value h p = map_option (struct_of_event h) (deref event_in h p)"

end
