(* ===== verification/DeepCopy.thy ===== *)
theory DeepCopy
  imports GoHeap
begin

text \<open>
  The deep copies of \<^verbatim>\<open>src/internal/storage/memory.go\<close>, on the heap of \<open>GoHeap\<close>, and what a
  deep copy has to promise so that a store that copies on the way in and on the way out cannot
  be changed from outside: the locale \<open>deep_copy\<close>, which incidents, response actions and audit
  entries interpret.
\<close>

subsection \<open>The copies\<close>

text \<open>\<^verbatim>\<open>out[i].f = ...\<close> for an element of a slice of findings.\<close>

definition update_finding :: "slice \<Rightarrow> nat \<Rightarrow> (go_finding \<Rightarrow> go_finding) \<Rightarrow> heap \<Rightarrow> heap" where
  "update_finding s i f h =
     (case sl_array s of
        None \<Rightarrow> h
      | Some a \<Rightarrow>
          let fs = findings_in (hp_cell h a); k = sl_from s + i
          in assign a (FindingArray (fs[k := f (fs ! k)])) h)"

text \<open>The body of the loop over \<^verbatim>\<open>out.Findings\<close>: three slices of one finding.\<close>

definition copy_finding :: "slice \<Rightarrow> slice \<Rightarrow> nat \<Rightarrow> heap \<Rightarrow> heap" where
  "copy_finding ins outs i h =
     (let (evs, h1) = append_to_nil StringArray
            (elements strings_in h (gf_event_ids (elements findings_in h ins ! i))) h;
          h2 = update_finding outs i (\<lambda>f. f\<lparr>gf_event_ids := evs\<rparr>) h1;
          (ents, h3) = append_to_nil StringArray
            (elements strings_in h2 (gf_entity_ids (elements findings_in h2 ins ! i))) h2;
          h4 = update_finding outs i (\<lambda>f. f\<lparr>gf_entity_ids := ents\<rparr>) h3;
          (techs, h5) = append_to_nil TechniqueArray
            (elements techniques_in h4 (gf_techniques (elements findings_in h4 ins ! i))) h4
      in update_finding outs i (\<lambda>f. f\<lparr>gf_techniques := techs\<rparr>) h5)"

definition copy_findings :: "heap \<Rightarrow> slice \<Rightarrow> slice \<times> heap" where
  "copy_findings h ins =
     (let (outs, h1) = append_to_nil FindingArray (elements findings_in h ins) h
      in (outs, fold (copy_finding ins outs) [0..<sl_len outs] h1))"

text \<open>\<^verbatim>\<open>out\<close> is a local variable until its address is returned, so it is placed at the end.\<close>

definition deep_copy_incident :: "heap \<Rightarrow> ptr \<Rightarrow> ptr \<times> heap" where
  "deep_copy_incident h p =
     (case deref incident_in h p of
        None \<Rightarrow> (None, h)
      | Some i \<Rightarrow>
          let (fs, h1) = copy_findings h (gi_findings i);
              (es, h2) = append_to_nil EntityRefArray (elements entity_refs_in h1 (gi_entities i)) h1;
              (ts, h3) = append_to_nil TechniqueArray (elements techniques_in h2 (gi_attack_techniques i)) h2;
              (rs, h4) = append_to_nil RecommendedArray (elements recommended_in h3 (gi_recommended_actions i)) h3;
              (vs, h5) = append_to_nil EvidenceArray (elements evidence_in h4 (gi_evidence i)) h4;
              (bs, h6) = append_to_nil ReachableArray
                (elements reachable_in h5 (gb_reachable (gi_blast_radius i))) h5;
              (a, h7) = allocate (IncidentCell (i\<lparr>gi_findings := fs, gi_entities := es,
                gi_attack_techniques := ts, gi_recommended_actions := rs, gi_evidence := vs,
                gi_blast_radius := (gi_blast_radius i)\<lparr>gb_reachable := bs\<rparr>\<rparr>)) h6
          in (Some a, h7))"

definition copy_decision :: "heap \<Rightarrow> ptr \<Rightarrow> ptr \<times> heap" where
  "copy_decision h p =
     (case deref decision_in h p of
        None \<Rightarrow> (None, h)
      | Some d \<Rightarrow>
          let (rs, h1) = append_to_nil StringArray (elements strings_in h (gd_reasons d)) h;
              (a, h2) = allocate (DecisionCell (d\<lparr>gd_reasons := rs\<rparr>)) h1
          in (Some a, h2))"

definition copy_effect :: "heap \<Rightarrow> ptr \<Rightarrow> ptr \<times> heap" where
  "copy_effect h p =
     (case deref effect_in h p of
        None \<Rightarrow> (None, h)
      | Some e \<Rightarrow>
          let (es, h1) = append_to_nil StringArray (elements strings_in h (ge_affected_entities e)) h;
              (a, h2) = allocate (EffectCell (e\<lparr>ge_affected_entities := es\<rparr>)) h1
          in (Some a, h2))"

definition copy_time :: "heap \<Rightarrow> ptr \<Rightarrow> ptr \<times> heap" where
  "copy_time h p =
     (case deref time_in h p of
        None \<Rightarrow> (None, h)
      | Some t \<Rightarrow> let (a, h1) = allocate (TimeCell t) h in (Some a, h1))"

definition deep_copy_action :: "heap \<Rightarrow> ptr \<Rightarrow> ptr \<times> heap" where
  "deep_copy_action h p =
     (case deref action_in h p of
        None \<Rightarrow> (None, h)
      | Some a \<Rightarrow>
          let (d, h1) = copy_decision h (ga_policy_decision a);
              (e, h2) = copy_effect h1 (ga_simulated a);
              (t, h3) = copy_time h2 (ga_executed_at a);
              (b, h4) = allocate (ActionCell (a\<lparr>ga_policy_decision := d, ga_simulated := e,
                ga_executed_at := t\<rparr>)) h3
          in (Some b, h4))"

text \<open>The details are copied one level deep: a list among them keeps its backing array.\<close>

definition copy_details :: "heap \<Rightarrow> ptr \<Rightarrow> ptr \<times> heap" where
  "copy_details h p =
     (case deref details_in h p of
        None \<Rightarrow> (None, h)
      | Some m \<Rightarrow> let (a, h1) = allocate (DetailsMap m) h in (Some a, h1))"

definition deep_copy_entry :: "heap \<Rightarrow> ptr \<Rightarrow> ptr \<times> heap" where
  "deep_copy_entry h p =
     (case deref entry_in h p of
        None \<Rightarrow> (None, h)
      | Some e \<Rightarrow>
          let (d, h1) = copy_details h (gn_details e);
              (a, h2) = allocate (EntryCell (e\<lparr>gn_details := d\<rparr>)) h1
          in (Some a, h2))"

text \<open>
  Events are copied by \<^verbatim>\<open>clone := *ev\<close> alone: the new struct, with the old pointers, map and slice.
\<close>

definition shallow_copy_event :: "heap \<Rightarrow> ptr \<Rightarrow> ptr \<times> heap" where
  "shallow_copy_event h p =
     (case deref event_in h p of
        None \<Rightarrow> (None, h)
      | Some e \<Rightarrow> let (a, h1) = allocate (EventCell e) h in (Some a, h1))"

subsection \<open>Heaps that agree, and heaps that grow\<close>

definition agree_on :: "addr set \<Rightarrow> heap \<Rightarrow> heap \<Rightarrow> bool" where
  "agree_on S h h' \<longleftrightarrow> (\<forall>a \<in> S. hp_cell h' a = hp_cell h a)"

text \<open>No cell outside \<open>P\<close> leads into \<open>P\<close>.\<close>

definition avoids :: "heap \<Rightarrow> addr set \<Rightarrow> bool" where
  "avoids h P \<longleftrightarrow> (\<forall>a. a \<notin> P \<longrightarrow> cell_refs (hp_cell h a) \<inter> P = {})"

definition unallocated :: "heap \<Rightarrow> addr set" where
  "unallocated h = {hp_next h..}"

text \<open>The addresses that came into use between two heaps.\<close>

definition gained :: "heap \<Rightarrow> heap \<Rightarrow> addr set" where
  "gained h h' = {hp_next h..<hp_next h'}"

text \<open>
  From \<open>h\<close> to \<open>h'\<close> cells were only added, and what was added leads to added cells and to \<open>S\<close>.
\<close>

definition grows :: "addr set \<Rightarrow> heap \<Rightarrow> heap \<Rightarrow> bool" where
  "grows S h h' \<longleftrightarrow>
     hp_next h \<le> hp_next h' \<and> agree_on (- unallocated h) h h' \<and>
     (\<forall>a \<in> gained h h'. cell_refs (hp_cell h' a) \<subseteq> gained h h' \<union> S)"

lemma grows_refl [simp]: "grows S h h"
  by (simp add: grows_def agree_on_def gained_def)

lemma grows_trans:
  assumes "grows S h h1" "grows S h1 h2"
  shows "grows S h h2"
proof -
  have "cell_refs (hp_cell h2 a) \<subseteq> gained h h2 \<union> S" if "a \<in> gained h h2" for a
  proof (cases "a < hp_next h1")
    case True
    then have "hp_cell h2 a = hp_cell h1 a" "a \<in> gained h h1"
      using assms(2) that by (auto simp: grows_def agree_on_def unallocated_def gained_def)
    then have "cell_refs (hp_cell h2 a) \<subseteq> gained h h1 \<union> S" using assms(1) by (simp add: grows_def)
    moreover have "gained h h1 \<subseteq> gained h h2" using assms(2) by (auto simp: grows_def gained_def)
    ultimately show ?thesis by blast
  next
    case False
    then have "cell_refs (hp_cell h2 a) \<subseteq> gained h1 h2 \<union> S"
      using assms(2) that by (auto simp: grows_def gained_def)
    moreover have "gained h1 h2 \<subseteq> gained h h2" using assms(1) by (auto simp: grows_def gained_def)
    ultimately show ?thesis by blast
  qed
  then show ?thesis using assms by (auto simp: grows_def agree_on_def unallocated_def)
qed

lemma grows_mono: "grows S h h' \<Longrightarrow> S \<subseteq> T \<Longrightarrow> grows T h h'"
  by (auto simp: grows_def)

lemma grows_next: "grows S h h' \<Longrightarrow> hp_next h \<le> hp_next h'"
  by (simp add: grows_def)

lemma grows_agree: "grows S h h' \<Longrightarrow> A \<inter> unallocated h = {} \<Longrightarrow> agree_on A h h'"
  by (auto simp: grows_def agree_on_def)

lemma gained_mono: "grows S h h1 \<Longrightarrow> grows T h2 h3 \<Longrightarrow> gained h1 h2 \<subseteq> gained h h3"
  by (auto simp: grows_def gained_def)

lemma gained_unallocated: "gained h h' \<subseteq> unallocated h" "gained h h' \<inter> unallocated h' = {}"
  by (auto simp: gained_def unallocated_def)

lemma grows_allocate:
  assumes "allocate c h = (a, h')" "cell_refs c \<subseteq> gained h0 h \<union> S" "grows S h0 h"
  shows "grows S h0 h'"
proof -
  have h': "hp_next h' = Suc (hp_next h)" "hp_cell h' = (hp_cell h)(hp_next h := c)"
    using assms(1) by (auto simp: allocate_def)
  have "gained h0 h' = insert (hp_next h) (gained h0 h)"
    using h'(1) grows_next [OF assms(3)] by (auto simp: gained_def)
  moreover have "cell_refs (hp_cell h x) \<subseteq> gained h0 h \<union> S" if "x \<in> gained h0 h" for x
    using assms(3) that by (simp add: grows_def)
  ultimately have "\<forall>x \<in> gained h0 h'. cell_refs (hp_cell h' x) \<subseteq> gained h0 h' \<union> S"
    using assms(2) h'(2) by auto
  moreover have "agree_on (- unallocated h0) h0 h'"
    using assms(3) h'(2) by (auto simp: grows_def agree_on_def unallocated_def)
  ultimately show ?thesis using grows_next [OF assms(3)] h'(1) by (simp add: grows_def)
qed

lemma allocate_cell:
  assumes "allocate c h = (a, h')"
  shows "a = hp_next h" "hp_cell h' a = c" "hp_next h' = Suc (hp_next h)"
  using assms by (auto simp: allocate_def)

text \<open>Reading depends on the cells read.\<close>

lemma elements_agree: "agree_on (slice_refs s) h h' \<Longrightarrow> elements sel h' s = elements sel h s"
  by (auto simp: elements_def agree_on_def slice_refs_def split: option.split)

lemma deref_agree: "agree_on (set_option p) h h' \<Longrightarrow> deref sel h' p = deref sel h p"
  by (cases p) (auto simp: deref_def agree_on_def)

lemma agree_on_Un [simp]: "agree_on (A \<union> B) h h' \<longleftrightarrow> agree_on A h h' \<and> agree_on B h h'"
  by (auto simp: agree_on_def)

lemma agree_on_subset: "agree_on B h h' \<Longrightarrow> A \<subseteq> B \<Longrightarrow> agree_on A h h'"
  by (auto simp: agree_on_def)

text \<open>What \<^verbatim>\<open>append\<close> to a nil slice yields: the same elements, in an array of their own.\<close>

lemma append_to_nil_new:
  assumes "append_to_nil mk xs h = (s, h')" "\<And>ys. sel (mk ys) = ys" "\<And>ys. cell_refs (mk ys) = {}"
  shows "grows {} h h'" "elements sel h' s = xs" "slice_refs s \<subseteq> gained h h'"
    "\<forall>a \<in> gained h h'. cell_refs (hp_cell h' a) = {}"
  using assms
  by (auto simp: append_to_nil_def allocate_def grows_def agree_on_def unallocated_def gained_def
      elements_def slice_refs_def less_Suc_eq split: if_splits)

subsection \<open>The loop over the findings\<close>

text \<open>
  While the loop runs, the copied findings lie in the array at \<open>hp_next h0\<close>, everything older is
  as it was, and everything newer is an array of strings or techniques.
\<close>

definition loop_heap :: "heap \<Rightarrow> go_finding list \<Rightarrow> heap \<Rightarrow> bool" where
  "loop_heap h0 G h \<longleftrightarrow>
     hp_next h0 < hp_next h \<and> agree_on (- unallocated h0) h0 h \<and>
     hp_cell h (hp_next h0) = FindingArray G \<and>
     (\<forall>a \<in> {hp_next h0<..<hp_next h}. cell_refs (hp_cell h a) = {})"

definition newer :: "heap \<Rightarrow> heap \<Rightarrow> addr set" where
  "newer h0 h = {hp_next h0<..<hp_next h}"

lemma copy_one_slice:
  assumes "loop_heap h0 G h" "append_to_nil mk (elements sel h s) h = (s', h1)"
    and "h' = update_finding (Slice (Some (hp_next h0)) 0 n) k f h1"
    and "slice_refs s \<inter> unallocated h0 = {}" "\<And>ys. sel (mk ys) = ys" "\<And>ys. cell_refs (mk ys) = {}"
  shows "loop_heap h0 (G[k := f (G ! k)]) h'" "elements sel h' s' = elements sel h0 s"
    "slice_refs s' \<subseteq> newer h0 h'" "agree_on (newer h0 h) h h'" "hp_next h \<le> hp_next h'"
proof -
  have old: "elements sel h s = elements sel h0 s"
    using assms(1,4) by (intro elements_agree) (auto simp: loop_heap_def agree_on_def)
  note new = append_to_nil_new [OF assms(2,5,6)]
  have a: "hp_next h0 < hp_next h" using assms(1) by (simp add: loop_heap_def)
  then have cell: "hp_cell h1 (hp_next h0) = FindingArray G"
    using new(1) assms(1) by (auto simp: loop_heap_def grows_def agree_on_def unallocated_def)
  have h': "h' = assign (hp_next h0) (FindingArray (G[k := f (G ! k)])) h1"
    using assms(3) cell by (simp add: update_finding_def Let_def)
  have "agree_on (slice_refs s') h1 h'"
    using new(3) a by (auto simp: agree_on_def h' assign_def gained_def)
  then show "elements sel h' s' = elements sel h0 s" using new(2) old by (simp add: elements_agree)
  show "slice_refs s' \<subseteq> newer h0 h'" "hp_next h \<le> hp_next h'"
    using new(1,3) a by (auto simp: h' newer_def gained_def assign_def grows_def)
  show "agree_on (newer h0 h) h h'"
    using new(1) by (auto simp: h' newer_def assign_def grows_def agree_on_def unallocated_def)
  have "cell_refs (hp_cell h1 x) = {}" if "x \<in> newer h0 h1" for x
    using new(1,4) assms(1) that
    by (cases "x < hp_next h")
      (auto simp: loop_heap_def newer_def grows_def agree_on_def unallocated_def gained_def)
  then show "loop_heap h0 (G[k := f (G ! k)]) h'"
    using new(1) assms(1) a
    by (auto simp: loop_heap_def h' assign_def grows_def agree_on_def unallocated_def newer_def)
qed

lemma finding_value_agree: "agree_on (finding_refs f) h h' \<Longrightarrow> finding_value h' f = finding_value h f"
  by (simp add: finding_value_def finding_refs_def elements_agree)

lemma finding_refs_old: "finding_refs f \<inter> P = {} \<Longrightarrow> slice_refs (gf_event_ids f) \<inter> P = {} \<and>
    slice_refs (gf_entity_ids f) \<inter> P = {} \<and> slice_refs (gf_techniques f) \<inter> P = {}"
  by (auto simp: finding_refs_def)

lemma old_elements:
  "loop_heap h0 G h \<Longrightarrow> slice_refs s \<inter> unallocated h0 = {} \<Longrightarrow> elements sel h s = elements sel h0 s"
  by (intro elements_agree) (auto simp: loop_heap_def agree_on_def)

lemma newer_mono: "hp_next h \<le> hp_next h' \<Longrightarrow> newer h0 h \<subseteq> newer h0 h'"
  by (auto simp: newer_def)

lemma copy_finding_step:
  fixes h0 h ins F G k n
  defines "F \<equiv> elements findings_in h0 ins"
    and "h' \<equiv> copy_finding ins (Slice (Some (hp_next h0)) 0 n) k h"
  assumes w: "loop_heap h0 G h" and k: "k < length G" "G ! k = F ! k"
    and old: "slice_refs ins \<inter> unallocated h0 = {}" "finding_refs (F ! k) \<inter> unallocated h0 = {}"
  obtains g where "loop_heap h0 (G[k := g]) h'" "finding_value h' g = finding_value h0 (F ! k)"
    "finding_refs g \<subseteq> newer h0 h'" "agree_on (newer h0 h) h h'" "hp_next h \<le> hp_next h'"
proof -
  note olds = finding_refs_old [OF old(2)]
  let ?outs = "Slice (Some (hp_next h0)) 0 n" and ?f = "F ! k"
  obtain evs h1 where 1: "append_to_nil StringArray (elements strings_in h (gf_event_ids ?f)) h = (evs, h1)"
    by (metis surj_pair)
  define h2 where h2: "h2 = update_finding ?outs k (\<lambda>f. f\<lparr>gf_event_ids := evs\<rparr>) h1"
  obtain ents h3 where 3: "append_to_nil StringArray (elements strings_in h2 (gf_entity_ids ?f)) h2 = (ents, h3)"
    by (metis surj_pair)
  define h4 where h4: "h4 = update_finding ?outs k (\<lambda>f. f\<lparr>gf_entity_ids := ents\<rparr>) h3"
  obtain techs h5 where 5: "append_to_nil TechniqueArray (elements techniques_in h4 (gf_techniques ?f)) h4 = (techs, h5)"
    by (metis surj_pair)
  define h6 where h6: "h6 = update_finding ?outs k (\<lambda>f. f\<lparr>gf_techniques := techs\<rparr>) h5"
  note s1 = copy_one_slice [OF w 1 h2, simplified, OF olds [THEN conjunct1]]
  note s2 = copy_one_slice [OF s1(1) 3 h4, simplified, OF olds [THEN conjunct2, THEN conjunct1]]
  note s3 = copy_one_slice [OF s2(1) 5 h6, simplified, OF olds [THEN conjunct2, THEN conjunct2]]
  have reads: "elements findings_in h ins ! k = ?f" "elements findings_in h2 ins ! k = ?f"
    "elements findings_in h4 ins ! k = ?f"
    using old_elements [OF w old(1), of findings_in] old_elements [OF s1(1) old(1), of findings_in]
      old_elements [OF s2(1) old(1), of findings_in] by (simp_all add: F_def)
  have h': "h' = h6" by (simp add: h'_def copy_finding_def reads 1 3 5 Let_def flip: h2 h4 h6)
  let ?g = "?f\<lparr>gf_event_ids := evs, gf_entity_ids := ents, gf_techniques := techs\<rparr>"
  have "agree_on (newer h0 h2) h2 h6"
    using s2(4) s3(4) newer_mono [OF s2(5), of h0] unfolding agree_on_def by (metis subsetD)
  note ag = this s3(4)
  have "elements strings_in h6 evs = elements strings_in h2 evs" "elements strings_in h6 ents = elements strings_in h4 ents"
    using s1(3) s2(3) ag by (auto intro!: elements_agree elim: agree_on_subset)
  then have same: "finding_value h6 ?g = finding_value h0 ?f"
    using s1(2) s2(2) s3(2) by (simp add: finding_value_def)
  have "finding_refs ?g \<subseteq> newer h0 h6"
    using s1(3) s2(3) s3(3) newer_mono [OF s2(5), of h0] newer_mono [OF s3(5), of h0]
    by (auto simp: finding_refs_def)
  moreover have "loop_heap h0 (G[k := ?g]) h6" using s3(1) k by simp
  moreover have "agree_on (newer h0 h) h h6"
    using s1(4) ag(1) newer_mono [OF s1(5), of h0] unfolding agree_on_def by (metis subsetD)
  moreover have "hp_next h \<le> hp_next h6" using s1(5) s2(5) s3(5) by simp
  ultimately show ?thesis using that [of ?g] same h' by simp
qed

text \<open>What the loop has done after \<open>k\<close> turns.\<close>

definition copied_upto :: "heap \<Rightarrow> go_finding list \<Rightarrow> nat \<Rightarrow> heap \<Rightarrow> bool" where
  "copied_upto h0 F k h \<longleftrightarrow>
     (\<exists>G. loop_heap h0 G h \<and> length G = length F \<and>
       (\<forall>j < k. finding_value h (G ! j) = finding_value h0 (F ! j) \<and> finding_refs (G ! j) \<subseteq> newer h0 h) \<and>
       (\<forall>j. k \<le> j \<longrightarrow> j < length F \<longrightarrow> G ! j = F ! j))"

lemma copied_upto_step:
  assumes "copied_upto h0 (elements findings_in h0 ins) k h" "k < length (elements findings_in h0 ins)"
    and old: "slice_refs ins \<inter> unallocated h0 = {}"
      "\<forall>f \<in> set (elements findings_in h0 ins). finding_refs f \<inter> unallocated h0 = {}"
  shows "copied_upto h0 (elements findings_in h0 ins) (Suc k)
    (copy_finding ins (Slice (Some (hp_next h0)) 0 n) k h)"
proof -
  let ?F = "elements findings_in h0 ins" and ?h' = "copy_finding ins (Slice (Some (hp_next h0)) 0 n) k h"
  obtain G where G: "loop_heap h0 G h" "length G = length ?F"
    "\<forall>j < k. finding_value h (G ! j) = finding_value h0 (?F ! j) \<and> finding_refs (G ! j) \<subseteq> newer h0 h"
    "\<forall>j. k \<le> j \<longrightarrow> j < length ?F \<longrightarrow> G ! j = ?F ! j"
    using assms(1) by (auto simp: copied_upto_def)
  have kth: "k < length G" "G ! k = ?F ! k" "finding_refs (?F ! k) \<inter> unallocated h0 = {}"
    using G assms(2) old(2) by simp_all
  obtain g where g: "loop_heap h0 (G[k := g]) ?h'" "finding_value ?h' g = finding_value h0 (?F ! k)"
    "finding_refs g \<subseteq> newer h0 ?h'" "agree_on (newer h0 h) h ?h'" "hp_next h \<le> hp_next ?h'"
    by (rule copy_finding_step [OF G(1) kth(1,2) old(1) kth(3)])
  have "finding_value ?h' (G ! j) = finding_value h0 (?F ! j) \<and> finding_refs (G ! j) \<subseteq> newer h0 ?h'"
    if "j < k" for j
    using G(3) that g(4) newer_mono [OF g(5), of h0]
    by (metis agree_on_subset finding_value_agree order_trans)
  then have "\<forall>j < Suc k. finding_value ?h' (G[k := g] ! j) = finding_value h0 (?F ! j) \<and>
      finding_refs (G[k := g] ! j) \<subseteq> newer h0 ?h'"
    using g(2,3) kth(1) by (auto simp: nth_list_update less_Suc_eq)
  then show ?thesis using g(1) G(2,4) unfolding copied_upto_def by (intro exI [of _ "G[k := g]"]) simp
qed

lemma copied_upto_all:
  assumes "copied_upto h0 (elements findings_in h0 ins) 0 h" "k \<le> length (elements findings_in h0 ins)"
    and "slice_refs ins \<inter> unallocated h0 = {}"
      "\<forall>f \<in> set (elements findings_in h0 ins). finding_refs f \<inter> unallocated h0 = {}"
  shows "copied_upto h0 (elements findings_in h0 ins) k
    (fold (copy_finding ins (Slice (Some (hp_next h0)) 0 n)) [0..<k] h)"
  using assms(2) by (induction k) (simp_all add: assms(1) copied_upto_step [OF _ _ assms(3,4)])

text \<open>The copied slice of findings stands for the same findings and shares nothing.\<close>

definition findings_owned :: "heap \<Rightarrow> slice \<Rightarrow> addr set" where
  "findings_owned h s = slice_refs s \<union> \<Union> (finding_refs ` set (elements findings_in h s))"

definition findings_value :: "heap \<Rightarrow> slice \<Rightarrow> finding list" where
  "findings_value h s = map (finding_value h) (elements findings_in h s)"

lemma copied_upto_end:
  assumes "copied_upto h0 F (length F) h" "F \<noteq> []"
  shows "grows {} h0 h"
    "findings_value h (Slice (Some (hp_next h0)) 0 (length F)) = map (finding_value h0) F"
    "findings_owned h (Slice (Some (hp_next h0)) 0 (length F)) \<subseteq> gained h0 h"
proof -
  obtain G where G: "loop_heap h0 G h" "length G = length F"
    "\<forall>j < length F. finding_value h (G ! j) = finding_value h0 (F ! j) \<and> finding_refs (G ! j) \<subseteq> newer h0 h"
    using assms(1) by (auto simp: copied_upto_def)
  have els: "elements findings_in h (Slice (Some (hp_next h0)) 0 (length F)) = G"
    using G(1,2) by (simp add: elements_def loop_heap_def)
  show "findings_value h (Slice (Some (hp_next h0)) 0 (length F)) = map (finding_value h0) F"
    using G(2,3) els by (simp add: findings_value_def list_eq_iff_nth_eq)
  have refs: "finding_refs g \<subseteq> newer h0 h" if "g \<in> set G" for g
    using that G(2,3) by (metis in_set_conv_nth)
  have "newer h0 h \<subseteq> gained h0 h" "hp_next h0 \<in> gained h0 h"
    using G(1) by (auto simp: newer_def gained_def loop_heap_def)
  then show "findings_owned h (Slice (Some (hp_next h0)) 0 (length F)) \<subseteq> gained h0 h"
    using els refs by (auto simp: findings_owned_def slice_refs_def)
  have "cell_refs (hp_cell h a) \<subseteq> gained h0 h" if "a \<in> gained h0 h" for a
  proof (cases "a = hp_next h0")
    case True
    then show ?thesis using G(1) refs \<open>newer h0 h \<subseteq> gained h0 h\<close> by (auto simp: loop_heap_def)
  next
    case False
    then show ?thesis using G(1) that by (auto simp: loop_heap_def gained_def)
  qed
  then show "grows {} h0 h" using G(1) by (auto simp: grows_def loop_heap_def)
qed

lemma copy_findings_new:
  assumes "copy_findings h ins = (outs, h')" "findings_owned h ins \<inter> unallocated h = {}"
  shows "grows {} h h'" "findings_value h' outs = findings_value h ins" "findings_owned h' outs \<subseteq> gained h h'"
proof -
  let ?F = "elements findings_in h ins"
  have "grows {} h h' \<and> findings_value h' outs = findings_value h ins \<and> findings_owned h' outs \<subseteq> gained h h'"
  proof (cases "?F = []")
    case True
    then show ?thesis using assms(1)
      by (auto simp: copy_findings_def append_to_nil_def findings_value_def findings_owned_def
          slice_refs_def elements_def)
  next
    case False
    obtain h1 where h1: "allocate (FindingArray ?F) h = (hp_next h, h1)" by (simp add: allocate_def)
    have "loop_heap h ?F h1" using h1
      by (auto simp: allocate_def loop_heap_def agree_on_def unallocated_def)
    then have start: "copied_upto h ?F 0 h1" by (auto simp: copied_upto_def)
    have old: "slice_refs ins \<inter> unallocated h = {}" "\<forall>f \<in> set ?F. finding_refs f \<inter> unallocated h = {}"
      using assms(2) by (auto simp: findings_owned_def)
    have outs: "outs = Slice (Some (hp_next h)) 0 (length ?F)"
      "h' = fold (copy_finding ins outs) [0..<length ?F] h1"
      using assms(1) False h1 by (auto simp: copy_findings_def append_to_nil_def split: prod.splits)
    have "copied_upto h ?F (length ?F) h'"
      unfolding outs by (rule copied_upto_all [OF start order.refl old])
    from copied_upto_end [OF this False] show ?thesis
      unfolding outs(1) findings_value_def [of h ins] by blast
  qed
  then show "grows {} h h'" "findings_value h' outs = findings_value h ins" "findings_owned h' outs \<subseteq> gained h h'"
    by blast+
qed

subsection \<open>The interface\<close>

text \<open>
  \<open>known\<close> are the addresses the callers have seen, \<open>priv\<close> those only the store has, \<open>frozen\<close>
  those both have and nobody writes to any more.
\<close>

definition isolated :: "heap \<Rightarrow> addr set \<Rightarrow> addr set \<Rightarrow> addr set \<Rightarrow> bool" where
  "isolated h known priv frozen \<longleftrightarrow>
     avoids h (unallocated h) \<and> avoids h (priv \<union> unallocated h) \<and> priv \<inter> unallocated h = {} \<and>
     known \<inter> (priv \<union> unallocated h) = {} \<and> frozen \<inter> (priv \<union> unallocated h) = {}"

text \<open>What the store holds at \<open>p\<close> is \<open>v\<close>, out of the callers' reach.\<close>

definition kept ::
  "(heap \<Rightarrow> ptr \<Rightarrow> 'v option) \<Rightarrow> (heap \<Rightarrow> ptr \<Rightarrow> addr set) \<Rightarrow> (heap \<Rightarrow> ptr \<Rightarrow> addr set) \<Rightarrow>
     addr set \<Rightarrow> addr set \<Rightarrow> heap \<Rightarrow> ptr \<Rightarrow> 'v \<Rightarrow> bool" where
  "kept contents owned shared priv frozen h p v \<longleftrightarrow>
     contents h p = Some v \<and> owned h p \<subseteq> priv \<and> shared h p \<subseteq> frozen"

lemma isolated_grows:
  assumes "isolated h known priv frozen" "grows S h h'" "S \<inter> (priv \<union> unallocated h) = {}"
  shows "isolated h' known (priv \<union> gained h h') (frozen \<union> S)" "isolated h' (known \<union> gained h h') priv frozen"
proof -
  have un: "unallocated h = unallocated h' \<union> gained h h'" "gained h h' \<inter> unallocated h' = {}"
    using grows_next [OF assms(2)] by (auto simp: unallocated_def gained_def)
  have old: "hp_cell h' a = hp_cell h a" if "a \<notin> unallocated h" for a
    using assms(2) that by (auto simp: grows_def agree_on_def)
  have new: "cell_refs (hp_cell h' a) \<subseteq> gained h h' \<union> S" if "a \<in> gained h h'" for a
    using assms(2) that by (simp add: grows_def)
  have old_refs: "cell_refs (hp_cell h' a) \<inter> unallocated h = {}" if "a \<notin> unallocated h" for a
    using assms(1) that old [OF that] by (simp add: isolated_def avoids_def)
  have public_refs: "cell_refs (hp_cell h' a) \<inter> priv = {}" if "a \<notin> unallocated h" "a \<notin> priv" for a
    using assms(1) that old [OF that(1)] by (auto simp: isolated_def avoids_def)
  have S: "S \<inter> priv = {}" "S \<inter> unallocated h = {}" using assms(3) by auto
  have priv: "priv \<inter> unallocated h = {}" using assms(1) by (simp add: isolated_def)
  have out: "cell_refs (hp_cell h' a) \<inter> unallocated h' = {}" if "a \<notin> unallocated h'" for a
    using old_refs [of a] new [of a] un S(2) that by (cases "a \<in> gained h h'") auto
  have public: "cell_refs (hp_cell h' a) \<inter> priv = {}" if "a \<notin> priv" "a \<notin> unallocated h'" for a
    using public_refs [of a] new [of a] un priv S(1) that by (cases "a \<in> gained h h'") auto
  have split: "priv \<union> gained h h' \<union> unallocated h' = priv \<union> unallocated h" using un by blast
  have "avoids h' (unallocated h')" using out by (simp add: avoids_def)
  moreover have "avoids h' (priv \<union> unallocated h')"
    using out public by (simp add: avoids_def Int_Un_distrib)
  moreover have "avoids h' (priv \<union> unallocated h)"
    using old_refs public_refs by (simp add: avoids_def Int_Un_distrib)
  moreover have "gained h h' \<inter> priv = {}" using un priv by blast
  ultimately show "isolated h' known (priv \<union> gained h h') (frozen \<union> S)"
    "isolated h' (known \<union> gained h h') priv frozen"
    using assms(1) S un unfolding isolated_def split by auto
qed

lemma isolated_known_mono: "isolated h known priv frozen \<Longrightarrow> known' \<subseteq> known \<Longrightarrow> isolated h known' priv frozen"
  by (auto simp: isolated_def)

text \<open>What a caller can do keeps the isolation: allocate, write, and read on.\<close>

lemma isolated_allocate:
  assumes "isolated h known priv frozen" "cell_refs c \<subseteq> known" "allocate c h = (a, h')"
  shows "isolated h' (insert a known) priv frozen" "grows UNIV h h'"
proof -
  have g: "grows (cell_refs c) h h'" by (rule grows_allocate [OF assms(3)]) simp_all
  then show "grows UNIV h h'" by (rule grows_mono) simp
  have "cell_refs c \<inter> (priv \<union> unallocated h) = {}" using assms(1,2) by (auto simp: isolated_def)
  then have "isolated h' (known \<union> gained h h') priv frozen" by (rule isolated_grows(2) [OF assms(1) g])
  moreover have "gained h h' = {a}" using allocate_cell [OF assms(3)] by (auto simp: gained_def)
  ultimately show "isolated h' (insert a known) priv frozen" by simp
qed

lemma isolated_assign:
  "isolated h known priv frozen \<Longrightarrow> a \<in> known \<Longrightarrow> cell_refs c \<subseteq> known \<Longrightarrow>
     isolated (assign a c h) known priv frozen"
  by (auto simp: isolated_def avoids_def assign_def unallocated_def)

lemma isolated_load:
  "isolated h known priv frozen \<Longrightarrow> a \<in> known \<Longrightarrow>
     isolated h (known \<union> cell_refs (hp_cell h a)) priv frozen"
  by (auto simp: isolated_def avoids_def)

text \<open>
  A copy has the contents of the original, in cells of its own (\<open>owned\<close>), except for what it
  does not copy (\<open>shared\<close>); the contents depend on no other cell, and both are reached from
  the pointer.
\<close>

locale deep_copy =
  fixes copy :: "heap \<Rightarrow> ptr \<Rightarrow> ptr \<times> heap"
    and contents :: "heap \<Rightarrow> ptr \<Rightarrow> 'v option"
    and owned :: "heap \<Rightarrow> ptr \<Rightarrow> addr set"
    and shared :: "heap \<Rightarrow> ptr \<Rightarrow> addr set"
  assumes root: "set_option p \<subseteq> owned h p"
    and reach: "avoids h P \<Longrightarrow> set_option p \<inter> P = {} \<Longrightarrow> (owned h p \<union> shared h p) \<inter> P = {}"
    and depends: "agree_on (owned h p \<union> shared h p) h h' \<Longrightarrow>
      contents h' p = contents h p \<and> owned h' p = owned h p \<and> shared h' p = shared h p"
    and copies: "avoids h (unallocated h) \<Longrightarrow> set_option p \<inter> unallocated h = {} \<Longrightarrow>
      contents h p = Some v \<Longrightarrow> copy h p = (p', h') \<Longrightarrow>
      grows (shared h p) h h' \<and> contents h' p' = Some v \<and> owned h' p' \<subseteq> gained h h' \<and>
      shared h' p' = shared h p"
begin

lemma kept_agree:
  "kept contents owned shared priv frozen h p v \<Longrightarrow> agree_on (priv \<union> frozen) h h' \<Longrightarrow>
     kept contents owned shared priv frozen h' p v"
  using depends [of h p h'] agree_on_subset [of "priv \<union> frozen" h h' "owned h p \<union> shared h p"]
  unfolding kept_def by auto

lemma kept_mono:
  "kept contents owned shared priv frozen h p v \<Longrightarrow> priv \<subseteq> priv' \<Longrightarrow> frozen \<subseteq> frozen' \<Longrightarrow>
     kept contents owned shared priv' frozen' h p v"
  by (auto simp: kept_def)

lemma copy_in:
  assumes iso: "isolated h known priv frozen" and p: "set_option p \<subseteq> known" "contents h p = Some v"
    and copy: "copy h p = (p', h')"
  shows "isolated h' known (priv \<union> gained h h') (frozen \<union> shared h p)"
    "kept contents owned shared (priv \<union> gained h h') (frozen \<union> shared h p) h' p' v"
    "grows UNIV h h'" "set_option p' \<subseteq> gained h h'"
proof -
  have clear: "set_option p \<inter> unallocated h = {}" "set_option p \<inter> (priv \<union> unallocated h) = {}"
    using iso p(1) by (auto simp: isolated_def)
  have c: "grows (shared h p) h h'" "contents h' p' = Some v" "owned h' p' \<subseteq> gained h h'"
    "shared h' p' = shared h p"
    using copies [OF _ clear(1) p(2) copy] iso by (auto simp: isolated_def)
  have sh: "shared h p \<inter> (priv \<union> unallocated h) = {}"
    using reach [OF _ clear(2)] iso by (auto simp: isolated_def)
  show "kept contents owned shared (priv \<union> gained h h') (frozen \<union> shared h p) h' p' v"
    using c by (auto simp: kept_def)
  show "grows UNIV h h'" using c(1) by (rule grows_mono) simp
  show "set_option p' \<subseteq> gained h h'" using c(3) root [of p' h'] by blast
  show "isolated h' known (priv \<union> gained h h') (frozen \<union> shared h p)"
    using iso sh isolated_grows [OF iso c(1)] by simp
qed

lemma copy_out:
  assumes iso: "isolated h known priv frozen" and p: "kept contents owned shared priv frozen h p v"
    and copy: "copy h p = (p', h')"
  shows "isolated h' (known \<union> set_option p') priv frozen" "contents h' p' = Some v" "grows UNIV h h'"
proof -
  have own: "contents h p = Some v" "set_option p \<inter> unallocated h = {}"
    using iso p root [of p h] by (auto simp: kept_def isolated_def)
  have c: "grows (shared h p) h h'" "contents h' p' = Some v" "owned h' p' \<subseteq> gained h h'"
    using copies [OF _ own(2,1) copy] iso by (auto simp: isolated_def)
  show "contents h' p' = Some v" by (rule c(2))
  show "grows UNIV h h'" using c(1) by (rule grows_mono) simp
  have "shared h p \<inter> (priv \<union> unallocated h) = {}" using iso p by (auto simp: kept_def isolated_def)
  then have "isolated h' (known \<union> gained h h') priv frozen" by (rule isolated_grows(2) [OF iso c(1)])
  moreover have "set_option p' \<subseteq> gained h h'" using c(3) root [of p' h'] by blast
  ultimately show "isolated h' (known \<union> set_option p') priv frozen"
    by (blast intro: isolated_known_mono)
qed

end

subsection \<open>The three copies keep the contract\<close>

definition incident_owned :: "heap \<Rightarrow> ptr \<Rightarrow> addr set" where
  "incident_owned h p =
     set_option p \<union>
     (case deref incident_in h p of
        None \<Rightarrow> {}
      | Some i \<Rightarrow> incident_refs i \<union> findings_owned h (gi_findings i))"

definition action_owned :: "heap \<Rightarrow> ptr \<Rightarrow> addr set" where
  "action_owned h p =
     set_option p \<union>
     (case deref action_in h p of
        None \<Rightarrow> {}
      | Some a \<Rightarrow> action_refs a \<union>
          (case deref decision_in h (ga_policy_decision a) of None \<Rightarrow> {} | Some d \<Rightarrow> slice_refs (gd_reasons d)) \<union>
          (case deref effect_in h (ga_simulated a) of None \<Rightarrow> {} | Some e \<Rightarrow> slice_refs (ge_affected_entities e)))"

definition entry_owned :: "heap \<Rightarrow> ptr \<Rightarrow> addr set" where
  "entry_owned h p =
     set_option p \<union> (case deref entry_in h p of None \<Rightarrow> {} | Some e \<Rightarrow> set_option (gn_details e))"

text \<open>The backing arrays of the lists in an entry's details: what the copy shares.\<close>

definition details_shared :: "heap \<Rightarrow> ptr \<Rightarrow> addr set" where
  "details_shared h p =
     (case deref details_in h p of None \<Rightarrow> {} | Some m \<Rightarrow> \<Union> ((detail_refs \<circ> snd) ` set m))"

definition entry_shared :: "heap \<Rightarrow> ptr \<Rightarrow> addr set" where
  "entry_shared h p = (case deref entry_in h p of None \<Rightarrow> {} | Some e \<Rightarrow> details_shared h (gn_details e))"

abbreviation nothing_shared :: "heap \<Rightarrow> ptr \<Rightarrow> addr set" where
  "nothing_shared h p \<equiv> {}"

lemma avoids_deref:
  "avoids h P \<Longrightarrow> set_option p \<inter> P = {} \<Longrightarrow> deref sel h p = Some x \<Longrightarrow>
     (\<And>c. sel c = Some x \<Longrightarrow> refs x \<subseteq> cell_refs c) \<Longrightarrow> refs x \<inter> P = {}"
  by (cases p) (fastforce simp: avoids_def deref_def)+

lemma avoids_findings:
  assumes "avoids h P" "slice_refs s \<inter> P = {}"
  shows "findings_owned h s \<inter> P = {}"
proof -
  have "finding_refs f \<inter> P = {}" if "f \<in> set (elements findings_in h s)" for f
  proof -
    obtain a where a: "sl_array s = Some a"
      using \<open>f \<in> set (elements findings_in h s)\<close> by (cases "sl_array s") (auto simp: elements_def)
    have "f \<in> set (findings_in (hp_cell h a))"
      using that by (simp add: elements_def a) (metis in_set_dropD in_set_takeD)
    then have "finding_refs f \<subseteq> cell_refs (hp_cell h a)" by (cases "hp_cell h a") auto
    moreover have "a \<notin> P" using a assms(2) by (auto simp: slice_refs_def)
    ultimately show ?thesis using assms(1) by (auto simp: avoids_def)
  qed
  then show ?thesis using assms(2) by (auto simp: findings_owned_def)
qed

lemma findings_agree:
  assumes "agree_on (findings_owned h s) h h'"
  shows "findings_value h' s = findings_value h s" "findings_owned h' s = findings_owned h s"
proof -
  have els: "elements findings_in h' s = elements findings_in h s"
    using assms by (auto intro: elements_agree simp: findings_owned_def)
  then show "findings_owned h' s = findings_owned h s" by (simp add: findings_owned_def)
  have "finding_value h' f = finding_value h f" if "f \<in> set (elements findings_in h s)" for f
    using assms that by (intro finding_value_agree agree_on_subset [OF assms]) (auto simp: findings_owned_def)
  then show "findings_value h' s = findings_value h s" using els by (simp add: findings_value_def)
qed

lemma incident_cell_refs: "incident_in c = Some i \<Longrightarrow> incident_refs i \<subseteq> cell_refs c"
  by (cases c) auto

lemma action_cell_refs: "action_in c = Some a \<Longrightarrow> action_refs a \<subseteq> cell_refs c"
  by (cases c) auto

lemma decision_cell_refs: "decision_in c = Some d \<Longrightarrow> slice_refs (gd_reasons d) \<subseteq> cell_refs c"
  by (cases c) auto

lemma effect_cell_refs: "effect_in c = Some e \<Longrightarrow> slice_refs (ge_affected_entities e) \<subseteq> cell_refs c"
  by (cases c) auto

lemma entry_cell_refs: "entry_in c = Some e \<Longrightarrow> set_option (gn_details e) \<subseteq> cell_refs c"
  by (cases c) auto

lemma details_cell_refs: "details_in c = Some m \<Longrightarrow> \<Union> ((detail_refs \<circ> snd) ` set m) \<subseteq> cell_refs c"
  by (cases c) auto

lemmas avoids_decision = avoids_deref [where sel = decision_in and refs = "\<lambda>d. slice_refs (gd_reasons d)",
    OF _ _ _ decision_cell_refs]
lemmas avoids_effect = avoids_deref [where sel = effect_in and refs = "\<lambda>e. slice_refs (ge_affected_entities e)",
    OF _ _ _ effect_cell_refs]
lemmas avoids_details = avoids_deref [where sel = details_in and refs = "\<lambda>m. \<Union> ((detail_refs \<circ> snd) ` set m)",
    OF _ _ _ details_cell_refs]

lemma incident_reach:
  assumes "avoids h P" "set_option p \<inter> P = {}"
  shows "(incident_owned h p \<union> nothing_shared h p) \<inter> P = {}"
proof (cases "deref incident_in h p")
  case (Some i)
  have refs: "incident_refs i \<inter> P = {}" by (rule avoids_deref [OF assms Some incident_cell_refs])
  moreover have "findings_owned h (gi_findings i) \<inter> P = {}"
    using refs by (intro avoids_findings [OF assms(1)]) (auto simp: incident_refs_def)
  ultimately show ?thesis using assms(2) Some by (auto simp: incident_owned_def)
qed (use assms(2) in \<open>simp add: incident_owned_def\<close>)

lemma incident_depends:
  assumes ag: "agree_on (incident_owned h p \<union> nothing_shared h p) h h'"
  shows "incident_value h' p = incident_value h p \<and> incident_owned h' p = incident_owned h p \<and>
    nothing_shared h' p = nothing_shared h p"
proof (cases "deref incident_in h p")
  case None
  have "deref incident_in h' p = None" using ag None by (simp add: incident_owned_def deref_agree [of p h h'])
  then show ?thesis using None by (simp add: incident_value_def incident_owned_def)
next
  case (Some i)
  have ag': "agree_on (set_option p) h h'" "agree_on (incident_refs i) h h'"
    "agree_on (findings_owned h (gi_findings i)) h h'"
    using ag Some by (simp_all add: incident_owned_def)
  have "struct_of_incident h' i = struct_of_incident h i"
    using ag'(2) findings_agree(1) [OF ag'(3)]
    by (simp add: struct_of_incident_def incident_refs_def elements_agree flip: findings_value_def)
  then show ?thesis
    using Some findings_agree(2) [OF ag'(3)]
    by (simp add: incident_value_def incident_owned_def deref_agree [OF ag'(1)])
qed

lemma action_reach:
  assumes "avoids h P" "set_option p \<inter> P = {}"
  shows "(action_owned h p \<union> nothing_shared h p) \<inter> P = {}"
proof (cases "deref action_in h p")
  case (Some a)
  have refs: "action_refs a \<inter> P = {}" by (rule avoids_deref [OF assms Some action_cell_refs])
  then have "set_option (ga_policy_decision a) \<inter> P = {}" "set_option (ga_simulated a) \<inter> P = {}"
    by (auto simp: action_refs_def)
  note reached = avoids_decision [OF assms(1) this(1)] avoids_effect [OF assms(1) this(2)]
  show ?thesis using assms(2) Some refs reached by (simp add: action_owned_def Int_Un_distrib2 split: option.split)
qed (use assms(2) in \<open>simp add: action_owned_def\<close>)

lemma action_depends:
  assumes ag: "agree_on (action_owned h p \<union> nothing_shared h p) h h'"
  shows "action_value h' p = action_value h p \<and> action_owned h' p = action_owned h p \<and>
    nothing_shared h' p = nothing_shared h p"
proof (cases "deref action_in h p")
  case None
  have "deref action_in h' p = None" using ag None by (simp add: action_owned_def deref_agree [of p h h'])
  then show ?thesis using None by (simp add: action_value_def action_owned_def)
next
  case (Some a)
  have p: "deref action_in h' p = Some a" using ag Some by (simp add: action_owned_def deref_agree [of p h h'])
  have refs: "deref decision_in h' (ga_policy_decision a) = deref decision_in h (ga_policy_decision a)"
    "deref effect_in h' (ga_simulated a) = deref effect_in h (ga_simulated a)"
    "deref time_in h' (ga_executed_at a) = deref time_in h (ga_executed_at a)"
    using ag Some by (simp_all add: action_owned_def action_refs_def deref_agree)
  have "map_option (decision_value h') (deref decision_in h (ga_policy_decision a)) =
      map_option (decision_value h) (deref decision_in h (ga_policy_decision a))"
    "map_option (effect_value h') (deref effect_in h (ga_simulated a)) =
      map_option (effect_value h) (deref effect_in h (ga_simulated a))"
    using ag Some
    by (auto simp: action_owned_def decision_value_def effect_value_def elements_agree split: option.splits
        intro!: option.map_cong0)
  then show ?thesis using Some p refs
    by (simp add: action_value_def action_owned_def struct_of_action_def)
qed

lemma entry_reach:
  assumes "avoids h P" "set_option p \<inter> P = {}"
  shows "(entry_owned h p \<union> entry_shared h p) \<inter> P = {}"
proof (cases "deref entry_in h p")
  case (Some e)
  have refs: "set_option (gn_details e) \<inter> P = {}" by (rule avoids_deref [OF assms Some entry_cell_refs])
  then have "deref details_in h (gn_details e) = Some m \<Longrightarrow> \<Union> ((detail_refs \<circ> snd) ` set m) \<inter> P = {}" for m
    by (rule avoids_details [OF assms(1)])
  then show ?thesis using assms(2) Some refs
    by (auto simp: entry_owned_def entry_shared_def details_shared_def split: option.split)
qed (use assms(2) in \<open>simp add: entry_owned_def entry_shared_def\<close>)

lemma detail_value_agree: "agree_on (detail_refs d) h h' \<Longrightarrow> detail_value h' d = detail_value h d"
  by (cases d) (simp_all add: elements_agree)

lemma details_agree:
  assumes "agree_on (set_option p \<union> details_shared h p) h h'"
  shows "details_value h' p = details_value h p" "details_shared h' p = details_shared h p"
proof -
  have d: "deref details_in h' p = deref details_in h p" using assms by (intro deref_agree) simp
  then show "details_shared h' p = details_shared h p" by (simp add: details_shared_def)
  show "details_value h' p = details_value h p"
  proof (cases "deref details_in h p")
    case (Some m)
    have "detail_refs (snd kx) \<subseteq> details_shared h p" if "kx \<in> set m" for kx
      using that Some by (auto simp: details_shared_def)
    then have "detail_value h' (snd kx) = detail_value h (snd kx)" if "kx \<in> set m" for kx
      using assms that by (meson agree_on_Un agree_on_subset detail_value_agree)
    then show ?thesis by (simp add: details_value_def d Some case_prod_unfold)
  qed (simp add: details_value_def d)
qed

lemma entry_depends:
  assumes ag: "agree_on (entry_owned h p \<union> entry_shared h p) h h'"
  shows "entry_value h' p = entry_value h p \<and> entry_owned h' p = entry_owned h p \<and>
    entry_shared h' p = entry_shared h p"
proof (cases "deref entry_in h p")
  case None
  have "deref entry_in h' p = None" using ag None by (simp add: entry_owned_def deref_agree [of p h h'])
  then show ?thesis using None by (simp add: entry_value_def entry_owned_def entry_shared_def)
next
  case (Some e)
  have "deref entry_in h' p = Some e" using ag Some by (simp add: entry_owned_def deref_agree [of p h h'])
  then show ?thesis using Some details_agree [of "gn_details e" h h'] ag
    by (simp add: entry_value_def entry_owned_def entry_shared_def struct_of_entry_def)
qed

text \<open>A slice of \<open>h\<close> that holds what \<open>s\<close> held in \<open>h0\<close>, in an array allocated since.\<close>

definition copied_slice :: "(cell \<Rightarrow> 'a list) \<Rightarrow> heap \<Rightarrow> slice \<Rightarrow> heap \<Rightarrow> slice \<Rightarrow> bool" where
  "copied_slice sel h0 s h s' \<longleftrightarrow>
     elements sel h s' = elements sel h0 s \<and> slice_refs s' \<subseteq> gained h0 h"

lemma append_stage:
  assumes "append_to_nil mk (elements sel h s) h = (s', h1)" "grows {} h0 h"
    and "slice_refs s \<inter> unallocated h0 = {}" "\<And>ys. sel (mk ys) = ys" "\<And>ys. cell_refs (mk ys) = {}"
  shows "grows {} h0 h1 \<and> grows {} h h1 \<and> copied_slice sel h0 s h1 s'"
proof -
  note new = append_to_nil_new [OF assms(1,4,5)]
  have "elements sel h s = elements sel h0 s" by (rule elements_agree [OF grows_agree [OF assms(2,3)]])
  then show ?thesis
    using new(1-3) grows_trans [OF assms(2) new(1)] grows_next [OF assms(2)]
    by (auto simp: copied_slice_def gained_def)
qed

lemma copied_slice_grows:
  assumes "copied_slice sel h0 s h s'" "grows S h h1"
  shows "copied_slice sel h0 s h1 s'"
proof -
  have "agree_on (slice_refs s') h h1"
    using assms by (intro grows_agree [OF assms(2)]) (auto simp: copied_slice_def gained_def unallocated_def)
  then show ?thesis
    using assms elements_agree [of s' h h1 sel] by (auto simp: copied_slice_def gained_def grows_def)
qed

lemma allocate_grows: "allocate c h = (a, h') \<Longrightarrow> grows UNIV h h'"
  by (auto simp: allocate_def grows_def agree_on_def unallocated_def)

lemma findings_copied_grows:
  assumes "findings_owned h s \<subseteq> gained h0 h" "grows S h h'"
  shows "findings_value h' s = findings_value h s" "findings_owned h' s \<subseteq> gained h0 h'"
proof -
  have "agree_on (findings_owned h s) h h'"
    using assms(1) by (intro grows_agree [OF assms(2)]) (auto simp: gained_def unallocated_def)
  note ag = findings_agree [OF this]
  show "findings_value h' s = findings_value h s" by (rule ag(1))
  show "findings_owned h' s \<subseteq> gained h0 h'"
    using assms ag(2) by (auto simp: gained_def grows_def)
qed

text \<open>The slices of the copied incident just before the incident itself is placed.\<close>

definition slices_copied :: "heap \<Rightarrow> go_incident \<Rightarrow> heap \<Rightarrow> go_incident \<Rightarrow> bool" where
  "slices_copied h0 i h j \<longleftrightarrow>
     findings_value h (gi_findings j) = findings_value h0 (gi_findings i) \<and>
     findings_owned h (gi_findings j) \<subseteq> gained h0 h \<and>
     copied_slice entity_refs_in h0 (gi_entities i) h (gi_entities j) \<and>
     copied_slice techniques_in h0 (gi_attack_techniques i) h (gi_attack_techniques j) \<and>
     copied_slice recommended_in h0 (gi_recommended_actions i) h (gi_recommended_actions j) \<and>
     copied_slice evidence_in h0 (gi_evidence i) h (gi_evidence j) \<and>
     copied_slice reachable_in h0 (gb_reachable (gi_blast_radius i)) h (gb_reachable (gi_blast_radius j))"

lemma slices_copied_grows: "slices_copied h0 i h j \<Longrightarrow> grows S h h' \<Longrightarrow> slices_copied h0 i h' j"
  unfolding slices_copied_def
  by (intro conjI) (simp_all add: copied_slice_grows [of _ h0 _ h _ S h'] findings_copied_grows [of h _ h0 S h'])

lemma incident_stages:
  assumes ok: "avoids h (unallocated h)" and refs: "incident_refs i \<inter> unallocated h = {}"
    and i: "deref incident_in h p = Some i" and copy: "deep_copy_incident h p = (p', h')"
  obtains h6 fs es ts rs vs bs a where
    "allocate (IncidentCell (i\<lparr>gi_findings := fs, gi_entities := es, gi_attack_techniques := ts,
      gi_recommended_actions := rs, gi_evidence := vs,
      gi_blast_radius := (gi_blast_radius i)\<lparr>gb_reachable := bs\<rparr>\<rparr>)) h6 = (a, h')" "p' = Some a"
    "grows {} h h6"
    "slices_copied h i h6 (i\<lparr>gi_findings := fs, gi_entities := es, gi_attack_techniques := ts,
      gi_recommended_actions := rs, gi_evidence := vs,
      gi_blast_radius := (gi_blast_radius i)\<lparr>gb_reachable := bs\<rparr>\<rparr>)"
proof -
  have old: "slice_refs (gi_entities i) \<inter> unallocated h = {}"
    "slice_refs (gi_attack_techniques i) \<inter> unallocated h = {}"
    "slice_refs (gi_recommended_actions i) \<inter> unallocated h = {}"
    "slice_refs (gi_evidence i) \<inter> unallocated h = {}"
    "slice_refs (gb_reachable (gi_blast_radius i)) \<inter> unallocated h = {}"
    "slice_refs (gi_findings i) \<inter> unallocated h = {}"
    using refs by (simp_all add: incident_refs_def Int_Un_distrib2)
  obtain fs h1 where 1: "copy_findings h (gi_findings i) = (fs, h1)" by (metis surj_pair)
  obtain es h2 where 2: "append_to_nil EntityRefArray (elements entity_refs_in h1 (gi_entities i)) h1 = (es, h2)"
    by (metis surj_pair)
  obtain ts h3 where 3: "append_to_nil TechniqueArray (elements techniques_in h2 (gi_attack_techniques i)) h2 = (ts, h3)"
    by (metis surj_pair)
  obtain rs h4 where 4: "append_to_nil RecommendedArray (elements recommended_in h3 (gi_recommended_actions i)) h3 = (rs, h4)"
    by (metis surj_pair)
  obtain vs h5 where 5: "append_to_nil EvidenceArray (elements evidence_in h4 (gi_evidence i)) h4 = (vs, h5)"
    by (metis surj_pair)
  obtain bs h6 where 6: "append_to_nil ReachableArray (elements reachable_in h5 (gb_reachable (gi_blast_radius i))) h5 = (bs, h6)"
    by (metis surj_pair)
  obtain a where last: "allocate (IncidentCell (i\<lparr>gi_findings := fs, gi_entities := es, gi_attack_techniques := ts,
      gi_recommended_actions := rs, gi_evidence := vs,
      gi_blast_radius := (gi_blast_radius i)\<lparr>gb_reachable := bs\<rparr>\<rparr>)) h6 = (a, h')" "p' = Some a"
    using copy by (simp add: deep_copy_incident_def i 1 2 3 4 5 6 split: prod.splits)
  note f = copy_findings_new [OF 1 avoids_findings [OF ok old(6)]]
  note e = append_stage [OF 2 f(1) old(1), simplified]
  note t = append_stage [OF 3 e [THEN conjunct1] old(2), simplified]
  note r = append_stage [OF 4 t [THEN conjunct1] old(3), simplified]
  note w = append_stage [OF 5 r [THEN conjunct1] old(4), simplified]
  note b = append_stage [OF 6 w [THEN conjunct1] old(5), simplified]
  note g5 = b [THEN conjunct2, THEN conjunct1]
  note g4 = grows_trans [OF w [THEN conjunct2, THEN conjunct1] g5]
  note g3 = grows_trans [OF r [THEN conjunct2, THEN conjunct1] g4]
  note g2 = grows_trans [OF t [THEN conjunct2, THEN conjunct1] g3]
  note g1 = grows_trans [OF e [THEN conjunct2, THEN conjunct1] g2]
  show ?thesis
    by (rule that [OF last b [THEN conjunct1]])
      (use f(2) findings_copied_grows [OF f(3) g1] copied_slice_grows [OF e [THEN conjunct2, THEN conjunct2] g2]
        copied_slice_grows [OF t [THEN conjunct2, THEN conjunct2] g3]
        copied_slice_grows [OF r [THEN conjunct2, THEN conjunct2] g4]
        copied_slice_grows [OF w [THEN conjunct2, THEN conjunct2] g5] b in \<open>simp add: slices_copied_def\<close>)
qed

lemma incident_copies:
  assumes ok: "avoids h (unallocated h)" "set_option p \<inter> unallocated h = {}"
    and v: "incident_value h p = Some v" and copy: "deep_copy_incident h p = (p', h')"
  shows "grows (nothing_shared h p) h h' \<and> incident_value h' p' = Some v \<and>
    incident_owned h' p' \<subseteq> gained h h' \<and> nothing_shared h' p' = nothing_shared h p"
proof -
  obtain i where i: "deref incident_in h p = Some i" "v = struct_of_incident h i"
    using v by (auto simp: incident_value_def)
  have refs: "incident_refs i \<inter> unallocated h = {}" by (rule avoids_deref [OF ok i(1) incident_cell_refs])
  obtain h6 fs es ts rs vs bs a j where last: "allocate (IncidentCell j) h6 = (a, h')" "p' = Some a"
    and j: "j = i\<lparr>gi_findings := fs, gi_entities := es, gi_attack_techniques := ts,
      gi_recommended_actions := rs, gi_evidence := vs,
      gi_blast_radius := (gi_blast_radius i)\<lparr>gb_reachable := bs\<rparr>\<rparr>"
    and g: "grows {} h h6" "slices_copied h i h6 j"
    using incident_stages [OF ok(1) refs i(1) copy] by metis
  have copied: "slices_copied h i h' j" by (rule slices_copied_grows [OF g(2) allocate_grows [OF last(1)]])
  have "incident_refs j \<subseteq> gained h h6"
    using g(2) by (auto simp: slices_copied_def copied_slice_def findings_owned_def incident_refs_def)
  then have grown: "grows {} h h'" by (intro grows_allocate [OF last(1) _ g(1)]) simp
  have p': "deref incident_in h' p' = Some j" using last allocate_cell(2) [OF last(1)] by (simp add: deref_def)
  have "struct_of_incident h' j = struct_of_incident h i"
    using copied unfolding struct_of_incident_def slices_copied_def copied_slice_def findings_value_def j
    by simp
  moreover have "a \<in> gained h h'"
    using allocate_cell [OF last(1)] grows_next [OF g(1)] by (simp add: gained_def)
  ultimately show ?thesis
    using grown p' copied last(2) i(2)
    by (auto simp: incident_value_def incident_owned_def slices_copied_def copied_slice_def
        incident_refs_def findings_owned_def)
qed

interpretation incident_copy: deep_copy deep_copy_incident incident_value incident_owned nothing_shared
proof unfold_locales
  show "set_option p \<subseteq> incident_owned h p" for p h by (simp add: incident_owned_def)
qed (rule incident_reach incident_depends incident_copies; assumption)+

text \<open>
  What an action points to is copied one by one: the pointer given out leads to the same contents,
  in cells of its own.
\<close>

definition copied_ptr :: "(heap \<Rightarrow> ptr \<Rightarrow> 'b) \<Rightarrow> (heap \<Rightarrow> ptr \<Rightarrow> addr set) \<Rightarrow> heap \<Rightarrow> ptr \<Rightarrow> heap \<Rightarrow> ptr \<Rightarrow> bool" where
  "copied_ptr contents reached h0 p h p' \<longleftrightarrow>
     contents h p' = contents h0 p \<and> set_option p' \<union> reached h p' \<subseteq> gained h0 h"

definition decision_contents :: "heap \<Rightarrow> ptr \<Rightarrow> policy_decision option" where
  "decision_contents h p = map_option (decision_value h) (deref decision_in h p)"

definition decision_reached :: "heap \<Rightarrow> ptr \<Rightarrow> addr set" where
  "decision_reached h p = (case deref decision_in h p of None \<Rightarrow> {} | Some d \<Rightarrow> slice_refs (gd_reasons d))"

definition effect_contents :: "heap \<Rightarrow> ptr \<Rightarrow> simulated_effect option" where
  "effect_contents h p = map_option (effect_value h) (deref effect_in h p)"

definition effect_reached :: "heap \<Rightarrow> ptr \<Rightarrow> addr set" where
  "effect_reached h p = (case deref effect_in h p of None \<Rightarrow> {} | Some e \<Rightarrow> slice_refs (ge_affected_entities e))"

lemma decision_agree:
  "agree_on (set_option p \<union> decision_reached h p) h h' \<Longrightarrow>
     decision_contents h' p = decision_contents h p \<and> decision_reached h' p = decision_reached h p"
  by (cases "deref decision_in h p")
    (simp_all add: decision_contents_def decision_reached_def deref_agree [of p h h'] decision_value_def
      elements_agree [of _ h h'])

lemma effect_agree:
  "agree_on (set_option p \<union> effect_reached h p) h h' \<Longrightarrow>
     effect_contents h' p = effect_contents h p \<and> effect_reached h' p = effect_reached h p"
  by (cases "deref effect_in h p")
    (simp_all add: effect_contents_def effect_reached_def deref_agree [of p h h'] effect_value_def
      elements_agree [of _ h h'])

lemma copied_ptr_grows:
  assumes "copied_ptr contents reached h0 p h p'" "grows S h h1"
    and "agree_on (set_option p' \<union> reached h p') h h1 \<Longrightarrow>
      contents h1 p' = contents h p' \<and> reached h1 p' = reached h p'"
  shows "copied_ptr contents reached h0 p h1 p'"
proof -
  have "agree_on (set_option p' \<union> reached h p') h h1"
    using assms(1) by (intro grows_agree [OF assms(2)]) (auto simp: copied_ptr_def gained_def unallocated_def)
  then show ?thesis using assms by (auto simp: copied_ptr_def gained_def grows_def)
qed

text \<open>One struct placed behind a new pointer, after its slices.\<close>

lemma place_struct:
  assumes "allocate c h = (a, h')" "grows {} h0 h" "cell_refs c \<subseteq> gained h0 h"
  shows "grows {} h0 h'" "a \<in> gained h0 h'" "grows UNIV h h'" "hp_cell h' a = c"
    "gained h0 h \<subseteq> gained h0 h'" "hp_next h \<le> hp_next h'"
  using grows_allocate [OF assms(1) _ assms(2)] allocate_cell [OF assms(1)] assms(2,3)
    allocate_grows [OF assms(1)] grows_next [OF assms(2)]
  by (auto simp: gained_def)

text \<open>A pointer to a struct with one slice of strings, copied as the code copies it.\<close>

definition copy_struct ::
  "(cell \<Rightarrow> 'a option) \<Rightarrow> ('a \<Rightarrow> cell) \<Rightarrow> ('a \<Rightarrow> slice) \<Rightarrow> (slice \<Rightarrow> 'a \<Rightarrow> 'a) \<Rightarrow> heap \<Rightarrow> ptr \<Rightarrow> ptr \<times> heap" where
  "copy_struct sel mk field set_field h p =
     (case deref sel h p of
        None \<Rightarrow> (None, h)
      | Some x \<Rightarrow>
          let (s, h1) = append_to_nil StringArray (elements strings_in h (field x)) h;
              (a, h2) = allocate (mk (set_field s x)) h1
          in (Some a, h2))"

lemma copy_decision_struct:
  "copy_decision = copy_struct decision_in DecisionCell gd_reasons (\<lambda>s d. d\<lparr>gd_reasons := s\<rparr>)"
  by (intro ext) (simp add: copy_decision_def copy_struct_def)

lemma copy_effect_struct:
  "copy_effect = copy_struct effect_in EffectCell ge_affected_entities (\<lambda>s e. e\<lparr>ge_affected_entities := s\<rparr>)"
  by (intro ext) (simp add: copy_effect_def copy_struct_def)

lemma copy_struct_stage:
  assumes copy: "copy_struct sel mk field set_field h p = (p', h1)" and g: "grows {} h0 h"
    and old: "set_option p \<inter> unallocated h0 = {}"
      "\<And>x. deref sel h0 p = Some x \<Longrightarrow> slice_refs (field x) \<inter> unallocated h0 = {}"
    and struct: "\<And>x. sel (mk x) = Some x" "\<And>s x. cell_refs (mk (set_field s x)) = slice_refs s"
  shows "grows {} h0 h1 \<and> grows UNIV h h1 \<and> set_option p' \<subseteq> gained h0 h1 \<and>
    (case deref sel h0 p of
       None \<Rightarrow> p' = None
     | Some x \<Rightarrow> \<exists>s. deref sel h1 p' = Some (set_field s x) \<and> copied_slice strings_in h0 (field x) h1 s)"
proof -
  have same: "deref sel h p = deref sel h0 p" by (rule deref_agree [OF grows_agree [OF g old(1)]])
  show ?thesis
  proof (cases "deref sel h0 p")
    case None
    then show ?thesis using copy g same by (simp add: copy_struct_def)
  next
    case (Some x)
    obtain s h2 where 1: "append_to_nil StringArray (elements strings_in h (field x)) h = (s, h2)"
      by (metis surj_pair)
    obtain a where 2: "allocate (mk (set_field s x)) h2 = (a, h1)" "p' = Some a"
      using copy by (auto simp: copy_struct_def same Some 1 split: prod.splits)
    note slice = append_stage [OF 1 g old(2) [OF Some], simplified]
    have "cell_refs (mk (set_field s x)) \<subseteq> gained h0 h2" using slice struct(2) by (simp add: copied_slice_def)
    note placed = place_struct [OF 2(1) slice [THEN conjunct1] this]
    have "copied_slice strings_in h0 (field x) h1 s"
      by (rule copied_slice_grows [OF slice [THEN conjunct2, THEN conjunct2] placed(3)])
    moreover have "deref sel h1 p' = Some (set_field s x)"
      using placed(4) 2(2) struct(1) by (simp add: deref_def)
    moreover have "grows UNIV h h1" using slice placed(3) by (meson grows_mono grows_trans subset_UNIV)
    ultimately show ?thesis using Some placed(1,2) 2(2) by auto
  qed
qed

lemma copy_decision_stage:
  assumes copy: "copy_decision h p = (p', h1)" and g: "grows {} h0 h"
    and old: "set_option p \<inter> unallocated h0 = {}" "decision_reached h0 p \<inter> unallocated h0 = {}"
  shows "grows {} h0 h1 \<and> grows UNIV h h1 \<and> copied_ptr decision_contents decision_reached h0 p h1 p'"
proof -
  have "slice_refs (gd_reasons d) \<inter> unallocated h0 = {}" if "deref decision_in h0 p = Some d" for d
    using old(2) that by (simp add: decision_reached_def)
  note s = copy_struct_stage [OF copy [unfolded copy_decision_struct] g old(1) this, simplified]
  show ?thesis
    using s by (cases "deref decision_in h0 p")
      (auto simp: copied_ptr_def decision_contents_def decision_reached_def decision_value_def copied_slice_def deref_def)
qed

lemma copy_effect_stage:
  assumes copy: "copy_effect h p = (p', h1)" and g: "grows {} h0 h"
    and old: "set_option p \<inter> unallocated h0 = {}" "effect_reached h0 p \<inter> unallocated h0 = {}"
  shows "grows {} h0 h1 \<and> grows UNIV h h1 \<and> copied_ptr effect_contents effect_reached h0 p h1 p'"
proof -
  have "slice_refs (ge_affected_entities e) \<inter> unallocated h0 = {}" if "deref effect_in h0 p = Some e" for e
    using old(2) that by (simp add: effect_reached_def)
  note s = copy_struct_stage [OF copy [unfolded copy_effect_struct] g old(1) this, simplified]
  show ?thesis
    using s by (cases "deref effect_in h0 p")
      (auto simp: copied_ptr_def effect_contents_def effect_reached_def effect_value_def copied_slice_def deref_def)
qed

lemma copy_time_stage:
  assumes copy: "copy_time h p = (p', h1)" and g: "grows {} h0 h" and old: "set_option p \<inter> unallocated h0 = {}"
  shows "grows {} h0 h1 \<and> grows UNIV h h1 \<and> copied_ptr (deref time_in) nothing_shared h0 p h1 p'"
proof -
  have same: "deref time_in h p = deref time_in h0 p" by (rule deref_agree [OF grows_agree [OF g old]])
  show ?thesis
  proof (cases "deref time_in h p")
    case None
    then show ?thesis using copy g same by (simp add: copy_time_def copied_ptr_def deref_def)
  next
    case (Some t)
    obtain a where 2: "allocate (TimeCell t) h = (a, h1)" "p' = Some a"
      using copy by (auto simp: copy_time_def Some split: prod.splits)
    note placed = place_struct [OF 2(1) g, simplified]
    show ?thesis using placed Some same 2(2) by (simp add: copied_ptr_def deref_def)
  qed
qed

lemma time_agree:
  "agree_on (set_option p \<union> nothing_shared h p) h h' \<Longrightarrow>
     deref time_in h' p = deref time_in h p \<and> nothing_shared h' p = nothing_shared h p"
  by (simp add: deref_agree)

lemma action_copies:
  assumes ok: "avoids h (unallocated h)" "set_option p \<inter> unallocated h = {}"
    and v: "action_value h p = Some v" and copy: "deep_copy_action h p = (p', h')"
  shows "grows (nothing_shared h p) h h' \<and> action_value h' p' = Some v \<and>
    action_owned h' p' \<subseteq> gained h h' \<and> nothing_shared h' p' = nothing_shared h p"
proof -
  obtain x where x: "deref action_in h p = Some x" "v = struct_of_action h x"
    using v by (auto simp: action_value_def)
  have old: "set_option (ga_policy_decision x) \<inter> unallocated h = {}" "set_option (ga_simulated x) \<inter> unallocated h = {}"
    "set_option (ga_executed_at x) \<inter> unallocated h = {}" "decision_reached h (ga_policy_decision x) \<inter> unallocated h = {}"
    "effect_reached h (ga_simulated x) \<inter> unallocated h = {}"
    using action_reach [OF ok] x(1)
    by (simp_all add: action_owned_def action_refs_def decision_reached_def effect_reached_def Int_Un_distrib2)
  obtain d h1 where 1: "copy_decision h (ga_policy_decision x) = (d, h1)" by (metis surj_pair)
  obtain e h2 where 2: "copy_effect h1 (ga_simulated x) = (e, h2)" by (metis surj_pair)
  obtain t h3 where 3: "copy_time h2 (ga_executed_at x) = (t, h3)" by (metis surj_pair)
  define y where "y = x\<lparr>ga_policy_decision := d, ga_simulated := e, ga_executed_at := t\<rparr>"
  obtain b where last: "allocate (ActionCell y) h3 = (b, h')" "p' = Some b"
    using copy by (auto simp: deep_copy_action_def x(1) 1 2 3 y_def split: prod.splits)
  note s1 = copy_decision_stage [OF 1 grows_refl old(1,4)]
  note s2 = copy_effect_stage [OF 2 s1 [THEN conjunct1] old(2,5)]
  note s3 = copy_time_stage [OF 3 s2 [THEN conjunct1] old(3)]
  note last_grows = allocate_grows [OF last(1)]
  note g23 = s3 [THEN conjunct2, THEN conjunct1] and g12 = s2 [THEN conjunct2, THEN conjunct1]
  note d3 = copied_ptr_grows [OF s1 [THEN conjunct2, THEN conjunct2] grows_trans [OF g12 g23] decision_agree]
  note e3 = copied_ptr_grows [OF s2 [THEN conjunct2, THEN conjunct2] g23 effect_agree]
  note t3 = s3 [THEN conjunct2, THEN conjunct2]
  have refs: "action_refs y \<subseteq> gained h h3"
    using d3 e3 t3 by (simp add: copied_ptr_def action_refs_def y_def)
  note placed = place_struct [OF last(1) s3 [THEN conjunct1]]
  have "copied_ptr decision_contents decision_reached h (ga_policy_decision x) h' d"
    by (rule copied_ptr_grows [OF d3 last_grows decision_agree])
  moreover have "copied_ptr effect_contents effect_reached h (ga_simulated x) h' e"
    by (rule copied_ptr_grows [OF e3 last_grows effect_agree])
  moreover have "copied_ptr (deref time_in) nothing_shared h (ga_executed_at x) h' t"
    by (rule copied_ptr_grows [OF t3 last_grows time_agree])
  moreover have "deref action_in h' p' = Some y" using placed(4) last(2) refs by (simp add: deref_def)
  ultimately show ?thesis
    using placed refs last(2) x(2)
    by (simp add: action_value_def struct_of_action_def action_owned_def action_refs_def y_def copied_ptr_def
        flip: decision_contents_def effect_contents_def decision_reached_def effect_reached_def)
qed

interpretation action_copy: deep_copy deep_copy_action action_value action_owned nothing_shared
proof unfold_locales
  show "set_option p \<subseteq> action_owned h p" for p h by (simp add: action_owned_def)
qed (rule action_reach action_depends action_copies; assumption)+

text \<open>The copied map of details holds what the original held, lists and all.\<close>

lemma copy_details_new:
  assumes copy: "copy_details h p = (p', h')" and old: "set_option p \<inter> unallocated h = {}"
    and lists: "details_shared h p \<inter> unallocated h = {}"
  shows "grows (details_shared h p) h h' \<and> details_value h' p' = details_value h p \<and>
    details_shared h' p' = details_shared h p \<and> set_option p' \<subseteq> gained h h'"
proof (cases "deref details_in h p")
  case None
  then show ?thesis using copy
    by (simp add: copy_details_def details_value_def details_shared_def deref_def)
next
  case (Some m)
  obtain a where a: "allocate (DetailsMap m) h = (a, h')" "p' = Some a"
    using copy by (auto simp: copy_details_def Some split: prod.splits)
  have g: "grows (details_shared h p) h h'"
    by (rule grows_allocate [OF a(1)]) (auto simp: details_shared_def Some)
  have new: "deref details_in h' p' = Some m" using allocate_cell [OF a(1)] a(2) by (simp add: deref_def)
  have "agree_on (set_option p \<union> details_shared h p) h h'"
    using old lists by (intro grows_agree [OF g]) (simp add: Int_Un_distrib2)
  note ag = details_agree [OF this]
  have "deref details_in h' p = Some m"
    using Some by (simp add: deref_agree [OF grows_agree [OF g old]])
  then have "details_value h' p' = details_value h p" "details_shared h' p' = details_shared h p"
    using ag new by (simp_all add: details_value_def details_shared_def)
  then show ?thesis using g allocate_cell [OF a(1)] a(2) by (simp add: gained_def)
qed

lemma entry_copies:
  assumes ok: "avoids h (unallocated h)" "set_option p \<inter> unallocated h = {}"
    and v: "entry_value h p = Some v" and copy: "deep_copy_entry h p = (p', h')"
  shows "grows (entry_shared h p) h h' \<and> entry_value h' p' = Some v \<and>
    entry_owned h' p' \<subseteq> gained h h' \<and> entry_shared h' p' = entry_shared h p"
proof -
  obtain e where e: "deref entry_in h p = Some e" "v = struct_of_entry h e"
    using v by (auto simp: entry_value_def)
  have old: "set_option (gn_details e) \<inter> unallocated h = {}" "details_shared h (gn_details e) \<inter> unallocated h = {}"
    using entry_reach [OF ok] e(1) by (simp_all add: entry_owned_def entry_shared_def Int_Un_distrib2)
  obtain d h1 where 1: "copy_details h (gn_details e) = (d, h1)" by (metis surj_pair)
  define y where "y = e\<lparr>gn_details := d\<rparr>"
  obtain b where last: "allocate (EntryCell y) h1 = (b, h')" "p' = Some b"
    using copy by (auto simp: deep_copy_entry_def e(1) 1 y_def split: prod.splits)
  have s: "grows (details_shared h (gn_details e)) h h1" "details_value h1 d = details_value h (gn_details e)"
    "details_shared h1 d = details_shared h (gn_details e)" "set_option d \<subseteq> gained h h1"
    using copy_details_new [OF 1 old] by simp_all
  have g: "grows (details_shared h (gn_details e)) h h'"
    using s(4) by (intro grows_allocate [OF last(1) _ s(1)]) (auto simp: y_def)
  have "agree_on (set_option d \<union> details_shared h1 d) h1 h'"
    using s(3,4) old(2) grows_next [OF s(1)]
    by (intro grows_agree [OF allocate_grows [OF last(1)]]) (auto simp: gained_def unallocated_def)
  note ag = details_agree [OF this]
  moreover have "deref entry_in h' p' = Some y" using allocate_cell [OF last(1)] last(2) by (simp add: deref_def)
  moreover have "insert b (set_option d) \<subseteq> gained h h'"
    using s(4) allocate_cell [OF last(1)] grows_next [OF s(1)] by (auto simp: gained_def)
  ultimately show ?thesis
    using g s(2,3) last(2) e
    by (simp add: entry_value_def struct_of_entry_def entry_owned_def entry_shared_def y_def)
qed

interpretation entry_copy: deep_copy deep_copy_entry entry_value entry_owned entry_shared
proof unfold_locales
  show "set_option p \<subseteq> entry_owned h p" for p h by (simp add: entry_owned_def)
qed (rule entry_reach entry_depends entry_copies; assumption)+

text \<open>The copy of an event owns its struct and shares the rest.\<close>

definition struct_owned :: "heap \<Rightarrow> ptr \<Rightarrow> addr set" where
  "struct_owned h p = set_option p"

definition event_shared :: "heap \<Rightarrow> ptr \<Rightarrow> addr set" where
  "event_shared h p =
     (case deref event_in h p of
        None \<Rightarrow> {}
      | Some e \<Rightarrow> event_refs e \<union>
          (case deref device_in h (gv_device e) of None \<Rightarrow> {} | Some d \<Rightarrow> device_refs d))"

lemma event_cell_refs: "event_in c = Some e \<Longrightarrow> event_refs e \<subseteq> cell_refs c"
  by (cases c) auto

lemma device_cell_refs: "device_in c = Some d \<Longrightarrow> device_refs d \<subseteq> cell_refs c"
  by (cases c) auto

lemma event_reach:
  assumes "avoids h P" "set_option p \<inter> P = {}"
  shows "(struct_owned h p \<union> event_shared h p) \<inter> P = {}"
proof (cases "deref event_in h p")
  case (Some e)
  have refs: "event_refs e \<inter> P = {}" by (rule avoids_deref [OF assms Some event_cell_refs])
  then have "set_option (gv_device e) \<inter> P = {}" by (auto simp: event_refs_def)
  note device = avoids_deref [where sel = device_in and refs = device_refs, OF assms(1) this _ device_cell_refs]
  show ?thesis using assms(2) Some refs device
    by (simp add: struct_owned_def event_shared_def Int_Un_distrib2 split: option.split)
qed (use assms(2) in \<open>simp add: struct_owned_def event_shared_def\<close>)

lemma event_depends:
  assumes ag: "agree_on (struct_owned h p \<union> event_shared h p) h h'"
  shows "event_value h' p = event_value h p \<and> struct_owned h' p = struct_owned h p \<and>
    event_shared h' p = event_shared h p"
proof (cases "deref event_in h p")
  case None
  have "deref event_in h' p = None"
    using ag None by (simp add: struct_owned_def deref_agree [of p h h'])
  then show ?thesis using None by (simp add: event_value_def struct_owned_def event_shared_def)
next
  case (Some e)
  have p: "deref event_in h' p = Some e"
    using ag Some by (simp add: struct_owned_def deref_agree [of p h h'])
  have refs: "agree_on (event_refs e) h h'"
    and device: "\<And>d. deref device_in h (gv_device e) = Some d \<Longrightarrow> agree_on (device_refs d) h h'"
    using ag Some by (simp_all add: event_shared_def)
  have d: "deref device_in h' (gv_device e) = deref device_in h (gv_device e)"
    using refs by (intro deref_agree) (simp add: event_refs_def)
  have "map_option (device_value h') (deref device_in h (gv_device e)) =
      map_option (device_value h) (deref device_in h (gv_device e))"
    using device by (cases "deref device_in h (gv_device e)")
      (simp_all add: device_value_def device_refs_def deref_agree [of _ h h'])
  then have "struct_of_event h' e = struct_of_event h e"
    using refs d by (simp add: struct_of_event_def event_refs_def deref_agree [of _ h h'] elements_agree [of _ h h'])
  then show ?thesis using Some p d by (simp add: event_value_def struct_owned_def event_shared_def)
qed

lemma event_copies:
  assumes ok: "avoids h (unallocated h)" "set_option p \<inter> unallocated h = {}"
    and v: "event_value h p = Some v" and copy: "shallow_copy_event h p = (p', h')"
  shows "grows (event_shared h p) h h' \<and> event_value h' p' = Some v \<and>
    struct_owned h' p' \<subseteq> gained h h' \<and> event_shared h' p' = event_shared h p"
proof -
  obtain e where e: "deref event_in h p = Some e" "v = struct_of_event h e"
    using v by (auto simp: event_value_def)
  obtain a where a: "allocate (EventCell e) h = (a, h')" "p' = Some a"
    using copy by (auto simp: shallow_copy_event_def e(1) split: prod.splits)
  have g: "grows (event_shared h p) h h'"
    by (rule grows_allocate [OF a(1)]) (auto simp: event_shared_def e(1))
  have "agree_on (struct_owned h p \<union> event_shared h p) h h'" by (rule grows_agree [OF g event_reach [OF ok]])
  note same = event_depends [OF this]
  have "deref event_in h' p' = Some e" using allocate_cell [OF a(1)] a(2) by (simp add: deref_def)
  moreover have "deref event_in h' p = Some e"
    using e(1) by (simp add: deref_agree [OF grows_agree [OF g ok(2)]])
  ultimately have "event_value h' p' = event_value h' p" "event_shared h' p' = event_shared h' p"
    by (simp_all add: event_value_def event_shared_def)
  then show ?thesis using g same v allocate_cell [OF a(1)] a(2) by (simp add: struct_owned_def gained_def)
qed

interpretation event_copy: deep_copy shallow_copy_event event_value struct_owned event_shared
proof unfold_locales
  show "set_option p \<subseteq> struct_owned h p" for p h by (simp add: struct_owned_def)
qed (rule event_reach event_depends event_copies; assumption)+

end
