(* ===== verification/Aliasing.thy ===== *)
theory Aliasing
  imports DeepCopy
begin

text \<open>
  The in-memory store of \<^verbatim>\<open>src/internal/storage/memory.go\<close> as it lies in memory: maps and a log
  of pointers into a heap that its callers share. The callers hold every pointer they passed in
  or were given, and write through them, except to the two kinds of memory that the code shares
  between the store and its callers: the parts of an event and the lists in the details of an audit
  entry. What a write to those does is shown at the end. The theory \<open>Storage\<close> models the same
  operations on values; here the deep copies are shown to make the two the same.
\<close>

subsection \<open>The store and its operations\<close>

record go_store =
  go_events :: "ptr list"
  go_event_ids :: "string list"
  go_incidents :: "(string \<times> ptr) list"
  go_incident_order :: "string list"
  go_actions :: "(string \<times> ptr) list"
  go_action_order :: "string list"
  go_audit_log :: "ptr list"
  go_audit_seq :: int
  go_max_events :: nat

definition empty_go_store :: "int \<Rightarrow> go_store" where
  "empty_go_store max_events = \<lparr> go_events = [], go_event_ids = [], go_incidents = [], go_incident_order = [], go_actions = [], go_action_order = [],
     go_audit_log = [], go_audit_seq = 0, go_max_events = (if max_events \<le> 0 then 10000 else nat max_events) \<rparr>"

definition event_id_at :: "heap \<Rightarrow> ptr \<Rightarrow> string" where
  "event_id_at h p = (case deref event_in h p of None \<Rightarrow> [] | Some e \<Rightarrow> gv_id e)"

definition save_event_ref :: "heap \<Rightarrow> go_store \<Rightarrow> ptr \<Rightarrow> store_error + heap \<times> go_store" where
  "save_event_ref h s p =
     (case deref event_in h p of
        None \<Rightarrow> Inl EventNeedsId
      | Some e \<Rightarrow>
          if gv_id e = [] then Inl EventNeedsId
          else if gv_id e \<in> set (go_event_ids s) then Inr (h, s)
          else
            let (clone, h') = shallow_copy_event h p;
                evs = go_events s @ [clone];
                ids = go_event_ids s @ [gv_id e]
            in if length evs > go_max_events s then
                 let dropped = take (length evs - go_max_events s) evs
                 in Inr (h', s\<lparr>go_events := drop (length evs - go_max_events s) evs,
                      go_event_ids := fold (\<lambda>old is. filter (\<lambda>i. i \<noteq> event_id_at h' old) is) dropped ids\<rparr>)
               else Inr (h', s\<lparr>go_events := evs, go_event_ids := ids\<rparr>))"

definition save_incident_ref :: "heap \<Rightarrow> go_store \<Rightarrow> ptr \<Rightarrow> store_error + heap \<times> go_store" where
  "save_incident_ref h s p =
     (case deref incident_in h p of
        None \<Rightarrow> Inl IncidentNeedsId
      | Some i \<Rightarrow>
          if gi_id i = [] then Inl IncidentNeedsId
          else
            let order = (case map_of (go_incidents s) (gi_id i) of
                           None \<Rightarrow> go_incident_order s @ [gi_id i]
                         | Some _ \<Rightarrow> go_incident_order s);
                (clone, h') = deep_copy_incident h p
            in Inr (h', s\<lparr>go_incident_order := order,
                 go_incidents := AList.update (gi_id i) clone (go_incidents s)\<rparr>))"

definition get_incident_ref :: "heap \<Rightarrow> go_store \<Rightarrow> string \<Rightarrow> store_error + ptr \<times> heap" where
  "get_incident_ref h s iid =
     (case map_of (go_incidents s) iid of None \<Rightarrow> Inl NotFound | Some p \<Rightarrow> Inr (deep_copy_incident h p))"

text \<open>The loop that fills a page: one copy after the other.\<close>

primrec copy_page :: "(heap \<Rightarrow> ptr \<Rightarrow> ptr \<times> heap) \<Rightarrow> ptr list \<Rightarrow> heap \<Rightarrow> ptr list \<times> heap" where
  "copy_page copy [] h = ([], h)"
| "copy_page copy (p # ps) h =
     (let (q, h1) = copy h p; (qs, h2) = copy_page copy ps h1 in (q # qs, h2))"

definition list_events_ref :: "heap \<Rightarrow> go_store \<Rightarrow> int \<Rightarrow> int \<Rightarrow> (ptr list \<times> int) \<times> heap" where
  "list_events_ref h s limit offset =
     (let limit' = clamp_limit limit; offset' = (if offset < 0 then 0 else offset);
          (page, h') = copy_page shallow_copy_event (page_of (rev (go_events s)) limit' offset') h
      in ((page, int (length (go_events s))), h'))"

definition incident_matches :: "heap \<Rightarrow> incident_filter \<Rightarrow> ptr \<Rightarrow> bool" where
  "incident_matches h f p = (case incident_value h p of None \<Rightarrow> False | Some i \<Rightarrow> filter_incident f i)"

definition activity_key :: "heap \<Rightarrow> ptr \<Rightarrow> time \<times> string" where
  "activity_key h p =
     (case deref incident_in h p of None \<Rightarrow> (0, []) | Some i \<Rightarrow> (gi_last_seen i, gi_id i))"

definition list_incidents_ref ::
  "heap \<Rightarrow> go_store \<Rightarrow> incident_filter \<Rightarrow> (ptr list \<times> int) \<times> heap" where
  "list_incidents_ref h s f0 =
     (let f = normalize_filter f0;
          matched = rev (sort_key (activity_key h) (rev (filter (incident_matches h f)
            (List.map_filter (map_of (go_incidents s)) (go_incident_order s)))));
          (page, h') = copy_page deep_copy_incident (page_of matched (fl_limit f) (fl_offset f)) h
      in ((page, int (length matched)), h'))"

definition save_action_locked_ref :: "go_action \<Rightarrow> ptr \<Rightarrow> heap \<times> go_store \<Rightarrow> heap \<times> go_store" where
  "save_action_locked_ref a p hs =
     (let order = (case map_of (go_actions (snd hs)) (ga_id a) of
                     None \<Rightarrow> go_action_order (snd hs) @ [ga_id a]
                   | Some _ \<Rightarrow> go_action_order (snd hs));
          (clone, h') = deep_copy_action (fst hs) p
      in (h', (snd hs)\<lparr>go_action_order := order,
           go_actions := AList.update (ga_id a) clone (go_actions (snd hs))\<rparr>))"

definition save_action_ref :: "heap \<Rightarrow> go_store \<Rightarrow> ptr \<Rightarrow> store_error + heap \<times> go_store" where
  "save_action_ref h s p =
     (case deref action_in h p of
        None \<Rightarrow> Inl ActionNeedsId
      | Some a \<Rightarrow> if ga_id a = [] then Inl ActionNeedsId else Inr (save_action_locked_ref a p (h, s)))"

definition get_action_ref :: "heap \<Rightarrow> go_store \<Rightarrow> string \<Rightarrow> store_error + ptr \<times> heap" where
  "get_action_ref h s aid =
     (case map_of (go_actions s) aid of None \<Rightarrow> Inl NotFound | Some p \<Rightarrow> Inr (deep_copy_action h p))"

definition action_matches :: "heap \<Rightarrow> string \<Rightarrow> ptr \<Rightarrow> bool" where
  "action_matches h incident_id p =
     (case deref action_in h p of
        None \<Rightarrow> False
      | Some a \<Rightarrow> \<not> (incident_id \<noteq> [] \<and> ga_incident_id a \<noteq> incident_id))"

definition list_actions_ref ::
  "heap \<Rightarrow> go_store \<Rightarrow> string \<Rightarrow> int \<Rightarrow> int \<Rightarrow> (ptr list \<times> int) \<times> heap" where
  "list_actions_ref h s incident_id limit offset =
     (let limit' = clamp_limit limit; offset' = (if offset < 0 then 0 else offset);
          matched = filter (action_matches h incident_id)
            (List.map_filter (map_of (go_actions s)) (rev (go_action_order s)));
          (page, h') = copy_page deep_copy_action (page_of matched limit' offset') h
      in ((page, int (length matched)), h'))"

text \<open>\<^verbatim>\<open>p.Sequence = q\<close>\<close>

definition set_sequence :: "ptr \<Rightarrow> int \<Rightarrow> heap \<Rightarrow> heap" where
  "set_sequence p q h =
     (case p of
        None \<Rightarrow> h
      | Some a \<Rightarrow>
          (case entry_in (hp_cell h a) of
             None \<Rightarrow> h
           | Some e \<Rightarrow> assign a (EntryCell (e\<lparr>gn_sequence := q\<rparr>)) h))"

text \<open>The number is written into the copy the log keeps and into the caller's entry.\<close>

definition append_audit_locked_ref :: "ptr \<Rightarrow> heap \<times> go_store \<Rightarrow> heap \<times> go_store" where
  "append_audit_locked_ref p hs =
     (let q = go_audit_seq (snd hs) + 1;
          (clone, h1) = deep_copy_entry (fst hs) p;
          h2 = set_sequence p q (set_sequence clone q h1)
      in (h2, (snd hs)\<lparr>go_audit_seq := q, go_audit_log := go_audit_log (snd hs) @ [clone]\<rparr>))"

definition entry_without_id :: "heap \<Rightarrow> ptr \<Rightarrow> bool" where
  "entry_without_id h p = (case deref entry_in h p of None \<Rightarrow> True | Some e \<Rightarrow> gn_id e = [])"

definition append_audit_ref :: "heap \<Rightarrow> go_store \<Rightarrow> ptr \<Rightarrow> store_error + heap \<times> go_store" where
  "append_audit_ref h s p =
     (if entry_without_id h p then Inl AuditNeedsId else Inr (append_audit_locked_ref p (h, s)))"

definition save_action_with_audit_ref ::
  "heap \<Rightarrow> go_store \<Rightarrow> ptr \<Rightarrow> ptr list \<Rightarrow> store_error + heap \<times> go_store" where
  "save_action_with_audit_ref h s p entries =
     (if (case deref action_in h p of None \<Rightarrow> False | Some a \<Rightarrow> ga_id a = []) then Inl ActionNeedsId
      else if \<exists>e \<in> set entries. entry_without_id h e then Inl AuditNeedsId
      else
        let hs = (case deref action_in h p of None \<Rightarrow> (h, s) | Some a \<Rightarrow> save_action_locked_ref a p (h, s))
        in Inr (fold append_audit_locked_ref entries hs))"

definition list_audit_ref :: "heap \<Rightarrow> go_store \<Rightarrow> int \<Rightarrow> int \<Rightarrow> (ptr list \<times> int) \<times> heap" where
  "list_audit_ref h s limit offset =
     (let limit' = clamp_limit limit; offset' = (if offset < 0 then 0 else offset);
          (page, h') = copy_page deep_copy_entry (page_of (go_audit_log s) limit' offset') h
      in ((page, int (length (go_audit_log s))), h'))"

subsection \<open>The store among its callers\<close>

text \<open>
  What a caller can do: use the memory it knows, or call the store. \<open>wd_known\<close> are the addresses
  it has come across, \<open>wd_frozen\<close> what the store shares with it: the lists it put into the details
  of an entry it appended, and the parts of an event it saved. No code of the platform writes to
  those again.
\<close>

record world =
  wd_heap :: heap
  wd_store :: go_store
  wd_known :: "addr set"
  wd_frozen :: "addr set"

datatype memory_call =
    NewCell cell | WriteCell addr cell | ReadCell addr
  | SaveEvent ptr | ListEvents int int | CountEvents
  | SaveIncident ptr | GetIncident string | ListIncidents incident_filter
  | SaveAction ptr | GetAction string | ListActions string int int
  | AppendEntry ptr | SaveActionWithEntries ptr "ptr list" | ListEntries int int

datatype answer = Accepted | Refused store_error | Given "ptr list" int

definition start_world :: "int \<Rightarrow> world" where
  "start_world max_events = \<lparr> wd_heap = \<lparr> hp_next = 0, hp_cell = (\<lambda>_. Unused) \<rparr>, wd_store = empty_go_store max_events,
     wd_known = {}, wd_frozen = {} \<rparr>"

text \<open>
  What callers are assumed to do. A caller writes only what it knows of to what it knows of, and not to
  what the store shares with it, \<open>wd_frozen\<close>. That second half is not enforced by the code: it is a
  restriction on the callers that the theorems below speak of, and \<open>event_parts_are_shared\<close> and
  \<open>details_lists_are_shared\<close> show that they fail without it. An entry is not itself the backing array
  of a list, which Go's types rule out.
\<close>

definition entries_apart :: "world \<Rightarrow> ptr list \<Rightarrow> bool" where
  "entries_apart w ps \<longleftrightarrow>
     \<Union> (set_option ` set ps) \<inter> (wd_frozen w \<union> \<Union> (entry_shared (wd_heap w) ` set ps)) = {}"

fun permitted :: "world \<Rightarrow> memory_call \<Rightarrow> bool" where
  "permitted w (NewCell c) \<longleftrightarrow> cell_refs c \<subseteq> wd_known w"
| "permitted w (WriteCell a c) \<longleftrightarrow> a \<in> wd_known w - wd_frozen w \<and> cell_refs c \<subseteq> wd_known w"
| "permitted w (ReadCell a) \<longleftrightarrow> a \<in> wd_known w"
| "permitted w (SaveEvent p) \<longleftrightarrow> set_option p \<subseteq> wd_known w"
| "permitted w (SaveIncident p) \<longleftrightarrow> set_option p \<subseteq> wd_known w"
| "permitted w (SaveAction p) \<longleftrightarrow> set_option p \<subseteq> wd_known w"
| "permitted w (AppendEntry p) \<longleftrightarrow> set_option p \<subseteq> wd_known w \<and> entries_apart w [p]"
| "permitted w (SaveActionWithEntries p ps) \<longleftrightarrow>
     set_option p \<union> \<Union> (set_option ` set ps) \<subseteq> wd_known w \<and> entries_apart w ps"
| "permitted w _ \<longleftrightarrow> True"

definition after_write :: "world \<Rightarrow> addr set \<Rightarrow> store_error + heap \<times> go_store \<Rightarrow> world \<times> answer" where
  "after_write w shared r =
     (case r of
        Inl e \<Rightarrow> (w, Refused e)
      | Inr (h, s) \<Rightarrow> (w\<lparr>wd_heap := h, wd_store := s, wd_frozen := wd_frozen w \<union> shared\<rparr>, Accepted))"

definition after_read :: "world \<Rightarrow> ptr list \<Rightarrow> int \<Rightarrow> heap \<Rightarrow> world \<times> answer" where
  "after_read w ps n h =
     (w\<lparr>wd_heap := h, wd_known := wd_known w \<union> \<Union> (set_option ` set ps)\<rparr>, Given ps n)"

definition after_get :: "world \<Rightarrow> store_error + ptr \<times> heap \<Rightarrow> world \<times> answer" where
  "after_get w r = (case r of Inl e \<Rightarrow> (w, Refused e) | Inr (p, h) \<Rightarrow> after_read w [p] 1 h)"

fun perform :: "world \<Rightarrow> memory_call \<Rightarrow> world \<times> answer" where
  "perform w (NewCell c) =
     (let (a, h) = allocate c (wd_heap w)
      in (w\<lparr>wd_heap := h, wd_known := insert a (wd_known w)\<rparr>, Accepted))"
| "perform w (WriteCell a c) = (w\<lparr>wd_heap := assign a c (wd_heap w)\<rparr>, Accepted)"
| "perform w (ReadCell a) = (w\<lparr>wd_known := wd_known w \<union> cell_refs (hp_cell (wd_heap w) a)\<rparr>, Accepted)"
| "perform w (SaveEvent p) =
     after_write w (event_shared (wd_heap w) p) (save_event_ref (wd_heap w) (wd_store w) p)"
| "perform w (ListEvents l off) =
     (let ((ps, n), h) = list_events_ref (wd_heap w) (wd_store w) l off in after_read w ps n h)"
| "perform w CountEvents = (w, Given [] (int (length (go_events (wd_store w)))))"
| "perform w (SaveIncident p) = after_write w {} (save_incident_ref (wd_heap w) (wd_store w) p)"
| "perform w (GetIncident iid) = after_get w (get_incident_ref (wd_heap w) (wd_store w) iid)"
| "perform w (ListIncidents f) =
     (let ((ps, n), h) = list_incidents_ref (wd_heap w) (wd_store w) f in after_read w ps n h)"
| "perform w (SaveAction p) = after_write w {} (save_action_ref (wd_heap w) (wd_store w) p)"
| "perform w (GetAction aid) = after_get w (get_action_ref (wd_heap w) (wd_store w) aid)"
| "perform w (ListActions iid l off) =
     (let ((ps, n), h) = list_actions_ref (wd_heap w) (wd_store w) iid l off in after_read w ps n h)"
| "perform w (AppendEntry p) =
     after_write w (entry_shared (wd_heap w) p) (append_audit_ref (wd_heap w) (wd_store w) p)"
| "perform w (SaveActionWithEntries p ps) =
     after_write w (\<Union> (entry_shared (wd_heap w) ` set ps))
       (save_action_with_audit_ref (wd_heap w) (wd_store w) p ps)"
| "perform w (ListEntries l off) =
     (let ((ps, n), h) = list_audit_ref (wd_heap w) (wd_store w) l off in after_read w ps n h)"

subsection \<open>The same calls on values\<close>

text \<open>
  What \<open>Storage\<close> makes of a call whose arguments have these values, and the values behind the
  pointers an answer gives out.
\<close>

datatype outcome =
    Went | Stopped store_error
  | Events "security_event option list" int
  | Incidents "incident option list" int | Actions "response_action option list" int
  | Entries "audit_entry option list" int

definition stored_or_stopped :: "memory_store \<Rightarrow> store_error + memory_store \<Rightarrow> memory_store \<times> outcome" where
  "stored_or_stopped m r = (case r of Inl e \<Rightarrow> (m, Stopped e) | Inr m' \<Rightarrow> (m', Went))"

fun store_does :: "heap \<Rightarrow> memory_call \<Rightarrow> memory_store \<Rightarrow> memory_store \<times> outcome" where
  "store_does h (SaveEvent p) m =
     (case event_value h p of
        None \<Rightarrow> (m, Stopped EventNeedsId)
      | Some e \<Rightarrow> stored_or_stopped m (save_event m e))"
| "store_does h (ListEvents l off) m =
     (m, Events (map Some (fst (list_events m l off))) (snd (list_events m l off)))"
| "store_does h CountEvents m = (m, Events [] (count_events m))"
| "store_does h (SaveIncident p) m =
     (case incident_value h p of
        None \<Rightarrow> (m, Stopped IncidentNeedsId)
      | Some i \<Rightarrow> stored_or_stopped m (save_incident m i))"
| "store_does h (GetIncident iid) m =
     (m, case get_incident m iid of Inl e \<Rightarrow> Stopped e | Inr i \<Rightarrow> Incidents [Some i] 1)"
| "store_does h (ListIncidents f) m =
     (m, Incidents (map Some (fst (list_incidents m f))) (snd (list_incidents m f)))"
| "store_does h (SaveAction p) m =
     (case action_value h p of
        None \<Rightarrow> (m, Stopped ActionNeedsId)
      | Some a \<Rightarrow> stored_or_stopped m (save_action m a))"
| "store_does h (GetAction aid) m =
     (m, case get_action m aid of Inl e \<Rightarrow> Stopped e | Inr a \<Rightarrow> Actions [Some a] 1)"
| "store_does h (ListActions iid l off) m =
     (m, Actions (map Some (fst (list_actions m iid l off))) (snd (list_actions m iid l off)))"
| "store_does h (AppendEntry p) m =
     (case entry_value h p of
        None \<Rightarrow> (m, Stopped AuditNeedsId)
      | Some e \<Rightarrow> stored_or_stopped m (append_audit m e))"
| "store_does h (SaveActionWithEntries p ps) m =
     (if \<exists>q \<in> set ps. entry_value h q = None then
        (m, Stopped (case action_value h p of
            None \<Rightarrow> AuditNeedsId | Some a \<Rightarrow> if act_id a = [] then ActionNeedsId else AuditNeedsId))
      else stored_or_stopped m
        (save_action_with_audit m (action_value h p) (List.map_filter (entry_value h) ps)))"
| "store_does h (ListEntries l off) m =
     (m, Entries (map Some (fst (list_audit m l off))) (snd (list_audit m l off)))"
| "store_does h _ m = (m, Went)"

fun seen :: "memory_call \<Rightarrow> heap \<Rightarrow> answer \<Rightarrow> outcome" where
  "seen _ h Accepted = Went"
| "seen _ h (Refused e) = Stopped e"
| "seen (ListEvents _ _) h (Given ps n) = Events (map (event_value h) ps) n"
| "seen CountEvents h (Given ps n) = Events (map (event_value h) ps) n"
| "seen (GetIncident _) h (Given ps n) = Incidents (map (incident_value h) ps) n"
| "seen (ListIncidents _) h (Given ps n) = Incidents (map (incident_value h) ps) n"
| "seen (GetAction _) h (Given ps n) = Actions (map (action_value h) ps) n"
| "seen (ListActions _ _ _) h (Given ps n) = Actions (map (action_value h) ps) n"
| "seen _ h (Given ps n) = Entries (map (entry_value h) ps) n"

text \<open>The two stores fed with the same calls, from the start.\<close>

inductive reachable_pair :: "int \<Rightarrow> world \<Rightarrow> memory_store \<Rightarrow> bool" for max_events where
  start: "reachable_pair max_events (start_world max_events) (new_memory_store max_events)"
| call: "reachable_pair max_events w m \<Longrightarrow> permitted w c \<Longrightarrow>
    reachable_pair max_events (fst (perform w c)) (fst (store_does (wd_heap w) c m))"

text \<open>What the store holds in the heap are the values \<open>Storage\<close> holds.\<close>

definition represents :: "heap \<Rightarrow> go_store \<Rightarrow> memory_store \<Rightarrow> bool" where
  "represents h s m \<longleftrightarrow>
     map (event_value h) (go_events s) = map Some (ms_events m) \<and>
     go_event_ids s = ms_event_ids m \<and> go_max_events s = ms_max_events m \<and>
     map (\<lambda>(k, p). (k, incident_value h p)) (go_incidents s) = map (\<lambda>(k, i). (k, Some i)) (ms_incidents m) \<and>
     go_incident_order s = ms_incident_order m \<and>
     map (\<lambda>(k, p). (k, action_value h p)) (go_actions s) = map (\<lambda>(k, a). (k, Some a)) (ms_actions m) \<and>
     go_action_order s = ms_action_order m \<and>
     map (entry_value h) (go_audit_log s) = map Some (ms_audit_log m) \<and>
     go_audit_seq s = ms_audit_seq m"

subsection \<open>What holds of every reachable world\<close>

definition kept_pair ::
  "(heap \<Rightarrow> ptr \<Rightarrow> 'v option) \<Rightarrow> (heap \<Rightarrow> ptr \<Rightarrow> addr set) \<Rightarrow> (heap \<Rightarrow> ptr \<Rightarrow> addr set) \<Rightarrow>
     addr set \<Rightarrow> addr set \<Rightarrow> heap \<Rightarrow> string \<times> ptr \<Rightarrow> string \<times> 'v \<Rightarrow> bool" where
  "kept_pair contents owned shared priv frozen h x y \<longleftrightarrow>
     fst x = fst y \<and> kept contents owned shared priv frozen h (snd x) (snd y)"

abbreviation event_kept :: "addr set \<Rightarrow> addr set \<Rightarrow> heap \<Rightarrow> ptr \<Rightarrow> security_event \<Rightarrow> bool" where
  "event_kept \<equiv> kept event_value struct_owned event_shared"

abbreviation incident_kept :: "addr set \<Rightarrow> addr set \<Rightarrow> heap \<Rightarrow> ptr \<Rightarrow> incident \<Rightarrow> bool" where
  "incident_kept \<equiv> kept incident_value incident_owned nothing_shared"

abbreviation action_kept :: "addr set \<Rightarrow> addr set \<Rightarrow> heap \<Rightarrow> ptr \<Rightarrow> response_action \<Rightarrow> bool" where
  "action_kept \<equiv> kept action_value action_owned nothing_shared"

abbreviation entry_kept :: "addr set \<Rightarrow> addr set \<Rightarrow> heap \<Rightarrow> ptr \<Rightarrow> audit_entry \<Rightarrow> bool" where
  "entry_kept \<equiv> kept entry_value entry_owned entry_shared"

abbreviation incident_pair :: "addr set \<Rightarrow> addr set \<Rightarrow> heap \<Rightarrow> string \<times> ptr \<Rightarrow> string \<times> incident \<Rightarrow> bool" where
  "incident_pair \<equiv> kept_pair incident_value incident_owned nothing_shared"

abbreviation action_pair :: "addr set \<Rightarrow> addr set \<Rightarrow> heap \<Rightarrow> string \<times> ptr \<Rightarrow> string \<times> response_action \<Rightarrow> bool" where
  "action_pair \<equiv> kept_pair action_value action_owned nothing_shared"

definition holds :: "addr set \<Rightarrow> addr set \<Rightarrow> heap \<Rightarrow> go_store \<Rightarrow> memory_store \<Rightarrow> bool" where
  "holds priv frozen h s m \<longleftrightarrow>
     list_all2 (event_kept priv frozen h) (go_events s) (ms_events m) \<and>
     go_event_ids s = ms_event_ids m \<and> go_max_events s = ms_max_events m \<and>
     list_all2 (incident_pair priv frozen h) (go_incidents s) (ms_incidents m) \<and>
     go_incident_order s = ms_incident_order m \<and>
     list_all2 (action_pair priv frozen h) (go_actions s) (ms_actions m) \<and>
     go_action_order s = ms_action_order m \<and>
     list_all2 (entry_kept priv frozen h) (go_audit_log s) (ms_audit_log m) \<and>
     go_audit_seq s = ms_audit_seq m"

text \<open>The store is out of reach: some addresses are its own, and everything it holds lies there.\<close>

definition safe :: "heap \<Rightarrow> go_store \<Rightarrow> addr set \<Rightarrow> addr set \<Rightarrow> memory_store \<Rightarrow> bool" where
  "safe h s known frozen m \<longleftrightarrow> (\<exists>priv. isolated h known priv frozen \<and> holds priv frozen h s m)"

lemma kept_pair_mono:
  assumes "deep_copy copy contents owned shared" "kept_pair contents owned shared priv frozen h x y"
    and "agree_on (priv \<union> frozen) h h'" "priv \<subseteq> priv'" "frozen \<subseteq> frozen'"
  shows "kept_pair contents owned shared priv' frozen' h' x y"
  using assms deep_copy.kept_agree [OF assms(1)] deep_copy.kept_mono [OF assms(1)]
  unfolding kept_pair_def by blast

lemma holds_mono:
  assumes "holds priv frozen h s m" "agree_on (priv \<union> frozen) h h'" "priv \<subseteq> priv'" "frozen \<subseteq> frozen'"
  shows "holds priv' frozen' h' s m"
proof -
  have "list_all2 (event_kept priv' frozen' h') (go_events s) (ms_events m)"
    "list_all2 (incident_pair priv' frozen' h') (go_incidents s) (ms_incidents m)"
    "list_all2 (action_pair priv' frozen' h') (go_actions s) (ms_actions m)"
    "list_all2 (entry_kept priv' frozen' h') (go_audit_log s) (ms_audit_log m)"
    using assms(1)
    by (auto simp: holds_def elim!: list_all2_mono
        intro: kept_pair_mono [OF incident_copy.deep_copy_axioms _ assms(2-4)]
          kept_pair_mono [OF action_copy.deep_copy_axioms _ assms(2-4)]
          entry_copy.kept_mono [OF entry_copy.kept_agree [OF _ assms(2)] assms(3,4)]
          event_copy.kept_mono [OF event_copy.kept_agree [OF _ assms(2)] assms(3,4)])
  then show ?thesis using assms(1) by (simp add: holds_def)
qed

lemma holds_represents: "holds priv frozen h s m \<Longrightarrow> represents h s m"
  by (auto simp: holds_def represents_def kept_pair_def kept_def list_all2_conv_all_nth
      intro!: nth_equalityI split: prod.splits)
   (metis fst_conv snd_conv)+

lemma isolated_agree:
  "isolated h known priv frozen \<Longrightarrow> grows UNIV h h' \<Longrightarrow> agree_on (priv \<union> frozen) h h'"
  by (rule grows_agree) (auto simp: isolated_def)

text \<open>A step that adds to the heap and maybe to what the callers know.\<close>

lemma safe_grows:
  assumes "isolated h known priv frozen" "holds priv frozen h s m" "grows UNIV h h'"
    and "isolated h' known' priv frozen"
  shows "safe h' s known' frozen m"
  using holds_mono [OF assms(2) isolated_agree [OF assms(1,3)]] assms(4) by (auto simp: safe_def)

subsection \<open>The callers' own steps\<close>

lemma safe_new_cell:
  assumes "safe h s known frozen m" "cell_refs c \<subseteq> known" "allocate c h = (a, h')"
  shows "safe h' s (insert a known) frozen m"
  using assms isolated_allocate safe_grows unfolding safe_def by metis

lemma safe_write_cell:
  assumes "safe h s known frozen m" "a \<in> known - frozen" "cell_refs c \<subseteq> known"
  shows "safe (assign a c h) s known frozen m"
proof -
  obtain priv where p: "isolated h known priv frozen" "holds priv frozen h s m"
    using assms(1) by (auto simp: safe_def)
  have "agree_on (priv \<union> frozen) h (assign a c h)"
    using p(1) assms(2) by (auto simp: agree_on_def assign_def isolated_def)
  then have "holds priv frozen (assign a c h) s m" by (intro holds_mono [OF p(2)]) simp_all
  then show ?thesis using isolated_assign [OF p(1)] assms(2,3) by (auto simp: safe_def)
qed

lemma safe_read_cell:
  "safe h s known frozen m \<Longrightarrow> a \<in> known \<Longrightarrow> safe h s (known \<union> cell_refs (hp_cell h a)) frozen m"
  unfolding safe_def using isolated_load by blast

subsection \<open>Reading the store\<close>

text \<open>Lists of pointers and lists of values, element by element.\<close>

lemma list_all2_filters:
  "list_all2 R ps vs \<Longrightarrow> (\<And>p v. R p v \<Longrightarrow> P p = Q v) \<Longrightarrow> list_all2 R (filter P ps) (filter Q vs)"
  by (induction rule: list_all2_induct) auto

lemma list_all2_insort:
  "list_all2 R ps vs \<Longrightarrow> R p v \<Longrightarrow> (\<And>p v. R p v \<Longrightarrow> f p = g v) \<Longrightarrow>
     list_all2 R (insort_key f p ps) (insort_key g v vs)"
  by (induction rule: list_all2_induct) auto

lemma list_all2_sort:
  "list_all2 R ps vs \<Longrightarrow> (\<And>p v. R p v \<Longrightarrow> f p = g v) \<Longrightarrow> list_all2 R (sort_key f ps) (sort_key g vs)"
  by (induction rule: list_all2_induct) (auto simp: sort_key_def intro: list_all2_insort)

lemma list_all2_page: "list_all2 R ps vs \<Longrightarrow> list_all2 R (page_of ps l off) (page_of vs l off)"
  by (simp add: page_of_def Let_def list_all2_lengthD list_all2_takeI list_all2_dropI)

lemma pair_lookup:
  "list_all2 (kept_pair contents owned shared priv frozen h) xs ys \<Longrightarrow>
     rel_option (kept contents owned shared priv frozen h) (map_of xs k) (map_of ys k)"
  by (induction rule: list_all2_induct) (auto simp: kept_pair_def)

lemma pair_lookups:
  "list_all2 (kept_pair contents owned shared priv frozen h) xs ys \<Longrightarrow>
     list_all2 (kept contents owned shared priv frozen h)
       (List.map_filter (map_of xs) ks) (List.map_filter (map_of ys) ks)"
proof (induction ks)
  case (Cons k ks)
  then show ?case
    using pair_lookup [OF Cons.prems, of k]
    by (cases "map_of xs k"; cases "map_of ys k") (simp_all add: map_filter_simps)
qed (simp add: map_filter_simps)

lemma pair_update:
  "list_all2 (kept_pair contents owned shared priv frozen h) xs ys \<Longrightarrow>
     kept contents owned shared priv frozen h p v \<Longrightarrow>
     list_all2 (kept_pair contents owned shared priv frozen h) (AList.update k p xs) (AList.update k v ys)"
proof (induction rule: list_all2_induct)
  case (Cons x xs y ys)
  then show ?case by (cases x; cases y) (simp add: kept_pair_def)
qed (simp add: kept_pair_def)

text \<open>A page of copies: new pointers to the values of the originals.\<close>

context deep_copy begin

lemma reached_allocated:
  "isolated h known priv frozen \<Longrightarrow> set_option p \<subseteq> known \<Longrightarrow> (owned h p \<union> shared h p) \<inter> unallocated h = {}"
  by (rule reach) (auto simp: isolated_def)

lemma copy_page_out:
  assumes "isolated h known priv frozen" "list_all2 (kept contents owned shared priv frozen h) ps vs"
    and "copy_page copy ps h = (qs, h')"
  shows "isolated h' (known \<union> \<Union> (set_option ` set qs)) priv frozen \<and> grows UNIV h h' \<and>
    map (contents h') qs = map Some vs"
  using assms
proof (induction ps arbitrary: h known vs qs h')
  case Nil
  then show ?case by simp
next
  case (Cons p ps)
  obtain v vs' where vs: "vs = v # vs'" "kept contents owned shared priv frozen h p v"
    "list_all2 (kept contents owned shared priv frozen h) ps vs'"
    using Cons.prems(2) by (auto simp: list_all2_Cons1)
  obtain q h1 where q: "copy h p = (q, h1)" by (metis surj_pair)
  obtain qs' where qs: "copy_page copy ps h1 = (qs', h')" "qs = q # qs'"
    using Cons.prems(3) q by (auto split: prod.splits)
  note out = copy_out [OF Cons.prems(1) vs(2) q]
  have "list_all2 (kept contents owned shared priv frozen h1) ps vs'"
    using vs(3) by (rule list_all2_mono) (rule kept_agree [OF _ isolated_agree [OF Cons.prems(1) out(3)]])
  note rest = Cons.IH [OF out(1) this qs(1)]
  have grown: "grows UNIV h1 h'" using rest by blast
  have "agree_on (owned h1 q \<union> shared h1 q) h1 h'"
    by (rule grows_agree [OF grown reached_allocated [OF out(1)]]) blast
  from depends [OF this] have "contents h' q = Some v" unfolding out(2) by blast
  moreover have "map (contents h') qs' = map Some vs'" using rest by blast
  moreover have "isolated h' (known \<union> \<Union> (set_option ` set qs)) priv frozen"
    using rest qs(2) by (simp add: Un_assoc)
  ultimately show ?case using qs(2) vs(1) grows_trans [OF out(3) grown] by simp
qed

end

lemma incident_kept_key:
  "incident_kept priv frozen h p i \<Longrightarrow> activity_key h p = (inc_last_seen i, inc_id i)"
  by (auto simp: kept_def activity_key_def incident_value_def struct_of_incident_def)

lemma action_kept_matches:
  "action_kept priv frozen h p a \<Longrightarrow>
     action_matches h iid p = (\<not> (iid \<noteq> [] \<and> act_incident_id a \<noteq> iid))"
  by (auto simp: kept_def action_matches_def action_value_def struct_of_action_def)

lemma matched_incidents_kept:
  assumes "list_all2 (incident_pair priv frozen h) (go_incidents s) (ms_incidents m)"
    and "go_incident_order s = ms_incident_order m"
  shows "list_all2 (incident_kept priv frozen h)
    (rev (sort_key (activity_key h) (rev (filter (incident_matches h f)
      (List.map_filter (map_of (go_incidents s)) (go_incident_order s)))))) (matched_incidents m f)"
  unfolding matched_incidents_def assms(2)
  by (intro list_all2_rev [THEN iffD2] list_all2_sort list_all2_filters pair_lookups assms(1))
    (auto simp: incident_kept_key incident_matches_def kept_def)

lemma safe_list_incidents:
  assumes "safe h s known frozen m" "list_incidents_ref h s f = ((ps, n), h')"
  shows "safe h' s (known \<union> \<Union> (set_option ` set ps)) frozen m \<and>
    map (incident_value h') ps = map Some (fst (list_incidents m f)) \<and> n = snd (list_incidents m f)"
proof -
  obtain priv where p: "isolated h known priv frozen" "holds priv frozen h s m"
    using assms(1) by (auto simp: safe_def)
  let ?ps = "rev (sort_key (activity_key h) (rev (filter (incident_matches h (normalize_filter f))
      (List.map_filter (map_of (go_incidents s)) (go_incident_order s)))))"
  have all: "list_all2 (incident_kept priv frozen h) ?ps (matched_incidents m (normalize_filter f))"
    using p(2) by (intro matched_incidents_kept) (auto simp: holds_def)
  have page: "copy_page deep_copy_incident (page_of ?ps (fl_limit (normalize_filter f)) (fl_offset (normalize_filter f))) h = (ps, h')"
    and n: "n = int (length ?ps)"
    using assms(2) by (simp_all add: list_incidents_ref_def Let_def split: prod.splits)
  note out = incident_copy.copy_page_out [OF p(1) list_all2_page [OF all] page]
  show ?thesis
    using out safe_grows [OF p] n list_all2_lengthD [OF all] by (simp add: list_incidents_def Let_def)
qed

lemma safe_list_actions:
  assumes "safe h s known frozen m" "list_actions_ref h s iid l off = ((ps, n), h')"
  shows "safe h' s (known \<union> \<Union> (set_option ` set ps)) frozen m \<and>
    map (action_value h') ps = map Some (fst (list_actions m iid l off)) \<and> n = snd (list_actions m iid l off)"
proof -
  obtain priv where p: "isolated h known priv frozen" "holds priv frozen h s m"
    using assms(1) by (auto simp: safe_def)
  let ?ps = "filter (action_matches h iid) (List.map_filter (map_of (go_actions s)) (rev (go_action_order s)))"
  have all: "list_all2 (action_kept priv frozen h) ?ps
    (filter (\<lambda>a. \<not> (iid \<noteq> [] \<and> act_incident_id a \<noteq> iid))
      (List.map_filter (map_of (ms_actions m)) (rev (ms_action_order m))))"
    using p(2) unfolding holds_def
    by (auto intro!: list_all2_filters pair_lookups simp: action_kept_matches)
  have page: "copy_page deep_copy_action (page_of ?ps (clamp_limit l) (if off < 0 then 0 else off)) h = (ps, h')"
    and n: "n = int (length ?ps)"
    using assms(2) by (auto simp: list_actions_ref_def Let_def split: prod.splits)
  note out = action_copy.copy_page_out [OF p(1) list_all2_page [OF all] page]
  show ?thesis
    using out safe_grows [OF p] n list_all2_lengthD [OF all] by (simp add: list_actions_def Let_def)
qed

lemma safe_list_events:
  assumes "safe h s known frozen m" "list_events_ref h s l off = ((ps, n), h')"
  shows "safe h' s (known \<union> \<Union> (set_option ` set ps)) frozen m \<and>
    map (event_value h') ps = map Some (fst (list_events m l off)) \<and> n = snd (list_events m l off)"
proof -
  obtain priv where p: "isolated h known priv frozen" "holds priv frozen h s m"
    using assms(1) by (auto simp: safe_def)
  have all: "list_all2 (event_kept priv frozen h) (rev (go_events s)) (rev (ms_events m))"
    using p(2) by (simp add: holds_def)
  have page: "copy_page shallow_copy_event (page_of (rev (go_events s)) (clamp_limit l) (if off < 0 then 0 else off)) h = (ps, h')"
    and n: "n = int (length (go_events s))"
    using assms(2) by (auto simp: list_events_ref_def Let_def split: prod.splits)
  note out = event_copy.copy_page_out [OF p(1) list_all2_page [OF all] page]
  show ?thesis
    using out safe_grows [OF p] n list_all2_lengthD [OF all] by (simp add: list_events_def Let_def)
qed

lemma safe_list_entries:
  assumes "safe h s known frozen m" "list_audit_ref h s l off = ((ps, n), h')"
  shows "safe h' s (known \<union> \<Union> (set_option ` set ps)) frozen m \<and>
    map (entry_value h') ps = map Some (fst (list_audit m l off)) \<and> n = snd (list_audit m l off)"
proof -
  obtain priv where p: "isolated h known priv frozen" "holds priv frozen h s m"
    using assms(1) by (auto simp: safe_def)
  have all: "list_all2 (entry_kept priv frozen h) (go_audit_log s) (ms_audit_log m)"
    using p(2) by (simp add: holds_def)
  have page: "copy_page deep_copy_entry (page_of (go_audit_log s) (clamp_limit l) (if off < 0 then 0 else off)) h = (ps, h')"
    and n: "n = int (length (go_audit_log s))"
    using assms(2) by (auto simp: list_audit_ref_def Let_def split: prod.splits)
  note out = entry_copy.copy_page_out [OF p(1) list_all2_page [OF all] page]
  show ?thesis
    using out safe_grows [OF p] n list_all2_lengthD [OF all] by (simp add: list_audit_def Let_def)
qed

text \<open>A single record, or that there is none.\<close>

lemma safe_get_incident:
  assumes "safe h s known frozen m"
  shows "case get_incident_ref h s iid of
      Inl e \<Rightarrow> get_incident m iid = Inl e
    | Inr (p, h') \<Rightarrow> \<exists>i. get_incident m iid = Inr i \<and> incident_value h' p = Some i \<and>
        safe h' s (known \<union> set_option p) frozen m"
proof -
  obtain priv where p: "isolated h known priv frozen" "holds priv frozen h s m"
    using assms by (auto simp: safe_def)
  have "rel_option (incident_kept priv frozen h) (map_of (go_incidents s) iid) (map_of (ms_incidents m) iid)"
    using p(2) by (intro pair_lookup) (simp add: holds_def)
  then show ?thesis
    using incident_copy.copy_out [OF p(1)] safe_grows [OF p]
    by (cases "map_of (go_incidents s) iid")
      (fastforce simp: get_incident_ref_def get_incident_def option_rel_Some1 split: prod.splits)+
qed

lemma safe_get_action:
  assumes "safe h s known frozen m"
  shows "case get_action_ref h s aid of
      Inl e \<Rightarrow> get_action m aid = Inl e
    | Inr (p, h') \<Rightarrow> \<exists>a. get_action m aid = Inr a \<and> action_value h' p = Some a \<and>
        safe h' s (known \<union> set_option p) frozen m"
proof -
  obtain priv where p: "isolated h known priv frozen" "holds priv frozen h s m"
    using assms by (auto simp: safe_def)
  have "rel_option (action_kept priv frozen h) (map_of (go_actions s) aid) (map_of (ms_actions m) aid)"
    using p(2) by (intro pair_lookup) (simp add: holds_def)
  then show ?thesis
    using action_copy.copy_out [OF p(1)] safe_grows [OF p]
    by (cases "map_of (go_actions s) aid")
      (fastforce simp: get_action_ref_def get_action_def option_rel_Some1 split: prod.splits)+
qed

subsection \<open>Writing to the store\<close>

lemma holds_keys:
  assumes "holds priv frozen h s m"
  shows "map_of (go_incidents s) k = None \<longleftrightarrow> map_of (ms_incidents m) k = None"
    "map_of (go_actions s) k = None \<longleftrightarrow> map_of (ms_actions m) k = None"
proof -
  have "rel_option (incident_kept priv frozen h) (map_of (go_incidents s) k) (map_of (ms_incidents m) k)"
    using assms by (intro pair_lookup) (simp add: holds_def)
  then show "map_of (go_incidents s) k = None \<longleftrightarrow> map_of (ms_incidents m) k = None"
    by (cases "map_of (go_incidents s) k"; cases "map_of (ms_incidents m) k") simp_all
  have "rel_option (action_kept priv frozen h) (map_of (go_actions s) k) (map_of (ms_actions m) k)"
    using assms by (intro pair_lookup) (simp add: holds_def)
  then show "map_of (go_actions s) k = None \<longleftrightarrow> map_of (ms_actions m) k = None"
    by (cases "map_of (go_actions s) k"; cases "map_of (ms_actions m) k") simp_all
qed

lemma order_cong:
  "(x = None \<longleftrightarrow> y = None) \<Longrightarrow> (case x of None \<Rightarrow> a :: string list | Some _ \<Rightarrow> b) = (case y of None \<Rightarrow> a | Some _ \<Rightarrow> b)"
  by (cases x; cases y) simp_all

lemma event_kept_id: "event_kept priv frozen h p v \<Longrightarrow> event_id_at h p = ev_id v"
  by (auto simp: kept_def event_id_at_def event_value_def struct_of_event_def)

lemma dropped_ids:
  "list_all2 (event_kept priv frozen h) ps vs \<Longrightarrow>
     fold (\<lambda>old is. filter (\<lambda>i. i \<noteq> event_id_at h old) is) ps ids =
     fold (\<lambda>old is. filter (\<lambda>i. i \<noteq> ev_id old) is) vs ids"
  by (induction arbitrary: ids rule: list_all2_induct) (simp_all add: event_kept_id)

text \<open>Freezing what a known event leads to.\<close>

lemma safe_freeze_event:
  assumes "safe h s known frozen m" "set_option p \<subseteq> known"
  shows "safe h s known (frozen \<union> event_shared h p) m"
proof -
  obtain priv where i: "isolated h known priv frozen" "holds priv frozen h s m"
    using assms(1) by (auto simp: safe_def)
  have "event_shared h p \<inter> (priv \<union> unallocated h) = {}"
    using event_reach [of h "priv \<union> unallocated h" p] i(1) assms(2) by (auto simp: isolated_def)
  then have "isolated h known priv (frozen \<union> event_shared h p)"
    using i(1) by (auto simp: isolated_def)
  moreover have "holds priv (frozen \<union> event_shared h p) h s m"
    by (rule holds_mono [OF i(2)]) (auto simp: agree_on_def)
  ultimately show ?thesis by (auto simp: safe_def)
qed

text \<open>One more event, and the oldest ones dropped when there are too many.\<close>

lemma holds_one_event:
  assumes "holds priv frozen h s m" "event_kept priv frozen h c v"
    and evs: "evs = go_events s @ [c]" "ids = go_event_ids s @ [ev_id v]"
    and s': "s' = (if length evs > go_max_events s then
        s\<lparr>go_events := drop (length evs - go_max_events s) evs,
          go_event_ids := fold (\<lambda>old is. filter (\<lambda>i. i \<noteq> event_id_at h old) is)
            (take (length evs - go_max_events s) evs) ids\<rparr>
      else s\<lparr>go_events := evs, go_event_ids := ids\<rparr>)"
    and new: "ev_id v \<noteq> []" "ev_id v \<notin> set (ms_event_ids m)"
  shows "\<exists>m'. save_event m v = Inr m' \<and> holds priv frozen h s' m'"
proof -
  have old: "list_all2 (event_kept priv frozen h) (go_events s) (ms_events m)"
    "go_event_ids s = ms_event_ids m" "go_max_events s = ms_max_events m"
    using assms(1) by (simp_all add: holds_def)
  have all: "list_all2 (event_kept priv frozen h) evs (ms_events m @ [v])"
    using old(1) assms(2) by (simp add: evs(1) list_all2_appendI)
  have len: "length evs = length (ms_events m @ [v])" by (rule list_all2_lengthD [OF all])
  show ?thesis
  proof (cases "length evs > go_max_events s")
    case True
    then show ?thesis
      using assms(1) new list_all2_dropI [OF all] dropped_ids [OF list_all2_takeI [OF all]] len old(2,3)
      by (simp add: save_event_def Let_def s' evs(2) holds_def del: drop_append take_append)
  next
    case False
    then show ?thesis using assms(1) new all len old(2,3)
      by (simp add: save_event_def Let_def s' evs(2) holds_def)
  qed
qed

lemma safe_save_event:
  assumes "safe h s known frozen m" "set_option p \<subseteq> known"
  shows "case save_event_ref h s p of
      Inl e \<Rightarrow> store_does h (SaveEvent p) m = (m, Stopped e)
    | Inr (h', s') \<Rightarrow> \<exists>m'. store_does h (SaveEvent p) m = (m', Went) \<and>
        safe h' s' known (frozen \<union> event_shared h p) m'"
proof (cases "deref event_in h p")
  case None
  then show ?thesis by (simp add: save_event_ref_def event_value_def)
next
  case (Some x)
  define v where "v = struct_of_event h x"
  have v: "event_value h p = Some v" "ev_id v = gv_id x"
    using Some by (simp_all add: event_value_def struct_of_event_def v_def)
  obtain priv where i: "isolated h known priv frozen" "holds priv frozen h s m"
    using assms(1) by (auto simp: safe_def)
  have ids: "go_event_ids s = ms_event_ids m" using i(2) by (simp add: holds_def)
  consider "gv_id x = []" | "gv_id x \<noteq> []" "gv_id x \<in> set (go_event_ids s)"
    | "gv_id x \<noteq> []" "gv_id x \<notin> set (go_event_ids s)" by blast
  then show ?thesis
  proof cases
    case 1
    then show ?thesis using Some v by (simp add: save_event_ref_def save_event_def stored_or_stopped_def)
  next
    case 2
    then show ?thesis using Some v ids safe_freeze_event [OF assms]
      by (simp add: save_event_ref_def save_event_def stored_or_stopped_def)
  next
    case 3
    obtain c h' where c: "shallow_copy_event h p = (c, h')" by (metis surj_pair)
    obtain s' where s': "save_event_ref h s p = Inr (h', s')"
      using Some 3 c by (cases "go_max_events s < Suc (length (go_events s))") (auto simp: save_event_ref_def Let_def)
    note new = event_copy.copy_in [OF i(1) assms(2) v(1) c]
    have "holds (priv \<union> gained h h') (frozen \<union> event_shared h p) h' s m"
      by (rule holds_mono [OF i(2) isolated_agree [OF i(1) new(3)]]) auto
    then have "\<exists>m'. save_event m v = Inr m' \<and> holds (priv \<union> gained h h') (frozen \<union> event_shared h p) h' s' m'"
      using s' Some 3 c v(2) ids
      by (intro holds_one_event [OF _ new(2) refl refl]) (auto simp: save_event_ref_def Let_def)
    then show ?thesis using s' v(1) new(1) by (auto simp: stored_or_stopped_def safe_def)
  qed
qed

lemma safe_save_incident:
  assumes "safe h s known frozen m" "set_option p \<subseteq> known"
  shows "case save_incident_ref h s p of
      Inl e \<Rightarrow> store_does h (SaveIncident p) m = (m, Stopped e)
    | Inr (h', s') \<Rightarrow> \<exists>m'. store_does h (SaveIncident p) m = (m', Went) \<and> safe h' s' known frozen m'"
proof (cases "deref incident_in h p")
  case None
  then show ?thesis by (simp add: save_incident_ref_def incident_value_def)
next
  case (Some x)
  then have v: "incident_value h p = Some (struct_of_incident h x)" "inc_id (struct_of_incident h x) = gi_id x"
    by (simp_all add: incident_value_def struct_of_incident_def)
  show ?thesis
  proof (cases "gi_id x = []")
    case True
    then show ?thesis using Some v
      by (simp add: save_incident_ref_def save_incident_def stored_or_stopped_def)
  next
    case False
    obtain priv where i: "isolated h known priv frozen" "holds priv frozen h s m"
      using assms(1) by (auto simp: safe_def)
    obtain c h' where c: "deep_copy_incident h p = (c, h')" by (metis surj_pair)
    note new = incident_copy.copy_in [OF i(1) assms(2) v(1) c]
    have old: "holds (priv \<union> gained h h') (frozen \<union> {}) h' s m"
      by (rule holds_mono [OF i(2) isolated_agree [OF i(1) new(3)]]) simp_all
    let ?m = "m\<lparr>ms_incident_order := (case map_of (ms_incidents m) (gi_id x) of None \<Rightarrow> ms_incident_order m @ [gi_id x]
        | Some _ \<Rightarrow> ms_incident_order m), ms_incidents := AList.update (gi_id x) (struct_of_incident h x) (ms_incidents m)\<rparr>"
    let ?s = "s\<lparr>go_incident_order := (case map_of (go_incidents s) (gi_id x) of None \<Rightarrow> go_incident_order s @ [gi_id x]
        | Some _ \<Rightarrow> go_incident_order s), go_incidents := AList.update (gi_id x) c (go_incidents s)\<rparr>"
    have "holds (priv \<union> gained h h') (frozen \<union> {}) h' ?s ?m"
      using old pair_update [OF _ new(2), of "go_incidents s" "ms_incidents m" "gi_id x"]
        order_cong [OF holds_keys(1) [OF old, of "gi_id x"]]
      by (simp add: holds_def cong: option.case_cong)
    then have "safe h' ?s known frozen ?m" using new(1) by (auto simp: safe_def)
    then show ?thesis using Some v False c
      by (simp add: save_incident_ref_def save_incident_def stored_or_stopped_def Let_def cong: option.case_cong)
  qed
qed

lemma save_action_locked_safe:
  assumes "safe h s known frozen m" "set_option p \<subseteq> known" "deref action_in h p = Some x"
    and "save_action_locked_ref x p (h, s) = (h', s')"
  shows "safe h' s' known frozen (save_action_locked (struct_of_action h x) m)" "grows UNIV h h'"
proof -
  have v: "action_value h p = Some (struct_of_action h x)" "act_id (struct_of_action h x) = ga_id x"
    using assms(3) by (simp_all add: action_value_def struct_of_action_def)
  obtain priv where i: "isolated h known priv frozen" "holds priv frozen h s m"
    using assms(1) by (auto simp: safe_def)
  obtain c where c: "deep_copy_action h p = (c, h')"
    and s': "s' = s\<lparr>go_action_order := (case map_of (go_actions s) (ga_id x) of None \<Rightarrow> go_action_order s @ [ga_id x]
        | Some _ \<Rightarrow> go_action_order s), go_actions := AList.update (ga_id x) c (go_actions s)\<rparr>"
    using assms(4) unfolding save_action_locked_ref_def Let_def fst_conv snd_conv by (auto split: prod.splits)
  note new = action_copy.copy_in [OF i(1) assms(2) v(1) c]
  show "grows UNIV h h'" by (rule new(3))
  have old: "holds (priv \<union> gained h h') (frozen \<union> {}) h' s m"
    by (rule holds_mono [OF i(2) isolated_agree [OF i(1) new(3)]]) simp_all
  have "holds (priv \<union> gained h h') (frozen \<union> {}) h' s' (save_action_locked (struct_of_action h x) m)"
    using old pair_update [OF _ new(2), of "go_actions s" "ms_actions m" "ga_id x"]
      order_cong [OF holds_keys(2) [OF old, of "ga_id x"]]
    by (simp add: holds_def s' save_action_locked_def v(2) Let_def cong: option.case_cong)
  then show "safe h' s' known frozen (save_action_locked (struct_of_action h x) m)"
    using new(1) by (auto simp: safe_def)
qed

lemma safe_save_action:
  assumes "safe h s known frozen m" "set_option p \<subseteq> known"
  shows "case save_action_ref h s p of
      Inl e \<Rightarrow> store_does h (SaveAction p) m = (m, Stopped e)
    | Inr (h', s') \<Rightarrow> \<exists>m'. store_does h (SaveAction p) m = (m', Went) \<and> safe h' s' known frozen m'"
proof (cases "deref action_in h p")
  case None
  then show ?thesis by (simp add: save_action_ref_def action_value_def)
next
  case (Some x)
  then have "action_value h p = Some (struct_of_action h x)" "act_id (struct_of_action h x) = ga_id x"
    by (simp_all add: action_value_def struct_of_action_def)
  then show ?thesis
    using Some save_action_locked_safe(1) [OF assms Some]
    by (auto simp: save_action_ref_def save_action_def stored_or_stopped_def split: prod.splits)
qed

subsection \<open>Appending to the trail\<close>

text \<open>Numbering an entry changes its number and nothing else that anyone reads.\<close>

lemma set_sequence_cases:
  obtains "set_sequence p q h = h" "deref entry_in h p = None"
  | a e where "p = Some a" "hp_cell h a = EntryCell e"
      "set_sequence p q h = assign a (EntryCell (e\<lparr>gn_sequence := q\<rparr>)) h"
proof (cases p)
  case None
  then show thesis using that(1) by (simp add: set_sequence_def deref_def)
next
  case (Some a)
  then show thesis using that by (cases "hp_cell h a") (simp_all add: set_sequence_def deref_def)
qed

lemma set_sequence_refs:
  "hp_next (set_sequence p q h) = hp_next h" "cell_refs (hp_cell (set_sequence p q h) a) = cell_refs (hp_cell h a)"
  by (cases rule: set_sequence_cases [where p = p and q = q and h = h]; simp add: assign_def)+

lemma set_sequence_reads:
  "elements strings_in (set_sequence p q h) s = elements strings_in h s"
  "deref details_in (set_sequence p q h) r = deref details_in h r"
  "deref entry_in (set_sequence p q h) r =
     map_option (\<lambda>e. if r = p then e\<lparr>gn_sequence := q\<rparr> else e) (deref entry_in h r)"
proof -
  show "elements strings_in (set_sequence p q h) s = elements strings_in h s"
    by (cases rule: set_sequence_cases [where p = p and q = q and h = h]) (simp_all add: assign_def elements_def split: option.split)
  show "deref details_in (set_sequence p q h) r = deref details_in h r"
    by (cases rule: set_sequence_cases [where p = p and q = q and h = h]; cases r) (simp_all add: assign_def deref_def)
  show "deref entry_in (set_sequence p q h) r =
     map_option (\<lambda>e. if r = p then e\<lparr>gn_sequence := q\<rparr> else e) (deref entry_in h r)"
  proof (cases rule: set_sequence_cases [where p = p and q = q and h = h])
    case 1
    then show ?thesis by (cases "r = p") (simp_all add: option.map_ident)
  next
    case (2 a e)
    then show ?thesis by (cases r) (auto simp: assign_def deref_def option.map_ident)
  qed
qed

lemma isolated_set_sequence [simp]:
  "isolated (set_sequence p q h) known priv frozen = isolated h known priv frozen"
  by (simp add: isolated_def avoids_def unallocated_def set_sequence_refs)

lemma agree_set_sequence: "set_option p \<inter> S = {} \<Longrightarrow> agree_on S h (set_sequence p q h)"
  by (cases rule: set_sequence_cases [where p = p and q = q and h = h]) (auto simp: agree_on_def assign_def)

lemma detail_value_set_sequence [simp]: "detail_value (set_sequence p q h) d = detail_value h d"
  by (cases d) (simp_all add: set_sequence_reads)

lemma details_set_sequence:
  "details_value (set_sequence p q h) r = details_value h r"
  "details_shared (set_sequence p q h) r = details_shared h r"
  by (simp_all add: details_value_def details_shared_def set_sequence_reads(2) split: option.split)

lemma entry_set_sequence:
  "entry_value (set_sequence p q h) r = map_option (\<lambda>e. if r = p then e\<lparr>ae_sequence := q\<rparr> else e) (entry_value h r)"
  "entry_shared (set_sequence p q h) r = entry_shared h r"
  "entry_owned (set_sequence p q h) r = entry_owned h r"
proof -
  have "struct_of_entry (set_sequence p q h) (if r = p then e\<lparr>gn_sequence := q\<rparr> else e) =
      (if r = p then (struct_of_entry h e)\<lparr>ae_sequence := q\<rparr> else struct_of_entry h e)" for e
    by (simp add: struct_of_entry_def details_set_sequence)
  then show "entry_value (set_sequence p q h) r =
      map_option (\<lambda>e. if r = p then e\<lparr>ae_sequence := q\<rparr> else e) (entry_value h r)"
    unfolding entry_value_def set_sequence_reads(3) by (cases "deref entry_in h r") simp_all
  show "entry_shared (set_sequence p q h) r = entry_shared h r"
    unfolding entry_shared_def set_sequence_reads(3)
    by (cases "deref entry_in h r") (simp_all add: details_set_sequence)
  show "entry_owned (set_sequence p q h) r = entry_owned h r"
    unfolding entry_owned_def set_sequence_reads(3) by (cases "deref entry_in h r") simp_all
qed

definition unnumbered :: "audit_entry option \<Rightarrow> audit_entry option" where
  "unnumbered = map_option (ae_sequence_update (\<lambda>_. 0))"

lemma unnumbered_set_sequence: "unnumbered (entry_value (set_sequence p q h) r) = unnumbered (entry_value h r)"
  by (cases "entry_value h r") (simp_all add: unnumbered_def entry_set_sequence)

lemma append_audit_unnumbered:
  "unnumbered (Some e) = unnumbered (Some e') \<Longrightarrow> append_audit_locked e m = append_audit_locked e' m"
  unfolding append_audit_locked_def unnumbered_def
  by (cases e; cases e') (simp add: Let_def)

lemma append_one:
  assumes safe: "isolated h known priv frozen" "holds priv frozen h s m"
    and p: "set_option p \<subseteq> known" "set_option p \<inter> frozen = {}" "entry_value h p = Some e"
    and step: "append_audit_locked_ref p (h, s) = (h3, s3)"
  shows "safe h3 s3 known (frozen \<union> entry_shared h p) (append_audit_locked e m)"
    "set_option r \<subseteq> known \<Longrightarrow>
       unnumbered (entry_value h3 r) = unnumbered (entry_value h r) \<and> entry_shared h3 r = entry_shared h r"
proof -
  let ?q = "go_audit_seq s + 1" and ?F = "frozen \<union> entry_shared h p"
  obtain c h1 where c: "deep_copy_entry h p = (c, h1)" by (metis surj_pair)
  have h3: "h3 = set_sequence p ?q (set_sequence c ?q h1)"
    and s3: "s3 = s\<lparr>go_audit_seq := ?q, go_audit_log := go_audit_log s @ [c]\<rparr>"
    using step c by (simp_all add: append_audit_locked_ref_def Let_def)
  note new = entry_copy.copy_in [OF safe(1) p(1,3) c]
  let ?P = "priv \<union> gained h h1"
  have seq: "?q = ms_audit_seq m + 1" using safe(2) by (simp add: holds_def)
  have apart: "set_option c \<inter> (priv \<union> frozen \<union> known) = {}" "set_option p \<inter> (priv \<union> frozen) = {}"
    using new(4) safe(1) p(1,2) by (auto simp: isolated_def gained_def unallocated_def)
  have "agree_on (priv \<union> frozen) h1 (set_sequence c ?q h1)"
    "agree_on (priv \<union> frozen) (set_sequence c ?q h1) h3"
    unfolding h3 using apart by (intro agree_set_sequence; blast)+
  then have "agree_on (priv \<union> frozen) h h3"
    using isolated_agree [OF safe(1) new(3)] by (simp add: agree_on_def)
  then have old: "holds ?P ?F h3 s m" by (intro holds_mono [OF safe(2)]) auto
  have "c \<noteq> None" using new(2) by (cases c) (auto simp: kept_def entry_value_def deref_def)
  then have "c \<noteq> p" using apart(1) p(1) by auto
  then have "entry_kept ?P ?F h3 c (e\<lparr>ae_sequence := ?q\<rparr>)"
    using new(2) by (simp add: kept_def h3 entry_set_sequence)
  then have "holds ?P ?F h3 s3 (append_audit_locked e m)"
    using old by (simp add: holds_def s3 append_audit_locked_def Let_def list_all2_appendI seq)
  then show "safe h3 s3 known ?F (append_audit_locked e m)"
    using new(1) by (auto simp: safe_def h3)
  assume r: "set_option r \<subseteq> known"
  have "agree_on (entry_owned h r \<union> entry_shared h r) h h1"
    by (rule grows_agree [OF new(3) entry_copy.reached_allocated [OF safe(1) r]])
  from entry_depends [OF this]
  show "unnumbered (entry_value h3 r) = unnumbered (entry_value h r) \<and> entry_shared h3 r = entry_shared h r"
    by (simp add: h3 entry_set_sequence(2) unnumbered_set_sequence)
qed

lemma append_all:
  assumes "safe h s known frozen m" "\<Union> (set_option ` set ps) \<subseteq> known"
    and "\<Union> (set_option ` set ps) \<inter> (frozen \<union> \<Union> (entry_shared h ` set ps)) = {}"
    and "list_all2 (\<lambda>p e. unnumbered (entry_value h p) = unnumbered (Some e)) ps es"
    and "fold append_audit_locked_ref ps (h, s) = (h', s')"
  shows "safe h' s' known (frozen \<union> \<Union> (entry_shared h ` set ps)) (fold append_audit_locked es m)"
  using assms
proof (induction ps arbitrary: h s frozen m es)
  case Nil
  then show ?case by simp
next
  case (Cons p ps)
  obtain e es' where es: "es = e # es'" "unnumbered (entry_value h p) = unnumbered (Some e)"
    "list_all2 (\<lambda>p e. unnumbered (entry_value h p) = unnumbered (Some e)) ps es'"
    using Cons.prems(4) by (auto simp: list_all2_Cons1)
  obtain e0 where e: "entry_value h p = Some e0" using es(2) by (cases "entry_value h p") (auto simp: unnumbered_def)
  then have e0: "entry_value h p = Some e0" "append_audit_locked e0 m = append_audit_locked e m"
    using es(2) append_audit_unnumbered [of e0 e m] by simp_all
  obtain h1 s1 where 1: "append_audit_locked_ref p (h, s) = (h1, s1)" by (metis surj_pair)
  obtain priv where i: "isolated h known priv frozen" "holds priv frozen h s m"
    using Cons.prems(1) by (auto simp: safe_def)
  have p: "set_option p \<subseteq> known" "set_option p \<inter> frozen = {}" using Cons.prems(2,3) by auto
  note one = append_one [OF i p e0(1) 1]
  have rest: "unnumbered (entry_value h1 r) = unnumbered (entry_value h r) \<and> entry_shared h1 r = entry_shared h r"
    if "r \<in> set ps" for r
    using one(2) [of r] Cons.prems(2) that by auto
  have shared: "entry_shared h1 ` set ps = entry_shared h ` set ps" by (rule image_cong) (simp_all add: rest)
  have "safe h' s' known (frozen \<union> entry_shared h p \<union> \<Union> (entry_shared h1 ` set ps))
      (fold append_audit_locked es' (append_audit_locked e0 m))"
  proof (rule Cons.IH [OF one(1)])
    show "\<Union> (set_option ` set ps) \<subseteq> known" using Cons.prems(2) by simp
    show "\<Union> (set_option ` set ps) \<inter> (frozen \<union> entry_shared h p \<union> \<Union> (entry_shared h1 ` set ps)) = {}"
      unfolding shared using Cons.prems(3) by auto
    show "list_all2 (\<lambda>p e. unnumbered (entry_value h1 p) = unnumbered (Some e)) ps es'"
      using es(3) by (rule list.rel_mono_strong) (simp add: rest)
    show "fold append_audit_locked_ref ps (h1, s1) = (h', s')" using Cons.prems(5) 1 by simp
  qed
  then show ?case unfolding shared e0(2) es(1) by (simp add: Un_assoc)
qed

lemma entry_without_id: "entry_without_id h p = (case entry_value h p of None \<Rightarrow> True | Some e \<Rightarrow> ae_id e = [])"
  by (cases "deref entry_in h p") (simp_all add: entry_without_id_def entry_value_def struct_of_entry_def)

lemma safe_append:
  assumes "safe h s known frozen m" "set_option p \<subseteq> known" "set_option p \<inter> (frozen \<union> entry_shared h p) = {}"
  shows "case append_audit_ref h s p of
      Inl e \<Rightarrow> store_does h (AppendEntry p) m = (m, Stopped e)
    | Inr (h', s') \<Rightarrow> \<exists>m'. store_does h (AppendEntry p) m = (m', Went) \<and>
        safe h' s' known (frozen \<union> entry_shared h p) m'"
proof (cases "entry_value h p")
  case None
  then show ?thesis by (simp add: append_audit_ref_def entry_without_id)
next
  case (Some e)
  obtain h' s' where 1: "append_audit_locked_ref p (h, s) = (h', s')" by (metis surj_pair)
  have "safe h' s' known (frozen \<union> \<Union> (entry_shared h ` set [p])) (fold append_audit_locked [e] m)"
    by (rule append_all [OF assms(1)]) (use assms(2,3) Some 1 in auto)
  then show ?thesis using Some 1
    by (simp add: append_audit_ref_def append_audit_def entry_without_id stored_or_stopped_def)
qed

lemma action_or_none:
  assumes "safe h s known frozen m" "set_option p \<subseteq> known"
    and "(case deref action_in h p of None \<Rightarrow> (h, s) | Some a \<Rightarrow> save_action_locked_ref a p (h, s)) = (h1, s1)"
  shows "safe h1 s1 known frozen (case action_value h p of None \<Rightarrow> m | Some a \<Rightarrow> save_action_locked a m) \<and> grows UNIV h h1"
proof (cases "deref action_in h p")
  case (Some x)
  then show ?thesis using save_action_locked_safe [OF assms(1,2) Some] assms(3) by (simp add: action_value_def)
qed (use assms in \<open>simp add: action_value_def\<close>)

lemma entry_unchanged:
  assumes "safe h s known frozen m" "set_option r \<subseteq> known" "grows UNIV h h'"
  shows "entry_value h' r = entry_value h r \<and> entry_shared h' r = entry_shared h r"
proof -
  obtain priv where "isolated h known priv frozen" using assms(1) by (auto simp: safe_def)
  from entry_copy.reached_allocated [OF this assms(2)] have "agree_on (entry_owned h r \<union> entry_shared h r) h h'"
    by (rule grows_agree [OF assms(3)])
  from entry_depends [OF this] show ?thesis by simp
qed

lemma entries_given:
  "\<forall>q \<in> set ps. entry_value h q \<noteq> None \<Longrightarrow>
     list_all2 (\<lambda>p e. entry_value h p = Some e) ps (List.map_filter (entry_value h) ps)"
  by (induction ps) (auto simp: map_filter_simps)

lemma entries_without_id:
  "\<forall>q \<in> set ps. entry_value h q \<noteq> None \<Longrightarrow>
     (\<exists>e \<in> set ps. entry_without_id h e) \<longleftrightarrow> (\<exists>e \<in> set (List.map_filter (entry_value h) ps). ae_id e = [])"
  by (induction ps) (auto simp: map_filter_simps entry_without_id)

lemma action_without_id:
  "(case deref action_in h p of None \<Rightarrow> False | Some a \<Rightarrow> ga_id a = []) \<longleftrightarrow>
     (case action_value h p of None \<Rightarrow> False | Some a \<Rightarrow> act_id a = [])"
  by (cases "deref action_in h p") (simp_all add: action_value_def struct_of_action_def)

lemma append_all_given:
  assumes safe: "safe h s known frozen m" and p: "set_option p \<union> \<Union> (set_option ` set ps) \<subseteq> known"
    and apart: "\<Union> (set_option ` set ps) \<inter> (frozen \<union> \<Union> (entry_shared h ` set ps)) = {}"
    and es: "list_all2 (\<lambda>p e. entry_value h p = Some e) ps es"
    and act: "(case deref action_in h p of None \<Rightarrow> (h, s) | Some a \<Rightarrow> save_action_locked_ref a p (h, s)) = (h1, s1)"
    and run: "fold append_audit_locked_ref ps (h1, s1) = (h', s')"
  shows "safe h' s' known (frozen \<union> \<Union> (entry_shared h ` set ps))
    (fold append_audit_locked es (case action_value h p of None \<Rightarrow> m | Some a \<Rightarrow> save_action_locked a m))"
proof -
  have 1: "safe h1 s1 known frozen (case action_value h p of None \<Rightarrow> m | Some a \<Rightarrow> save_action_locked a m)"
    "grows UNIV h h1"
    using action_or_none [OF safe _ act] p by auto
  have same: "entry_value h1 r = entry_value h r \<and> entry_shared h1 r = entry_shared h r" if "r \<in> set ps" for r
    using p that by (intro entry_unchanged [OF safe _ 1(2)]) auto
  then have shared: "entry_shared h1 ` set ps = entry_shared h ` set ps" by (intro image_cong) simp_all
  have "list_all2 (\<lambda>p e. unnumbered (entry_value h1 p) = unnumbered (Some e)) ps es"
    using es by (rule list.rel_mono_strong) (simp add: same)
  from append_all [OF 1(1) _ _ this run] show ?thesis using p apart unfolding shared by simp
qed

lemma safe_save_action_with_audit:
  assumes "safe h s known frozen m" "set_option p \<union> \<Union> (set_option ` set ps) \<subseteq> known"
    and "\<Union> (set_option ` set ps) \<inter> (frozen \<union> \<Union> (entry_shared h ` set ps)) = {}"
  shows "case save_action_with_audit_ref h s p ps of
      Inl e \<Rightarrow> store_does h (SaveActionWithEntries p ps) m = (m, Stopped e)
    | Inr (h', s') \<Rightarrow> \<exists>m'. store_does h (SaveActionWithEntries p ps) m = (m', Went) \<and>
        safe h' s' known (frozen \<union> \<Union> (entry_shared h ` set ps)) m'"
proof (cases "\<exists>q \<in> set ps. entry_value h q = None")
  case True
  then have "\<exists>e \<in> set ps. entry_without_id h e" unfolding entry_without_id by force
  with True show ?thesis
    by (cases "action_value h p") (simp_all add: save_action_with_audit_ref_def action_without_id)
next
  case False
  then have some: "\<forall>q \<in> set ps. entry_value h q \<noteq> None" by auto
  let ?es = "List.map_filter (entry_value h) ps"
  show ?thesis
  proof (cases "(case action_value h p of None \<Rightarrow> False | Some a \<Rightarrow> act_id a = []) \<or>
      (\<exists>e \<in> set ?es. ae_id e = [])")
    case True
    then show ?thesis using False
      by (auto simp: save_action_with_audit_ref_def action_without_id entries_without_id [OF some]
          save_action_with_audit_def stored_or_stopped_def)
  next
    case ok: False
    obtain h1 s1 where 1: "(case deref action_in h p of None \<Rightarrow> (h, s)
        | Some a \<Rightarrow> save_action_locked_ref a p (h, s)) = (h1, s1)" by (metis surj_pair)
    obtain h' s' where 2: "fold append_audit_locked_ref ps (h1, s1) = (h', s')" by (metis surj_pair)
    note given = append_all_given [OF assms entries_given [OF some] 1 2]
    show ?thesis using ok False given 1 2
      by (simp add: save_action_with_audit_ref_def action_without_id entries_without_id [OF some]
          save_action_with_audit_def stored_or_stopped_def)
  qed
qed

subsection \<open>Every call\<close>

definition world_safe :: "world \<Rightarrow> memory_store \<Rightarrow> bool" where
  "world_safe w m \<longleftrightarrow> safe (wd_heap w) (wd_store w) (wd_known w) (wd_frozen w) m"

definition call_refines :: "world \<Rightarrow> memory_call \<Rightarrow> memory_store \<Rightarrow> bool" where
  "call_refines w c m \<longleftrightarrow>
     store_does (wd_heap w) c m =
       (fst (store_does (wd_heap w) c m), seen c (wd_heap (fst (perform w c))) (snd (perform w c))) \<and>
     world_safe (fst (perform w c)) (fst (store_does (wd_heap w) c m))"

lemma write_refines:
  assumes "case r of
      Inl e \<Rightarrow> store_does (wd_heap w) c m = (m, Stopped e)
    | Inr (h', s') \<Rightarrow> \<exists>m'. store_does (wd_heap w) c m = (m', Went) \<and>
        safe h' s' (wd_known w) (wd_frozen w \<union> shared) m'"
    and "perform w c = after_write w shared r" "world_safe w m"
  shows "call_refines w c m"
proof (cases r)
  case (Inl e)
  then show ?thesis using assms by (simp add: call_refines_def after_write_def)
next
  case (Inr hs)
  then show ?thesis using assms by (cases hs) (auto simp: call_refines_def after_write_def world_safe_def)
qed

lemma caller_refines:
  "world_safe w m \<Longrightarrow> permitted w (NewCell c) \<Longrightarrow> call_refines w (NewCell c) m"
  "world_safe w m \<Longrightarrow> permitted w (WriteCell a c) \<Longrightarrow> call_refines w (WriteCell a c) m"
  "world_safe w m \<Longrightarrow> permitted w (ReadCell a) \<Longrightarrow> call_refines w (ReadCell a) m"
  using safe_new_cell [of "wd_heap w" "wd_store w" "wd_known w" "wd_frozen w" m c]
    safe_write_cell [of "wd_heap w" "wd_store w" "wd_known w" "wd_frozen w" m a c]
    safe_read_cell [of "wd_heap w" "wd_store w" "wd_known w" "wd_frozen w" m a]
  by (auto simp: call_refines_def world_safe_def split: prod.split)

lemma get_refines:
  assumes "world_safe w m"
  shows "call_refines w (GetIncident iid) m" "call_refines w (GetAction iid) m"
proof -
  have safe: "safe (wd_heap w) (wd_store w) (wd_known w) (wd_frozen w) m"
    using assms by (simp add: world_safe_def)
  show "call_refines w (GetIncident iid) m" using safe_get_incident [OF safe, of iid] assms
    by (auto simp: call_refines_def world_safe_def after_get_def after_read_def split: sum.splits)
  show "call_refines w (GetAction iid) m" using safe_get_action [OF safe, of iid] assms
    by (auto simp: call_refines_def world_safe_def after_get_def after_read_def split: sum.splits)
qed

lemma list_refines:
  assumes "world_safe w m"
  shows "call_refines w (ListEvents l off) m" "call_refines w CountEvents m"
    "call_refines w (ListIncidents f) m" "call_refines w (ListActions iid l off) m"
    "call_refines w (ListEntries l off) m"
proof -
  note safe = assms [unfolded world_safe_def]
  obtain ps n h where 1: "list_incidents_ref (wd_heap w) (wd_store w) f = ((ps, n), h)" by (metis surj_pair)
  obtain es i h0 where 0: "list_events_ref (wd_heap w) (wd_store w) l off = ((es, i), h0)" by (metis surj_pair)
  show "call_refines w (ListEvents l off) m" using safe_list_events [OF safe 0]
    by (simp add: call_refines_def world_safe_def after_read_def 0)
  show "call_refines w CountEvents m" using safe
    by (auto simp: call_refines_def world_safe_def count_events_def safe_def holds_def dest: list_all2_lengthD)
  show "call_refines w (ListIncidents f) m" using safe_list_incidents [OF safe 1]
    by (simp add: call_refines_def world_safe_def after_read_def 1)
  obtain qs k h2 where 2: "list_actions_ref (wd_heap w) (wd_store w) iid l off = ((qs, k), h2)" by (metis surj_pair)
  show "call_refines w (ListActions iid l off) m" using safe_list_actions [OF safe 2]
    by (simp add: call_refines_def world_safe_def after_read_def 2)
  obtain rs j h3 where 3: "list_audit_ref (wd_heap w) (wd_store w) l off = ((rs, j), h3)" by (metis surj_pair)
  show "call_refines w (ListEntries l off) m" using safe_list_entries [OF safe 3]
    by (simp add: call_refines_def world_safe_def after_read_def 3)
qed

lemma perform_refines:
  assumes "world_safe w m" "permitted w c"
  shows "call_refines w c m"
proof -
  note safe = assms(1) [unfolded world_safe_def]
  show ?thesis
  proof (cases c)
    case (SaveEvent p)
    then show ?thesis unfolding SaveEvent using safe_save_event [OF safe, of p] assms SaveEvent
      by (intro write_refines [where shared = "event_shared (wd_heap w) p"]) simp_all
  next
    case (SaveIncident p)
    show ?thesis unfolding SaveIncident using safe_save_incident [OF safe, of p] assms SaveIncident
      by (intro write_refines [where shared = "{}", unfolded Un_empty_right]) simp_all
  next
    case (SaveAction p)
    show ?thesis unfolding SaveAction using safe_save_action [OF safe, of p] assms SaveAction
      by (intro write_refines [where shared = "{}", unfolded Un_empty_right]) simp_all
  next
    case (AppendEntry p)
    show ?thesis unfolding AppendEntry using safe_append [OF safe, of p] assms AppendEntry
      by (intro write_refines [where shared = "entry_shared (wd_heap w) p"]) (simp_all add: entries_apart_def)
  next
    case (SaveActionWithEntries p ps)
    show ?thesis unfolding SaveActionWithEntries using safe_save_action_with_audit [OF safe, of p ps] assms SaveActionWithEntries
      by (intro write_refines [where shared = "\<Union> (entry_shared (wd_heap w) ` set ps)"])
        (simp_all add: entries_apart_def)
  qed (use assms caller_refines get_refines list_refines in auto)
qed

lemma start_safe: "world_safe (start_world max_events) (new_memory_store max_events)"
  unfolding world_safe_def safe_def
  by (intro exI [of _ "{}"])
    (simp add: start_world_def isolated_def avoids_def unallocated_def holds_def empty_go_store_def new_memory_store_def)

lemma reachable_pair_safe: "reachable_pair max_events w m \<Longrightarrow> world_safe w m"
proof (induction rule: reachable_pair.induct)
  case start
  show ?case by (rule start_safe)
next
  case (call w m c)
  then show ?case using perform_refines [of w m c] by (simp add: call_refines_def)
qed

text \<open>Runs of calls.\<close>

primrec perform_all :: "memory_call list \<Rightarrow> world \<Rightarrow> world" where
  "perform_all [] w = w"
| "perform_all (c # cs) w = perform_all cs (fst (perform w c))"

primrec permitted_all :: "world \<Rightarrow> memory_call list \<Rightarrow> bool" where
  "permitted_all w [] = True"
| "permitted_all w (c # cs) = (permitted w c \<and> permitted_all (fst (perform w c)) cs)"

fun appends :: "memory_call \<Rightarrow> bool" where
  "appends (AppendEntry _) = True"
| "appends (SaveActionWithEntries _ _) = True"
| "appends _ = False"

definition trail_in :: "world \<Rightarrow> audit_entry option list" where
  "trail_in w = map (entry_value (wd_heap w)) (go_audit_log (wd_store w))"

lemma reachable_run:
  "reachable_pair max_events w m \<Longrightarrow> permitted_all w cs \<Longrightarrow> \<exists>m'. reachable_pair max_events (perform_all cs w) m'"
  by (induction cs arbitrary: w m) (auto intro: reachable_pair.call)

lemma safe_represents: "world_safe w m \<Longrightarrow> represents (wd_heap w) (wd_store w) m"
  by (auto simp: world_safe_def safe_def dest: holds_represents)

lemma fold_append_audit_trail: "\<exists>new. ms_audit_log (fold append_audit_locked es m) = ms_audit_log m @ new"
proof (induction es arbitrary: m)
  case (Cons e es)
  from Cons.IH [of "append_audit_locked e m"] show ?case by (auto simp: append_audit_locked_def Let_def)
qed simp

lemma save_with_audit_trail:
  "save_action_with_audit m act es = Inr m' \<Longrightarrow> \<exists>new. ms_audit_log m' = ms_audit_log m @ new"
  using fold_append_audit_trail [of es "case act of None \<Rightarrow> m | Some a \<Rightarrow> save_action_locked a m"]
  by (cases act) (simp_all add: save_action_with_audit_eq)

lemma store_does_trail:
  "\<exists>new. ms_audit_log (fst (store_does h c m)) = ms_audit_log m @ new \<and> (\<not> appends c \<longrightarrow> new = [])"
proof (cases c)
  case (SaveEvent p)
  then show ?thesis using save_event_frame [of m]
    by (auto simp: stored_or_stopped_def split: option.split sum.split)
next
  case (SaveIncident p)
  then show ?thesis using save_incident_frame [of m]
    by (auto simp: stored_or_stopped_def split: option.split sum.split)
next
  case (SaveAction p)
  then show ?thesis by (auto simp: stored_or_stopped_def save_action_def split: option.split)
next
  case (AppendEntry p)
  then show ?thesis
    by (auto simp: stored_or_stopped_def append_audit_def append_audit_locked_def Let_def split: option.split)
next
  case (SaveActionWithEntries p ps)
  then show ?thesis
    using save_with_audit_trail by (fastforce simp: stored_or_stopped_def split: option.split sum.split)
qed simp_all

lemma perform_trail:
  assumes "world_safe w m" "permitted w c"
  shows "\<exists>new. trail_in (fst (perform w c)) = trail_in w @ new \<and> (\<not> appends c \<longrightarrow> new = [])"
proof -
  have "world_safe (fst (perform w c)) (fst (store_does (wd_heap w) c m))"
    using perform_refines [OF assms] by (simp add: call_refines_def)
  from safe_represents [OF this] safe_represents [OF assms(1)]
  have "trail_in (fst (perform w c)) = map Some (ms_audit_log (fst (store_does (wd_heap w) c m)))"
    "trail_in w = map Some (ms_audit_log m)"
    by (simp_all add: represents_def trail_in_def)
  then show ?thesis using store_does_trail [of "wd_heap w" c m] by auto
qed

subsection \<open>Properties\<close>

text \<open>An incident built by a caller, saved, and then rewritten by that caller.\<close>

definition sample_go_finding :: go_finding where
  "sample_go_finding = \<lparr> gf_id = ''f'', gf_rule_id = ''r'', gf_title = [], gf_description = [],
     gf_category = [], gf_severity = [], gf_confidence = Num 1, gf_techniques = nil_slice,
     gf_entity_ids = nil_slice, gf_event_ids = Slice (Some 0) 0 1, gf_first_seen = 0, gf_last_seen = 0 \<rparr>"

definition sample_go_incident :: go_incident where
  "sample_go_incident = \<lparr> gi_id = ''inc'', gi_schema_version = [], gi_title = [], gi_status = StatusOpen,
     gi_severity = [], gi_risk_score = 1, gi_confidence = 1, gi_first_seen = 0, gi_last_seen = 0,
     gi_updated_at = 0, gi_primary_identity = [], gi_entities = nil_slice,
     gi_findings = Slice (Some 1) 0 1, gi_attack_techniques = nil_slice,
     gi_blast_radius = \<lparr> gb_score = 0, gb_max_hops = 0, gb_critical_assets = 0, gb_summary = [],
       gb_reachable = nil_slice \<rparr>,
     gi_recommended_actions = nil_slice, gi_evidence = nil_slice \<rparr>"

definition sample_calls :: "memory_call list" where
  "sample_calls = [NewCell (StringArray [''ev-1'']), NewCell (FindingArray [sample_go_finding]),
     NewCell (IncidentCell sample_go_incident), SaveIncident (Some 2)]"

lemma sample_calls_permitted: "permitted_all (start_world 0) (sample_calls @ [WriteCell 0 (StringArray [''forged''])])"
  by (simp add: sample_calls_def start_world_def allocate_def sample_go_finding_def sample_go_incident_def
      finding_refs_def incident_refs_def slice_refs_def after_write_def save_incident_ref_def deref_def
      Let_def split: prod.split)

lemma sample_reachable:
  obtains m where "reachable_pair 0 (perform_all sample_calls (start_world 0)) m"
    "permitted (perform_all sample_calls (start_world 0)) (WriteCell 0 (StringArray [''forged'']))"
proof -
  have split: "permitted_all w (cs @ [c]) = (permitted_all w cs \<and> permitted (perform_all cs w) c)" for w cs c
    by (induction cs arbitrary: w) simp_all
  have "permitted_all (start_world 0) sample_calls"
    "permitted (perform_all sample_calls (start_world 0)) (WriteCell 0 (StringArray [''forged'']))"
    using sample_calls_permitted by (simp_all only: split)
  then show ?thesis using reachable_run [OF reachable_pair.start] that by blast
qed





text \<open>
  The lists in the details of an entry are what \<open>wd_frozen\<close> is about: they are not copied, so a
  caller that went on writing to one would rewrite the committed entry. The service puts the list
  of quarantined label keys there, and nothing writes to that list afterwards.
\<close>

definition sample_go_entry :: go_entry where
  "sample_go_entry = \<lparr> gn_id = ''a'', gn_sequence = 0, gn_timestamp = 0, gn_actor = [], gn_actor_role = [],
     gn_action = ActionEventQuarantined, gn_subject_type = [], gn_subject_id = [], gn_outcome = OutcomeSuccess,
     gn_reason = [], gn_request_id = [], gn_details = Some 1 \<rparr>"

definition quarantine_calls :: "memory_call list" where
  "quarantine_calls = [NewCell (StringArray [''approve'']),
     NewCell (DetailsMap [(''quarantined_keys'', GStrings (Slice (Some 0) 0 1))]),
     NewCell (EntryCell sample_go_entry), AppendEntry (Some 2)]"

theorem details_lists_are_shared:
  "let w = perform_all quarantine_calls (start_world 0); w' = fst (perform w (WriteCell 0 (StringArray [])))
   in permitted_all (start_world 0) quarantine_calls \<and> 0 \<in> wd_known w \<and>
     map (map_option ae_details) (trail_in w) = [Some [(''quarantined_keys'', DStrings [''approve''])]] \<and>
     map (map_option ae_details) (trail_in w') = [Some [(''quarantined_keys'', DStrings [])]]"
  by (simp add: quarantine_calls_def start_world_def allocate_def sample_go_entry_def slice_refs_def
      after_write_def append_audit_ref_def append_audit_locked_ref_def deep_copy_entry_def copy_details_def
      entry_without_id_def entries_apart_def entry_shared_def details_shared_def deref_def set_sequence_def
      assign_def trail_in_def entry_value_def struct_of_entry_def details_value_def elements_def
      empty_go_store_def Let_def)

text \<open>
  The parts of a saved event are shared in the same way, in both directions: a caller that wrote to
  the labels of an event it had saved, or of one it had listed, would rewrite the stored event.
\<close>

definition sample_go_event :: go_event where
  "sample_go_event = \<lparr> gv_id = ''ev-1'', gv_schema_version = [], gv_timestamp = 0, gv_received_at = 0,
     gv_source_type = [], gv_source_name = [], gv_event_type = [], gv_category = [], gv_severity = [],
     gv_actor = None, gv_target = None, gv_device = None, gv_network = None, gv_cloud = None,
     gv_raw_reference = None, gv_labels = Some 0, gv_correlation_id = [], gv_quarantined = nil_slice \<rparr>"

definition event_calls :: "memory_call list" where
  "event_calls = [NewCell (LabelsMap [(''env'', ''prod'')]), NewCell (EventCell sample_go_event), SaveEvent (Some 1)]"

theorem event_parts_are_shared:
  "let w = perform_all event_calls (start_world 0); w' = fst (perform w (WriteCell 0 (LabelsMap [])));
       stored = (\<lambda>w. map (map_option ev_labels) (map (event_value (wd_heap w)) (go_events (wd_store w))))
   in permitted_all (start_world 0) event_calls \<and> 0 \<in> wd_known w \<and>
     stored w = [Some [(''env'', ''prod'')]] \<and> stored w' = [Some []]"
  by (simp add: event_calls_def start_world_def allocate_def sample_go_event_def event_refs_def slice_refs_def
      after_write_def save_event_ref_def shallow_copy_event_def deref_def assign_def event_value_def
      struct_of_event_def elements_def empty_go_store_def Let_def)

end
