(* ===== verification/Metrics.thy ===== *)
theory Metrics
  imports Router
begin

text \<open>
  The counters of \<^verbatim>\<open>src/internal/api/metrics.go\<close> and where the service and the router count. The
  other theories leave them out, since nothing reads them but \<^verbatim>\<open>GET /metrics\<close>; here it is shown
  exactly which requests the router with its counters counts, and under which status, and that
  leaving the counters out of the other theories does not change an answer. The Prometheus library is taken as a registry that refuses a name twice
  and as counters indexed by their label values.
\<close>

subsection \<open>Counters\<close>

type_synonym counter_vec = "(string list \<times> nat) list"

definition counter_value :: "counter_vec \<Rightarrow> string list \<Rightarrow> nat" where
  "counter_value c labels = (case map_of c labels of None \<Rightarrow> 0 | Some n \<Rightarrow> n)"

definition count_up :: "string list \<Rightarrow> counter_vec \<Rightarrow> counter_vec" where
  "count_up labels c = AList.update labels (Suc (counter_value c labels)) c"

definition counter_total :: "counter_vec \<Rightarrow> nat" where
  "counter_total c = sum_list (map snd c)"

text \<open>\<open>mt_request_duration\<close> has the observations of each pair of labels; the library sorts them into buckets.\<close>

record metrics =
  mt_events_ingested :: counter_vec
  mt_events_rejected :: counter_vec
  mt_incidents_touched :: counter_vec
  mt_policy_decisions :: counter_vec
  mt_correlation_errors :: nat
  mt_bus_errors :: nat
  mt_requests_total :: counter_vec
  mt_request_duration :: "(string list \<times> duration list) list"

text \<open>The collectors by name, with their labels, in the order of their registration.\<close>

definition collectors :: "(string \<times> string list) list" where
  "collectors =
     [(''griefer_events_ingested_total'', [''category'']),
      (''griefer_events_rejected_total'', [''reason'']),
      (''griefer_incidents_total'', [''outcome'']),
      (''griefer_policy_decisions_total'', [''effect'', ''engine'', ''fail_closed'']),
      (''griefer_correlation_errors_total'', []),
      (''griefer_bus_publish_errors_total'', []),
      (''griefer_http_requests_total'', [''method'', ''route'', ''status'']),
      (''griefer_http_request_duration_seconds'', [''method'', ''route''])]"

definition empty_metrics :: metrics where
  "empty_metrics = \<lparr> mt_events_ingested = [], mt_events_rejected = [], mt_incidents_touched = [],
     mt_policy_decisions = [], mt_correlation_errors = 0, mt_bus_errors = 0, mt_requests_total = [],
     mt_request_duration = [] \<rparr>"

text \<open>\<^verbatim>\<open>MustRegister\<close> takes one collector after the other and panics on a name it already has.\<close>

fun must_register :: "string list \<Rightarrow> string list \<Rightarrow> string list option" where
  "must_register registry [] = Some registry"
| "must_register registry (n # ns) =
     (if n \<in> set registry then None else must_register (registry @ [n]) ns)"

definition new_metrics :: "string list \<Rightarrow> (metrics \<times> string list) option" where
  "new_metrics registry =
     map_option (\<lambda>registry'. (empty_metrics, registry')) (must_register registry (map fst collectors))"

subsection \<open>Requests\<close>

text \<open>
  \<^verbatim>\<open>instrument\<close>: the status is the one the handler wrote through the recorder, 200 if it wrote none.
  A handler that panics is not counted, since the counting is not deferred.
\<close>

definition observed_status :: "'d writer \<Rightarrow> int" where
  "observed_status wr = (if wr_status wr = 0 then 200 else wr_status wr)"

definition count_request :: "string \<Rightarrow> string \<Rightarrow> int \<Rightarrow> duration \<Rightarrow> metrics \<Rightarrow> metrics" where
  "count_request meth template status elapsed m =
     m\<lparr>mt_requests_total := count_up [meth, template, show_int status] (mt_requests_total m),
       mt_request_duration := AList.update [meth, template]
         ((case map_of (mt_request_duration m) [meth, template] of None \<Rightarrow> [] | Some ds \<Rightarrow> ds) @ [elapsed])
         (mt_request_duration m)\<rparr>"

definition instrument :: "duration \<Rightarrow> string \<Rightarrow> ('d, 'w \<times> metrics) handler \<Rightarrow> ('d, 'w \<times> metrics) handler" where
  "instrument elapsed template nxt r st =
     (case nxt r st of
        (Returned, wr, (w, m)) \<Rightarrow>
          (Returned, wr, (w, count_request (hr_method r) template (observed_status wr) elapsed m))
      | other \<Rightarrow> other)"

subsection \<open>What the service counts\<close>

definition event_rejected :: "string \<Rightarrow> metrics \<Rightarrow> metrics" where
  "event_rejected reason m = m\<lparr>mt_events_rejected := count_up [reason] (mt_events_rejected m)\<rparr>"

definition analysis_metrics ::
  "('raw, 's, 'e, 'c) service \<Rightarrow> time \<Rightarrow> security_event \<Rightarrow> ('s, 'c) service_state \<Rightarrow> metrics \<Rightarrow> metrics" where
  "analysis_metrics d now ev st m =
     (case sd_process d of
        None \<Rightarrow> m
      | Some run \<Rightarrow>
          (case fst (correlate run now ev st) of
             None \<Rightarrow> m\<lparr>mt_correlation_errors := Suc (mt_correlation_errors m)\<rparr>
           | Some None \<Rightarrow> m
           | Some (Some i) \<Rightarrow> m\<lparr>mt_incidents_touched := count_up [''updated''] (mt_incidents_touched m)\<rparr>))"

definition ingest_metrics ::
  "('raw, 's, 'e, 'c) service \<Rightarrow> time \<Rightarrow> request_context \<Rightarrow> 'raw \<Rightarrow> ('s, 'c) service_state \<Rightarrow> metrics \<Rightarrow> metrics" where
  "ingest_metrics d now rc raw st m =
     (case decode_event (sd_schema d) (sd_unmarshal d) raw of
        Inl _ \<Rightarrow> event_rejected ''schema'' m
      | Inr ev0 \<Rightarrow>
          (case normalize (sd_uuid d) now (sv_ids st) ev0 of
             Inl _ \<Rightarrow> event_rejected ''normalization'' m
           | Inr (ev, n1) \<Rightarrow>
               (case so_save_event (sd_store d) (sv_store st) ev of
                  Inl _ \<Rightarrow> event_rejected ''storage'' m
                | Inr s1 \<Rightarrow>
                    let m1 = m\<lparr>mt_events_ingested := count_up [ev_category ev] (mt_events_ingested m)\<rparr>;
                        m2 = (if sd_publish_fails d ev then m1\<lparr>mt_bus_errors := Suc (mt_bus_errors m1)\<rparr> else m1)
                    in analysis_metrics d now ev (after_store d now rc ev (st\<lparr>sv_ids := n1, sv_store := s1\<rparr>)) m2)))"

definition bool_label :: "bool \<Rightarrow> string" where
  "bool_label b = (if b then ''true'' else ''false'')"

definition decision_counted :: "policy_decision \<Rightarrow> metrics \<Rightarrow> metrics" where
  "decision_counted d m =
     m\<lparr>mt_policy_decisions :=
         count_up [pd_effect d, pd_engine d, bool_label (pd_fail_closed d)] (mt_policy_decisions m)\<rparr>"

text \<open>Only an evaluation that reaches the kernel is counted, whatever the kernel says.\<close>

definition evaluation_metrics ::
  "('raw, 's, 'e, 'c) service \<Rightarrow> time \<Rightarrow> request_context \<Rightarrow> evaluate_request \<Rightarrow> ('s, 'c) service_state \<Rightarrow>
     metrics \<Rightarrow> metrics" where
  "evaluation_metrics d now rc req st m =
     (case lookup_action (er_action_type req) of
        None \<Rightarrow> m
      | Some spec \<Rightarrow>
          if \<not> mode_valid (requested_mode req) then m
          else
            (case so_get_incident (sd_store d) (sv_store st) (er_incident_id req) of
               Inl _ \<Rightarrow> m
             | Inr i \<Rightarrow>
                 let (tgt, critical) = resolve_action_target (sv_graph st) i (find_recommendation i (spec_type spec))
                 in decision_counted (fst (sd_evaluate d now
                      (policy_input_for spec (requested_mode req) tgt critical i (rc_principal rc) req))) m))"

subsection \<open>The router with its counters\<close>

text \<open>A handler beside which something is counted, from the request and the state it starts in.\<close>

definition counting ::
  "(http_request \<Rightarrow> 'd writer \<Rightarrow> 'w \<Rightarrow> metrics \<Rightarrow> metrics) \<Rightarrow> ('d, 'w) handler \<Rightarrow> ('d, 'w \<times> metrics) handler" where
  "counting cnt h r st =
     (case st of (wr, (w, m)) \<Rightarrow>
        (case h r (wr, w) of (e, wr', w') \<Rightarrow> (e, wr', (w', cnt r wr w m))))"

definition uncounted :: "('d, 'w) handler \<Rightarrow> ('d, 'w \<times> metrics) handler" where
  "uncounted = counting (\<lambda>r wr w m. m)"

definition ingest_event_metrics ::
  "(string, 's, 'e, 'c) service \<Rightarrow> time \<Rightarrow> http_request \<Rightarrow> document writer \<Rightarrow> ('s, 'c) service_state \<Rightarrow> metrics \<Rightarrow> metrics" where
  "ingest_event_metrics d now r wr st m =
     (case read_body r wr of Inl _ \<Rightarrow> m | Inr raw \<Rightarrow> ingest_metrics d now (context_of r) raw st m)"

fun items_metrics ::
  "(string, 's, 'e, 'c) service \<Rightarrow> time \<Rightarrow> http_request \<Rightarrow> string list \<Rightarrow> ('s, 'c) service_state \<Rightarrow> metrics \<Rightarrow> metrics" where
  "items_metrics d now r [] st m = m"
| "items_metrics d now r (x # xs) st m =
     items_metrics d now r xs (snd (ingest d now (context_of r) x st)) (ingest_metrics d now (context_of r) x st m)"

definition ingest_batch_metrics ::
  "(string \<Rightarrow> string list option) \<Rightarrow> (string, 's, 'e, 'c) service \<Rightarrow> time \<Rightarrow> http_request \<Rightarrow> document writer \<Rightarrow>
     ('s, 'c) service_state \<Rightarrow> metrics \<Rightarrow> metrics" where
  "ingest_batch_metrics decode d now r wr st m =
     (case read_body r wr of
        Inl _ \<Rightarrow> m
      | Inr raw \<Rightarrow>
          (case decode raw of
             None \<Rightarrow> m
           | Some evs \<Rightarrow>
               if evs = [] \<or> int (length evs) > sd_max_batch_events d then m
               else items_metrics d now r evs st m))"

definition evaluate_metrics ::
  "(string \<Rightarrow> evaluate_request option) \<Rightarrow> (string, 's, 'e, 'c) service \<Rightarrow> time \<Rightarrow> http_request \<Rightarrow> document writer \<Rightarrow>
     ('s, 'c) service_state \<Rightarrow> metrics \<Rightarrow> metrics" where
  "evaluate_metrics decode d now r wr st m =
     (case read_body r wr of
        Inl _ \<Rightarrow> m
      | Inr raw \<Rightarrow>
          (case decode raw of
             None \<Rightarrow> m
           | Some req \<Rightarrow>
               if trim_space (er_incident_id req) = [] \<or> trim_space (er_action_type req) = [] then m
               else evaluation_metrics d now (context_of r) req st m))"

text \<open>The route template an endpoint is counted under; the scrape and the catch-all are not counted.\<close>

fun endpoint_template :: "endpoint \<Rightarrow> string option" where
  "endpoint_template EpHealth = Some ''/health''"
| "endpoint_template EpReady = Some ''/ready''"
| "endpoint_template EpMetrics = None"
| "endpoint_template EpIngestEvent = Some ''/api/v1/events''"
| "endpoint_template EpIngestBatch = Some ''/api/v1/events/batch''"
| "endpoint_template EpEvaluate = Some ''/api/v1/actions/evaluate''"
| "endpoint_template EpListEvents = Some ''/api/v1/events''"
| "endpoint_template EpListIncidents = Some ''/api/v1/incidents''"
| "endpoint_template (EpGetIncident _) = Some ''/api/v1/incidents/{id}''"
| "endpoint_template (EpGetEntity _) = Some ''/api/v1/entities/{id}''"
| "endpoint_template EpListActions = Some ''/api/v1/actions''"
| "endpoint_template (EpGetAction _) = Some ''/api/v1/actions/{id}''"
| "endpoint_template EpListAudit = Some ''/api/v1/audit''"
| "endpoint_template EpStatus = Some ''/api/v1/system/status''"
| "endpoint_template EpNotFound = None"

definition request_template :: "('s, 'e, 'c, 'b) router_options \<Rightarrow> http_request \<Rightarrow> string option" where
  "request_template opts r = endpoint_template (route (ro_registry opts) (hr_method r) (hr_path r))"

text \<open>What a handler of the service counts, as one of the server.\<close>

definition on_service_counts ::
  "(http_request \<Rightarrow> 'd writer \<Rightarrow> ('s, 'c) service_state \<Rightarrow> metrics \<Rightarrow> metrics) \<Rightarrow>
     ('d, ('s, 'c) service_state) handler \<Rightarrow> ('d, ('s, 'c, 'b) server_state \<times> metrics) handler" where
  "on_service_counts cnt h = counting (\<lambda>r wr w. cnt r wr (sr_service w)) (on_service h)"

definition counted_write ::
  "('s, 'e, 'c, 'b) router_options \<Rightarrow> time \<Rightarrow> duration \<Rightarrow> string \<Rightarrow>
     (http_request \<Rightarrow> document writer \<Rightarrow> ('s, 'c) service_state \<Rightarrow> metrics \<Rightarrow> metrics) \<Rightarrow>
     (document, ('s, 'c) service_state) handler \<Rightarrow> (document, ('s, 'c, 'b) server_state \<times> metrics) handler" where
  "counted_write opts now elapsed template cnt h =
     chain (instrument elapsed template (on_service_counts cnt h))
       [rate_limit (ro_split_host opts)
          (\<lambda>client (w, m). case allow_request opts now client w of (ok, w') \<Rightarrow> (ok, (w', m))),
        require_json]"

definition counted_read ::
  "duration \<Rightarrow> string \<Rightarrow> (document, ('s, 'c) service_state) handler \<Rightarrow>
     (document, ('s, 'c, 'b) server_state \<times> metrics) handler" where
  "counted_read elapsed template h = instrument elapsed template (on_service_counts (\<lambda>r wr st m. m) h)"

definition counted_dispatch ::
  "('s, 'e, 'c, 'b) router_options \<Rightarrow> time \<Rightarrow> duration \<Rightarrow> (document, ('s, 'c, 'b) server_state \<times> metrics) handler" where
  "counted_dispatch opts now elapsed r =
     (let d = ro_service opts in
      case route (ro_registry opts) (hr_method r) (hr_path r) of
        EpHealth \<Rightarrow> counted_read elapsed ''/health'' (handle_health now) r
      | EpReady \<Rightarrow> counted_read elapsed ''/ready'' (handle_ready d now) r
      | EpMetrics \<Rightarrow> uncounted (on_service (\<lambda>r. answer (write_json 200 (Document MetricsDoc)))) r
      | EpIngestEvent \<Rightarrow> counted_write opts now elapsed ''/api/v1/events''
          (ingest_event_metrics d now) (handle_ingest_event d now) r
      | EpIngestBatch \<Rightarrow> counted_write opts now elapsed ''/api/v1/events/batch''
          (ingest_batch_metrics (ro_decode_batch opts) d now) (handle_ingest_batch (ro_decode_batch opts) d now) r
      | EpEvaluate \<Rightarrow> counted_write opts now elapsed ''/api/v1/actions/evaluate''
          (evaluate_metrics (ro_decode_request opts) d now) (handle_evaluate_action (ro_decode_request opts) d now) r
      | EpListEvents \<Rightarrow> counted_read elapsed ''/api/v1/events'' (handle_list_events d) r
      | EpListIncidents \<Rightarrow> counted_read elapsed ''/api/v1/incidents'' (handle_list_incidents d) r
      | EpGetIncident i \<Rightarrow> counted_read elapsed ''/api/v1/incidents/{id}'' (handle_get_incident d i) r
      | EpGetEntity i \<Rightarrow> counted_read elapsed ''/api/v1/entities/{id}'' (handle_get_entity i) r
      | EpListActions \<Rightarrow> counted_read elapsed ''/api/v1/actions'' (handle_list_actions d) r
      | EpGetAction i \<Rightarrow> counted_read elapsed ''/api/v1/actions/{id}'' (handle_get_action d i) r
      | EpListAudit \<Rightarrow> require_role role_admin (counted_read elapsed ''/api/v1/audit'' (handle_list_audit d)) r
      | EpStatus \<Rightarrow> counted_read elapsed ''/api/v1/system/status'' (handle_system_status d now) r
      | EpNotFound \<Rightarrow> uncounted not_found r)"

definition counted_router ::
  "('s, 'e, 'c, 'b) router_options \<Rightarrow> time \<Rightarrow> duration \<Rightarrow> (document, ('s, 'c, 'b) server_state \<times> metrics) handler" where
  "counted_router opts now elapsed =
     chain (counted_dispatch opts now elapsed)
       ([recover_panics (\<lambda>line (w, m). (log_panic line w, m)),
         request_id (\<lambda>(w, m). case draw_request_id opts w of (rid, w') \<Rightarrow> (rid, (w', m))),
         access_log (ro_split_host opts) (\<lambda>line (w, m). (log_request line w, m)) [''/metrics'', ''/health''],
         security_headers,
         max_bytes (if ro_max_request_bytes opts \<le> 0 then default_max_request_bytes else ro_max_request_bytes opts)]
        @ (if ro_token opts \<noteq> [] then [authenticate (ro_sha256 opts) (auth_of opts), principal_middleware] else []))"

subsection \<open>Which requests are counted\<close>

text \<open>
  What a layer in front of the counting turns down, and with which status, said of the request, the
  options and the rate limiter alone. In front of all endpoints: no credential, then an operator
  that is not in an acceptable form. In front of single endpoints: for the three that write, the rate
  limiter and then the content type; for the audit trail, the operator's role.
\<close>

definition json_acceptable :: "http_request \<Rightarrow> bool" where
  "json_acceptable r \<longleftrightarrow>
     (let ct = header r ''Content-Type''
      in hr_method r \<notin> {''POST'', ''PUT'', ''PATCH''} \<or> ct = [] \<or>
         equal_fold (trim_space (takeWhile (\<lambda>c. c \<noteq> CHR '';'') ct)) ''application/json'')"

definition write_turned_down ::
  "('s, 'e, 'c, 'b) router_options \<Rightarrow> time \<Rightarrow> http_request \<Rightarrow> ('s, 'c, 'b) server_state \<Rightarrow> int option" where
  "write_turned_down opts now r w =
     (if \<not> fst (allow_client (ro_bucket opts) now (client_ip (ro_split_host opts) r) (sr_limiter w)) then Some 429
      else if \<not> json_acceptable r then Some 415
      else None)"

definition endpoint_turned_down ::
  "('s, 'e, 'c, 'b) router_options \<Rightarrow> time \<Rightarrow> http_request \<Rightarrow> ('s, 'c, 'b) server_state \<Rightarrow> int option" where
  "endpoint_turned_down opts now r w =
     (case route (ro_registry opts) (hr_method r) (hr_path r) of
        EpIngestEvent \<Rightarrow> write_turned_down opts now r w
      | EpIngestBatch \<Rightarrow> write_turned_down opts now r w
      | EpEvaluate \<Rightarrow> write_turned_down opts now r w
      | EpListAudit \<Rightarrow>
          if principal_zero (hr_principal r) \<or> pr_role (hr_principal r) = role_admin then None else Some 403
      | _ \<Rightarrow> None)"

text \<open>The request as it reaches the endpoints: with a token set, the asserted operator is in its context.\<close>

definition with_asserted :: "('s, 'e, 'c, 'b) router_options \<Rightarrow> http_request \<Rightarrow> http_request" where
  "with_asserted opts r =
     (let subject = trim_space (header r ''X-Griefer-Actor''); role = trim_space (header r ''X-Griefer-Actor-Role'') in
      if ro_token opts = [] \<or> subject = [] \<and> role = [] then r
      else r\<lparr>hr_principal := \<lparr> pr_subject = subject, pr_role = role \<rparr>\<rparr>)"

definition turned_down ::
  "('s, 'e, 'c, 'b) router_options \<Rightarrow> time \<Rightarrow> http_request \<Rightarrow> ('s, 'c, 'b) server_state \<Rightarrow> int option" where
  "turned_down opts now r w =
     (if ro_token opts \<noteq> [] \<and> hr_path r \<notin> set auth_exempt \<and> \<not> credential opts r then Some 401
      else if ro_token opts \<noteq> [] \<and> \<not> principal_acceptable r then Some 400
      else endpoint_turned_down opts now (with_asserted opts r) w)"

text \<open>
  \<open>request_counted\<close>: a request that was turned down has that status and is not counted; one without a
  template is not counted; every other one is counted exactly once, with its duration, under its method,
  its template and the status the client got, whatever that status is.
\<close>

definition same_requests :: "metrics \<Rightarrow> metrics \<Rightarrow> bool" where
  "same_requests m m' \<longleftrightarrow>
     mt_requests_total m' = mt_requests_total m \<and> mt_request_duration m' = mt_request_duration m"

definition request_counted ::
  "int option \<Rightarrow> string option \<Rightarrow> duration \<Rightarrow> http_request \<Rightarrow> 'd writer \<Rightarrow> metrics \<Rightarrow> metrics \<Rightarrow> bool" where
  "request_counted down template el r wr m m' \<longleftrightarrow>
     (case down of
        Some status \<Rightarrow> wr_status wr = status \<and> same_requests m m'
      | None \<Rightarrow>
          (case template of
             None \<Rightarrow> same_requests m m'
           | Some t \<Rightarrow> same_requests (count_request (hr_method r) t (observed_status wr) el m) m'))"

subsection \<open>What every layer keeps of the counts\<close>

text \<open>
  \<open>counts_at\<close>: on the request, the counting handler answers as the plain one, returns, and counts what
  \<open>down\<close>, a function of the state, and the template say.
\<close>

definition counts_at ::
  "string option \<Rightarrow> ('w \<Rightarrow> int option) \<Rightarrow> duration \<Rightarrow> ('d, 'w \<times> metrics) handler \<Rightarrow> ('d, 'w) handler \<Rightarrow> http_request \<Rightarrow> bool" where
  "counts_at T down el H h r \<longleftrightarrow>
     (\<forall>wr w m. wr_status wr = 0 \<longrightarrow>
        (case H r (wr, (w, m)) of (e, wr', (w', m')) \<Rightarrow>
           h r (wr, w) = (e, wr', w') \<and> e = Returned \<and> request_counted (down w) T el r wr' m m'))"

lemma counts_atD:
  assumes "counts_at T down el H h r" "wr_status wr = 0" "H r (wr, (w, m)) = (e, wr', (w', m'))"
  shows "h r (wr, w) = (e, wr', w') \<and> e = Returned \<and> request_counted (down w) T el r wr' m m'"
  using assms(1) [unfolded counts_at_def, rule_format, OF assms(2), of w m] assms(3) by simp

lemma counts_atI:
  assumes "\<And>wr w m e wr' w' m'. wr_status wr = 0 \<Longrightarrow> H r (wr, (w, m)) = (e, wr', (w', m')) \<Longrightarrow>
    h r (wr, w) = (e, wr', w') \<and> e = Returned \<and> request_counted (down w) T el r wr' m m'"
  shows "counts_at T down el H h r"
  unfolding counts_at_def using assms by (auto split: prod.split)

lemma counts_at_cong:
  assumes "counts_at T down el H h r" "H' r = H r" "h' r = h r" "\<And>w. down' w = down w" "T' = T"
  shows "counts_at T' down' el H' h' r"
  using assms by (simp add: counts_at_def)

lemma same_requests_refl [simp]: "same_requests m m"
  by (simp add: same_requests_def)

lemma wr_status_write_error [simp]:
  "wr_status wr = 0 \<Longrightarrow> wr_status (write_error r status code message details wr) = status"
  by (simp add: write_error_def write_json_def write_header_def set_header_def Let_def)

lemma turned_down_answer [simp]:
  "wr_status wr = 0 \<Longrightarrow> request_counted (Some status) T el r (write_error r' status code message details wr) m m"
  by (simp add: request_counted_def)

lemma wr_status_set_header [simp]: "wr_status (set_header k v wr) = wr_status wr"
  by (simp add: set_header_def)

lemma answer_eq [simp]:
  "answer f st = (e, wr', w') \<longleftrightarrow> e = Returned \<and> wr' = f (fst st) \<and> w' = snd st"
  by (auto simp: answer_def)

lemma request_counted_context [simp]:
  "request_counted down T el (r\<lparr>hr_request_id := x\<rparr>) wr m m' = request_counted down T el r wr m m'"
  "request_counted down T el (r\<lparr>hr_max_bytes := y\<rparr>) wr m m' = request_counted down T el r wr m m'"
  "request_counted down T el (r\<lparr>hr_principal := z\<rparr>) wr m m' = request_counted down T el r wr m m'"
  by (simp_all add: request_counted_def split: option.split)

text \<open>The layers around single endpoints.\<close>

lemma counts_uncounted:
  assumes "\<And>st. fst (h r st) = Returned"
  shows "counts_at None (\<lambda>w. None) el (uncounted h) h r"
proof (rule counts_atI)
  fix wr w m e wr' w' m'
  assume "uncounted h r (wr, (w, m)) = (e, wr', (w', m'))"
  with assms [of "(wr, w)"]
  show "h r (wr, w) = (e, wr', w') \<and> e = Returned \<and> request_counted None None el r wr' m m'"
    by (auto simp: uncounted_def counting_def request_counted_def split: prod.splits)
qed

lemma counts_instrument:
  assumes "\<And>wr w m. same_requests m (cnt r wr w m)" "\<And>st. fst (h r st) = Returned"
  shows "counts_at (Some t) (\<lambda>w. None) el (instrument el t (counting cnt h)) h r"
proof (rule counts_atI)
  fix wr w m e wr' w' m'
  assume run: "instrument el t (counting cnt h) r (wr, (w, m)) = (e, wr', (w', m'))"
  obtain wr1 w1 where h: "h r (wr, w) = (Returned, wr1, w1)"
    using assms(2) [of "(wr, w)"] by (metis fst_conv prod_cases3)
  with run have "e = Returned" "wr' = wr1" "w' = w1"
    and "m' = count_request (hr_method r) t (observed_status wr') el (cnt r wr w m)"
    by (auto simp: instrument_def counting_def)
  then show "h r (wr, w) = (e, wr', w') \<and> e = Returned \<and> request_counted None (Some t) el r wr' m m'"
    using h assms(1) [of m wr w] by (simp add: request_counted_def same_requests_def count_request_def)
qed

lemma counts_require_json:
  "counts_at T down el H h r \<Longrightarrow>
     counts_at T (\<lambda>w. if json_acceptable r then down w else Some 415) el (require_json H) (require_json h) r"
  by (rule counts_atI) (auto simp: require_json_def json_acceptable_def Let_def split: if_splits dest: counts_atD)

lemma counts_rate_limit:
  assumes "counts_at T down el H h r"
  shows "counts_at T (\<lambda>w. if fst (allow (client_ip split r) w) then down (snd (allow (client_ip split r) w)) else Some 429) el
    (rate_limit split (\<lambda>client (w, m). case allow client w of (ok, w') \<Rightarrow> (ok, (w', m))) H) (rate_limit split allow h) r"
  by (rule counts_atI) (auto simp: rate_limit_def Let_def split: prod.splits if_splits dest: counts_atD [OF assms])

lemma counts_require_role:
  "counts_at T down el H h r \<Longrightarrow>
     counts_at T (\<lambda>w. if principal_zero (hr_principal r) \<or> pr_role (hr_principal r) = p then down w else Some 403) el
       (require_role p H) (require_role p h) r"
  by (rule counts_atI) (auto simp: require_role_def split: if_splits dest: counts_atD)

text \<open>The layers of the chain.\<close>

lemma counts_authenticate:
  "counts_at T down el H h r \<Longrightarrow>
     counts_at T (\<lambda>w. if hr_path r \<notin> set (sa_exempt a) \<and> \<not> authorized sha a (header r ''Authorization'') then Some 401 else down w) el
       (authenticate sha a H) (authenticate sha a h) r"
  by (rule counts_atI) (auto simp: authenticate_def split: if_splits dest: counts_atD)

lemma counts_access_log:
  assumes "counts_at T down el H h r"
  shows "counts_at T down el (access_log split (\<lambda>line (w, m). (emit line w, m)) skips H) (access_log split emit skips h) r"
proof (rule counts_atI)
  fix wr w m e wr' w' m'
  assume fresh: "wr_status wr = 0"
    and run: "access_log split (\<lambda>line (w, m). (emit line w, m)) skips H r (wr, (w, m)) = (e, wr', (w', m'))"
  obtain e1 wr1 w1 m1 where h: "H r (wr, (w, m)) = (e1, wr1, (w1, m1))" by (metis prod_cases4)
  from counts_atD [OF assms fresh h] run h
  show "access_log split emit skips h r (wr, w) = (e, wr', w') \<and> e = Returned \<and> request_counted (down w) T el r wr' m m'"
    by (cases e1) (auto simp: access_log_def Let_def split: if_splits)
qed

lemma counts_recover:
  assumes "counts_at T down el H h r"
  shows "counts_at T down el (recover_panics (\<lambda>line (w, m). (emit line w, m)) H) (recover_panics emit h) r"
proof (rule counts_atI)
  fix wr w m e wr' w' m'
  assume fresh: "wr_status wr = 0"
    and run: "recover_panics (\<lambda>line (w, m). (emit line w, m)) H r (wr, (w, m)) = (e, wr', (w', m'))"
  obtain e1 wr1 w1 m1 where h: "H r (wr, (w, m)) = (e1, wr1, (w1, m1))" by (metis prod_cases4)
  from counts_atD [OF assms fresh h] run h
  show "recover_panics emit h r (wr, w) = (e, wr', w') \<and> e = Returned \<and> request_counted (down w) T el r wr' m m'"
    by (cases e1) (auto simp: recover_panics_def)
qed

lemma counts_security_headers:
  assumes "counts_at T down el H h r"
  shows "counts_at T down el (security_headers H) (security_headers h) r"
  by (rule counts_atI) (unfold security_headers_def fst_conv snd_conv, rule counts_atD [OF assms], simp_all)

lemma counts_max_bytes:
  assumes "counts_at T down el H h (r\<lparr>hr_max_bytes := Some limit\<rparr>)"
  shows "counts_at T down el (max_bytes limit H) (max_bytes limit h) r"
  using assms by (simp add: counts_at_def max_bytes_def)

lemma counts_request_id:
  assumes "\<And>rid. counts_at T down el H h (r\<lparr>hr_request_id := rid\<rparr>)" and drawn: "\<And>w. down (snd (draw w)) = down w"
  shows "counts_at T down el (request_id (\<lambda>(w, m). case draw w of (rid, w') \<Rightarrow> (rid, (w', m))) H) (request_id draw h) r"
proof (rule counts_atI)
  fix wr w m e wr' w' m'
  assume fresh: "wr_status wr = 0"
    and run: "request_id (\<lambda>(w, m). case draw w of (rid, w') \<Rightarrow> (rid, (w', m))) H r (wr, (w, m)) = (e, wr', (w', m'))"
  have step: "h (r\<lparr>hr_request_id := rid\<rparr>) (wr1, w1) = (e, wr', w') \<and> e = Returned \<and> request_counted (down w1) T el r wr' m m'"
    if "wr_status wr1 = 0" "H (r\<lparr>hr_request_id := rid\<rparr>) (wr1, (w1, m)) = (e, wr', (w', m'))" for rid wr1 w1
    using counts_atD [OF assms(1) that] by simp
  obtain rid w1 where "draw w = (rid, w1)" by fastforce
  then show "request_id draw h r (wr, w) = (e, wr', w') \<and> e = Returned \<and> request_counted (down w) T el r wr' m m'"
    using run fresh drawn [of w] by (auto simp: request_id_def Let_def split: if_splits dest!: step [rotated])
qed

lemma counts_principal:
  assumes "ro_token opts \<noteq> []" and "counts_at T down el H h (with_asserted opts r)"
  shows "counts_at T (\<lambda>w. if principal_acceptable r then down w else Some 400) el
    (principal_middleware H) (principal_middleware h) r"
proof (rule counts_atI)
  fix wr w m e wr' w' m'
  assume "wr_status wr = 0" "principal_middleware H r (wr, (w, m)) = (e, wr', (w', m'))"
  with counts_atD [OF assms(2), of wr w m e wr' w' m'] assms(1)
  show "principal_middleware h r (wr, w) = (e, wr', w') \<and> e = Returned \<and>
      request_counted (if principal_acceptable r then down w else Some 400) T el r wr' m m'"
    by (auto simp: principal_middleware_def principal_acceptable_def with_asserted_def Let_def split: if_splits)
qed

subsection \<open>What the service counts is not about requests\<close>

lemma service_counts_requests [simp]:
  "same_requests m (event_rejected reason m)"
  "same_requests m (analysis_metrics d now ev st m') = same_requests m m'"
  "same_requests m (decision_counted pd m)"
  by (simp_all add: event_rejected_def analysis_metrics_def decision_counted_def same_requests_def split: option.split)

lemma ingest_counts_requests [simp]: "same_requests m (ingest_metrics d now rc raw st m)"
  by (simp add: ingest_metrics_def Let_def split: sum.split prod.split) (simp add: same_requests_def)

lemma same_requests_trans: "same_requests m m1 \<Longrightarrow> same_requests m1 m2 \<Longrightarrow> same_requests m m2"
  by (simp add: same_requests_def)

lemma items_count_requests [simp]: "same_requests m (items_metrics d now r xs st m)"
  by (induction xs arbitrary: st m) (auto intro: same_requests_trans [OF ingest_counts_requests])

lemma handlers_count_requests [simp]:
  "same_requests m (ingest_event_metrics d now r wr st m)"
  "same_requests m (ingest_batch_metrics db d now r wr st m)"
  "same_requests m (evaluate_metrics dr d now r wr st m)"
  by (simp_all add: ingest_event_metrics_def ingest_batch_metrics_def evaluate_metrics_def evaluation_metrics_def
      split: sum.split option.split prod.split)

text \<open>Every handler of the service returns.\<close>

lemma answer_returns [simp]: "fst (answer f st) = Returned"
  by (simp add: answer_def)

lemma answers_return [simp]:
  "fst (answer_page r doc lo res st) = Returned"
  "fst (answer_found r nf what doc' res' st') = Returned"
  by (simp_all add: answer_page_def answer_found_def split: sum.split prod.split)

lemma reads_return [simp]:
  "fst (handle_health now r st) = Returned"
  "fst (handle_ready d now r sst) = Returned"
  "fst (handle_system_status d now r sst) = Returned"
  "fst (handle_list_events d r sst) = Returned"
  "fst (handle_list_incidents d r sst) = Returned"
  "fst (handle_get_incident d i r sst) = Returned"
  "fst (handle_get_entity i r sst) = Returned"
  "fst (handle_get_action d i r sst) = Returned"
  "fst (handle_list_actions d r sst) = Returned"
  "fst (handle_list_audit d r sst) = Returned"
  "fst (not_found r st) = Returned"
  by (simp_all add: handle_health_def handle_ready_def handle_system_status_def handle_list_events_def
      handle_list_incidents_def handle_get_incident_def handle_get_entity_def handle_get_action_def
      handle_list_actions_def handle_list_audit_def not_found_def Let_def split: option.split)

lemma writes_return [simp]:
  "fst (handle_ingest_event d now r st) = Returned"
  "fst (handle_ingest_batch db d now r st) = Returned"
  "fst (handle_evaluate_action dr d now r st) = Returned"
  by (auto simp: handle_ingest_event_def handle_ingest_batch_def handle_evaluate_action_def Let_def
      split: sum.split option.split prod.split)

lemma on_service_returns [simp]:
  assumes "\<And>st. fst (h r st) = Returned"
  shows "fst (on_service h r sst) = Returned"
  using assms [of "(fst sst, sr_service (snd sst))"] by (auto simp: on_service_def split: prod.split)

lemma counts_read:
  assumes "\<And>st. fst (h r st) = Returned"
  shows "counts_at (Some t) (\<lambda>w. None) el (counted_read el t h) (on_service h) r"
  unfolding counted_read_def on_service_counts_def
  by (rule counts_instrument) (simp_all add: assms on_service_returns)

lemma allow_request_eq:
  "allow_request opts now c w =
     (let (ok, l) = allow_client (ro_bucket opts) now c (sr_limiter w) in (ok, w\<lparr>sr_limiter := l\<rparr>))"
  by (simp add: allow_request_def Let_def)

lemma counts_write:
  assumes "\<And>st. fst (h r st) = Returned" "\<And>wr st m. same_requests m (cnt r wr st m)"
  shows "counts_at (Some t) (write_turned_down opts now r) el (counted_write opts now el t cnt h) (write_endpoint opts now h) r"
proof -
  have "counts_at (Some t) (\<lambda>w. None) el (instrument el t (on_service_counts cnt h)) (on_service h) r"
    unfolding on_service_counts_def by (rule counts_instrument) (simp_all add: assms on_service_returns)
  note layers = counts_rate_limit [OF counts_require_json [OF this], where split = "ro_split_host opts" and allow = "allow_request opts now"]
  show ?thesis
    by (rule counts_at_cong [OF layers])
      (simp_all add: counted_write_def write_endpoint_def chain_def write_turned_down_def allow_request_eq split: prod.split)
qed

lemma counts_audit:
  assumes "\<And>st. fst (h r st) = Returned"
  shows "counts_at (Some t) (\<lambda>w. if principal_zero (hr_principal r) \<or> pr_role (hr_principal r) = role_admin then None else Some 403) el
    (require_role role_admin (counted_read el t h)) (require_role role_admin (on_service h)) r"
  by (intro counts_require_role counts_read assms)

lemmas counts_endpoint =
  counts_at_cong [OF counts_read] counts_at_cong [OF counts_write] counts_at_cong [OF counts_uncounted]
  counts_at_cong [OF counts_audit]

lemma counts_dispatch:
  "counts_at (request_template opts r) (endpoint_turned_down opts now r) elapsed
     (counted_dispatch opts now elapsed) (dispatch opts now) r"
  by (cases "route (ro_registry opts) (hr_method r) (hr_path r)")
    (rule counts_endpoint; simp add: dispatch_def counted_dispatch_def Let_def request_template_def endpoint_turned_down_def; fail)+

text \<open>What middleware puts into the context changes neither the template nor who is turned down.\<close>

lemma write_turned_down_context [simp]:
  "write_turned_down opts now (r\<lparr>hr_request_id := x\<rparr>) w = write_turned_down opts now r w"
  "write_turned_down opts now (r\<lparr>hr_max_bytes := y\<rparr>) w = write_turned_down opts now r w"
proof -
  have "client_ip split (r\<lparr>hr_request_id := x\<rparr>) = client_ip split r" "client_ip split (r\<lparr>hr_max_bytes := y\<rparr>) = client_ip split r"
    "json_acceptable (r\<lparr>hr_request_id := x\<rparr>) = json_acceptable r" "json_acceptable (r\<lparr>hr_max_bytes := y\<rparr>) = json_acceptable r"
    for split by (simp_all add: client_ip_def json_acceptable_def header_def split: option.split)
  then show "write_turned_down opts now (r\<lparr>hr_request_id := x\<rparr>) w = write_turned_down opts now r w"
    and "write_turned_down opts now (r\<lparr>hr_max_bytes := y\<rparr>) w = write_turned_down opts now r w"
    by (simp_all add: write_turned_down_def)
qed

lemma endpoint_turned_down_context [simp]:
  "endpoint_turned_down opts now (r\<lparr>hr_request_id := x\<rparr>) w = endpoint_turned_down opts now r w"
  "endpoint_turned_down opts now (r\<lparr>hr_max_bytes := y\<rparr>) w = endpoint_turned_down opts now r w"
  by (simp_all add: endpoint_turned_down_def split: endpoint.split)

lemma with_asserted_context [simp]:
  "with_asserted opts (r\<lparr>hr_request_id := x\<rparr>) = (with_asserted opts r)\<lparr>hr_request_id := x\<rparr>"
  "with_asserted opts (r\<lparr>hr_max_bytes := y\<rparr>) = (with_asserted opts r)\<lparr>hr_max_bytes := y\<rparr>"
  by (simp_all add: with_asserted_def header_def Let_def)

lemma turned_down_context [simp]:
  "turned_down opts now (r\<lparr>hr_request_id := x\<rparr>) w = turned_down opts now r w"
  "turned_down opts now (r\<lparr>hr_max_bytes := y\<rparr>) w = turned_down opts now r w"
  by (simp_all add: turned_down_def header_def principal_acceptable_def)

lemma request_template_context [simp]:
  "request_template opts (r\<lparr>hr_request_id := x\<rparr>) = request_template opts r"
  "request_template opts (r\<lparr>hr_max_bytes := y\<rparr>) = request_template opts r"
  "request_template opts (with_asserted opts r) = request_template opts r"
  by (simp_all add: request_template_def with_asserted_def Let_def)

lemma turned_down_drawn [simp]: "turned_down opts now r (snd (draw_request_id opts w)) = turned_down opts now r w"
proof -
  have "sr_limiter (snd (draw_request_id opts w)) = sr_limiter w" by (simp add: draw_request_id_def split: prod.split)
  then show ?thesis by (simp add: turned_down_def endpoint_turned_down_def write_turned_down_def cong: endpoint.case_cong)
qed

text \<open>The authentication layers and the endpoints behind them.\<close>

lemma counts_guarded:
  "counts_at (request_template opts r) (turned_down opts now r) elapsed
     (chain (counted_dispatch opts now elapsed)
       (if ro_token opts \<noteq> [] then [authenticate (ro_sha256 opts) (auth_of opts), principal_middleware] else []))
     (chain (dispatch opts now)
       (if ro_token opts \<noteq> [] then [authenticate (ro_sha256 opts) (auth_of opts), principal_middleware] else [])) r"
proof (cases "ro_token opts = []")
  case True
  then show ?thesis
    using counts_dispatch [of opts r now elapsed]
    by (simp add: chain_def turned_down_def [abs_def] with_asserted_def Let_def)
next
  case False
  have "counts_at (request_template opts r) (endpoint_turned_down opts now (with_asserted opts r)) elapsed
      (counted_dispatch opts now elapsed) (dispatch opts now) (with_asserted opts r)"
    using counts_dispatch [of opts "with_asserted opts r" now elapsed] by simp
  note layers = counts_authenticate [OF counts_principal [OF False this], where a = "auth_of opts" and sha = "ro_sha256 opts"]
  show ?thesis
    by (rule counts_at_cong [OF layers]) (simp_all add: False chain_def turned_down_def)
qed

lemma counts_router:
  "counts_at (request_template opts r) (turned_down opts now r) elapsed (counted_router opts now elapsed) (router opts now) r"
proof -
  define limit where "limit = (if ro_max_request_bytes opts \<le> 0 then default_max_request_bytes else ro_max_request_bytes opts)"
  define guarded where "guarded = chain (dispatch opts now)
    (if ro_token opts \<noteq> [] then [authenticate (ro_sha256 opts) (auth_of opts), principal_middleware] else [])"
  define counted where "counted = chain (counted_dispatch opts now elapsed)
    (if ro_token opts \<noteq> [] then [authenticate (ro_sha256 opts) (auth_of opts), principal_middleware] else [])"
  have plain: "router opts now = recover_panics log_panic (request_id (draw_request_id opts)
      (access_log (ro_split_host opts) log_request [''/metrics'', ''/health''] (security_headers (max_bytes limit guarded))))"
    by (simp add: router_def middleware_def chain_def guarded_def limit_def)
  have with_counters: "counted_router opts now elapsed = recover_panics (\<lambda>line (w, m). (log_panic line w, m))
      (request_id (\<lambda>(w, m). case draw_request_id opts w of (rid, w') \<Rightarrow> (rid, (w', m)))
      (access_log (ro_split_host opts) (\<lambda>line (w, m). (log_request line w, m)) [''/metrics'', ''/health'']
        (security_headers (max_bytes limit counted))))"
    by (simp add: counted_router_def chain_def counted_def limit_def)
  have "counts_at (request_template opts r) (turned_down opts now r) elapsed counted guarded
      (r\<lparr>hr_request_id := rid, hr_max_bytes := Some limit\<rparr>)" for rid
    using counts_guarded [of opts "r\<lparr>hr_request_id := rid, hr_max_bytes := Some limit\<rparr>" now elapsed]
    unfolding counted_def guarded_def by (simp add: counts_at_def)
  then show ?thesis
    unfolding plain with_counters
    by (intro counts_recover counts_request_id counts_access_log counts_security_headers counts_max_bytes) simp_all
qed

lemma counted_router_run:
  assumes "counted_router opts now elapsed r (new_writer, (w, m)) = (e, wr, (w', m'))"
  shows "router opts now r (new_writer, w) = (e, wr, w') \<and> e = Returned \<and>
    request_counted (turned_down opts now r w) (request_template opts r) elapsed r wr m m'"
proof -
  have "wr_status new_writer = 0" by (simp add: new_writer_def)
  from counts_atD [OF counts_router this assms] show ?thesis .
qed

lemma counted_router_answers:
  "case counted_router opts now elapsed r (new_writer, (w, m)) of (e, wr, (w', m')) \<Rightarrow>
     router opts now r (new_writer, w) = (e, wr, w')"
  using counted_router_run [of opts now elapsed r w m] by (auto split: prod.split)

text \<open>
  C27 (functional): exactly the requests that reach an endpoint are counted, with the status the client
  got. The router with its counters always returns. A request that the credential check, the operator's
  form or role, the rate limiter or the content type turns down is answered with the status of that
  refusal and not counted; nor is one that has no template, a scrape or no endpoint. Every other request
  is counted once, with its duration, under its method, the template of its endpoint (never the raw
  path) and the status of its response, whatever it is: a 400 or 429 written behind the counting counts.
\<close>

theorem requests_counted_as_answered:
  "case counted_router opts now elapsed r (new_writer, (w, m)) of (e, wr, (w', m')) \<Rightarrow>
     e = Returned \<and> request_counted (turned_down opts now r w) (request_template opts r) elapsed r wr m m'"
  using counted_router_run [of opts now elapsed r w m] by (auto split: prod.split)

subsection \<open>What ingestion counts\<close>

definition result_degraded :: "string \<Rightarrow> 'e ingest_error + ingest_result \<Rightarrow> bool" where
  "result_degraded what res = (case res of Inl _ \<Rightarrow> False | Inr r \<Rightarrow> what \<in> set (ir_degraded r))"

definition item_degraded :: "string \<Rightarrow> batch_item \<Rightarrow> bool" where
  "item_degraded what b = (case bi_result b of None \<Rightarrow> False | Some r \<Rightarrow> what \<in> set (ir_degraded r))"

lemma counter_total_count_up [simp]: "counter_total (count_up labels c) = Suc (counter_total c)"
proof -
  have "sum_list (map snd (AList.update labels (Suc (case map_of c labels of None \<Rightarrow> 0 | Some n \<Rightarrow> n)) c)) =
      Suc (sum_list (map snd c))"
    by (induction c) (auto split: option.split)
  then show ?thesis by (simp add: counter_total_def count_up_def counter_value_def)
qed

text \<open>What a service with a correlator, as \<open>has_correlator\<close> says, counts for one result.\<close>

definition result_counted :: "bool \<Rightarrow> 'e ingest_error + ingest_result \<Rightarrow> metrics \<Rightarrow> metrics \<Rightarrow> bool" where
  "result_counted has_correlator res m m' \<longleftrightarrow>
     counter_total (mt_events_ingested m') = counter_total (mt_events_ingested m) + of_bool (\<not> isl res) \<and>
     counter_total (mt_events_rejected m') = counter_total (mt_events_rejected m) + of_bool (isl res) \<and>
     mt_bus_errors m' = mt_bus_errors m + of_bool (result_degraded ''event_bus'' res) \<and>
     mt_correlation_errors m' =
       mt_correlation_errors m + of_bool (has_correlator \<and> result_degraded ''correlation'' res)"

lemma ingest_counted:
  "result_counted (sd_process d \<noteq> None) (fst (ingest d now rc raw st)) m (ingest_metrics d now rc raw st m)"
  by (simp add: result_counted_def result_degraded_def ingest_def ingest_metrics_def event_rejected_def analysis_metrics_def
      analyse_def start_result_def Let_def split: sum.split prod.split option.split)

text \<open>
  The ingestion counters add up with the answers. Over a batch the accepted and the
  rejected counter grow, over all their labels, by as many events as the batch reports accepted and
  rejected; the bus and the correlation errors grow by the number of results that name the
  subsystem as degraded, correlation only if there is a correlator: a service without one reports it
  degraded on every event and counts no error.
\<close>

theorem batch_counted:
  "let items = fst (ingest_items d now r i xs st); m' = items_metrics d now r xs st m in
     int (counter_total (mt_events_ingested m')) =
       int (counter_total (mt_events_ingested m)) + br_accepted (batch_of items) \<and>
     int (counter_total (mt_events_rejected m')) =
       int (counter_total (mt_events_rejected m)) + br_rejected (batch_of items) \<and>
     mt_bus_errors m' = mt_bus_errors m + length (filter (item_degraded ''event_bus'') items) \<and>
     mt_correlation_errors m' = mt_correlation_errors m +
       (if sd_process d = None then 0 else length (filter (item_degraded ''correlation'') items))"
proof (induction xs arbitrary: i st m)
  case Nil
  show ?case by (simp add: batch_of_def)
next
  case (Cons x xs)
  obtain res st1 where x: "ingest d now (context_of r) x st = (res, st1)" by (metis surj_pair)
  obtain items st2 where xs: "ingest_items d now r (i + 1) xs st1 = (items, st2)" by (metis surj_pair)
  have run: "ingest_items d now r i (x # xs) st = (item_for r i res # items, st2)"
    by (simp add: x xs Let_def item_for_def split: sum.split)
  define m1 where "m1 = ingest_metrics d now (context_of r) x st m"
  have "result_counted (sd_process d \<noteq> None) res m m1"
    using ingest_counted [of d now "context_of r" x st m] by (simp add: x m1_def)
  then show ?case
    using Cons.IH [of "i + 1" st1 m1]
    by (cases res) (simp_all add: run x xs m1_def [symmetric] Let_def result_counted_def result_degraded_def
        item_for_def item_degraded_def batch_of_def del: ingest_items.simps)
qed

end
