(* ===== verification/Concurrency.thy ===== *)
theory Concurrency
  imports Engine
begin

text \<open>
  Overlapping calls of \<^verbatim>\<open>Process\<close> in \<^verbatim>\<open>src/internal/correlation/engine.go\<close>. The server runs every request
  in a goroutine of its own, and the engine holds its mutex only while it touches a map: between
  reading the open incident of a subject and saving it other calls run. Here a call is cut where
  others can come between, each piece being one access to something shared: a map under the mutex,
  the store, the graph. The theory \<open>Engine\<close> treats a whole call as one step; a call that is left
  alone does exactly that. An update's reads of the graph are one step.
\<close>

subsection \<open>The steps of a call\<close>

text \<open>
  Where a call stands, with its local variables: the rules still to run and the findings so far;
  before it looks up the subject's open incident; before it loads that incident; with the incident it
  will update; before it saves; before it notes the incident as the subject's open one.
\<close>

datatype progress =
    Evaluating "rule list" "finding list"
  | LookingUp "finding list"
  | LoadingIncident "finding list" string
  | Updating "finding list" incident
  | Saving incident
  | Noting incident
  | Answered "engine_error + incident option"

record 's engine_world =
  ew_graph :: sgraph
  ew_engine :: engine
  ew_ids :: nat
  ew_store :: 's

text \<open>\<^verbatim>\<open>inc == nil\<close>: a new incident is made.\<close>

definition start_incident ::
  "(nat \<Rightarrow> string) \<Rightarrow> security_event \<Rightarrow> finding list \<Rightarrow> 's engine_world \<Rightarrow> progress \<times> 's engine_world" where
  "start_incident uuid ev fs w =
     (let (iid, n) = new_id uuid PrefixIncident (ew_ids w)
      in (Updating fs (new_incident iid (subject_key ev) ev), w\<lparr>ew_ids := n\<rparr>))"

definition evaluate_step ::
  "(nat \<Rightarrow> string) \<Rightarrow> security_event \<Rightarrow> rule \<Rightarrow> rule list \<Rightarrow> finding list \<Rightarrow> 's engine_world \<Rightarrow>
     progress \<times> 's engine_world" where
  "evaluate_step uuid ev r rs fs w =
     (if \<not> matches r ev then (Evaluating rs fs, w)
      else
        let (met, hits) = (case r_threshold r of
              None \<Rightarrow> (True, en_threshold_hits (ew_engine w))
            | Some th \<Rightarrow> threshold_met (subject_key ev) r th (ev_timestamp ev) (en_threshold_hits (ew_engine w)));
            w1 = w\<lparr>ew_engine := (ew_engine w)\<lparr>en_threshold_hits := hits\<rparr>\<rparr>
        in if \<not> met then (Evaluating rs fs, w1)
           else
             let (fid, n) = new_id uuid PrefixFinding (ew_ids w1)
             in (Evaluating rs (fs @ [make_finding fid r ev]), w1\<lparr>ew_ids := n\<rparr>))"

fun process_step ::
  "('s \<Rightarrow> string \<Rightarrow> 'e + incident) \<Rightarrow> ('s \<Rightarrow> incident \<Rightarrow> 'e + 's) \<Rightarrow> (nat \<Rightarrow> string) \<Rightarrow> time \<Rightarrow> security_event \<Rightarrow>
     progress \<Rightarrow> 's engine_world \<Rightarrow> progress \<times> 's engine_world" where
  "process_step get save uuid now ev (Evaluating (r # rs) fs) w = evaluate_step uuid ev r rs fs w"
| "process_step get save uuid now ev (Evaluating [] fs) w =
     (if fs = [] then Answered (Inr None) else LookingUp fs, w)"
| "process_step get save uuid now ev (LookingUp fs) w =
     (case map_of (en_open_subjects (ew_engine w)) (subject_key ev) of
        None \<Rightarrow> start_incident uuid ev fs w
      | Some st \<Rightarrow>
          if time_sub (ev_timestamp ev) (ss_last_seen st) > en_window (ew_engine w) then start_incident uuid ev fs w
          else (LoadingIncident fs (ss_incident_id st), w))"
| "process_step get save uuid now ev (LoadingIncident fs iid) w =
     (case get (ew_store w) iid of
        Inl _ \<Rightarrow> start_incident uuid ev fs w
      | Inr i \<Rightarrow> if inc_status i \<noteq> StatusClosed then (Updating fs i, w) else start_incident uuid ev fs w)"
| "process_step get save uuid now ev (Updating fs i) w = (Saving (update_incident (ew_graph w) now ev fs i), w)"
| "process_step get save uuid now ev (Saving i) w =
     (case save (ew_store w) i of
        Inl _ \<Rightarrow> (Answered (Inl PersistFailed), w)
      | Inr s \<Rightarrow> (Noting i, w\<lparr>ew_store := s\<rparr>))"
| "process_step get save uuid now ev (Noting i) w =
     (Answered (Inr (Some i)),
      w\<lparr>ew_engine := (ew_engine w)\<lparr>en_open_subjects := AList.update (subject_key ev)
          \<lparr> ss_incident_id = inc_id i, ss_last_seen = ev_timestamp ev \<rparr> (en_open_subjects (ew_engine w))\<rparr>\<rparr>)"
| "process_step get save uuid now ev (Answered r) w = (Answered r, w)"

subsection \<open>Calls that overlap\<close>

text \<open>
  The calls in flight, each with its event, and the shared state. Any of them may take the next
  step; events may be projected into the graph at any time, as ingestion does before it asks for
  analysis; and a call may arrive whenever \<open>admits\<close> allows it.
\<close>

type_synonym 's in_flight = "(security_event \<times> progress) list \<times> 's engine_world"

inductive interleaved ::
  "((security_event \<times> progress) list \<Rightarrow> security_event \<Rightarrow> bool) \<Rightarrow> (nat \<Rightarrow> string) \<Rightarrow>
     memory_store in_flight \<Rightarrow> memory_store in_flight \<Rightarrow> bool" for admits uuid st0 where
  interleaved_start: "interleaved admits uuid st0 st0"
| interleaved_project:
    "interleaved admits uuid st0 (cs, w) \<Longrightarrow> interleaved admits uuid st0 (cs, w\<lparr>ew_graph := project ev (ew_graph w)\<rparr>)"
| interleaved_arrival:
    "interleaved admits uuid st0 (cs, w) \<Longrightarrow> admits cs ev \<Longrightarrow>
     interleaved admits uuid st0 (cs @ [(ev, Evaluating (en_rules (ew_engine w)) [])], w)"
| interleaved_step:
    "interleaved admits uuid st0 (cs, w) \<Longrightarrow> i < length cs \<Longrightarrow> cs ! i = (ev, p) \<Longrightarrow>
     process_step get_incident save_incident uuid now ev p w = (p', w') \<Longrightarrow>
     interleaved admits uuid st0 (cs[i := (ev, p')], w')"

text \<open>Calls as the server makes them, and calls of one subject one after the other.\<close>

definition at_any_time :: "(security_event \<times> progress) list \<Rightarrow> security_event \<Rightarrow> bool" where
  "at_any_time cs ev \<longleftrightarrow> True"

fun has_answered :: "progress \<Rightarrow> bool" where
  "has_answered (Answered _) \<longleftrightarrow> True"
| "has_answered _ \<longleftrightarrow> False"

definition subject_idle :: "(security_event \<times> progress) list \<Rightarrow> security_event \<Rightarrow> bool" where
  "subject_idle cs ev \<longleftrightarrow> (\<forall>(ev', p) \<in> set cs. subject_key ev' = subject_key ev \<longrightarrow> has_answered p)"

definition idle_world :: "sgraph \<Rightarrow> engine \<Rightarrow> int \<Rightarrow> memory_store engine_world" where
  "idle_world g en m = \<lparr> ew_graph = g, ew_engine = en, ew_ids = 0, ew_store = new_memory_store m \<rparr>"

subsection \<open>A call that is left alone\<close>

text \<open>\<open>k\<close> steps of one call, and of nothing else.\<close>

definition run_alone ::
  "('s \<Rightarrow> string \<Rightarrow> 'e + incident) \<Rightarrow> ('s \<Rightarrow> incident \<Rightarrow> 'e + 's) \<Rightarrow> (nat \<Rightarrow> string) \<Rightarrow> time \<Rightarrow> security_event \<Rightarrow>
     nat \<Rightarrow> progress \<times> 's engine_world \<Rightarrow> progress \<times> 's engine_world" where
  "run_alone get save uuid now ev k = (\<lambda>(p, w). process_step get save uuid now ev p w) ^^ k"

lemma run_alone_0 [simp]: "run_alone get save uuid now ev 0 st = st"
  by (simp add: run_alone_def)

lemma run_alone_Suc [simp]:
  "run_alone get save uuid now ev (Suc k) (p, w) = run_alone get save uuid now ev k (process_step get save uuid now ev p w)"
  by (simp add: run_alone_def funpow_swap1)

lemma run_alone_add:
  "run_alone get save uuid now ev (j + k) st = run_alone get save uuid now ev k (run_alone get save uuid now ev j st)"
  by (simp add: run_alone_def funpow_add add.commute [of j k])

lemma run_evaluation:
  assumes "evaluate_rules uuid ev (subject_key ev) rs (en_threshold_hits (ew_engine w)) (ew_ids w) = (fs, hits, n)"
  shows "run_alone get save uuid now ev (length rs) (Evaluating rs acc, w) =
    (Evaluating [] (acc @ fs), w\<lparr>ew_engine := (ew_engine w)\<lparr>en_threshold_hits := hits\<rparr>, ew_ids := n\<rparr>)"
  using assms
proof (induction rs arbitrary: acc w fs)
  case (Cons r rs)
  obtain met h1 where met: "(case r_threshold r of None \<Rightarrow> (True, en_threshold_hits (ew_engine w))
      | Some th \<Rightarrow> threshold_met (subject_key ev) r th (ev_timestamp ev) (en_threshold_hits (ew_engine w))) = (met, h1)"
    by fastforce
  consider "\<not> matches r ev" | "matches r ev" "\<not> met" | "matches r ev" "met" by blast
  then show ?case
  proof cases
    case 1
    then show ?thesis using Cons.prems Cons.IH [of w fs acc] by (simp add: evaluate_step_def)
  next
    case 2
    then show ?thesis
      using Cons.prems met Cons.IH [of "w\<lparr>ew_engine := (ew_engine w)\<lparr>en_threshold_hits := h1\<rparr>\<rparr>" fs acc]
      by (simp add: evaluate_step_def)
  next
    case 3
    let ?f = "make_finding (fst (new_id uuid PrefixFinding (ew_ids w))) r ev"
    obtain fs1 where fs1: "evaluate_rules uuid ev (subject_key ev) rs h1 (Suc (ew_ids w)) = (fs1, hits, n)" "fs = ?f # fs1"
      using Cons.prems met 3 by (auto simp: new_id_def split: prod.splits)
    then show ?thesis
      using met 3 Cons.IH [of "w\<lparr>ew_engine := (ew_engine w)\<lparr>en_threshold_hits := h1\<rparr>, ew_ids := Suc (ew_ids w)\<rparr>" fs1 "acc @ [?f]"]
      by (simp add: evaluate_step_def new_id_def)
  qed
qed simp

text \<open>The steps from the findings to the answer.\<close>

lemma run_merge:
  assumes "merge_into_incident get save uuid now g ev (subject_key ev) fs (en, n, s) = (r, en', n', s')"
  shows "\<exists>k \<le> 5. run_alone get save uuid now ev k (LookingUp fs, \<lparr> ew_graph = g, ew_engine = en, ew_ids = n, ew_store = s \<rparr>) =
    (Answered (map_sum id Some r), \<lparr> ew_graph = g, ew_engine = en', ew_ids = n', ew_store = s' \<rparr>)"
proof -
  let ?w = "\<lparr> ew_graph = g, ew_engine = en, ew_ids = n, ew_store = s \<rparr>"
  define fresh where "fresh = (Updating fs (new_incident (fst (new_id uuid PrefixIncident n)) (subject_key ev) ev), ?w\<lparr>ew_ids := Suc n\<rparr>)"
  define chosen where "chosen = (case open_incident get en s (subject_key ev) ev of None \<Rightarrow> fresh | Some i \<Rightarrow> (Updating fs i, ?w))"
  have fresh: "start_incident uuid ev fs ?w = fresh" by (simp add: fresh_def start_incident_def new_id_def)
  have chosen: "\<exists>j \<le> 2. run_alone get save uuid now ev j (LookingUp fs, ?w) = chosen"
  proof (cases "map_of (en_open_subjects en) (subject_key ev)")
    case None
    then show ?thesis by (intro exI [of _ 1]) (simp add: chosen_def open_incident_def fresh)
  next
    case (Some st)
    show ?thesis
    proof (cases "time_sub (ev_timestamp ev) (ss_last_seen st) > en_window en")
      case True
      then show ?thesis using Some by (intro exI [of _ 1]) (simp add: chosen_def open_incident_def fresh)
    next
      case False
      then show ?thesis
        using Some by (intro exI [of _ 2]) (simp add: chosen_def open_incident_def fresh numeral_2_eq_2 split: sum.split)
    qed
  qed
  have "run_alone get save uuid now ev 3 chosen =
      (Answered (map_sum id Some r), \<lparr> ew_graph = g, ew_engine = en', ew_ids = n', ew_store = s' \<rparr>)"
    using assms
    by (auto simp: chosen_def fresh_def merge_into_incident_def new_id_def numeral_3_eq_3 Let_def
        split: option.splits sum.splits)
  with chosen obtain j where "j \<le> 2" "run_alone get save uuid now ev (j + 3) (LookingUp fs, ?w) =
      (Answered (map_sum id Some r), \<lparr> ew_graph = g, ew_engine = en', ew_ids = n', ew_store = s' \<rparr>)"
    by (metis run_alone_add)
  then show ?thesis by (intro exI [of _ "j + 3"]) simp
qed

text \<open>
  The steps are those of \<open>process\<close>: a call that is left alone does what \<open>process\<close> does as one step. From any state,
  after at most six more steps than there are rules, it has answered with the result of \<open>process\<close> and
  left the state \<open>process\<close> leaves.
\<close>

lemma alone_is_process:
  "\<exists>k \<le> length (en_rules en) + 6. \<exists>r en' n' s'.
     process get save uuid now g ev (en, n, s) = (r, en', n', s') \<and>
     run_alone get save uuid now ev k
       (Evaluating (en_rules en) [], \<lparr> ew_graph = g, ew_engine = en, ew_ids = n, ew_store = s \<rparr>) =
     (Answered r, \<lparr> ew_graph = g, ew_engine = en', ew_ids = n', ew_store = s' \<rparr>)"
proof -
  let ?w = "\<lparr> ew_graph = g, ew_engine = en, ew_ids = n, ew_store = s \<rparr>"
  obtain fs hits n1 where e: "evaluate_rules uuid ev (subject_key ev) (en_rules en) (en_threshold_hits en) n = (fs, hits, n1)"
    by (metis prod_cases3)
  let ?en = "en\<lparr>en_threshold_hits := hits\<rparr>"
  let ?w1 = "\<lparr> ew_graph = g, ew_engine = ?en, ew_ids = n1, ew_store = s \<rparr>"
  have "evaluate_rules uuid ev (subject_key ev) (en_rules en) (en_threshold_hits (ew_engine ?w)) (ew_ids ?w) = (fs, hits, n1)"
    by (simp add: e)
  then have found: "run_alone get save uuid now ev (length (en_rules en)) (Evaluating (en_rules en) [], ?w) = (Evaluating [] fs, ?w1)"
    by (simp add: run_evaluation)
  show ?thesis
  proof (cases "fs = []")
    case True
    then have "run_alone get save uuid now ev (length (en_rules en) + 1) (Evaluating (en_rules en) [], ?w) = (Answered (Inr None), ?w1)"
      unfolding run_alone_add found by simp
    moreover have "process get save uuid now g ev (en, n, s) = (Inr None, ?en, n1, s)"
      using True e by (simp add: process_def)
    ultimately show ?thesis by (intro exI [of _ "length (en_rules en) + 1"]) simp
  next
    case False
    obtain r en' n' s' where m: "merge_into_incident get save uuid now g ev (subject_key ev) fs (?en, n1, s) = (r, en', n', s')"
      by (metis prod_cases4)
    obtain k where k: "k \<le> 5" "run_alone get save uuid now ev k (LookingUp fs, ?w1) =
        (Answered (map_sum id Some r), \<lparr> ew_graph = g, ew_engine = en', ew_ids = n', ew_store = s' \<rparr>)"
      using run_merge [OF m] by blast
    have "run_alone get save uuid now ev (length (en_rules en) + (1 + k)) (Evaluating (en_rules en) [], ?w) =
        (Answered (map_sum id Some r), \<lparr> ew_graph = g, ew_engine = en', ew_ids = n', ew_store = s' \<rparr>)"
      unfolding run_alone_add found using False k(2) by simp
    moreover have "process get save uuid now g ev (en, n, s) = (map_sum id Some r, en', n', s')"
      using False e m by (simp add: process_def split: sum.split)
    ultimately show ?thesis using k(1) by (intro exI [of _ "length (en_rules en) + (1 + k)"]) simp
  qed
qed

subsection \<open>No call waits for another\<close>

text \<open>How many steps a call has left at most.\<close>

fun steps_left :: "progress \<Rightarrow> nat" where
  "steps_left (Evaluating rs fs) = length rs + 6"
| "steps_left (LookingUp fs) = 5"
| "steps_left (LoadingIncident fs iid) = 4"
| "steps_left (Updating fs i) = 3"
| "steps_left (Saving i) = 2"
| "steps_left (Noting i) = 1"
| "steps_left (Answered r) = 0"

lemma process_step_decreases:
  "steps_left (fst (process_step get save uuid now ev p w)) \<le> steps_left p - 1"
proof -
  have "steps_left (fst (start_incident uuid ev fs w)) = 3" for fs by (simp add: start_incident_def split: prod.split)
  moreover have "steps_left (fst (evaluate_step uuid ev r rs fs w)) = length rs + 6" for r rs fs
    by (simp add: evaluate_step_def Let_def split: prod.split)
  ultimately show ?thesis
    by (induction get save uuid now ev p w rule: process_step.induct) (simp_all split: option.split sum.split)
qed

lemma steps_left_0: "steps_left p = 0 \<longleftrightarrow> (\<exists>r. p = Answered r)"
  by (cases p) simp_all

text \<open>
  No call waits for another. Whatever the other calls and the clock have made of the
  shared state before each of its steps, a call has answered after six more steps of its own than
  there are rules.
\<close>

theorem own_steps_bounded:
  assumes "length rules + 6 \<le> length ws"
  shows "\<exists>r. fold (\<lambda>(now, w) p. fst (process_step get save uuid now ev p w)) ws (Evaluating rules []) = Answered r"
proof -
  have "steps_left (fold (\<lambda>(now, w) p. fst (process_step get save uuid now ev p w)) ws p) \<le> steps_left p - length ws" for p
  proof (induction ws arbitrary: p)
    case (Cons x ws)
    let ?p = "fst (process_step get save uuid (fst x) ev p (snd x))"
    have "steps_left (fold (\<lambda>(now, w) p. fst (process_step get save uuid now ev p w)) ws ?p) \<le> steps_left ?p - length ws"
      by (rule Cons.IH)
    also have "\<dots> \<le> steps_left p - 1 - length ws" by (rule diff_le_mono [OF process_step_decreases])
    finally show ?case by (simp add: split_def)
  qed simp
  from this [of "Evaluating rules []"] assms show ?thesis by (simp add: steps_left_0 [symmetric])
qed

theorem own_steps_bounded_witness:
  "\<exists>r. fold (\<lambda>(now, w) p. fst (process_step get_incident save_incident sample_uuid now (login ''e1'' 1) p w))
     (replicate 7 (5, idle_world new_graph sample_engine 9)) (Evaluating (en_rules sample_engine) []) = Answered r"
  by (rule own_steps_bounded) (simp add: sample_engine_def)

subsection \<open>What holds whenever calls overlap\<close>

text \<open>
  \<open>own\<close> says for which subject the identifier drawn as number \<open>m\<close> was drawn. An incident, an open
  subject and a call only ever carry identifiers of their own subject.
\<close>

definition drawn_for :: "(nat \<Rightarrow> string) \<Rightarrow> (nat \<Rightarrow> string) \<Rightarrow> nat \<Rightarrow> string \<Rightarrow> string \<Rightarrow> bool" where
  "drawn_for own uuid n subj k \<longleftrightarrow> (\<exists>m < n. k = fst (new_id uuid PrefixIncident m) \<and> own m = subj)"

definition updated_ok :: "sgraph \<Rightarrow> incident \<Rightarrow> bool" where
  "updated_ok g i \<longleftrightarrow> incident_wf i \<and> (\<exists>g0. graph_wf g0 \<and> graph_le g0 g \<and> scored g0 i)"

fun progress_ok :: "(nat \<Rightarrow> string) \<Rightarrow> (nat \<Rightarrow> string) \<Rightarrow> nat \<Rightarrow> sgraph \<Rightarrow> string \<Rightarrow> progress \<Rightarrow> bool" where
  "progress_ok own uuid n g subj (Evaluating rs fs) \<longleftrightarrow> (\<forall>f \<in> set fs. finding_wf f)"
| "progress_ok own uuid n g subj (LookingUp fs) \<longleftrightarrow> (\<forall>f \<in> set fs. finding_wf f)"
| "progress_ok own uuid n g subj (LoadingIncident fs iid) \<longleftrightarrow> (\<forall>f \<in> set fs. finding_wf f) \<and> drawn_for own uuid n subj iid"
| "progress_ok own uuid n g subj (Updating fs i) \<longleftrightarrow> (\<forall>f \<in> set fs. finding_wf f) \<and> incident_wf i \<and>
     inc_primary_identity i = subj \<and> drawn_for own uuid n subj (inc_id i)"
| "progress_ok own uuid n g subj (Saving i) \<longleftrightarrow>
     updated_ok g i \<and> inc_primary_identity i = subj \<and> drawn_for own uuid n subj (inc_id i)"
| "progress_ok own uuid n g subj (Noting i) \<longleftrightarrow> drawn_for own uuid n subj (inc_id i)"
| "progress_ok own uuid n g subj (Answered r) \<longleftrightarrow> True"

definition world_ok ::
  "(nat \<Rightarrow> string) \<Rightarrow> (nat \<Rightarrow> string) \<Rightarrow> ('s \<Rightarrow> string \<Rightarrow> 'e + incident) \<Rightarrow> 's engine_world \<Rightarrow> bool" where
  "world_ok own uuid get w \<longleftrightarrow>
     graph_wf (ew_graph w) \<and>
     (\<forall>k i. get (ew_store w) k = Inr i \<longrightarrow>
        updated_ok (ew_graph w) i \<and> drawn_for own uuid (ew_ids w) (inc_primary_identity i) k) \<and>
     (\<forall>subj x. map_of (en_open_subjects (ew_engine w)) subj = Some x \<longrightarrow>
        drawn_for own uuid (ew_ids w) subj (ss_incident_id x))"

definition same_owners :: "nat \<Rightarrow> (nat \<Rightarrow> string) \<Rightarrow> (nat \<Rightarrow> string) \<Rightarrow> bool" where
  "same_owners n own own' \<longleftrightarrow> (\<forall>m < n. own' m = own m)"

lemma drawn_for_mono:
  "drawn_for own uuid n subj k \<Longrightarrow> same_owners n own own' \<Longrightarrow> n \<le> n' \<Longrightarrow> drawn_for own' uuid n' subj k"
  unfolding drawn_for_def same_owners_def by (metis order_less_le_trans)

lemma drawn_for_unique:
  "inj uuid \<Longrightarrow> drawn_for own uuid n subj k \<Longrightarrow> drawn_for own uuid n' subj' k \<Longrightarrow> subj = subj'"
  unfolding drawn_for_def using new_id_inj by metis

lemma updated_ok_mono: "updated_ok g i \<Longrightarrow> graph_le g h \<Longrightarrow> updated_ok h i"
  unfolding updated_ok_def using graph_le_trans by blast

lemma update_incident_ok:
  "graph_wf g \<Longrightarrow> incident_wf i \<Longrightarrow> \<forall>f \<in> set fs. finding_wf f \<Longrightarrow> updated_ok g (update_incident g now ev fs i)"
  unfolding updated_ok_def
  by (intro conjI exI [of _ g] update_incident_wf graph_le_refl update_incident_scored) simp_all

lemma progress_ok_mono:
  "progress_ok own uuid n g subj p \<Longrightarrow> same_owners n own own' \<Longrightarrow> n \<le> n' \<Longrightarrow> graph_le g h \<Longrightarrow>
     progress_ok own' uuid n' h subj p"
  by (cases p) (auto intro: drawn_for_mono updated_ok_mono)

lemma same_owners_refl [simp]: "same_owners n own own"
  by (simp add: same_owners_def)

lemma same_owners_draw: "same_owners n own (own(n := subj))"
  by (simp add: same_owners_def)

text \<open>A step that leaves the store and the open subjects as they are.\<close>

lemma world_ok_frame:
  assumes "world_ok own uuid get w" "same_owners (ew_ids w) own own'" "ew_ids w \<le> ew_ids w'"
    and "ew_graph w' = ew_graph w" "ew_store w' = ew_store w"
    and "en_open_subjects (ew_engine w') = en_open_subjects (ew_engine w)"
  shows "world_ok own' uuid get w'"
  using assms drawn_for_mono [OF _ assms(2,3)] unfolding world_ok_def by metis

definition steps_to ::
  "(nat \<Rightarrow> string) \<Rightarrow> ('s \<Rightarrow> string \<Rightarrow> 'e + incident) \<Rightarrow> string \<Rightarrow> (nat \<Rightarrow> string) \<Rightarrow> 's engine_world \<Rightarrow>
     (nat \<Rightarrow> string) \<Rightarrow> progress \<Rightarrow> 's engine_world \<Rightarrow> bool" where
  "steps_to uuid get subj own w own' p' w' \<longleftrightarrow>
     world_ok own' uuid get w' \<and> progress_ok own' uuid (ew_ids w') (ew_graph w') subj p' \<and>
     same_owners (ew_ids w) own own' \<and> ew_ids w \<le> ew_ids w' \<and> ew_graph w' = ew_graph w"

lemma start_incident_ok:
  assumes "world_ok own uuid get w" "\<forall>f \<in> set fs. finding_wf f" "start_incident uuid ev fs w = (p', w')"
  shows "steps_to uuid get (subject_key ev) own w (own(ew_ids w := subject_key ev)) p' w' \<and> ew_store w' = ew_store w"
proof -
  have w': "w' = w\<lparr>ew_ids := Suc (ew_ids w)\<rparr>"
    and p': "p' = Updating fs (new_incident (fst (new_id uuid PrefixIncident (ew_ids w))) (subject_key ev) ev)"
    using assms(3) by (simp_all add: start_incident_def new_id_def)
  have "world_ok (own(ew_ids w := subject_key ev)) uuid get w'"
    by (rule world_ok_frame [OF assms(1) same_owners_draw]) (simp_all add: w')
  moreover have "drawn_for (own(ew_ids w := subject_key ev)) uuid (ew_ids w') (subject_key ev)
      (fst (new_id uuid PrefixIncident (ew_ids w)))"
    unfolding drawn_for_def w' by (intro exI [of _ "ew_ids w"]) simp
  ultimately show ?thesis
    using assms(2) same_owners_draw new_incident_wf by (simp add: steps_to_def p' w') (simp add: new_incident_def)
qed

lemma evaluate_step_ok:
  assumes "world_ok own uuid get w" "\<forall>f \<in> set fs. finding_wf f" "evaluate_step uuid ev r rs fs w = (p', w')"
  shows "steps_to uuid get (subject_key ev) own w own p' w' \<and> ew_store w' = ew_store w"
proof -
  have same: "ew_graph w' = ew_graph w" "ew_store w' = ew_store w" "ew_ids w \<le> ew_ids w'"
    "en_open_subjects (ew_engine w') = en_open_subjects (ew_engine w)"
    using assms(3) by (auto simp: evaluate_step_def new_id_def Let_def split: if_splits prod.splits)
  have "world_ok own uuid get w'" by (rule world_ok_frame [OF assms(1)]) (simp_all add: same)
  moreover have "progress_ok own uuid (ew_ids w') (ew_graph w') (subject_key ev) p'"
    using assms(2,3)
    by (auto simp: evaluate_step_def make_finding_def finding_wf_def max_finding_events_def Let_def
        split: if_splits prod.splits)
  ultimately show ?thesis using same by (simp add: steps_to_def)
qed

text \<open>A step changes the stored incidents only by saving.\<close>

definition saves :: "('s \<Rightarrow> incident \<Rightarrow> 'e + 's) \<Rightarrow> progress \<Rightarrow> 's \<Rightarrow> 's \<Rightarrow> bool" where
  "saves save p s s' \<longleftrightarrow> s' = s \<or> (\<exists>i. p = Saving i \<and> save s i = Inr s')"

context incident_store begin

lemma saving_ok:
  assumes "world_ok own uuid get w" "updated_ok (ew_graph w) i" "drawn_for own uuid (ew_ids w) (inc_primary_identity i) (inc_id i)"
    and "save (ew_store w) i = Inr s'"
  shows "world_ok own uuid get (w\<lparr>ew_store := s'\<rparr>)"
  using assms(1-3) unfolding world_ok_def by (auto simp: save_get [OF assms(4)])

lemma process_step_ok:
  assumes "world_ok own uuid get w" "store_ok (ew_store w)" "inj uuid"
    and "progress_ok own uuid (ew_ids w) (ew_graph w) (subject_key ev) p"
    and run: "process_step get save uuid now ev p w = (p', w')"
  shows "(\<exists>own'. steps_to uuid get (subject_key ev) own w own' p' w') \<and> saves save p (ew_store w) (ew_store w')"
proof -
  have start: ?thesis if "\<forall>f \<in> set fs. finding_wf f" "start_incident uuid ev fs w = (p', w')" for fs
    using start_incident_ok [OF assms(1) that] unfolding saves_def by blast
  show ?thesis
  proof (cases p)
    case (Evaluating rs fs)
    show ?thesis
    proof (cases rs)
      case Nil
      then show ?thesis using assms Evaluating by (auto simp: steps_to_def saves_def split: if_splits intro!: exI [of _ own])
    next
      case (Cons r rs')
      then have "evaluate_step uuid ev r rs' fs w = (p', w')" "\<forall>f \<in> set fs. finding_wf f"
        using assms(4) run Evaluating by simp_all
      then show ?thesis using evaluate_step_ok [OF assms(1)] unfolding saves_def by blast
    qed
  next
    case (LookingUp fs)
    show ?thesis
    proof (cases "map_of (en_open_subjects (ew_engine w)) (subject_key ev)")
      case None
      then show ?thesis using start [of fs] assms(4) run LookingUp by simp
    next
      case (Some st)
      then have "drawn_for own uuid (ew_ids w) (subject_key ev) (ss_incident_id st)"
        using assms(1) by (simp add: world_ok_def)
      then show ?thesis
        using start [of fs] assms Some LookingUp
        by (auto simp: steps_to_def saves_def split: if_splits intro!: exI [of _ own])
    qed
  next
    case (LoadingIncident fs iid)
    show ?thesis
    proof (cases "get (ew_store w) iid")
      case (Inl e)
      then show ?thesis using start [of fs] assms(4) run LoadingIncident by simp
    next
      case (Inr i)
      show ?thesis
      proof (cases "inc_status i = StatusClosed")
        case True
        then show ?thesis using start [of fs] assms(4) run LoadingIncident Inr by simp
      next
        case False
        have i: "incident_wf i" "drawn_for own uuid (ew_ids w) (inc_primary_identity i) iid"
          using assms(1) Inr by (auto simp: world_ok_def updated_ok_def)
        have same: "inc_primary_identity i = subject_key ev"
          by (rule drawn_for_unique [OF assms(3) i(2), where n' = "ew_ids w"]) (use assms(4) LoadingIncident in simp)
        have "inc_id i = iid" by (rule get_id [OF assms(2) Inr])
        with i show ?thesis
          using assms(1,4) run LoadingIncident Inr False same
          by (auto simp: steps_to_def saves_def intro!: exI [of _ own])
      qed
    qed
  next
    case (Updating fs i)
    then have eq: "p' = Saving (update_incident (ew_graph w) now ev fs i)" "w' = w" using run by auto
    have "updated_ok (ew_graph w) (update_incident (ew_graph w) now ev fs i)"
      using assms(1,4) Updating by (intro update_incident_ok) (simp_all add: world_ok_def)
    then show ?thesis
      using assms(1,4) Updating by (auto simp: eq steps_to_def saves_def intro!: exI [of _ own])
  next
    case (Saving i)
    show ?thesis
    proof (cases "save (ew_store w) i")
      case (Inl e)
      then show ?thesis using assms Saving by (auto simp: steps_to_def saves_def intro!: exI [of _ own])
    next
      case (Inr s')
      then have "world_ok own uuid get (w\<lparr>ew_store := s'\<rparr>)"
        using saving_ok [OF assms(1) _ _ Inr] assms(4) Saving by simp
      then show ?thesis
        using Inr Saving assms(4) run by (auto simp: steps_to_def saves_def intro!: exI [of _ own])
    qed
  next
    case (Noting i)
    then show ?thesis
      using assms(1,4) run by (auto simp: steps_to_def saves_def world_ok_def intro!: exI [of _ own] split: if_splits)
  next
    case (Answered r)
    then show ?thesis using assms by (auto simp: steps_to_def saves_def intro!: exI [of _ own])
  qed
qed

end

definition run_ok :: "(nat \<Rightarrow> string) \<Rightarrow> (nat \<Rightarrow> string) \<Rightarrow> memory_store in_flight \<Rightarrow> bool" where
  "run_ok own uuid st \<longleftrightarrow>
     world_ok own uuid get_incident (snd st) \<and> incidents_wf (ew_store (snd st)) \<and>
     (\<forall>(ev, p) \<in> set (fst st). progress_ok own uuid (ew_ids (snd st)) (ew_graph (snd st)) (subject_key ev) p)"

lemma run_ok_project:
  assumes "run_ok own uuid (cs, w)"
  shows "run_ok own uuid (cs, w\<lparr>ew_graph := project ev (ew_graph w)\<rparr>)"
proof -
  have le: "graph_le (ew_graph w) (project ev (ew_graph w))" and wf: "graph_wf (project ev (ew_graph w))"
    using assms project_wf project_grows by (auto simp: run_ok_def world_ok_def)
  have "progress_ok own uuid (ew_ids w) (project ev (ew_graph w)) (subject_key e) p"
    if "progress_ok own uuid (ew_ids w) (ew_graph w) (subject_key e) p" for e p
    by (rule progress_ok_mono [OF that same_owners_refl order_refl le])
  then show ?thesis
    using assms wf updated_ok_mono [OF _ le] unfolding run_ok_def world_ok_def by auto
qed

lemma run_ok_step:
  assumes "run_ok own uuid (cs, w)" "inj uuid" "i < length cs" "cs ! i = (ev, p)"
    and "process_step get_incident save_incident uuid now ev p w = (p', w')"
  obtains own' where "run_ok own' uuid (cs[i := (ev, p')], w')" "steps_to uuid get_incident (subject_key ev) own w own' p' w'"
    "saves save_incident p (ew_store w) (ew_store w')"
proof -
  have "(ev, p) \<in> set cs" using assms(3,4) by (metis nth_mem)
  then have "progress_ok own uuid (ew_ids w) (ew_graph w) (subject_key ev) p"
    and w: "world_ok own uuid get_incident w" "incidents_wf (ew_store w)"
    using assms(1) by (auto simp: run_ok_def)
  from memory_incidents.process_step_ok [OF w assms(2) this(1) assms(5)] obtain own'
    where own': "steps_to uuid get_incident (subject_key ev) own w own' p' w'"
      and saved: "saves save_incident p (ew_store w) (ew_store w')" by blast
  have "incidents_wf (ew_store w')"
    using saved w(2) memory_incidents.save_ok unfolding saves_def by metis
  moreover have "progress_ok own' uuid (ew_ids w') (ew_graph w') (subject_key e) q" if "(e, q) \<in> set cs" for e q
  proof -
    have "progress_ok own uuid (ew_ids w) (ew_graph w) (subject_key e) q" using assms(1) that by (auto simp: run_ok_def)
    then show ?thesis using own' by (auto simp: steps_to_def intro: progress_ok_mono)
  qed
  ultimately have "run_ok own' uuid (cs[i := (ev, p')], w')"
    using own' by (auto simp: run_ok_def steps_to_def dest!: set_update_subset_insert [THEN subsetD])
  then show ?thesis using that own' saved by blast
qed

lemma interleaved_run_ok:
  assumes "interleaved admits uuid st0 st" "inj uuid" "run_ok own0 uuid st0"
  shows "\<exists>own. run_ok own uuid st"
  using assms(1)
proof (induction rule: interleaved.induct)
  case (interleaved_arrival cs w ev)
  then show ?case by (auto simp: run_ok_def)
next
  case (interleaved_step cs w i ev p now p' w')
  then show ?case using run_ok_step [OF _ assms(2)] by metis
qed (use assms(3) run_ok_project in blast)+

lemma idle_run_ok:
  assumes "graph_wf g" "en_open_subjects en = []"
  shows "run_ok own uuid ([], idle_world g en m)"
  using assms
  by (simp add: run_ok_def world_ok_def idle_world_def new_memory_store_def get_incident_def incidents_wf_def ordered_wf_def)

lemma run_ok_stored:
  "run_ok own uuid (cs, w) \<Longrightarrow> get_incident (ew_store w) k = Inr i \<Longrightarrow>
     updated_ok (ew_graph w) i \<and> drawn_for own uuid (ew_ids w) (inc_primary_identity i) k"
  by (simp add: run_ok_def world_ok_def)

text \<open>No incident is lost, and none moves to another subject.\<close>

lemma interleaved_kept:
  assumes "interleaved admits uuid st0 st" "inj uuid" "run_ok own0 uuid st0"
    and "get_incident (ew_store (snd st0)) k = Inr i"
  shows "\<exists>i'. get_incident (ew_store (snd st)) k = Inr i' \<and> inc_primary_identity i' = inc_primary_identity i"
  using assms(1)
proof (induction rule: interleaved.induct)
  case (interleaved_step cs w j ev p now p' w')
  obtain i1 where i1: "get_incident (ew_store w) k = Inr i1" "inc_primary_identity i1 = inc_primary_identity i"
    using interleaved_step.IH by auto
  obtain own where own: "run_ok own uuid (cs, w)"
    using interleaved_run_ok [OF interleaved_step.hyps(1) assms(2,3)] by blast
  obtain own' where own': "run_ok own' uuid (cs[j := (ev, p')], w')"
      "steps_to uuid get_incident (subject_key ev) own w own' p' w'" "saves save_incident p (ew_store w) (ew_store w')"
    using run_ok_step [OF own assms(2) interleaved_step.hyps(2-4)] by blast
  obtain i2 where i2: "get_incident (ew_store w') k = Inr i2"
    using own'(3) i1(1) memory_incidents.save_get unfolding saves_def by (metis (full_types))
  have "drawn_for own' uuid (ew_ids w') (inc_primary_identity i1) k"
    using run_ok_stored [OF own i1(1)] own'(2) by (auto simp: steps_to_def intro: drawn_for_mono)
  then have "inc_primary_identity i2 = inc_primary_identity i1"
    using drawn_for_unique [OF assms(2)] run_ok_stored [OF own'(1) i2] by blast
  with i2 i1(2) show ?case by simp
qed (use assms(4) in simp_all)

text \<open>
  C23 (invariant): what overlapping calls cannot break. However calls overlap, no stored incident is ever
  lost or moves to another subject, an open subject points at an incident of that subject, and every
  stored incident has one finding per rule, at most 100 event references per finding and 200 evidence
  lines, none repeated, and a score, a confidence and a severity within their bounds.
\<close>

theorem overlapping_calls_keep_invariants:
  assumes "graph_wf g" and "en_open_subjects en = []" and "inj uuid"
    and "interleaved at_any_time uuid ([], idle_world g en m) (cs, w)"
    and "interleaved at_any_time uuid (cs, w) (cs', w')" and "get_incident (ew_store w) k = Inr i"
  shows "\<exists>i'. get_incident (ew_store w') k = Inr i' \<and> inc_primary_identity i' = inc_primary_identity i \<and>
    distinct (map f_rule_id (inc_findings i')) \<and> (\<forall>f \<in> set (inc_findings i'). length (f_event_ids f) \<le> 100) \<and>
    length (inc_evidence i') \<le> 200 \<and> distinct (map evd_event_id (inc_evidence i')) \<and>
    0 \<le> inc_risk_score i' \<and> inc_risk_score i' \<le> 100 \<and> 0 \<le> inc_confidence i' \<and> inc_confidence i' \<le> 95 / 100 \<and>
    inc_severity i' = severity_for_score (inc_risk_score i') \<and>
    (\<forall>subj x. map_of (en_open_subjects (ew_engine w')) subj = Some x \<longrightarrow> ss_incident_id x = k \<longrightarrow>
       inc_primary_identity i' = subj)"
proof -
  obtain own where own: "run_ok own uuid (cs, w)"
    using interleaved_run_ok [OF assms(4,3) idle_run_ok [OF assms(1,2)]] by blast
  obtain own' where own': "run_ok own' uuid (cs', w')"
    using interleaved_run_ok [OF assms(5,3) own] by blast
  obtain i' where i': "get_incident (ew_store w') k = Inr i'" "inc_primary_identity i' = inc_primary_identity i"
    using interleaved_kept [OF assms(5,3) own] assms(6) by auto
  have ok: "updated_ok (ew_graph w') i'" "drawn_for own' uuid (ew_ids w') (inc_primary_identity i') k"
    using run_ok_stored [OF own' i'(1)] by simp_all
  then obtain g1 where "incident_wf i'" "scored g1 i'" by (auto simp: updated_ok_def)
  moreover have "inc_primary_identity i' = subj"
    if "map_of (en_open_subjects (ew_engine w')) subj = Some x" "ss_incident_id x = k" for subj x
  proof -
    have "drawn_for own' uuid (ew_ids w') subj k" using own' that by (auto simp: run_ok_def world_ok_def)
    then show ?thesis by (rule drawn_for_unique [OF assms(3) ok(2)])
  qed
  ultimately show ?thesis
    using i' scored_bounds [of g1 i']
    by (auto simp: incident_wf_def finding_wf_def max_finding_events_def max_incident_evidence_def)
qed

subsection \<open>What calls of one subject in turn keep\<close>

text \<open>Nothing of \<open>i\<close> is missing from \<open>i'\<close>, and its score is no lower.\<close>

definition incident_le :: "incident \<Rightarrow> incident \<Rightarrow> bool" where
  "incident_le i i' \<longleftrightarrow>
     inc_primary_identity i' = inc_primary_identity i \<and> inc_risk_score i \<le> inc_risk_score i' \<and>
     f_rule_id ` set (inc_findings i) \<subseteq> f_rule_id ` set (inc_findings i') \<and>
     evd_event_id ` set (inc_evidence i) \<subseteq> evd_event_id ` set (inc_evidence i')"

lemma incident_le_refl [simp]: "incident_le i i"
  by (simp add: incident_le_def)

lemma incident_le_trans: "incident_le i j \<Longrightarrow> incident_le j k \<Longrightarrow> incident_le i k"
  unfolding incident_le_def by (elim conjE, intro conjI) (simp, simp, blast+)

lemma fold_merge_rules: "f_rule_id ` set es \<subseteq> f_rule_id ` set (fold merge_finding fs es)"
proof (induction fs arbitrary: es)
  case (Cons f fs)
  have "f_rule_id ` set es \<subseteq> f_rule_id ` set (merge_finding f es)" by (auto simp: merge_finding_rules)
  also have "\<dots> \<subseteq> f_rule_id ` set (fold merge_finding fs (merge_finding f es))" by (rule Cons.IH)
  finally show ?case by simp
qed simp

lemma update_incident_le:
  assumes "updated_ok g i" "graph_wf g"
  shows "incident_le i (update_incident g now ev fs i)"
proof -
  obtain g0 where g0: "graph_wf g0" "graph_le g0 g" "scored g0 i" using assms(1) by (auto simp: updated_ok_def)
  have "evd_event_id ` set (inc_evidence i) \<subseteq> evd_event_id ` set (append_evidence ev (inc_evidence i))"
    by (auto simp: append_evidence_def)
  then show ?thesis
    using update_incident_risk [OF g0(1) assms(2) g0(2,3)] fold_merge_rules [of "inc_findings i" fs]
    by (simp add: incident_le_def)
qed

text \<open>A call works on the incident as it is stored.\<close>

fun up_to_date :: "('s \<Rightarrow> string \<Rightarrow> 'e + incident) \<Rightarrow> 's \<Rightarrow> progress \<Rightarrow> bool" where
  "up_to_date get s (Updating fs i) \<longleftrightarrow> (\<forall>j. get s (inc_id i) = Inr j \<longrightarrow> j = i)"
| "up_to_date get s (Saving i) \<longleftrightarrow> (\<forall>j. get s (inc_id i) = Inr j \<longrightarrow> incident_le j i)"
| "up_to_date get s _ \<longleftrightarrow> True"

definition in_turn :: "(security_event \<times> progress) list \<Rightarrow> bool" where
  "in_turn cs \<longleftrightarrow>
     (\<forall>a < length cs. \<forall>b < length cs. a \<noteq> b \<longrightarrow> subject_key (fst (cs ! a)) = subject_key (fst (cs ! b)) \<longrightarrow>
        has_answered (snd (cs ! a)) \<or> has_answered (snd (cs ! b)))"

definition turns_ok :: "memory_store in_flight \<Rightarrow> bool" where
  "turns_ok st \<longleftrightarrow> in_turn (fst st) \<and> (\<forall>(ev, p) \<in> set (fst st). up_to_date get_incident (ew_store (snd st)) p)"

context incident_store begin

lemma start_incident_up_to_date:
  assumes "world_ok own uuid get w" "inj uuid" "start_incident uuid ev fs w = (p', w')"
  shows "up_to_date get (ew_store w') p'"
proof -
  let ?k = "fst (new_id uuid PrefixIncident (ew_ids w))"
  have "get (ew_store w) ?k \<noteq> Inr j" for j
  proof
    assume "get (ew_store w) ?k = Inr j"
    then have "drawn_for own uuid (ew_ids w) (inc_primary_identity j) ?k"
      using assms(1) unfolding world_ok_def by blast
    then obtain m where "m < ew_ids w" "?k = fst (new_id uuid PrefixIncident m)" unfolding drawn_for_def by blast
    then show False by (simp add: new_id_inj [OF assms(2)])
  qed
  moreover have "p' = Updating fs (new_incident ?k (subject_key ev) ev)" "ew_store w' = ew_store w"
    using assms(3) by (auto simp: start_incident_def split: prod.splits)
  ultimately show ?thesis by (simp add: new_incident_def)
qed

lemma process_step_up_to_date:
  assumes "world_ok own uuid get w" "store_ok (ew_store w)" "inj uuid" "up_to_date get (ew_store w) p"
    and run: "process_step get save uuid now ev p w = (p', w')"
  shows "up_to_date get (ew_store w') p'"
proof (cases p)
  case (Evaluating rs fs)
  show ?thesis
  proof (cases rs)
    case Nil
    then show ?thesis using run Evaluating by (auto split: if_splits)
  next
    case (Cons r rs')
    then have "evaluate_step uuid ev r rs' fs w = (p', w')" using run Evaluating by simp
    then have "\<exists>fs'. p' = Evaluating rs' fs'" by (auto simp: evaluate_step_def Let_def split: if_splits prod.splits)
    then show ?thesis by auto
  qed
next
  case (LookingUp fs)
  have "start_incident uuid ev fs w = (p', w') \<or> (\<exists>iid. p' = LoadingIncident fs iid)"
    using run LookingUp by (auto split: option.splits if_splits)
  then show ?thesis using start_incident_up_to_date [OF assms(1,3)] by auto
next
  case (LoadingIncident fs iid)
  have "start_incident uuid ev fs w = (p', w') \<or> (\<exists>i. get (ew_store w) iid = Inr i \<and> p' = Updating fs i \<and> w' = w)"
    using run LoadingIncident by (auto split: sum.splits if_splits)
  then show ?thesis
  proof
    assume "\<exists>i. get (ew_store w) iid = Inr i \<and> p' = Updating fs i \<and> w' = w"
    then obtain i where "get (ew_store w) iid = Inr i" "p' = Updating fs i" "w' = w" by blast
    then show ?thesis using get_id [OF assms(2)] by simp
  qed (rule start_incident_up_to_date [OF assms(1,3)])
next
  case (Updating fs i)
  then have p': "p' = Saving (update_incident (ew_graph w) now ev fs i)" "w' = w" using run by auto
  have "incident_le j (update_incident (ew_graph w) now ev fs i)" if j: "get (ew_store w) (inc_id i) = Inr j" for j
  proof -
    have "j = i" using assms(4) j Updating by simp
    moreover have "updated_ok (ew_graph w) j" "graph_wf (ew_graph w)" using assms(1) j by (auto simp: world_ok_def)
    ultimately show ?thesis using update_incident_le by simp
  qed
  then show ?thesis by (simp add: p')
next
  case (Saving i)
  then have "p' = Noting i \<or> p' = Answered (Inl PersistFailed)" using run by (auto split: sum.splits)
  then show ?thesis by auto
qed (use run in auto)

text \<open>A saving call that works on the stored incident only adds to it.\<close>

lemma saves_add:
  assumes "saves save p s s'" "up_to_date get s p" "get s k = Inr j"
  shows "\<exists>j'. get s' k = Inr j' \<and> incident_le j j'"
proof (cases "s' = s")
  case True
  then show ?thesis using assms(3) by simp
next
  case False
  then obtain i where i: "p = Saving i" "save s i = Inr s'" using assms(1) by (auto simp: saves_def)
  then have "get s' k = (if k = inc_id i then Inr i else get s k)" by (simp add: save_get)
  with assms(2,3) i(1) show ?thesis by (cases "k = inc_id i") simp_all
qed

lemma saves_elsewhere:
  assumes "saves save p s s'" "\<And>i. p = Saving i \<Longrightarrow> inc_id i \<noteq> k"
  shows "get s' k = get s k"
  using assms save_get unfolding saves_def by metis

end

text \<open>Calls of other subjects hold other identifiers.\<close>

lemma up_to_date_other:
  assumes "run_ok own uuid (cs, w)" "inj uuid" "(ev, p) \<in> set cs" "(ev', q) \<in> set cs"
    and "subject_key ev \<noteq> subject_key ev'" "saves save_incident p (ew_store w) s'"
    and "up_to_date get_incident (ew_store w) q"
  shows "up_to_date get_incident s' q"
proof -
  have ok: "progress_ok own uuid (ew_ids w) (ew_graph w) (subject_key ev) p"
    "progress_ok own uuid (ew_ids w) (ew_graph w) (subject_key ev') q"
    using assms(1,3,4) by (auto simp: run_ok_def)
  have same: "get_incident s' (inc_id j) = get_incident (ew_store w) (inc_id j)"
    if "drawn_for own uuid (ew_ids w) (subject_key ev') (inc_id j)" for j
  proof (rule memory_incidents.saves_elsewhere [OF assms(6)])
    show "inc_id i \<noteq> inc_id j" if i: "p = Saving i" for i
    proof
      assume "inc_id i = inc_id j"
      then have "drawn_for own uuid (ew_ids w) (subject_key ev) (inc_id j)" using ok(1) i by simp
      with \<open>drawn_for own uuid (ew_ids w) (subject_key ev') (inc_id j)\<close> assms(5)
      show False using drawn_for_unique [OF assms(2)] by blast
    qed
  qed
  show ?thesis using assms(7) ok(2) by (cases q) (auto simp: same)
qed

lemma turns_ok_step:
  assumes "run_ok own uuid (cs, w)" "inj uuid" "turns_ok (cs, w)" "i < length cs" "cs ! i = (ev, p)"
    and "process_step get_incident save_incident uuid now ev p w = (p', w')"
  shows "turns_ok (cs[i := (ev, p')], w')"
proof -
  obtain own' where saved: "saves save_incident p (ew_store w) (ew_store w')"
    using run_ok_step [OF assms(1,2,4-6)] by blast
  have w: "world_ok own uuid get_incident w" "incidents_wf (ew_store w)" using assms(1) by (simp_all add: run_ok_def)
  have turn: "in_turn cs" and current: "\<And>e q. (e, q) \<in> set cs \<Longrightarrow> up_to_date get_incident (ew_store w) q"
    using assms(3) by (auto simp: turns_ok_def)
  have p: "(ev, p) \<in> set cs" using assms(4,5) by (metis nth_mem)
  have stays: "p' = p \<and> w' = w" if "has_answered p" using that assms(6) by (cases p) auto
  have turn': "in_turn (cs[i := (ev, p')])"
    unfolding in_turn_def
  proof (intro allI impI)
    fix a b
    assume "a < length (cs[i := (ev, p')])" "b < length (cs[i := (ev, p')])" "a \<noteq> b"
      "subject_key (fst (cs[i := (ev, p')] ! a)) = subject_key (fst (cs[i := (ev, p')] ! b))"
    then show "has_answered (snd (cs[i := (ev, p')] ! a)) \<or> has_answered (snd (cs[i := (ev, p')] ! b))"
      using turn [unfolded in_turn_def, rule_format, of a b] assms(4,5) stays
      by (auto simp: nth_list_update split: if_splits)
  qed
  have "up_to_date get_incident (ew_store w') (snd (cs[i := (ev, p')] ! b))" if b: "b < length cs" for b
  proof (cases "b = i")
    case True
    have "up_to_date get_incident (ew_store w') p'"
      by (rule memory_incidents.process_step_up_to_date [OF w assms(2) current [OF p] assms(6)])
    then show ?thesis using True assms(4) by simp
  next
    case False
    obtain e q where eq: "cs ! b = (e, q)" by fastforce
    then have q: "(e, q) \<in> set cs" using b by (metis nth_mem)
    consider "has_answered p" | "has_answered q" | "subject_key ev \<noteq> subject_key e"
      using turn [unfolded in_turn_def, rule_format, of i b] False b assms(4,5) eq by auto
    then have "up_to_date get_incident (ew_store w') q"
    proof cases
      case 1
      then show ?thesis using stays current [OF q] by simp
    next
      case 2
      then show ?thesis by (cases q) simp_all
    next
      case 3
      then show ?thesis using up_to_date_other [OF assms(1,2) p q _ saved current [OF q]] by blast
    qed
    then show ?thesis using False eq by simp
  qed
  then have "up_to_date get_incident (ew_store w') q" if "(e, q) \<in> set (cs[i := (ev, p')])" for e q
    using that by (metis in_set_conv_nth length_list_update snd_conv)
  with turn' show ?thesis by (auto simp: turns_ok_def)
qed

lemma turns_ok_arrival:
  assumes "turns_ok (cs, w)" "subject_idle cs ev"
  shows "turns_ok (cs @ [(ev, Evaluating rs [])], w)"
proof -
  have idle: "has_answered (snd (cs ! a))" if "a < length cs" "subject_key (fst (cs ! a)) = subject_key ev" for a
    using assms(2) that nth_mem [OF that(1)] by (cases "cs ! a") (fastforce simp: subject_idle_def)
  have "in_turn (cs @ [(ev, Evaluating rs [])])"
    unfolding in_turn_def
  proof (intro allI impI)
    fix a b
    let ?cs = "cs @ [(ev, Evaluating rs [])]"
    assume ab: "a < length ?cs" "b < length ?cs" "a \<noteq> b" "subject_key (fst (?cs ! a)) = subject_key (fst (?cs ! b))"
    consider "a < length cs" "b < length cs" | "a < length cs" "b = length cs" | "a = length cs" "b < length cs"
      using ab(1-3) by force
    then show "has_answered (snd (?cs ! a)) \<or> has_answered (snd (?cs ! b))"
    proof cases
      case 1
      then show ?thesis using assms(1) ab(3,4) by (simp add: turns_ok_def in_turn_def nth_append)
    qed (use ab(4) idle in \<open>simp_all add: nth_append\<close>)
  qed
  then show ?thesis using assms(1) by (auto simp: turns_ok_def)
qed

lemma interleaved_adds:
  assumes "interleaved subject_idle uuid st0 st" "inj uuid" "run_ok own0 uuid st0" "turns_ok st0"
  shows "turns_ok st \<and> (\<forall>k i. get_incident (ew_store (snd st0)) k = Inr i \<longrightarrow>
    (\<exists>i'. get_incident (ew_store (snd st)) k = Inr i' \<and> incident_le i i'))"
  using assms(1)
proof (induction rule: interleaved.induct)
  case (interleaved_project cs w ev)
  then show ?case by (simp add: turns_ok_def)
next
  case (interleaved_arrival cs w ev)
  then show ?case using turns_ok_arrival by simp
next
  case (interleaved_step cs w j ev p now p' w')
  obtain own where own: "run_ok own uuid (cs, w)"
    using interleaved_run_ok [OF interleaved_step.hyps(1) assms(2,3)] by blast
  have turns: "turns_ok (cs, w)" using interleaved_step.IH by blast
  have saved: "saves save_incident p (ew_store w) (ew_store w')"
    using run_ok_step [OF own assms(2) interleaved_step.hyps(2-4)] by blast
  have "up_to_date get_incident (ew_store w) p"
    using turns interleaved_step.hyps(2,3) by (fastforce simp: turns_ok_def dest: nth_mem)
  then have "\<exists>i''. get_incident (ew_store w') k = Inr i'' \<and> incident_le i' i''"
    if "get_incident (ew_store w) k = Inr i'" for k i'
    using memory_incidents.saves_add [OF saved _ that] by blast
  moreover have "turns_ok (cs[j := (ev, p')], w')"
    by (rule turns_ok_step [OF own assms(2) turns interleaved_step.hyps(2-4)])
  ultimately show ?case using interleaved_step.IH incident_le_trans by fastforce
qed (use assms(4) in simp)

text \<open>
  C22 (safety): calls of one subject in turn lose nothing. If a call only starts while no other call of
  its subject is in flight, then however calls of different subjects overlap, no incident is ever
  lost, leaves its subject, loses a finding or a line of evidence, or falls in its risk score.
\<close>

theorem calls_in_turn_lose_nothing:
  assumes "graph_wf g" and "en_open_subjects en = []" and "inj uuid"
    and "interleaved subject_idle uuid ([], idle_world g en m) (cs, w)"
    and "interleaved subject_idle uuid (cs, w) (cs', w')" and "get_incident (ew_store w) k = Inr i"
  shows "\<exists>i'. get_incident (ew_store w') k = Inr i' \<and> inc_primary_identity i' = inc_primary_identity i \<and>
    inc_risk_score i \<le> inc_risk_score i' \<and>
    f_rule_id ` set (inc_findings i) \<subseteq> f_rule_id ` set (inc_findings i') \<and>
    evd_event_id ` set (inc_evidence i) \<subseteq> evd_event_id ` set (inc_evidence i')"
proof -
  have "turns_ok ([], idle_world g en m)" by (simp add: turns_ok_def in_turn_def)
  with interleaved_adds [OF assms(4,3) idle_run_ok [OF assms(1,2)]] have "turns_ok (cs, w)" by blast
  moreover obtain own where "run_ok own uuid (cs, w)"
    using interleaved_run_ok [OF assms(4,3) idle_run_ok [OF assms(1,2)]] by blast
  ultimately show ?thesis
    using interleaved_adds [OF assms(5,3)] assms(6) by (fastforce simp: incident_le_def)
qed

subsection \<open>What overlapping calls of one subject lose\<close>

text \<open>Steps of one call, one after the other, among the others.\<close>

lemma interleaved_run:
  assumes "interleaved admits uuid st0 (cs, w)" "i < length cs" "cs ! i = (ev, p)"
    and "run_alone get_incident save_incident uuid now ev k (p, w) = (p', w')"
  shows "interleaved admits uuid st0 (cs[i := (ev, p')], w')"
  using assms
proof (induction k arbitrary: cs p w)
  case 0
  then show ?case by (metis list_update_id prod.inject run_alone_0)
next
  case (Suc k)
  obtain p1 w1 where step: "process_step get_incident save_incident uuid now ev p w = (p1, w1)" by fastforce
  have "interleaved admits uuid st0 (cs[i := (ev, p1)], w1)"
    by (rule interleaved_step [OF Suc.prems(1-3) step])
  from Suc.IH [OF this] show ?case using Suc.prems(2,4) step by simp
qed

lemma interleaved_trans:
  assumes "interleaved admits uuid st0 st1" "interleaved admits uuid st1 st2"
  shows "interleaved admits uuid st0 st2"
  using assms(2)
  by (induction rule: interleaved.induct)
    (auto intro: assms(1) interleaved_project interleaved_arrival interleaved_step)

text \<open>From the rules to an update, when the subject has an incident or none, and from an update to the answer.\<close>

lemma run_to_update:
  assumes "evaluate_rules uuid ev (subject_key ev) (en_rules (ew_engine w)) (en_threshold_hits (ew_engine w)) (ew_ids w) =
      (fs, hits, n)"
    and "fs \<noteq> []" and "w1 = w\<lparr>ew_engine := (ew_engine w)\<lparr>en_threshold_hits := hits\<rparr>, ew_ids := n\<rparr>"
  shows "open_incident get_incident (ew_engine w1) (ew_store w) (subject_key ev) ev = Some i \<Longrightarrow>
      \<exists>k. run_alone get_incident save_incident uuid now ev k (Evaluating (en_rules (ew_engine w)) [], w) = (Updating fs i, w1)"
    and "map_of (en_open_subjects (ew_engine w)) (subject_key ev) = None \<Longrightarrow>
      \<exists>k. run_alone get_incident save_incident uuid now ev k (Evaluating (en_rules (ew_engine w)) [], w) =
        (Updating fs (new_incident (fst (new_id uuid PrefixIncident n)) (subject_key ev) ev), w1\<lparr>ew_ids := Suc n\<rparr>)"
proof -
  let ?run = "run_alone get_incident save_incident uuid now ev"
  have found: "?run (length (en_rules (ew_engine w)) + 1) (Evaluating (en_rules (ew_engine w)) [], w) = (LookingUp fs, w1)"
    unfolding run_alone_add using assms by (simp add: run_evaluation [OF assms(1)])
  have reach: "\<exists>k. ?run k (Evaluating (en_rules (ew_engine w)) [], w) = st" if "?run j (LookingUp fs, w1) = st" for j st
    using that found run_alone_add by metis
  show "\<exists>k. ?run k (Evaluating (en_rules (ew_engine w)) [], w) = (Updating fs i, w1)"
    if opened: "open_incident get_incident (ew_engine w1) (ew_store w) (subject_key ev) ev = Some i"
  proof (rule reach [of 2])
    show "?run 2 (LookingUp fs, w1) = (Updating fs i, w1)"
      using opened assms(3)
      by (auto simp: numeral_2_eq_2 open_incident_def split: option.splits if_splits sum.splits)
  qed
  show "\<exists>k. ?run k (Evaluating (en_rules (ew_engine w)) [], w) =
      (Updating fs (new_incident (fst (new_id uuid PrefixIncident n)) (subject_key ev) ev), w1\<lparr>ew_ids := Suc n\<rparr>)"
    if none: "map_of (en_open_subjects (ew_engine w)) (subject_key ev) = None"
  proof (rule reach [of 1])
    show "?run 1 (LookingUp fs, w1) =
        (Updating fs (new_incident (fst (new_id uuid PrefixIncident n)) (subject_key ev) ev), w1\<lparr>ew_ids := Suc n\<rparr>)"
      using none assms(3) by (simp add: start_incident_def new_id_def)
  qed
qed

lemma run_update:
  assumes "inc_id i \<noteq> []" and "j = update_incident (ew_graph w) now ev fs i"
  obtains w' where "run_alone get_incident save_incident uuid now ev 3 (Updating fs i, w) = (Answered (Inr (Some j)), w')"
    "save_incident (ew_store w) j = Inr (ew_store w')" "ew_graph w' = ew_graph w"
    "ew_engine w' = (ew_engine w)\<lparr>en_open_subjects := AList.update (subject_key ev)
       \<lparr> ss_incident_id = inc_id i, ss_last_seen = ev_timestamp ev \<rparr> (en_open_subjects (ew_engine w))\<rparr>"
proof -
  have id: "inc_id j = inc_id i" by (simp add: assms(2))
  then obtain s where s: "save_incident (ew_store w) j = Inr s" using assms(1) by (simp add: save_incident_def Let_def)
  let ?w' = "w\<lparr>ew_store := s, ew_engine := (ew_engine w)\<lparr>en_open_subjects := AList.update (subject_key ev)
       \<lparr> ss_incident_id = inc_id i, ss_last_seen = ev_timestamp ev \<rparr> (en_open_subjects (ew_engine w))\<rparr>\<rparr>"
  have "run_alone get_incident save_incident uuid now ev 3 (Updating fs i, w) = (Answered (Inr (Some j)), ?w')"
    using s id assms(2) by (simp add: numeral_3_eq_3)
  then show ?thesis by (rule that) (simp_all add: s)
qed

text \<open>Three logins of one user, on a server that has just started.\<close>

lemma login_subject: "subject_key (login e t) = ''user:amy''"
proof -
  have "to_lower ''user:amy'' = ''user:amy''" by code_simp
  then show ?thesis by (simp add: subject_key_def actor_key_def login_def)
qed

lemma login_fields [simp]: "ev_id (login e t) = e" "ev_timestamp (login e t) = t"
  by (simp_all add: login_def)

lemma login_matches:
  "matches (sample_rule ''a'' ''login'') (login ''e1'' 1)"
  "matches (sample_rule ''a'' ''login'') (login ''e2'' 2)"
  "matches (sample_rule ''a'' ''login'') (login ''e3'' 3)"
  by code_simp+

lemma login_evaluation:
  assumes "matches (sample_rule ''a'' ''login'') (login e t)"
  shows "evaluate_rules sample_uuid (login e t) subj (en_rules sample_engine) hits n =
     ([make_finding (fst (new_id sample_uuid PrefixFinding n)) (sample_rule ''a'' ''login'') (login e t)], hits, Suc n)"
proof -
  have "r_threshold (sample_rule ''a'' ''login'') = None" by (simp add: sample_rule_def)
  then show ?thesis using assms by (simp add: sample_engine_def new_id_def)
qed

lemma append_evidence_ids:
  "length es < max_incident_evidence \<Longrightarrow>
     evd_event_id ` set (append_evidence ev es) = insert (ev_id ev) (evd_event_id ` set es)"
  by (auto simp: append_evidence_def) (metis image_eqI)

text \<open>A login up to its update, when the user has no incident and when the user has one.\<close>

lemma first_login_to_update:
  assumes "matches (sample_rule ''a'' ''login'') (login e t)" "ew_engine w = sample_engine"
  obtains k F iid where "run_alone get_incident save_incident sample_uuid 5 (login e t) k (Evaluating (en_rules sample_engine) [], w) =
      (Updating [F] (new_incident iid ''user:amy'' (login e t)), w\<lparr>ew_ids := Suc (Suc (ew_ids w))\<rparr>)"
    "iid = fst (new_id sample_uuid PrefixIncident (Suc (ew_ids w)))" "f_rule_id F = ''a''" "f_event_ids F = [e]"
proof -
  let ?F = "make_finding (fst (new_id sample_uuid PrefixFinding (ew_ids w))) (sample_rule ''a'' ''login'') (login e t)"
  let ?w1 = "w\<lparr>ew_ids := Suc (ew_ids w)\<rparr>"
  have w1: "?w1 = w\<lparr>ew_engine := (ew_engine w)\<lparr>en_threshold_hits := en_threshold_hits (ew_engine w)\<rparr>, ew_ids := Suc (ew_ids w)\<rparr>"
    by simp
  have "map_of (en_open_subjects (ew_engine w)) (subject_key (login e t)) = None"
    by (simp add: assms(2) sample_engine_def)
  moreover have "evaluate_rules sample_uuid (login e t) (subject_key (login e t)) (en_rules (ew_engine w))
      (en_threshold_hits (ew_engine w)) (ew_ids w) = ([?F], en_threshold_hits (ew_engine w), Suc (ew_ids w))"
    unfolding assms(2) by (rule login_evaluation [OF assms(1)])
  ultimately obtain k where "run_alone get_incident save_incident sample_uuid 5 (login e t) k
      (Evaluating (en_rules (ew_engine w)) [], w) =
      (Updating [?F] (new_incident (fst (new_id sample_uuid PrefixIncident (Suc (ew_ids w)))) (subject_key (login e t)) (login e t)),
       ?w1\<lparr>ew_ids := Suc (Suc (ew_ids w))\<rparr>)"
    using run_to_update(2) [OF _ _ w1] by blast
  then show ?thesis using that by (simp add: assms(2) login_subject make_finding_def sample_rule_def)
qed

lemma next_login_to_update:
  assumes "matches (sample_rule ''a'' ''login'') (login e t)"
    and "en_rules (ew_engine w) = en_rules sample_engine" "en_window (ew_engine w) = default_window"
    and "map_of (en_open_subjects (ew_engine w)) ''user:amy'' = Some st" "time_sub t (ss_last_seen st) \<le> default_window"
    and "get_incident (ew_store w) (ss_incident_id st) = Inr i" "inc_status i = StatusOpen"
  obtains k F w1 where "run_alone get_incident save_incident sample_uuid 5 (login e t) k (Evaluating (en_rules sample_engine) [], w) =
      (Updating [F] i, w1)"
    "ew_engine w1 = ew_engine w" "ew_store w1 = ew_store w" "f_rule_id F = ''a''" "f_event_ids F = [e]"
proof -
  let ?F = "make_finding (fst (new_id sample_uuid PrefixFinding (ew_ids w))) (sample_rule ''a'' ''login'') (login e t)"
  let ?w1 = "w\<lparr>ew_ids := Suc (ew_ids w)\<rparr>"
  have w1: "?w1 = w\<lparr>ew_engine := (ew_engine w)\<lparr>en_threshold_hits := en_threshold_hits (ew_engine w)\<rparr>, ew_ids := Suc (ew_ids w)\<rparr>"
    by simp
  have "open_incident get_incident (ew_engine ?w1) (ew_store w) (subject_key (login e t)) (login e t) = Some i"
    using assms(3-7) by (simp add: open_incident_def login_subject)
  moreover have "evaluate_rules sample_uuid (login e t) (subject_key (login e t)) (en_rules (ew_engine w))
      (en_threshold_hits (ew_engine w)) (ew_ids w) = ([?F], en_threshold_hits (ew_engine w), Suc (ew_ids w))"
    unfolding assms(2) by (rule login_evaluation [OF assms(1)])
  ultimately obtain k where "run_alone get_incident save_incident sample_uuid 5 (login e t) k
      (Evaluating (en_rules (ew_engine w)) [], w) = (Updating [?F] i, ?w1)"
    using run_to_update(1) [OF _ _ w1] by blast
  then show ?thesis using that assms(2) by (simp add: make_finding_def sample_rule_def)
qed

text \<open>The first login, left alone: the user has an open incident with this event as its evidence.\<close>

lemma first_login:
  assumes "admits [] (login ''e1'' 1)"
  obtains i w where
    "interleaved admits sample_uuid ([], idle_world new_graph sample_engine 9) ([(login ''e1'' 1, Answered (Inr (Some i)))], w)"
    "en_rules (ew_engine w) = en_rules sample_engine" "en_window (ew_engine w) = default_window"
    "map_of (en_open_subjects (ew_engine w)) ''user:amy'' = Some \<lparr> ss_incident_id = inc_id i, ss_last_seen = 1 \<rparr>"
    "get_incident (ew_store w) (inc_id i) = Inr i" "inc_status i = StatusOpen" "inc_id i \<noteq> []"
    "inc_primary_identity i = ''user:amy''"
    "evd_event_id ` set (inc_evidence i) = {''e1''}" "length (inc_evidence i) = 1"
    "\<exists>F. inc_findings i = [F] \<and> f_rule_id F = ''a'' \<and> f_event_ids F = [''e1'']"
proof -
  let ?idle = "idle_world new_graph sample_engine 9" and ?e = "login ''e1'' 1"
  have en: "ew_engine ?idle = sample_engine" by (simp add: idle_world_def)
  obtain k F iid where k: "run_alone get_incident save_incident sample_uuid 5 ?e k (Evaluating (en_rules sample_engine) [], ?idle) =
      (Updating [F] (new_incident iid ''user:amy'' ?e), ?idle\<lparr>ew_ids := Suc (Suc (ew_ids ?idle))\<rparr>)"
    and iid: "iid = fst (new_id sample_uuid PrefixIncident (Suc (ew_ids ?idle)))" and F: "f_rule_id F = ''a''" "f_event_ids F = [''e1'']"
    using first_login_to_update [OF login_matches(1) en] by metis
  let ?w1 = "?idle\<lparr>ew_ids := Suc (Suc (ew_ids ?idle))\<rparr>" and ?i0 = "new_incident iid ''user:amy'' ?e"
  define i where "i = update_incident (ew_graph ?w1) 5 ?e [F] ?i0"
  have i0: "inc_id ?i0 \<noteq> []" by (simp add: new_incident_def iid)
  obtain w2 where s: "run_alone get_incident save_incident sample_uuid 5 ?e 3 (Updating [F] ?i0, ?w1) = (Answered (Inr (Some i)), w2)"
    "save_incident (ew_store ?w1) i = Inr (ew_store w2)"
    "ew_engine w2 = (ew_engine ?w1)\<lparr>en_open_subjects := AList.update (subject_key ?e)
       \<lparr> ss_incident_id = inc_id ?i0, ss_last_seen = ev_timestamp ?e \<rparr> (en_open_subjects (ew_engine ?w1))\<rparr>"
    by (rule run_update [OF i0 i_def])
  have run: "interleaved admits sample_uuid ([], ?idle) ([(?e, Answered (Inr (Some i)))], w2)"
  proof -
    have "interleaved admits sample_uuid ([], ?idle) ([(?e, Evaluating (en_rules sample_engine) [])], ?idle)"
      using interleaved_arrival [OF interleaved_start, of admits "[]" ?e sample_uuid ?idle] assms by (simp add: en)
    from interleaved_run [OF this, of 0, OF _ _ k]
    have "interleaved admits sample_uuid ([], ?idle) ([(?e, Updating [F] ?i0)], ?w1)" by simp
    from interleaved_run [OF this, of 0, OF _ _ s(1)] show ?thesis by simp
  qed
  have get: "get_incident (ew_store w2) (inc_id i) = Inr i" by (rule memory_incidents.get_saved [OF s(2)])
  have ids: "evd_event_id ` set (inc_evidence i) = {''e1''}" "length (inc_evidence i) = 1"
    by (simp_all add: i_def new_incident_def append_evidence_def max_incident_evidence_def)
  have F': "inc_findings i = [F]" by (simp add: i_def new_incident_def)
  have open_i: "inc_status i = StatusOpen" "inc_id i = iid" "inc_primary_identity i = ''user:amy''"
    by (simp_all add: i_def new_incident_def)
  have "en_rules (ew_engine w2) = en_rules sample_engine" "en_window (ew_engine w2) = default_window"
    "map_of (en_open_subjects (ew_engine w2)) ''user:amy'' = Some \<lparr> ss_incident_id = inc_id i, ss_last_seen = 1 \<rparr>"
    "get_incident (ew_store w2) (inc_id i) = Inr i"
    using get open_i(2) by (simp_all add: s(3) en login_subject new_incident_def) (simp add: sample_engine_def)
  moreover have "inc_id i \<noteq> []" by (simp add: open_i(2) iid)
  ultimately show ?thesis using that [OF run] ids F F' open_i by blast
qed

text \<open>
  C24 (safety): the engine loses evidence when calls of one subject overlap. There is a run of the
  server from its start in which two events of one user are answered with the same incident, the
  first answer listing the first event as evidence, and yet the stored incident is the second
  answer, in which the first event occurs neither as evidence nor in a finding: between reading the
  incident and saving it the mutex is not held, and the later save wins.
\<close>

theorem overlapping_calls_lose_evidence:
  "\<exists>w i1 i2 i3. interleaved at_any_time sample_uuid ([], idle_world new_graph sample_engine 9)
     ([(login ''e1'' 1, Answered (Inr (Some i1))), (login ''e2'' 2, Answered (Inr (Some i2))),
       (login ''e3'' 3, Answered (Inr (Some i3)))], w) \<and>
     inc_id i2 = inc_id i3 \<and> ''e2'' \<in> evd_event_id ` set (inc_evidence i2) \<and>
     get_incident (ew_store w) (inc_id i2) = Inr i3 \<and> ''e2'' \<notin> evd_event_id ` set (inc_evidence i3) \<and>
     ''e2'' \<notin> set (concat (map f_event_ids (inc_findings i3)))"
proof -
  let ?e1 = "login ''e1'' 1" and ?e2 = "login ''e2'' 2" and ?e3 = "login ''e3'' 3"
  let ?reached = "interleaved at_any_time sample_uuid ([], idle_world new_graph sample_engine 9)"
  let ?new = "Evaluating (en_rules sample_engine) []"
  have any: "at_any_time cs ev" for cs ev by (simp add: at_any_time_def)
  obtain i w where run: "?reached ([(?e1, Answered (Inr (Some i)))], w)"
    and en: "en_rules (ew_engine w) = en_rules sample_engine" "en_window (ew_engine w) = default_window"
      "map_of (en_open_subjects (ew_engine w)) ''user:amy'' = Some \<lparr> ss_incident_id = inc_id i, ss_last_seen = 1 \<rparr>"
    and i: "get_incident (ew_store w) (inc_id i) = Inr i" "inc_status i = StatusOpen" "inc_id i \<noteq> []"
      "evd_event_id ` set (inc_evidence i) = {''e1''}" "length (inc_evidence i) = 1"
    and f: "\<exists>F. inc_findings i = [F] \<and> f_rule_id F = ''a'' \<and> f_event_ids F = [''e1'']"
    by (rule first_login [OF any])
  let ?st = "\<lparr> ss_incident_id = inc_id i, ss_last_seen = 1 \<rparr>"
  have "time_sub 2 1 \<le> default_window" "time_sub 3 1 \<le> default_window" by code_simp+
  then have soon: "time_sub 2 (ss_last_seen ?st) \<le> default_window" "time_sub 3 (ss_last_seen ?st) \<le> default_window" by simp_all
  have stored: "get_incident (ew_store w) (ss_incident_id ?st) = Inr i" using i(1) by simp
  obtain k2 F2 w2 where k2: "run_alone get_incident save_incident sample_uuid 5 ?e2 k2 (?new, w) = (Updating [F2] i, w2)"
    and w2: "ew_engine w2 = ew_engine w" "ew_store w2 = ew_store w"
    by (rule next_login_to_update [OF login_matches(2) en soon(1) stored i(2)])
  note again = en [folded w2(1)] and still = stored [folded w2(2)]
  obtain k3 F3 w3 where k3: "run_alone get_incident save_incident sample_uuid 5 ?e3 k3 (?new, w2) = (Updating [F3] i, w3)"
    and F3: "f_rule_id F3 = ''a''" "f_event_ids F3 = [''e3'']"
    by (rule next_login_to_update [OF login_matches(3) again soon(2) still i(2)])
  define i2 where "i2 = update_incident (ew_graph w3) 5 ?e2 [F2] i"
  obtain w4 where s2: "run_alone get_incident save_incident sample_uuid 5 ?e2 3 (Updating [F2] i, w3) = (Answered (Inr (Some i2)), w4)"
    by (rule run_update [OF i(3) i2_def])
  define i3 where "i3 = update_incident (ew_graph w4) 5 ?e3 [F3] i"
  obtain w5 where s3: "run_alone get_incident save_incident sample_uuid 5 ?e3 3 (Updating [F3] i, w4) = (Answered (Inr (Some i3)), w5)"
    and saved: "save_incident (ew_store w4) i3 = Inr (ew_store w5)"
    by (rule run_update [OF i(3) i3_def, where uuid = sample_uuid])
  let ?a1 = "(?e1, Answered (Inr (Some i)))"
  have "?reached ([?a1, (?e2, ?new)], w)"
    using interleaved_arrival [OF run any, of ?e2] en(1) by simp
  from interleaved_run [OF this, of 1, OF _ _ k2] have "?reached ([?a1, (?e2, Updating [F2] i)], w2)" by simp
  from interleaved_arrival [OF this any, of ?e3] have "?reached ([?a1, (?e2, Updating [F2] i), (?e3, ?new)], w2)"
    using again(1) by simp
  from interleaved_run [OF this, of 2, OF _ _ k3] have "?reached ([?a1, (?e2, Updating [F2] i), (?e3, Updating [F3] i)], w3)" by simp
  from interleaved_run [OF this, of 1, OF _ _ s2] have "?reached ([?a1, (?e2, Answered (Inr (Some i2))), (?e3, Updating [F3] i)], w4)" by simp
  from interleaved_run [OF this, of 2, OF _ _ s3]
  have ended: "?reached ([?a1, (?e2, Answered (Inr (Some i2))), (?e3, Answered (Inr (Some i3)))], w5)" by simp
  have room: "length (inc_evidence i) < max_incident_evidence" using i(5) by (simp add: max_incident_evidence_def)
  have same: "inc_id i2 = inc_id i3" by (simp add: i2_def i3_def)
  have "''e2'' \<in> evd_event_id ` set (inc_evidence i2)" "''e2'' \<notin> evd_event_id ` set (inc_evidence i3)"
    using i(4) by (simp_all add: i2_def i3_def append_evidence_ids [OF room] del: image_iff)
  moreover have "get_incident (ew_store w5) (inc_id i2) = Inr i3"
    unfolding same by (rule memory_incidents.get_saved [OF saved])
  moreover have "''e2'' \<notin> set (concat (map f_event_ids (inc_findings i3)))"
    using f F3 by (auto simp: i3_def max_finding_events_def)
  ultimately show ?thesis using ended same by blast
qed

subsection \<open>Sample runs\<close>

text \<open>After the first login, a second one arrives and is left alone.\<close>

lemma second_login:
  assumes "admits cs ev"
  obtains r w' where "interleaved admits uuid (cs, w) (cs @ [(ev, Answered r)], w')"
proof -
  obtain k r en' n' s' where "run_alone get_incident save_incident uuid 5 ev k (Evaluating (en_rules (ew_engine w)) [],
      \<lparr> ew_graph = ew_graph w, ew_engine = ew_engine w, ew_ids = ew_ids w, ew_store = ew_store w \<rparr>) =
      (Answered r, \<lparr> ew_graph = ew_graph w, ew_engine = en', ew_ids = n', ew_store = s' \<rparr>)"
    using alone_is_process [of "ew_engine w" get_incident save_incident uuid 5 "ew_graph w" ev "ew_ids w" "ew_store w"] by blast
  then have k: "run_alone get_incident save_incident uuid 5 ev k (Evaluating (en_rules (ew_engine w)) [], w) =
      (Answered r, \<lparr> ew_graph = ew_graph w, ew_engine = en', ew_ids = n', ew_store = s' \<rparr>)" by (cases w) simp
  have "interleaved admits uuid (cs, w) (cs @ [(ev, Evaluating (en_rules (ew_engine w)) [])], w)"
    by (rule interleaved_arrival [where admits = admits, OF interleaved_start assms])
  from interleaved_run [OF this, of "length cs", OF _ _ k] show ?thesis using that by simp
qed

theorem overlapping_calls_keep_invariants_witness:
  "\<exists>cs w k i. interleaved at_any_time sample_uuid ([], idle_world new_graph sample_engine 9) (cs, w) \<and> length cs = 2 \<and>
     get_incident (ew_store w) k = Inr i \<and> inc_primary_identity i = ''user:amy'' \<and> inc_risk_score i \<le> 100"
proof -
  have any: "at_any_time cs ev" for cs ev by (simp add: at_any_time_def)
  obtain i w where run: "interleaved at_any_time sample_uuid ([], idle_world new_graph sample_engine 9)
      ([(login ''e1'' 1, Answered (Inr (Some i)))], w)"
    and i: "get_incident (ew_store w) (inc_id i) = Inr i" "inc_primary_identity i = ''user:amy''"
    by (rule first_login [where admits = at_any_time, OF any])
  let ?cs = "[(login ''e1'' 1, Answered (Inr (Some i)))]"
  obtain r w' where more: "interleaved at_any_time sample_uuid (?cs, w) (?cs @ [(login ''e2'' 2, Answered r)], w')"
    by (rule second_login [where admits = at_any_time, OF any])
  obtain i' where "get_incident (ew_store w') (inc_id i) = Inr i'" "inc_primary_identity i' = ''user:amy''" "inc_risk_score i' \<le> 100"
    using overlapping_calls_keep_invariants [OF new_graph_wf _ sample_uuid_inj run more i(1)] i(2)
    by (auto simp: sample_engine_def)
  moreover have "interleaved at_any_time sample_uuid ([], idle_world new_graph sample_engine 9) (?cs @ [(login ''e2'' 2, Answered r)], w')"
    by (rule interleaved_trans [OF run more])
  ultimately show ?thesis by (metis One_nat_def Suc_1 add_Suc_right append_Cons append_Nil length_Cons list.size(3))
qed

theorem calls_in_turn_lose_nothing_witness:
  "\<exists>cs w k i. interleaved subject_idle sample_uuid ([], idle_world new_graph sample_engine 9) (cs, w) \<and> length cs = 2 \<and>
     get_incident (ew_store w) k = Inr i \<and> inc_primary_identity i = ''user:amy'' \<and> ''e1'' \<in> evd_event_id ` set (inc_evidence i)"
proof -
  have idle: "subject_idle [] (login ''e1'' 1)" "\<And>r. subject_idle [(login ''e1'' 1, Answered r)] (login ''e2'' 2)"
    by (simp_all add: subject_idle_def)
  obtain i w where run: "interleaved subject_idle sample_uuid ([], idle_world new_graph sample_engine 9)
      ([(login ''e1'' 1, Answered (Inr (Some i)))], w)"
    and i: "get_incident (ew_store w) (inc_id i) = Inr i" "inc_primary_identity i = ''user:amy''"
      "evd_event_id ` set (inc_evidence i) = {''e1''}"
    by (rule first_login [where admits = subject_idle, OF idle(1)])
  let ?cs = "[(login ''e1'' 1, Answered (Inr (Some i)))]"
  obtain r w' where more: "interleaved subject_idle sample_uuid (?cs, w) (?cs @ [(login ''e2'' 2, Answered r)], w')"
    by (rule second_login [where admits = subject_idle, OF idle(2)])
  obtain i' where "get_incident (ew_store w') (inc_id i) = Inr i'" "inc_primary_identity i' = ''user:amy''"
      "''e1'' \<in> evd_event_id ` set (inc_evidence i')"
    using calls_in_turn_lose_nothing [OF new_graph_wf _ sample_uuid_inj run more i(1)] i(2,3)
    by (auto simp: sample_engine_def)
  moreover have "interleaved subject_idle sample_uuid ([], idle_world new_graph sample_engine 9) (?cs @ [(login ''e2'' 2, Answered r)], w')"
    by (rule interleaved_trans [OF run more])
  ultimately show ?thesis by (metis One_nat_def Suc_1 add_Suc_right append_Cons append_Nil length_Cons list.size(3))
qed

end
