(* ===== verification/Spec2Isabelle.thy ===== *)
theory Spec2Isabelle
  imports Lifecycle Seeder Postgres Bus Aliasing Metrics Concurrency
begin

text \<open>
  A verification development for the GRIEFER security platform, the Go program under \<^verbatim>\<open>src/\<close>.

  \<^bold>\<open>The program.\<close> Security telemetry enters through an HTTP API. \<^verbatim>\<open>Service.Ingest\<close> validates an event
  against a JSON schema, normalizes it, stores it, projects it into an in-memory Security Graph and
  hands it to the correlation engine. The engine runs declarative detection rules over the event,
  folds the findings into the open incident of the event's subject, and rebuilds the incident's derived
  fields: the entities, the blast radius walked in the graph, the risk score, and the response actions
  that are proposed. An operator, or the system itself, asks for a proposed action to be evaluated:
  \<^verbatim>\<open>Service.EvaluateAction\<close> builds a question from the action catalog, the incident and the graph, puts
  it to the Policy Kernel, which evaluates a Rego policy in the process or in a sidecar, and at most
  simulates the action. Everything is written to an append-only audit trail.

  \<^bold>\<open>The theories\<close>, each opening with a description of its own, in the order of their imports:

    \<^item> \<open>Prelude\<close>: the parts of Go the packages use (strings, formatting, time, floats from outside, maps
      as association lists) and lemmas on lists and maps that several components share.
    \<^item> \<open>Events\<close> (\<^verbatim>\<open>internal/events\<close>, \<^verbatim>\<open>internal/idgen\<close>): the event record, the guard against reserved
      labels, normalization, the flattening of schema violations.
    \<^item> \<open>SecurityGraph\<close>, \<open>GraphInvariants\<close>, \<open>BlastRadius\<close> (\<^verbatim>\<open>internal/graph\<close>): entities, edges shared
      between two indexes, the inventory, projection of events, and the blast-radius walk; the graph
      invariants; the walk's distances, monotonicity and provenance.
    \<^item> \<open>Incidents\<close> (\<^verbatim>\<open>internal/incidents\<close>): the action catalog and the records of findings, incidents,
      decisions and actions.
    \<^item> \<open>Risk\<close> (\<^verbatim>\<open>internal/risk\<close>): the scorer over the reals, with its bounds and monotonicity.
    \<^item> \<open>Rules\<close>, \<open>Recommend\<close>, \<open>Engine\<close> (\<^verbatim>\<open>internal/correlation\<close>): rule matching, validation and loading;
      the choice of actions and targets; the engine's state, thresholds, merging and derived fields.
      \<open>Concurrency\<close> cuts a call of the engine where others can come between, and shows what overlapping
      calls keep, what they lose, and that a call left alone is the one step of \<open>Engine\<close>.
    \<^item> \<open>AuditTrail\<close> (\<^verbatim>\<open>internal/audit\<close>) and \<open>Storage\<close> (\<^verbatim>\<open>internal/storage\<close>): entries and the recorder;
      the memory store as a state machine, with paging.
    \<^item> \<open>GoHeap\<close>, \<open>DeepCopy\<close>, \<open>Aliasing\<close> (\<^verbatim>\<open>internal/storage/memory.go\<close> once more): pointers, slices
      and maps on a heap, the deep copies, and the store of pointers among callers that keep and write
      through theirs; it answers as the store on values, and committed audit entries stay.
    \<^item> \<open>Policy\<close> and \<open>Revision\<close> (\<^verbatim>\<open>internal/policy\<close>, \<^verbatim>\<open>policies\<close>): both kernels, the response policy, and
      the hash that names the policy in force.
    \<^item> \<open>Service\<close> and \<open>Evaluation\<close> (\<^verbatim>\<open>internal/api/service.go\<close>): ingestion of an event, and evaluation of
      a response action, over the components above.
    \<^item> \<open>Httpx\<close> (\<^verbatim>\<open>internal/httpx\<close>), \<open>Handlers\<close> and \<open>Router\<close> (\<^verbatim>\<open>internal/api/handlers.go\<close>,
      \<^verbatim>\<open>router.go\<close>): middleware as functions from handlers to handlers, every endpoint, the route table and
      the chain around it, with what a request can and cannot do. \<open>Metrics\<close> (\<^verbatim>\<open>internal/api/metrics.go\<close>):
      exactly which requests are counted and what the service counts, and that counting changes no answer.
    \<^item> \<open>Config\<close> (\<^verbatim>\<open>internal/config\<close>), \<open>Startup\<close> and \<open>Lifecycle\<close> (\<^verbatim>\<open>cmd/griefer-api/main.go\<close>,
      \<^verbatim>\<open>internal/demo\<close>): reading and refusing a configuration, the way from the environment to a running
      router, and serving and ending, with the audit trail of a whole session.
    \<^item> \<open>Postgres\<close> (\<^verbatim>\<open>internal/storage/postgres.go\<close>, \<^verbatim>\<open>schema.sql\<close>): the tables, every statement of the store
      and its transactions, on a server that may refuse a statement or lose its answer; the trail grows, an
      evaluation is written as a whole, and the store answers as the memory store of \<open>Storage\<close> does.
    \<^item> \<open>Bus\<close> (\<^verbatim>\<open>internal/bus\<close>): the NATS publisher, its stream and its subjects. \<open>Seeder\<close>
      (\<^verbatim>\<open>cmd/griefer-seed\<close>): polling for readiness and replaying a scenario over HTTP, with what is sent.

  \<^bold>\<open>Interfaces.\<close> Where the code has an interface, or one component relies on the laws of another, there
  is a locale: \<open>graph_operation\<close> (what every change of the graph keeps), \<open>audit_sink\<close>,
  \<open>incident_store\<close>, \<open>policy_kernel\<close>, \<open>platform_store\<close> (which extends \<open>audit_sink\<close>),
  \<open>correlator\<close> (which extends \<open>platform_store\<close>), and \<open>deep_copy\<close> (what a copy has to cut so that a
  store that copies cannot be changed from outside). Each is interpreted on the model's own
  definitions: the graph's operations, the memory store, both kernels, the engine, the four copies.

  \<^bold>\<open>How the model reads.\<close> Definitions keep the names of the code in lower case with underscores; a
  method becomes a function of its receiver's state, which it returns changed. Errors are values of a
  sum type. Libraries outside \<^verbatim>\<open>src/\<close> (the schema validator, codecs, Open Policy Agent, the UUID
  library, SHA-256, the HTTP client) are parameters; hypotheses about them are named predicates, each
  with a witness. A lock makes an operation one step; the engine, which
  does not hold its lock throughout, is modelled in finer steps too. Arithmetic on scores is over the reals: rounding
  of 64-bit floats is not modelled. Integers are unbounded where the code uses \<^verbatim>\<open>int\<close> for counts.
  The blast-radius loop is a recursive function whose termination is proved: a measure over the
  unvisited entities bounds it, so no fuel is needed; the walk expands at most 3 hops by default. The
  seeder's polling loop ends because each turn moves the clock on by half a second towards its deadline.

  \<^bold>\<open>Not modelled\<close>: the listener and signals themselves (\<^verbatim>\<open>net/http\<close> and the runtime; what they
  report is a parameter), requests that overlap within one handler except in the engine, logging beyond the access log and recovered panics, the
  buckets of the latency histogram, flag parsing, the embedded data files, the one call of the text library in
  \<^verbatim>\<open>events/printer.go\<close>, the console and the sidecar's own configuration, which are not Go. Pointers are
  modelled only where the memory store copies; elsewhere a record is a value. What PostgreSQL and NATS do with a
  request is modelled only as far as the SQL and the subjects in the source say it.
\<close>

end
